(* ===== verification/Prelude.thy ===== *)
theory Prelude
  imports Main "HOL-Library.Word"
begin

section \<open>Shared types, list-as-table operations and text rendering\<close>

text \<open>
  What every component shares: the types that stand for identifiers and instants, the
  environment that decides the fate of each external call, tables as lists of rows with the
  SQL operations the queries use, Go's fixed-width conversions, and decimal rendering
  (\<open>fmt.Sprintf("%d")\<close>) with its injectivity.
\<close>

named_theorems table_simps \<open>rewriting rules for the table operations\<close>
named_theorems frame_simps \<open>what an operation leaves unchanged\<close>

subsection \<open>Identifiers, instants, the environment\<close>

text \<open>
  UUIDs are only compared by the code, so a natural number stands for one (0 is
  \<open>uuid.Nil\<close>). Instants are microseconds since the epoch, the resolution of Postgres'
  \<open>timestamptz\<close>.
\<close>

type_synonym uuid = nat
type_synonym time = int
type_synonym bytes = "8 word list"

abbreviation (input) nil_uuid :: uuid where "nil_uuid \<equiv> 0"

text \<open>
  Every call to an external service (a SQL statement, a transaction's begin or commit, a
  Redis command) has a fate: it is \<open>Done\<close>; it is \<open>Lost\<close> (an error is returned and nothing
  happened); or it is \<open>Ambiguous\<close> (an error is returned although the effect took place, as
  when the connection breaks after the server has committed). Calls are numbered; the
  environment gives the fate and the clock reading of each call, and the identifier that
  \<open>uuid.New()\<close> returns there. It also holds the functions of other packages the code calls
  for their text only: \<open>uuid.UUID.String\<close>, the text of an error, and the hexadecimal SHA-256
  of a string. It is a parameter of the whole model.
\<close>

datatype fate = Done | Lost | Ambiguous

text \<open>
  The sentinel errors of the services; an error wrapped with \<open>%w\<close> is represented by the
  sentinel that \<open>errors.Is\<close> finds in it. \<open>Unavailable\<close> is any failure of an external
  service, \<open>NoRows\<close> is \<open>pgx.ErrNoRows\<close>, \<open>ConstraintViolation\<close> a constraint of the schema,
  \<open>OtherError\<close> an error without a sentinel.
\<close>

datatype error =
    SeatTaken "int list"
  | TooManySeats
  | DuplicateSeat
  | HoldExpired
  | NoContiguousSeats
  | HoldNotFound
  | NotHoldOwner
  | Unavailable
  | NoRows
  | ConstraintViolation string
  | TicketNotFound
  | AlreadyRedeemed
  | BadSignature
  | Malformed
  | OtherError string

record env =
  fate_of :: "nat \<Rightarrow> fate"
  clock_at :: "nat \<Rightarrow> time"
  uuid_at :: "nat \<Rightarrow> uuid"
  uuid_text :: "uuid \<Rightarrow> string"
  error_text :: "error \<Rightarrow> string"
  sha256_hex :: "string \<Rightarrow> string"

definition make_interval :: "int \<Rightarrow> time" where
  "make_interval secs = secs * 1000000"

lemma make_interval_mono [simp]: "make_interval a \<le> make_interval b \<longleftrightarrow> a \<le> b"
  by (simp add: make_interval_def)

lemma make_interval_pos [simp]: "0 < make_interval a \<longleftrightarrow> 0 < a"
  by (simp add: make_interval_def)

subsection \<open>Go's fixed-width integers read as mathematical integers\<close>

text \<open>
  \<open>int32(x)\<close> and int32 addition keep the low 32 bits, read as two's complement.
\<close>

definition wrap32 :: "int \<Rightarrow> int" where
  "wrap32 x = (x + 2 ^ 31) mod 2 ^ 32 - 2 ^ 31"

definition in_int32 :: "int \<Rightarrow> bool" where
  "in_int32 x \<longleftrightarrow> - (2 ^ 31) \<le> x \<and> x < 2 ^ 31"

lemma wrap32_range: "in_int32 (wrap32 x)"
proof -
  have "0 \<le> (x + 2 ^ 31) mod 2 ^ 32" and "(x + 2 ^ 31) mod 2 ^ 32 < 2 ^ 32"
    by simp_all
  then show ?thesis by (simp add: wrap32_def in_int32_def)
qed

lemma wrap32_id [simp]: "in_int32 x \<Longrightarrow> wrap32 x = x"
  by (simp add: wrap32_def in_int32_def)

lemma wrap32_add_left [simp]: "wrap32 (wrap32 a + b) = wrap32 (a + b)"
proof -
  have "((a + 2 ^ 31) mod 2 ^ 32 - 2 ^ 31 + b + 2 ^ 31) mod (2 ^ 32 :: int)
      = ((a + 2 ^ 31) mod 2 ^ 32 + b) mod 2 ^ 32"
    by (simp add: algebra_simps)
  also have "\<dots> = (a + 2 ^ 31 + b) mod 2 ^ 32"
    by (simp add: mod_add_left_eq)
  finally show ?thesis by (simp add: wrap32_def algebra_simps)
qed

text \<open>Go's integer division truncates towards zero.\<close>

definition go_div :: "int \<Rightarrow> int \<Rightarrow> int" where
  "go_div a b = sgn a * sgn b * (\<bar>a\<bar> div \<bar>b\<bar>)"

subsection \<open>Tables as lists of rows\<close>

text \<open>
  A table is the list of its rows in storage order. \<open>update_where\<close> is an
  \<open>UPDATE \<dots> SET \<dots> WHERE\<close>; the row count it reports is \<open>count_where\<close>.
\<close>

definition update_where :: "('r \<Rightarrow> bool) \<Rightarrow> ('r \<Rightarrow> 'r) \<Rightarrow> 'r list \<Rightarrow> 'r list" where
  "update_where P f rows = map (\<lambda>r. if P r then f r else r) rows"

definition count_where :: "('r \<Rightarrow> bool) \<Rightarrow> 'r list \<Rightarrow> nat" where
  "count_where P rows = length (filter P rows)"

lemma update_where_Nil [simp]: "update_where P f [] = []"
  by (simp add: update_where_def)

lemma update_where_Cons [simp]:
  "update_where P f (r # rows) = (if P r then f r else r) # update_where P f rows"
  by (simp add: update_where_def)

lemma length_update_where [simp]: "length (update_where P f rows) = length rows"
  by (simp add: update_where_def)

lemma set_update_where:
  "set (update_where P f rows) = (\<lambda>r. if P r then f r else r) ` set rows"
  by (simp add: update_where_def)

lemma nth_update_where [simp]:
  "i < length rows \<Longrightarrow> update_where P f rows ! i = (if P (rows ! i) then f (rows ! i) else rows ! i)"
  by (simp add: update_where_def)

lemma map_update_where [table_simps]:
  "(\<And>r. k (f r) = k r) \<Longrightarrow> map k (update_where P f rows) = map k rows"
  by (simp add: update_where_def)

lemma update_where_none [table_simps]:
  "\<forall>r \<in> set rows. \<not> P r \<Longrightarrow> update_where P f rows = rows"
  by (induction rows) auto

lemma count_where_zero [table_simps]: "count_where P rows = 0 \<longleftrightarrow> (\<forall>r \<in> set rows. \<not> P r)"
  by (simp add: count_where_def filter_empty_conv)

lemma count_where_le: "count_where P rows \<le> length rows"
  by (simp add: count_where_def)

lemma list_all_update_where:
  "list_all Q rows \<Longrightarrow> (\<And>r. Q r \<Longrightarrow> P r \<Longrightarrow> Q (f r)) \<Longrightarrow> list_all Q (update_where P f rows)"
  by (induction rows) auto

text \<open>
  A predicate that selects at most one row per key: the number of selected rows is the number
  of the keys it hits. With distinct keys in the table, a row count equal to the number of
  requested keys means that every requested key has been hit.
\<close>

lemma count_where_keys:
  assumes "distinct (map k rows)"
  shows "count_where P rows = card (k ` {r \<in> set rows. P r})"
proof -
  have d: "distinct (map k (filter P rows))"
    using assms by (induction rows) auto
  have "count_where P rows = length (map k (filter P rows))"
    by (simp add: count_where_def)
  also have "\<dots> = card (set (map k (filter P rows)))"
    using d by (simp only: distinct_card)
  finally show ?thesis by simp
qed

lemma count_where_full:
  assumes "distinct (map k rows)" and "distinct ks"
    and sub: "\<And>r. r \<in> set rows \<Longrightarrow> P r \<Longrightarrow> k r \<in> set ks"
    and len: "count_where P rows = length ks"
  shows "k ` {r \<in> set rows. P r} = set ks"
proof (rule card_subset_eq)
  show "finite (set ks)" by simp
  show "k ` {r \<in> set rows. P r} \<subseteq> set ks" using sub by auto
  have "card (k ` {r \<in> set rows. P r}) = length ks"
    using len assms(1) by (simp add: count_where_keys [symmetric])
  then show "card (k ` {r \<in> set rows. P r}) = card (set ks)"
    using assms(2) by (simp add: distinct_card)
qed

lemma unique_key_row:
  "distinct (map k rows) \<Longrightarrow> r \<in> set rows \<Longrightarrow> r' \<in> set rows \<Longrightarrow> k r = k r' \<Longrightarrow> r = r'"
  by (induction rows) (auto simp: image_iff)

lemma filter_unique_key:
  "distinct (map k rows) \<Longrightarrow> r \<in> set rows \<Longrightarrow> filter (\<lambda>x. k x = k r) rows = [r]"
proof (induction rows)
  case (Cons x rows)
  show ?case
  proof (cases "r = x")
    case True
    with Cons.prems(1) have "\<forall>y \<in> set rows. k y \<noteq> k r" by (auto simp: image_iff)
    with True show ?thesis by simp
  next
    case False
    with Cons show ?thesis by (auto simp: image_iff)
  qed
qed simp

lemma updated_row:
  assumes "\<And>r. k (f r) = k r" and "\<And>r. Q (f r)"
    and "x \<in> set (update_where (\<lambda>r. k r = i) f rows)" and "k x = i"
  shows "Q x"
proof -
  obtain r where "r \<in> set rows" "x = (if k r = i then f r else r)"
    using assms(3) by (auto simp: set_update_where)
  with assms(1,2,4) show ?thesis by (cases "k r = i") simp_all
qed

subsection \<open>Decimal rendering\<close>

definition digit_char :: "nat \<Rightarrow> char" where
  "digit_char d = char_of (48 + d)"

definition char_digit :: "char \<Rightarrow> nat" where
  "char_digit c = of_char c - 48"

definition is_digit :: "char \<Rightarrow> bool" where
  "is_digit c \<longleftrightarrow> 48 \<le> (of_char c :: nat) \<and> (of_char c :: nat) \<le> 57"

fun show_nat :: "nat \<Rightarrow> string" where
  "show_nat n = (if n < 10 then [digit_char n] else show_nat (n div 10) @ [digit_char (n mod 10)])"

declare show_nat.simps [simp del]

definition read_nat :: "string \<Rightarrow> nat" where
  "read_nat s = foldl (\<lambda>a c. 10 * a + char_digit c) 0 s"

definition show_int :: "int \<Rightarrow> string" where
  "show_int n = (if n < 0 then CHR ''-'' # show_nat (nat (- n)) else show_nat (nat n))"

lemma digit_char_code: "d < 10 \<Longrightarrow> of_char (digit_char d) = 48 + d"
  by (simp add: digit_char_def)

lemma char_digit_digit_char [simp]: "d < 10 \<Longrightarrow> char_digit (digit_char d) = d"
  by (simp add: char_digit_def digit_char_code)

lemma is_digit_digit_char [simp]: "d < 10 \<Longrightarrow> is_digit (digit_char d)"
  by (simp add: is_digit_def digit_char_code)

lemma show_nat_digits: "c \<in> set (show_nat n) \<Longrightarrow> is_digit c"
proof (induction n arbitrary: c rule: show_nat.induct)
  case (1 n)
  then show ?case by (subst (asm) show_nat.simps) (auto split: if_splits)
qed

lemma show_nat_nonempty [simp]: "show_nat n \<noteq> []"
  by (subst show_nat.simps) simp

lemma read_nat_snoc: "read_nat (s @ [c]) = 10 * read_nat s + char_digit c"
  by (simp add: read_nat_def)

lemma read_show_nat [simp]: "read_nat (show_nat n) = n"
proof (induction n rule: show_nat.induct)
  case (1 n)
  show ?case
  proof (cases "n < 10")
    case True
    then show ?thesis by (simp add: show_nat.simps [of n] read_nat_def)
  next
    case False
    with 1 show ?thesis by (simp add: show_nat.simps [of n] read_nat_snoc)
  qed
qed

lemma show_nat_inj [simp]: "show_nat m = show_nat n \<longleftrightarrow> m = n"
  by (metis read_show_nat)

lemma minus_not_digit: "\<not> is_digit (CHR ''-'')"
  by (simp add: is_digit_def)

lemma show_nat_not_minus: "show_nat m \<noteq> CHR ''-'' # s"
proof
  assume "show_nat m = CHR ''-'' # s"
  then have "CHR ''-'' \<in> set (show_nat m)" by simp
  then show False using show_nat_digits minus_not_digit by blast
qed

lemma show_int_inj [simp]: "show_int m = show_int n \<longleftrightarrow> m = n"
  using show_nat_not_minus show_nat_not_minus [symmetric] by (auto simp: show_int_def)

lemma show_int_chars: "c \<in> set (show_int n) \<Longrightarrow> is_digit c \<or> c = CHR ''-''"
  by (auto simp: show_int_def dest: show_nat_digits split: if_splits)

text \<open>The same rendering over binary integers, which is what evaluation uses.\<close>

lemma digit_char_lookup [code]:
  "digit_char d = (if d < 10 then ''0123456789'' ! d else char_of (48 + d))"
proof (cases "d < 10")
  case True
  then have "d \<in> {0, 1, 2, 3, 4, 5, 6, 7, 8, 9}" by auto
  with True show ?thesis by (auto simp: digit_char_def char_of_def bit_Suc_0_iff)
qed (simp add: digit_char_def)

function show_digits :: "int \<Rightarrow> string" where
  "show_digits i = (if i < 10 then [digit_char (nat i)] else show_digits (i div 10) @ [digit_char (nat (i mod 10))])"
  by pat_completeness auto
termination by (relation "measure nat") auto

declare show_digits.simps [simp del]

lemma show_digits_show_nat: "0 \<le> i \<Longrightarrow> show_digits i = show_nat (nat i)"
proof (induction i rule: show_digits.induct)
  case (1 i)
  have "nat i < 10 \<longleftrightarrow> i < 10" by linarith
  with 1 show ?case
    by (subst show_digits.simps, subst show_nat.simps) (simp add: nat_div_distrib nat_mod_distrib pos_imp_zdiv_nonneg_iff)
qed

lemma show_int_digits [code]: "show_int n = (if n < 0 then CHR ''-'' # show_digits (- n) else show_digits n)"
  by (simp add: show_int_def show_digits_show_nat)

text \<open>Two strings cut at their first separator agree part by part.\<close>

lemma cut_at_separator:
  assumes "xs @ c # ys = xs' @ c # ys'" and "c \<notin> set xs" and "c \<notin> set xs'"
  shows "xs = xs' \<and> ys = ys'"
  using assms
proof (induction xs arbitrary: xs')
  case Nil
  then show ?case by (cases xs') auto
next
  case (Cons x xs)
  then obtain x' t where xs': "xs' = x' # t" by (cases xs') auto
  with Cons.prems have "xs @ c # ys = t @ c # ys'" and "x = x'" by auto
  with Cons.IH [of t] Cons.prems xs' show ?case by auto
qed

lemma show_int_no_brace: "CHR ''}'' \<notin> set (show_int n)" and show_int_no_colon: "CHR '':'' \<notin> set (show_int n)"
  by (auto dest!: show_int_chars simp: is_digit_def)

end
