(* ===== verification/Json.thy ===== *)
theory Json
  imports Prelude
begin

section \<open>encoding/json\<close>

text \<open>
  The part of Go's JSON library the handlers and tokens use. \<open>render\<close> is \<open>json.Marshal\<close> with its
  HTML escaping. The reader is a machine fed one byte at a time: a lexical mode and a stack of open
  containers; \<open>Unmarshal\<close> wants one value and nothing but white space after it, \<open>Decode\<close> (the
  streaming decoder) stops behind the first value. Strings are bytes and are taken to be valid UTF-8;
  the nesting limit of 10,000 is not modelled.
\<close>

datatype json =
  JNull | JBool bool | JNumber string | JString string | JArray "json list" | JObject "(string \<times> json) list"

subsection \<open>Writing\<close>

definition hex_digit :: "nat \<Rightarrow> char" where
  "hex_digit n = ''0123456789abcdef'' ! n"

definition byte :: "nat \<Rightarrow> char" where
  "byte n = char_of n"

definition esc_char :: "char \<Rightarrow> string" where
  "esc_char c =
     (let n = of_char c :: nat in
      if n = 34 then [byte 92, byte 34]
      else if n = 92 then [byte 92, byte 92]
      else if n = 8 then [byte 92, CHR ''b'']
      else if n = 12 then [byte 92, CHR ''f'']
      else if n = 10 then [byte 92, CHR ''n'']
      else if n = 13 then [byte 92, CHR ''r'']
      else if n = 9 then [byte 92, CHR ''t'']
      else if n < 32 \<or> n \<in> {38, 60, 62} then
        [byte 92, CHR ''u'', CHR ''0'', CHR ''0'', hex_digit (n div 16), hex_digit (n mod 16)]
      else [c])"

text \<open>The line separators U+2028 and U+2029, three bytes each, are escaped too.\<close>

fun esc :: "string \<Rightarrow> string" where
  "esc (a # b # c # cs) =
     (if (of_char a, of_char b) = (226 :: nat, 128 :: nat) \<and> of_char c \<in> {168 :: nat, 169}
      then [byte 92, CHR ''u'', CHR ''2'', CHR ''0'', CHR ''2'', hex_digit (of_char c mod 16)] @ esc cs
      else esc_char a @ esc (b # c # cs))"
| "esc (a # cs) = esc_char a @ esc cs"
| "esc [] = []"

definition json_quote :: "string \<Rightarrow> string" where
  "json_quote s = byte 34 # esc s @ [byte 34]"

fun join :: "string \<Rightarrow> string list \<Rightarrow> string" where
  "join sep [] = []"
| "join sep [x] = x"
| "join sep (x # xs) = x @ sep @ join sep xs"

fun render :: "json \<Rightarrow> string" where
  "render JNull = ''null''"
| "render (JBool b) = (if b then ''true'' else ''false'')"
| "render (JNumber s) = s"
| "render (JString s) = json_quote s"
| "render (JArray vs) = ''['' @ join '','' (map render vs) @ '']''"
| "render (JObject ms) = ''{'' @ join '','' (map (\<lambda>(k, v). json_quote k @ '':'' @ render v) ms) @ ''}''"

subsection \<open>Reading: words and strings\<close>

definition is_space :: "char \<Rightarrow> bool" where
  "is_space c \<longleftrightarrow> of_char c \<in> {32 :: nat, 9, 10, 13}"

definition word_char :: "char \<Rightarrow> bool" where
  "word_char c \<longleftrightarrow> is_digit c \<or> c \<in> set ''abcdefghijklmnopqrstuvwxyzABCDEFGHIJKLMNOPQRSTUVWXYZ+-.''"

fun digits1 :: "string \<Rightarrow> string option" where
  "digits1 [] = None"
| "digits1 (c # cs) = (if is_digit c then Some (dropWhile is_digit cs) else None)"

definition int_part :: "string \<Rightarrow> string option" where
  "int_part s =
     (let s' = (case s of c # cs \<Rightarrow> if c = CHR ''-'' then cs else s | [] \<Rightarrow> s) in
      case s' of
        c # cs \<Rightarrow> if c = CHR ''0'' then Some cs else digits1 s'
      | [] \<Rightarrow> None)"

definition frac_part :: "string \<Rightarrow> string option" where
  "frac_part s = (case s of c # cs \<Rightarrow> if c = CHR ''.'' then digits1 cs else Some s | [] \<Rightarrow> Some s)"

definition exp_part :: "string \<Rightarrow> string option" where
  "exp_part s =
     (case s of
        c # cs \<Rightarrow>
          if c \<in> {CHR ''e'', CHR ''E''}
          then (case cs of d # ds \<Rightarrow> if d \<in> {CHR ''+'', CHR ''-''} then digits1 ds else digits1 cs | [] \<Rightarrow> None)
          else Some s
      | [] \<Rightarrow> Some s)"

definition number_word :: "string \<Rightarrow> bool" where
  "number_word s \<longleftrightarrow>
     (case int_part s of None \<Rightarrow> False | Some r \<Rightarrow>
     (case frac_part r of None \<Rightarrow> False | Some r' \<Rightarrow> exp_part r' = Some []))"

definition word_value :: "string \<Rightarrow> json option" where
  "word_value s =
     (if s = ''null'' then Some JNull
      else if s = ''true'' then Some (JBool True)
      else if s = ''false'' then Some (JBool False)
      else if number_word s then Some (JNumber s) else None)"

text \<open>The units of a string: a byte, or the 16 bits of an escape.\<close>

datatype unit16 = Byte char | Esc nat

definition utf8 :: "nat \<Rightarrow> string" where
  "utf8 n =
     (if n < 128 then [byte n]
      else if n < 2048 then [byte (192 + n div 64), byte (128 + n mod 64)]
      else if n < 65536 then [byte (224 + n div 4096), byte (128 + n div 64 mod 64), byte (128 + n mod 64)]
      else [byte (240 + n div 262144), byte (128 + n div 4096 mod 64), byte (128 + n div 64 mod 64), byte (128 + n mod 64)])"

definition surrogate :: "nat \<Rightarrow> bool" where
  "surrogate n \<longleftrightarrow> 55296 \<le> n \<and> n < 57344"

fun unit_bytes :: "unit16 list \<Rightarrow> string" where
  "unit_bytes [] = []"
| "unit_bytes (Byte c # us) = c # unit_bytes us"
| "unit_bytes (Esc n # us) =
     (if surrogate n then
        (case us of
           Esc m # us' \<Rightarrow>
             if n < 56320 \<and> 56320 \<le> m \<and> m < 57344
             then utf8 (65536 + (n - 55296) * 1024 + (m - 56320)) @ unit_bytes us'
             else utf8 65533 @ unit_bytes us
         | _ \<Rightarrow> utf8 65533 @ unit_bytes us)
      else utf8 n @ unit_bytes us)"

definition simple_escape :: "char \<Rightarrow> unit16 option" where
  "simple_escape c =
     map_of [(byte 34, Byte (byte 34)), (byte 92, Byte (byte 92)), (CHR ''/'', Byte (CHR ''/'')),
             (CHR ''b'', Byte (byte 8)), (CHR ''f'', Byte (byte 12)), (CHR ''n'', Byte (byte 10)),
             (CHR ''r'', Byte (byte 13)), (CHR ''t'', Byte (byte 9))] c"

definition hex_value :: "char \<Rightarrow> nat option" where
  "hex_value c = map_of (zip ''0123456789abcdefABCDEF'' ([0..<16] @ [10..<16])) c"

subsection \<open>Reading: the machine\<close>

datatype container = CArray "json list" | CObject "(string \<times> json) list" | CMember "(string \<times> json) list" string

datatype expecting = Value | FirstValue | FirstKey | Key | Colon | Separator

datatype mode = Between | InWord string | InString "unit16 list" | InEscape "unit16 list" | InHex "unit16 list" nat nat

datatype reader = Reading mode "container list" expecting | Complete json

text \<open>A finished value goes into the innermost container; a finished string may be a key.\<close>

fun give :: "json \<Rightarrow> container list \<Rightarrow> reader option" where
  "give v [] = Some (Complete v)"
| "give v (CArray vs # st) = Some (Reading Between (CArray (vs @ [v]) # st) Separator)"
| "give v (CMember ms k # st) = Some (Reading Between (CObject (ms @ [(k, v)]) # st) Separator)"
| "give v (CObject ms # st) = None"

definition give_value :: "json \<Rightarrow> container list \<Rightarrow> expecting \<Rightarrow> reader option" where
  "give_value v st e = (if e = Value \<or> e = FirstValue then give v st else None)"

definition give_string :: "string \<Rightarrow> container list \<Rightarrow> expecting \<Rightarrow> reader option" where
  "give_string s st e =
     (if e = Key \<or> e = FirstKey then
        (case st of CObject ms # st' \<Rightarrow> Some (Reading Between (CMember ms s # st') Colon) | _ \<Rightarrow> None)
      else give_value (JString s) st e)"

definition close_array :: "container list \<Rightarrow> expecting \<Rightarrow> reader option" where
  "close_array st e =
     (if e = FirstValue \<or> e = Separator then (case st of CArray vs # st' \<Rightarrow> give (JArray vs) st' | _ \<Rightarrow> None) else None)"

definition close_object :: "container list \<Rightarrow> expecting \<Rightarrow> reader option" where
  "close_object st e =
     (if e = FirstKey \<or> e = Separator then (case st of CObject ms # st' \<Rightarrow> give (JObject ms) st' | _ \<Rightarrow> None) else None)"

definition separate :: "container list \<Rightarrow> expecting \<Rightarrow> reader option" where
  "separate st e =
     (if e = Separator then
        (case st of
           CArray vs # _ \<Rightarrow> Some (Reading Between st Value)
         | CObject ms # _ \<Rightarrow> Some (Reading Between st Key)
         | _ \<Rightarrow> None)
      else None)"

definition feed_between :: "container list \<Rightarrow> expecting \<Rightarrow> char \<Rightarrow> reader option" where
  "feed_between st e c =
     (if is_space c then Some (Reading Between st e)
      else if c = byte 34 then Some (Reading (InString []) st e)
      else if c = CHR ''['' then
        (if e = Value \<or> e = FirstValue then Some (Reading Between (CArray [] # st) FirstValue) else None)
      else if c = CHR ''{'' then
        (if e = Value \<or> e = FirstValue then Some (Reading Between (CObject [] # st) FirstKey) else None)
      else if c = CHR '']'' then close_array st e
      else if c = CHR ''}'' then close_object st e
      else if c = CHR '','' then separate st e
      else if c = CHR '':'' then (if e = Colon then Some (Reading Between st Value) else None)
      else if word_char c then Some (Reading (InWord [c]) st e)
      else None)"

definition end_word :: "string \<Rightarrow> container list \<Rightarrow> expecting \<Rightarrow> reader option" where
  "end_word s st e = (case word_value s of None \<Rightarrow> None | Some v \<Rightarrow> give_value v st e)"

fun feed :: "mode \<Rightarrow> container list \<Rightarrow> expecting \<Rightarrow> char \<Rightarrow> reader option" where
  "feed Between st e c = feed_between st e c"
| "feed (InWord s) st e c = (if word_char c then Some (Reading (InWord (s @ [c])) st e) else None)"
| "feed (InString us) st e c =
     (if c = byte 34 then give_string (unit_bytes us) st e
      else if c = byte 92 then Some (Reading (InEscape us) st e)
      else if (of_char c :: nat) < 32 then None
      else Some (Reading (InString (us @ [Byte c])) st e))"
| "feed (InEscape us) st e c =
     (if c = CHR ''u'' then Some (Reading (InHex us 0 0) st e)
      else (case simple_escape c of None \<Rightarrow> None | Some u \<Rightarrow> Some (Reading (InString (us @ [u])) st e)))"
| "feed (InHex us k n) st e c =
     (case hex_value c of
        None \<Rightarrow> None
      | Some d \<Rightarrow>
          (let n' = 16 * n + d in
           Some (if k = 3 then Reading (InString (us @ [Esc n'])) st e else Reading (InHex us (k + 1) n') st e)))"

text \<open>A word ends in front of the first character that cannot belong to it.\<close>

fun scan :: "reader option \<Rightarrow> string \<Rightarrow> (json \<times> string) option" where
  "scan None cs = None"
| "scan (Some (Complete v)) cs = Some (v, cs)"
| "scan (Some (Reading (InWord s) st e)) [] =
     (case end_word s st e of Some (Complete v) \<Rightarrow> Some (v, []) | _ \<Rightarrow> None)"
| "scan (Some (Reading m st e)) [] = None"
| "scan (Some (Reading (InWord s) st e)) (c # cs) =
     (if word_char c then scan (feed (InWord s) st e c) cs
      else (case end_word s st e of
              None \<Rightarrow> None
            | Some (Complete v) \<Rightarrow> Some (v, c # cs)
            | Some (Reading m st' e') \<Rightarrow> scan (feed m st' e' c) cs))"
| "scan (Some (Reading m st e)) (c # cs) = scan (feed m st e c) cs"

definition Decode_json :: "string \<Rightarrow> json option" where
  "Decode_json s = map_option fst (scan (Some (Reading Between [] Value)) s)"

definition Unmarshal :: "string \<Rightarrow> json option" where
  "Unmarshal s =
     (case scan (Some (Reading Between [] Value)) s of
        Some (v, rest) \<Rightarrow> if list_all is_space rest then Some v else None
      | None \<Rightarrow> None)"

subsection \<open>What is written is read back\<close>

definition ascii :: "string \<Rightarrow> bool" where
  "ascii s \<longleftrightarrow> list_all (\<lambda>c. of_char c < (128 :: nat)) s"

definition unit_of :: "char \<Rightarrow> unit16" where
  "unit_of c =
     (let n = of_char c :: nat in
      if n \<in> {34, 92, 8, 12, 10, 13, 9} \<or> (32 \<le> n \<and> n \<notin> {38, 60, 62}) then Byte c else Esc n)"

lemma byte_code [simp]: "n < 256 \<Longrightarrow> of_char (byte n) = n"
  by (simp add: byte_def)

lemma byte_of_code: "of_char c = n \<Longrightarrow> c = byte n"
  by (auto simp: byte_def)

lemma byte_inj: "m < 256 \<Longrightarrow> n < 256 \<Longrightarrow> byte m = byte n \<longleftrightarrow> m = n"
  by (metis byte_code)

lemma hex_value_digit: "d < 16 \<Longrightarrow> hex_value (hex_digit d) = Some d"
proof -
  have "\<forall>d \<in> set [0..<16]. hex_value (hex_digit d) = Some d" by code_simp
  then show "d < 16 \<Longrightarrow> hex_value (hex_digit d) = Some d" by simp
qed

lemma hex_zero: "hex_value (CHR ''0'') = Some 0"
  by code_simp

lemma simple_escapes:
  "simple_escape (byte 34) = Some (Byte (byte 34))" "simple_escape (byte 92) = Some (Byte (byte 92))"
  "simple_escape (CHR ''b'') = Some (Byte (byte 8))" "simple_escape (CHR ''f'') = Some (Byte (byte 12))"
  "simple_escape (CHR ''n'') = Some (Byte (byte 10))" "simple_escape (CHR ''r'') = Some (Byte (byte 13))"
  "simple_escape (CHR ''t'') = Some (Byte (byte 9))"
  by code_simp+

lemma scan_string_char:
  "of_char c < (128 :: nat) \<Longrightarrow>
   scan (Some (Reading (InString us) st e)) (esc_char c @ cs) = scan (Some (Reading (InString (us @ [unit_of c])) st e)) cs"
proof -
  assume "of_char c < (128 :: nat)"
  define n where "n = (of_char c :: nat)"
  have c: "c = byte n" unfolding n_def by (rule byte_of_code) simp
  have n: "n < 128" using \<open>of_char c < (128 :: nat)\<close> n_def by simp
  have code: "of_char c = n" by (simp add: n_def)
  have ne: "byte 92 \<noteq> byte 34" "byte 34 \<noteq> byte 92" "CHR ''u'' \<noteq> byte 34" "byte 34 \<noteq> CHR ''u''" "byte 92 \<noteq> CHR ''u''"
    by code_simp+
  consider "n \<in> {34, 92, 8, 12, 10, 13, 9}" | "n \<notin> {34, 92, 8, 12, 10, 13, 9}" "n < 32 \<or> n \<in> {38, 60, 62}"
    | "n \<notin> {34, 92, 8, 12, 10, 13, 9, 38, 60, 62}" "32 \<le> n"
    by (cases "n \<in> {34, 92, 8, 12, 10, 13, 9}"; cases "n < 32 \<or> n \<in> {38, 60, 62}") simp_all
  then show ?thesis
  proof cases
    case 1
    then show ?thesis unfolding esc_char_def unit_of_def code
      by (auto simp: ne simple_escapes Let_def c)
  next
    case 2
    have "n div 16 < 16" "n mod 16 < 16" "16 * (n div 16) + n mod 16 = n" using n by auto
    with 2 show ?thesis unfolding esc_char_def unit_of_def code
      by (auto simp: ne Let_def hex_value_digit hex_zero)
  next
    case 3
    then have "byte n \<noteq> byte 34" "byte n \<noteq> byte 92" using n by (simp_all add: byte_inj)
    with 3 n show ?thesis unfolding esc_char_def unit_of_def code
      by (auto simp: Let_def c)
  qed
qed

lemma esc_ascii: "ascii s \<Longrightarrow> esc s = concat (map esc_char s)"
  by (induction s rule: esc.induct) (auto simp: ascii_def)

lemma unit_bytes_ascii: "ascii s \<Longrightarrow> unit_bytes (map unit_of s) = s"
proof (induction s)
  case (Cons c s)
  have "unit_bytes (unit_of c # us) = c # unit_bytes us" for us
    using Cons.prems byte_of_code [of c "of_char c"]
    by (auto simp: ascii_def unit_of_def Let_def surrogate_def utf8_def)
  with Cons show ?case by (simp add: ascii_def)
qed simp

lemma scan_string:
  "ascii s \<Longrightarrow> scan (Some (Reading (InString us) st e)) (esc s @ byte 34 # cs) = scan (give_string (unit_bytes (us @ map unit_of s)) st e) cs"
proof -
  have "ascii s \<Longrightarrow> scan (Some (Reading (InString us) st e)) (concat (map esc_char s) @ byte 34 # cs)
      = scan (give_string (unit_bytes (us @ map unit_of s)) st e) cs"
  proof (induction s arbitrary: us)
    case (Cons c s)
    then have "ascii s" "of_char c < (128 :: nat)" by (simp_all add: ascii_def)
    with Cons.IH [of "us @ [unit_of c]"] show ?case by (simp add: scan_string_char)
  qed simp
  then show "ascii s \<Longrightarrow> ?thesis" by (simp add: esc_ascii)
qed

lemma scan_quoted:
  "ascii s \<Longrightarrow> scan (Some (Reading Between st e)) (json_quote s @ cs) = scan (give_string s st e) cs"
  using scan_string [of s "[]" st e cs] unit_bytes_ascii [of s] by (simp add: json_quote_def feed_between_def is_space_def)

text \<open>Values whose strings are ASCII and whose numbers are written as JSON numbers.\<close>

fun plain_json :: "json \<Rightarrow> bool" where
  "plain_json JNull = True"
| "plain_json (JBool b) = True"
| "plain_json (JNumber s) = (number_word s \<and> list_all word_char s)"
| "plain_json (JString s) = ascii s"
| "plain_json (JArray vs) = list_all plain_json vs"
| "plain_json (JObject ms) = list_all (\<lambda>(k, v). ascii k \<and> plain_json v) ms"

definition delimited :: "string \<Rightarrow> bool" where
  "delimited cs \<longleftrightarrow> (case cs of [] \<Rightarrow> True | c # _ \<Rightarrow> \<not> word_char c)"

lemma delimited_punctuation [simp]:
  "delimited (CHR '','' # cs)" "delimited (CHR '']'' # cs)" "delimited (CHR ''}'' # cs)" "delimited []"
  by (simp_all add: delimited_def word_char_def is_digit_def)

lemma give_between: "give v st = Some (Reading m st' e) \<Longrightarrow> m = Between"
  by (induction v st rule: give.induct) auto

lemma scan_word:
  "list_all word_char s \<Longrightarrow> scan (Some (Reading (InWord w) st e)) (s @ cs) = scan (Some (Reading (InWord (w @ s)) st e)) cs"
  by (induction s arbitrary: w) auto

lemma scan_end_word:
  assumes "delimited cs" and "word_value w = Some v" and "e = Value \<or> e = FirstValue"
  shows "scan (Some (Reading (InWord w) st e)) cs = scan (give v st) cs"
proof (cases "give v st")
  case None
  with assms show ?thesis by (cases cs) (auto simp: delimited_def end_word_def give_value_def)
next
  case (Some r)
  show ?thesis
  proof (cases r)
    case (Complete u)
    with Some assms show ?thesis by (cases cs) (auto simp: delimited_def end_word_def give_value_def)
  next
    case (Reading m st' e')
    with Some give_between have "m = Between" by blast
    with Some Reading assms show ?thesis by (cases cs) (auto simp: delimited_def end_word_def give_value_def)
  qed
qed

lemma not_word_char:
  "\<not> word_char (byte 34)" "\<not> word_char (CHR ''['')" "\<not> word_char (CHR ''{'')" "\<not> word_char (CHR '']'')"
  "\<not> word_char (CHR ''}'')" "\<not> word_char (CHR '','')" "\<not> word_char (CHR '':'')" "\<not> word_char (byte 32)"
  "\<not> word_char (byte 9)" "\<not> word_char (byte 10)" "\<not> word_char (byte 13)"
  by code_simp+

lemma word_char_starts: "word_char c \<Longrightarrow> feed_between st e c = Some (Reading (InWord [c]) st e)"
proof -
  assume c: "word_char c"
  have "\<not> is_space c" using c not_word_char byte_of_code unfolding is_space_def by blast
  moreover have "c \<noteq> byte 34" "c \<noteq> CHR ''[''" "c \<noteq> CHR ''{''" "c \<noteq> CHR '']''" "c \<noteq> CHR ''}''" "c \<noteq> CHR '',''" "c \<noteq> CHR '':''"
    using c not_word_char by blast+
  ultimately show ?thesis using c unfolding feed_between_def by (simp only: if_False if_True)
qed

lemma scan_whole_word:
  assumes "list_all word_char w" and "w \<noteq> []" and "delimited cs" and "word_value w = Some v" and "e = Value \<or> e = FirstValue"
  shows "scan (Some (Reading Between st e)) (w @ cs) = scan (give v st) cs"
proof -
  obtain c w' where w: "w = c # w'" using assms(2) by (cases w) auto
  have "scan (Some (Reading Between st e)) (w @ cs) = scan (Some (Reading (InWord w) st e)) cs"
    using assms(1) word_char_starts [of c st e] scan_word [of w' "[c]" st e cs] by (simp add: w)
  then show ?thesis using scan_end_word [OF assms(3-5)] by simp
qed

lemma join_Cons: "join sep (x # xs) = x @ concat (map ((@) sep) xs)"
  by (induction xs arbitrary: x) auto

lemma byte_quote: "byte 34 = CHR 0x22"
  by code_simp

lemma feed_punctuation:
  "feed_between st Value (CHR ''['') = Some (Reading Between (CArray [] # st) FirstValue)"
  "feed_between st FirstValue (CHR ''['') = Some (Reading Between (CArray [] # st) FirstValue)"
  "feed_between st Value (CHR ''{'') = Some (Reading Between (CObject [] # st) FirstKey)"
  "feed_between st FirstValue (CHR ''{'') = Some (Reading Between (CObject [] # st) FirstKey)"
  "feed_between st e (CHR '']'') = close_array st e"
  "feed_between st e (CHR ''}'') = close_object st e"
  "feed_between st e (CHR '','') = separate st e"
  "feed_between st Colon (CHR '':'') = Some (Reading Between st Value)"
  by (simp_all add: feed_between_def is_space_def byte_quote)

lemma number_not_word: "number_word s \<Longrightarrow> word_value s = Some (JNumber s)"
proof -
  have "\<not> number_word ''null''" "\<not> number_word ''true''" "\<not> number_word ''false''" by code_simp+
  then show "number_word s \<Longrightarrow> word_value s = Some (JNumber s)" by (auto simp: word_value_def)
qed

lemma number_nonempty: "number_word s \<Longrightarrow> s \<noteq> []"
  by (auto simp: number_word_def int_part_def)

text \<open>Reading a rendered value hands it to the enclosing container.\<close>

lemma scan_members:
  assumes "\<And>k v st cs. (k, v) \<in> set ms \<Longrightarrow> delimited cs \<Longrightarrow>
      scan (Some (Reading Between st Value)) (render v @ cs) = scan (give v st) cs"
    and "list_all (\<lambda>(k, v). ascii k) ms"
  shows "scan (Some (Reading Between (CObject acc # st) Separator))
      (concat (map (\<lambda>(k, v). '','' @ json_quote k @ '':'' @ render v) ms) @ ''}'' @ cs)
    = scan (give (JObject (acc @ ms)) st) cs"
  using assms
proof (induction ms arbitrary: acc)
  case Nil
  then show ?case by (simp add: feed_punctuation close_object_def)
next
  case (Cons m ms)
  obtain k v where m: "m = (k, v)" by (cases m)
  let ?rest = "concat (map (\<lambda>(k, v). '','' @ json_quote k @ '':'' @ render v) ms) @ ''}'' @ cs"
  have d: "delimited ?rest" by (cases ms) (auto split: prod.splits)
  have "scan (Some (Reading Between (CMember acc k # st) Value)) (render v @ ?rest)
      = scan (Some (Reading Between (CObject (acc @ [(k, v)]) # st) Separator)) ?rest"
    using Cons.prems(1) [of k v ?rest "CMember acc k # st"] d m by simp
  moreover have "scan (Some (Reading Between (CObject (acc @ [(k, v)]) # st) Separator)) ?rest
      = scan (give (JObject (acc @ m # ms)) st) cs"
    using Cons.IH [of "acc @ [(k, v)]"] Cons.prems m by auto
  ultimately show ?case using Cons.prems(2) m
    by (simp add: feed_punctuation separate_def scan_quoted give_string_def)
qed

lemma scan_elements:
  assumes "\<And>v st cs. v \<in> set vs \<Longrightarrow> delimited cs \<Longrightarrow>
      scan (Some (Reading Between st Value)) (render v @ cs) = scan (give v st) cs"
  shows "scan (Some (Reading Between (CArray acc # st) Separator)) (concat (map (\<lambda>v. '','' @ render v) vs) @ '']'' @ cs)
    = scan (give (JArray (acc @ vs)) st) cs"
  using assms
proof (induction vs arbitrary: acc)
  case Nil
  then show ?case by (simp add: feed_punctuation close_array_def)
next
  case (Cons v vs)
  let ?rest = "concat (map (\<lambda>v. '','' @ render v) vs) @ '']'' @ cs"
  have d: "delimited ?rest" by (cases vs) auto
  have "scan (Some (Reading Between (CArray acc # st) Value)) (render v @ ?rest)
      = scan (Some (Reading Between (CArray (acc @ [v]) # st) Separator)) ?rest"
    using Cons.prems [of v ?rest "CArray acc # st"] d by simp
  with Cons.IH [of "acc @ [v]"] Cons.prems show ?case by (simp add: feed_punctuation separate_def)
qed

lemma scan_value:
  "plain_json v \<Longrightarrow> delimited cs \<Longrightarrow> e = Value \<or> e = FirstValue \<Longrightarrow>
   scan (Some (Reading Between st e)) (render v @ cs) = scan (give v st) cs"
proof (induction v arbitrary: st e cs)
  case JNull
  then show ?case using scan_whole_word [of "''null''" cs JNull e st] by (simp add: word_value_def word_char_def)
next
  case (JBool b)
  then show ?case
    using scan_whole_word [of "if b then ''true'' else ''false''" cs "JBool b" e st]
    by (simp add: word_value_def word_char_def)
next
  case (JNumber s)
  then show ?case using scan_whole_word [of s cs "JNumber s" e st] number_not_word [of s] number_nonempty [of s] by simp
next
  case (JString s)
  then show ?case by (auto simp: scan_quoted give_string_def give_value_def)
next
  case (JArray vs)
  have IH: "scan (Some (Reading Between st e)) (render v @ cs) = scan (give v st) cs"
    if "v \<in> set vs" "delimited cs" "e = Value \<or> e = FirstValue" for v st e cs
    using JArray that by (auto simp: list_all_iff)
  show ?case
  proof (cases vs)
    case Nil
    with JArray.prems(3) show ?thesis by (auto simp: feed_punctuation close_array_def)
  next
    case (Cons v ws)
    let ?rest = "concat (map (\<lambda>v. '','' @ render v) ws) @ '']'' @ cs"
    have d: "delimited ?rest" by (cases ws) auto
    have "scan (Some (Reading Between st e)) (render (JArray vs) @ cs)
        = scan (Some (Reading Between (CArray [] # st) FirstValue)) (render v @ ?rest)"
      using JArray.prems(3) by (auto simp: Cons join_Cons feed_punctuation comp_def)
    also have "\<dots> = scan (Some (Reading Between (CArray [v] # st) Separator)) ?rest"
      using IH [of v ?rest FirstValue] d Cons by simp
    also have "\<dots> = scan (give (JArray vs) st) cs"
      using scan_elements [of ws "[v]" st cs] IH Cons by auto
    finally show ?thesis .
  qed
next
  case (JObject ms)
  have IH: "scan (Some (Reading Between st Value)) (render v @ cs) = scan (give v st) cs"
    if "(k, v) \<in> set ms" "delimited cs" for k v st cs
    using JObject that by (fastforce simp: list_all_iff)
  have keys: "list_all (\<lambda>(k, v). ascii k) ms" using JObject.prems(1) by (auto simp: list_all_iff)
  show ?case
  proof (cases ms)
    case Nil
    with JObject.prems(3) show ?thesis by (auto simp: feed_punctuation close_object_def)
  next
    case (Cons m ns)
    obtain k v where m: "m = (k, v)" by (cases m)
    let ?rest = "concat (map (\<lambda>(k, v). '','' @ json_quote k @ '':'' @ render v) ns) @ ''}'' @ cs"
    have d: "delimited ?rest" by (cases ns) (auto split: prod.splits)
    have split: "concat (map ((@) '','') (map (\<lambda>(k, v). json_quote k @ CHR '':'' # render v) ns))
        = concat (map (\<lambda>(k, v). CHR '','' # json_quote k @ CHR '':'' # render v) ns)" by (induction ns) auto
    have "scan (Some (Reading Between st e)) (render (JObject ms) @ cs)
        = scan (Some (Reading Between (CObject [] # st) FirstKey)) (json_quote k @ '':'' @ render v @ ?rest)"
      using JObject.prems(3) by (auto simp: Cons m join_Cons feed_punctuation split simp del: map_map)
    also have "\<dots> = scan (Some (Reading Between (CMember [] k # st) Value)) (render v @ ?rest)"
      using keys Cons m by (simp add: scan_quoted give_string_def feed_punctuation)
    also have "\<dots> = scan (Some (Reading Between (CObject [(k, v)] # st) Separator)) ?rest"
      using IH [of k v ?rest] d Cons m by simp
    also have "\<dots> = scan (give (JObject ms) st) cs"
      using scan_members [of ns "[(k, v)]" st cs] IH keys Cons m by auto
    finally show ?thesis .
  qed
qed

lemma Unmarshal_render: "plain_json v \<Longrightarrow> Unmarshal (render v) = Some v"
  using scan_value [of v "[]" Value "[]"] by (simp add: Unmarshal_def)

subsection \<open>Decoding into a struct\<close>

text \<open>
  A member is assigned to the field of its exact name, or else to the one equal after folding ASCII
  letters; unknown members are ignored and the last assignment stays. \<open>null\<close> leaves a field as it
  is. A value of the wrong type is reported, after the rest has been decoded. Each reader returns
  the value and whether there was no such error.
\<close>

definition fold_letter :: "char \<Rightarrow> char" where
  "fold_letter c = (let n = of_char c :: nat in if 65 \<le> n \<and> n \<le> 90 then byte (n + 32) else c)"

definition names_field :: "string list \<Rightarrow> string \<Rightarrow> string \<Rightarrow> bool" where
  "names_field names name k \<longleftrightarrow> k = name \<or> (k \<notin> set names \<and> map fold_letter k = map fold_letter name)"

definition assigned :: "string list \<Rightarrow> string \<Rightarrow> (string \<times> json) list \<Rightarrow> json list" where
  "assigned names name ms = map snd (filter (\<lambda>(k, v). names_field names name k) ms)"

definition members_of :: "json \<Rightarrow> (string \<times> json) list option" where
  "members_of v = (case v of JObject ms \<Rightarrow> Some ms | JNull \<Rightarrow> Some [] | _ \<Rightarrow> None)"

fun assign_all :: "('a \<Rightarrow> json \<Rightarrow> 'a \<times> bool) \<Rightarrow> 'a \<Rightarrow> json list \<Rightarrow> 'a \<times> bool" where
  "assign_all into cur [] = (cur, True)"
| "assign_all into cur (v # vs) =
     (let (cur', ok) = into cur v; (cur'', ok') = assign_all into cur' vs in (cur'', ok \<and> ok'))"

definition parse_int :: "nat \<Rightarrow> string \<Rightarrow> int option" where
  "parse_int bits s =
     (let neg = (s \<noteq> [] \<and> hd s = CHR ''-''); ds = (if neg then tl s else s);
          n = (if neg then - int (read_nat ds) else int (read_nat ds)) in
      if ds \<noteq> [] \<and> list_all is_digit ds \<and> - (2 ^ (bits - 1)) \<le> n \<and> n < 2 ^ (bits - 1) then Some n else None)"

fun int_into :: "nat \<Rightarrow> int \<Rightarrow> json \<Rightarrow> int \<times> bool" where
  "int_into bits cur (JNumber s) = (case parse_int bits s of None \<Rightarrow> (cur, False) | Some n \<Rightarrow> (n, True))"
| "int_into bits cur JNull = (cur, True)"
| "int_into bits cur v = (cur, False)"

fun string_into :: "string \<Rightarrow> json \<Rightarrow> string \<times> bool" where
  "string_into cur (JString s) = (s, True)"
| "string_into cur JNull = (cur, True)"
| "string_into cur v = (cur, False)"

fun bool_into :: "bool \<Rightarrow> json \<Rightarrow> bool \<times> bool" where
  "bool_into cur (JBool b) = (b, True)"
| "bool_into cur JNull = (cur, True)"
| "bool_into cur v = (cur, False)"

fun ints_into :: "nat \<Rightarrow> int list \<Rightarrow> json \<Rightarrow> int list \<times> bool" where
  "ints_into bits cur (JArray vs) =
     (map (\<lambda>v. fst (int_into bits 0 v)) vs, list_all (\<lambda>v. snd (int_into bits 0 v)) vs)"
| "ints_into bits cur JNull = ([], True)"
| "ints_into bits cur v = (cur, False)"

text \<open>A field whose type parses a text, as \<open>uuid.UUID\<close> does.\<close>

fun text_into :: "(string \<Rightarrow> 'a option) \<Rightarrow> 'a \<Rightarrow> json \<Rightarrow> 'a \<times> bool" where
  "text_into parse cur (JString s) = (case parse s of None \<Rightarrow> (cur, False) | Some x \<Rightarrow> (x, True))"
| "text_into parse cur JNull = (cur, True)"
| "text_into parse cur v = (cur, False)"

lemma digits_word: "list_all is_digit s \<Longrightarrow> list_all word_char s"
  by (simp add: list_all_iff word_char_def)

lemma show_nat_word: "list_all is_digit (show_nat n)"
  using show_nat_digits by (simp add: list_all_iff)

lemma show_int_word: "list_all word_char (show_int n)"
  using digits_word [OF show_nat_word] by (simp add: show_int_def word_char_def)

lemma show_nat_leading: "0 < n \<Longrightarrow> hd (show_nat n) \<noteq> CHR ''0''"
proof (induction n rule: show_nat.induct)
  case (1 n)
  show ?case
  proof (cases "n < 10")
    case True
    have "char_digit (CHR ''0'') = 0" by (simp add: char_digit_def)
    then have "digit_char n \<noteq> CHR ''0''" using True 1(2) char_digit_digit_char [of n] by force
    then show ?thesis using True by (simp add: show_nat.simps [of n])
  next
    case False
    then show ?thesis using 1 by (simp add: show_nat.simps [of n])
  qed
qed

lemma digits1_all: "list_all is_digit s \<Longrightarrow> s \<noteq> [] \<Longrightarrow> digits1 s = Some []"
  by (cases s) (auto simp: dropWhile_eq_Nil_conv list_all_iff)

lemma number_show_nat: "int_part (show_nat n) = Some [] \<and> int_part (CHR ''-'' # show_nat n) = Some []"
proof -
  obtain c cs where s: "show_nat n = c # cs" using show_nat_nonempty [of n] by (cases "show_nat n") auto
  have "c \<noteq> CHR ''-''" using show_nat_digits [of c n] s minus_not_digit by auto
  moreover have "digits1 (c # cs) = Some []" using digits1_all [OF show_nat_word, of n] s by simp
  moreover have "c = CHR ''0'' \<Longrightarrow> cs = []"
  proof -
    assume "c = CHR ''0''"
    then have "n = 0" using show_nat_leading [of n] s by (cases "n = 0") auto
    with s show "cs = []" by (simp add: show_nat.simps [of 0])
  qed
  ultimately show ?thesis by (auto simp: int_part_def s)
qed

lemma number_show_int: "number_word (show_int n)"
  using number_show_nat by (simp add: number_word_def show_int_def frac_part_def exp_part_def)

lemma hd_show_nat: "hd (show_nat n) \<noteq> CHR ''-''"
  using show_nat_not_minus [of n "tl (show_nat n)"] show_nat_nonempty [of n] by (metis list.collapse)

lemma parse_show_int: "- (2 ^ (bits - 1)) \<le> n \<Longrightarrow> n < 2 ^ (bits - 1) \<Longrightarrow> parse_int bits (show_int n) = Some n"
  using show_nat_word hd_show_nat by (auto simp: parse_int_def show_int_def Let_def)

lemma ascii_simps: "ascii [] \<longleftrightarrow> True" "ascii (c # s) \<longleftrightarrow> of_char c < (128 :: nat) \<and> ascii s" "ascii (s @ t) \<longleftrightarrow> ascii s \<and> ascii t"
  by (simp_all add: ascii_def)

end
