(* ===== verification/FsSchema.thy ===== *)
theory FsSchema
  imports Json Complex_Main
begin

section \<open>offline-sync-app: tables and calls\<close>

text \<open>
  The rows of \<open>offline-sync-app/internal/db/models.go\<close>, the world the services of the second
  application run in, and how their calls end. A statement runs in the open transaction if there is one
  (\<open>twoway.Transactor\<close>, \<open>sync.TxRunner\<close>) and on the pool otherwise, as the \<open>Querier\<close> a component is
  given decides. \<open>float64\<close> coordinates are rationals.
\<close>

subsection \<open>Rows\<close>

record location_row =
  lc_id :: uuid
  lc_name :: string
  lc_lat :: rat
  lc_lon :: rat
  lc_created :: time
  lc_updated :: time
  lc_by :: string

record site_row =
  sa_id :: uuid
  sa_location :: uuid
  sa_name :: string
  sa_notes :: string
  sa_created :: time
  sa_updated :: time
  sa_by :: string

record photo_row =
  ph_id :: uuid
  ph_site :: uuid
  ph_key :: string
  ph_lat :: rat
  ph_lon :: rat
  ph_condition :: string
  ph_created :: time
  ph_updated :: time
  ph_by :: string

record fs_event =
  fv_id :: uuid
  fv_aggregate :: string
  fv_aggregate_id :: uuid
  fv_type :: string
  fv_schema :: int
  fv_payload :: json
  fv_actor :: string
  fv_at :: time
  fv_published :: "time option"

record stats_row =
  st_location :: uuid
  st_good :: int
  st_moderate :: int
  st_bad :: int
  st_updated :: time

record fs_conn =
  wc_id :: string
  wc_user :: string
  wc_location :: uuid
  wc_at :: time

record work_item =
  wi_id :: uuid
  wi_title :: string
  wi_status :: string
  wi_notes :: string
  wi_deleted :: "time option"
  wi_created :: time
  wi_updated :: time

record link_row =
  lk_system :: string
  lk_external :: string
  lk_internal :: uuid
  lk_version :: int

record pushed_row =
  pu_system :: string
  pu_internal :: uuid
  pu_version :: int
  pu_hash :: string
  pu_at :: time

record sync_state =
  sy_system :: string
  sy_watermark :: "time option"
  sy_since :: "time option"
  sy_cursor :: string
  sy_max :: "time option"
  sy_updated :: time

record inbox_row =
  ib_system :: string
  ib_delivery :: string
  ib_body :: string
  ib_received :: time
  ib_attempts :: int
  ib_error :: string
  ib_outcome :: string
  ib_processed :: "time option"
  ib_dead :: "time option"

record dead_letter =
  dl_source :: string
  dl_system :: string
  dl_ref :: string
  dl_payload :: string
  dl_reason :: string
  dl_attempts :: int
  dl_created :: time

record fdb =
  f_locations :: "location_row list"
  f_sites :: "site_row list"
  f_photos :: "photo_row list"
  f_events :: "fs_event list"
  f_processed :: "(uuid \<times> string) list"
  f_stats :: "stats_row list"
  f_conns :: "fs_conn list"
  f_items :: "work_item list"
  f_links :: "link_row list"
  f_pushed :: "pushed_row list"
  f_sync :: "sync_state list"
  f_inbox :: "inbox_row list"
  f_dead :: "dead_letter list"

subsection \<open>Errors, the environment, the world\<close>

text \<open>
  \<open>ApiError\<close> carries the status, the Retry-After in nanoseconds and the body; \<open>RetryExhausted\<close> the number
  of attempts and the last error. The environment gives the fate and the time of each call, fresh
  identifiers and random numbers, and what the code takes from libraries: the texts of identifiers,
  errors, numbers and times, the readers of identifiers and times, SHA-256, HMAC-SHA256, and the rank
  of a text in the collation of the database. \<open>RolledBack\<close> stands for leaving a transaction without a
  commit and without an error.
\<close>

datatype fs_error =
    FsUnavailable
  | FsNoRows
  | FsConstraint string
  | ApiError nat int string
  | RetryExhausted int "fs_error option"
  | Cancelled
  | InvalidWebhook
  | DecodeFailed
  | WorkItemNotFound
  | RolledBack
  | FsOther string

record fenv =
  fe_fate :: "nat \<Rightarrow> fate"
  fe_clock :: "nat \<Rightarrow> time"
  fe_uuid :: "nat \<Rightarrow> uuid"
  fe_uuid_text :: "uuid \<Rightarrow> string"
  fe_uuid_parse :: "string \<Rightarrow> uuid option"
  fe_text :: "fs_error \<Rightarrow> string"
  fe_float :: "rat \<Rightarrow> string"
  fe_time :: "int \<Rightarrow> string"
  fe_parse_time :: "string \<Rightarrow> int option"
  fe_rand :: "nat \<Rightarrow> rat"
  fe_sha :: "string \<Rightarrow> string"
  fe_hmac :: "string \<Rightarrow> string \<Rightarrow> string"
  fe_rank :: "string \<Rightarrow> rat"

record ftx =
  ft_now :: time
  ft_db :: fdb

text \<open>\<open>'x\<close> is the state of the external system.\<close>

record 'x fworld =
  fw_db :: fdb
  fw_tx :: "ftx option"
  fw_ext :: 'x
  fw_bus :: "fs_event list"
  fw_calls :: nat

type_synonym 'a fstmt = "time \<Rightarrow> fdb \<Rightarrow> (fs_error + 'a) \<times> fdb"
type_synonym ('x, 'a) fm = "'x fworld \<Rightarrow> (fs_error + 'a) \<times> 'x fworld"

definition ftick :: "'x fworld \<Rightarrow> 'x fworld" where
  "ftick w = w\<lparr>fw_calls := Suc (fw_calls w)\<rparr>"

definition fnow :: "fenv \<Rightarrow> 'x fworld \<Rightarrow> time" where
  "fnow E w = fe_clock E (fw_calls w)"

definition fret :: "'a \<Rightarrow> ('x, 'a) fm" where "fret x w = (Inr x, w)"

definition fthrow :: "fs_error \<Rightarrow> ('x, 'a) fm" where "fthrow e w = (Inl e, w)"

text \<open>Go's \<open>if err != nil\<close>: \<open>fbind\<close> returns the error, \<open>fhandle\<close> looks at the result.\<close>

definition fbind :: "('x, 'a) fm \<Rightarrow> ('a \<Rightarrow> ('x, 'b) fm) \<Rightarrow> ('x, 'b) fm" where
  "fbind m f w = (case m w of (Inl e, w') \<Rightarrow> (Inl e, w') | (Inr x, w') \<Rightarrow> f x w')"

definition fhandle :: "('x, 'a) fm \<Rightarrow> (fs_error + 'a \<Rightarrow> ('x, 'b) fm) \<Rightarrow> ('x, 'b) fm" where
  "fhandle m k w = (case m w of (r, w') \<Rightarrow> k r w')"

definition fexec :: "fenv \<Rightarrow> 'a fstmt \<Rightarrow> ('x, 'a) fm" where
  "fexec E st w =
     (case fw_tx w of
        None \<Rightarrow>
          (let (r, d) = st (fnow E w) (fw_db w) in
           case fe_fate E (fw_calls w) of
             Done \<Rightarrow> (r, (ftick w)\<lparr>fw_db := d\<rparr>)
           | Lost \<Rightarrow> (Inl FsUnavailable, ftick w)
           | Ambiguous \<Rightarrow> (Inl FsUnavailable, (ftick w)\<lparr>fw_db := d\<rparr>))
      | Some t \<Rightarrow>
          if fe_fate E (fw_calls w) = Done
          then (let (r, d) = st (ft_now t) (ft_db t) in (r, (ftick w)\<lparr>fw_tx := Some (t\<lparr>ft_db := d\<rparr>)\<rparr>))
          else (Inl FsUnavailable, ftick w))"

text \<open>\<open>InTx\<close>: begin, run, and commit unless the body failed; the deferred rollback drops the copy.\<close>

definition InTx :: "fenv \<Rightarrow> ('x, 'a) fm \<Rightarrow> ('x, 'a) fm" where
  "InTx E body w =
     (if fe_fate E (fw_calls w) \<noteq> Done then (Inl FsUnavailable, ftick w)
      else
        (case body ((ftick w)\<lparr>fw_tx := Some \<lparr>ft_now = fnow E w, ft_db = fw_db w\<rparr>\<rparr>) of
           (Inl e, w1) \<Rightarrow> (Inl e, w1\<lparr>fw_tx := None\<rparr>)
         | (Inr x, w1) \<Rightarrow>
             (case fe_fate E (fw_calls w1) of
                Done \<Rightarrow> (Inr x, (ftick w1)\<lparr>fw_db := (case fw_tx w1 of None \<Rightarrow> fw_db w1 | Some t \<Rightarrow> ft_db t), fw_tx := None\<rparr>)
              | Lost \<Rightarrow> (Inl FsUnavailable, (ftick w1)\<lparr>fw_tx := None\<rparr>)
              | Ambiguous \<Rightarrow> (Inl FsUnavailable,
                  (ftick w1)\<lparr>fw_db := (case fw_tx w1 of None \<Rightarrow> fw_db w1 | Some t \<Rightarrow> ft_db t), fw_tx := None\<rparr>))))"

subsection \<open>What a sequence of calls keeps\<close>

lemma ftick_simps [simp]:
  "fw_db (ftick w) = fw_db w" "fw_tx (ftick w) = fw_tx w" "fw_ext (ftick w) = fw_ext w" "fw_bus (ftick w) = fw_bus w"
  "fw_calls (ftick w) = Suc (fw_calls w)"
  by (simp_all add: ftick_def)

text \<open>
  A database invariant holds of the committed tables and of the open transaction's copy. The laws of
  the locale are what a component proves of it; the lemmas lift it through the code's control flow.
\<close>

definition in_force :: "(fdb \<Rightarrow> bool) \<Rightarrow> 'x fworld \<Rightarrow> bool" where
  "in_force I w \<longleftrightarrow> I (fw_db w) \<and> (case fw_tx w of None \<Rightarrow> True | Some t \<Rightarrow> I (ft_db t))"

definition keeps :: "(fdb \<Rightarrow> bool) \<Rightarrow> ('x, 'a) fm \<Rightarrow> bool" where
  "keeps I m \<longleftrightarrow> (\<forall>w r w'. m w = (r, w') \<longrightarrow> in_force I w \<longrightarrow> in_force I w')"

lemma keepsD: "keeps I m \<Longrightarrow> m w = (r, w') \<Longrightarrow> in_force I w \<Longrightarrow> in_force I w'"
  by (simp add: keeps_def)

lemma keeps_fret [intro]: "keeps I (fret x)"
  by (simp add: keeps_def fret_def)

lemma keeps_fthrow [intro]: "keeps I (fthrow e)"
  by (simp add: keeps_def fthrow_def)

lemma keeps_fbind [intro]:
  assumes "keeps I m" and "\<And>x. keeps I (f x)"
  shows "keeps I (fbind m f)"
  unfolding keeps_def fbind_def using keepsD [OF assms(1)] keepsD [OF assms(2)]
  by (auto split: prod.splits sum.splits)

lemma keeps_fhandle [intro]:
  assumes "keeps I m" and "\<And>r. keeps I (k r)"
  shows "keeps I (fhandle m k)"
  unfolding keeps_def fhandle_def using keepsD [OF assms(1)] keepsD [OF assms(2)]
  by (auto split: prod.splits)

lemma keeps_fexec:
  assumes "\<And>t d. I d \<Longrightarrow> I (snd (st t d))"
  shows "keeps I (fexec E st)"
  unfolding keeps_def in_force_def fexec_def
  using assms by (auto simp: Let_def split: option.splits prod.splits fate.splits if_splits) (metis snd_conv)+

lemma keeps_InTx [intro]:
  assumes "keeps I body"
  shows "keeps I (InTx E body)"
proof -
  have b: "in_force I w1" if "body ((ftick w)\<lparr>fw_tx := Some \<lparr>ft_now = fnow E w, ft_db = fw_db w\<rparr>\<rparr>) = (r, w1)" "in_force I w" for w r w1
    using keepsD [OF assms that(1)] that(2) by (simp add: in_force_def)
  show ?thesis unfolding keeps_def
  proof (intro allI impI)
    fix w r w' assume t: "InTx E body w = (r, w')" and i: "in_force I w"
    obtain rb w1 where r: "body ((ftick w)\<lparr>fw_tx := Some \<lparr>ft_now = fnow E w, ft_db = fw_db w\<rparr>\<rparr>) = (rb, w1)" by (meson surj_pair)
    show "in_force I w'" using t b [OF r i] i
      by (auto simp: InTx_def r in_force_def split: if_splits sum.splits fate.splits option.splits)
  qed
qed

text \<open>Reading only.\<close>

lemma keeps_select: "(\<And>t d. snd (st t d) = d) \<Longrightarrow> keeps I (fexec E st)"
  by (rule keeps_fexec) simp

subsection \<open>Loops\<close>

text \<open>\<open>feach\<close> is a \<open>for\<close> loop that returns at the first error and collects the results otherwise.\<close>

primrec feach :: "('a \<Rightarrow> ('x, 'b) fm) \<Rightarrow> 'a list \<Rightarrow> ('x, 'b list) fm" where
  "feach f [] = fret []"
| "feach f (x # xs) = fbind (f x) (\<lambda>y. fbind (feach f xs) (\<lambda>ys. fret (y # ys)))"

lemma keeps_feach [intro]: "(\<And>x. x \<in> set xs \<Longrightarrow> keeps I (f x)) \<Longrightarrow> keeps I (feach f xs)"
  by (induction xs) auto

text \<open>
  Running a concrete program by rewriting: the continuation waits until the result is there.
\<close>

definition bind_k :: "('a \<Rightarrow> ('x, 'b) fm) \<Rightarrow> (fs_error + 'a) \<times> 'x fworld \<Rightarrow> (fs_error + 'b) \<times> 'x fworld" where
  "bind_k f p = (case p of (Inl e, w) \<Rightarrow> (Inl e, w) | (Inr x, w) \<Rightarrow> f x w)"

definition handle_k :: "(fs_error + 'a \<Rightarrow> ('x, 'b) fm) \<Rightarrow> (fs_error + 'a) \<times> 'x fworld \<Rightarrow> (fs_error + 'b) \<times> 'x fworld" where
  "handle_k k p = (case p of (r, w) \<Rightarrow> k r w)"

lemma bind_k_cong: "p = p' \<Longrightarrow> bind_k f p = bind_k f p'" by simp

lemma handle_k_cong: "p = p' \<Longrightarrow> handle_k k p = handle_k k p'" by simp

lemma fbind_cong: "fbind m f w = fbind m f w" by simp

lemma fhandle_cong: "fhandle m k w = fhandle m k w" by simp

lemma k_simps: "bind_k f (Inl e, w) = (Inl e, w)" "bind_k f (Inr x, w) = f x w" "handle_k k (r, w) = k r w"
  by (simp_all add: bind_k_def handle_k_def)

lemma fbind_k: "fbind m f w = bind_k f (m w)"
  by (simp add: fbind_def bind_k_def split: prod.split sum.split)

lemma fhandle_k: "fhandle m k w = handle_k k (m w)"
  by (simp add: fhandle_def handle_k_def)

lemmas fs_run = fbind_k fhandle_k k_simps fret_def fthrow_def ftick_def fnow_def

subsection \<open>What a transaction did\<close>

text \<open>
  \<open>in_tx m P\<close>: run in an open transaction, \<open>m\<close> changes nothing but its copy of the tables, and \<open>P\<close>
  relates the time of the transaction, the copy before, the result and the copy after. There is one
  rule per combinator; \<open>in_tx_InTx\<close> turns the relation into one on the committed tables.
\<close>

definition in_tx :: "('x, 'a) fm \<Rightarrow> (time \<Rightarrow> fdb \<Rightarrow> fs_error + 'a \<Rightarrow> fdb \<Rightarrow> bool) \<Rightarrow> bool" where
  "in_tx m P \<longleftrightarrow> (\<forall>w t r w'. fw_tx w = Some t \<longrightarrow> m w = (r, w') \<longrightarrow>
     (\<exists>t'. fw_tx w' = Some t' \<and> ft_now t' = ft_now t \<and> fw_db w' = fw_db w \<and> fw_ext w' = fw_ext w \<and> fw_bus w' = fw_bus w \<and>
           P (ft_now t) (ft_db t) r (ft_db t')))"

lemma in_txD:
  assumes "in_tx m P" and "fw_tx w = Some t" and "m w = (r, w')"
  obtains t' where "fw_tx w' = Some t'" and "ft_now t' = ft_now t" and "fw_db w' = fw_db w" and "fw_ext w' = fw_ext w"
    and "fw_bus w' = fw_bus w" and "P (ft_now t) (ft_db t) r (ft_db t')"
  using assms unfolding in_tx_def by blast

lemma in_txI:
  assumes "\<And>w t r w'. fw_tx w = Some t \<Longrightarrow> m w = (r, w') \<Longrightarrow>
    \<exists>t'. fw_tx w' = Some t' \<and> ft_now t' = ft_now t \<and> fw_db w' = fw_db w \<and> fw_ext w' = fw_ext w \<and> fw_bus w' = fw_bus w \<and>
         P (ft_now t) (ft_db t) r (ft_db t')"
  shows "in_tx m P"
  using assms unfolding in_tx_def by blast

lemma in_tx_weaken: "in_tx m P \<Longrightarrow> (\<And>n d r d'. P n d r d' \<Longrightarrow> Q n d r d') \<Longrightarrow> in_tx m Q"
  unfolding in_tx_def by blast

lemma in_tx_at: "(\<And>w. in_tx (m w) P) \<Longrightarrow> in_tx (\<lambda>w. m w w) P"
  unfolding in_tx_def by blast

lemma in_tx_fret: "in_tx (fret x) (\<lambda>n d r d'. r = Inr x \<and> d' = d)"
  by (rule in_txI) (auto simp: fret_def)

lemma in_tx_fthrow: "in_tx (fthrow e) (\<lambda>n d r d'. r = Inl e \<and> d' = d)"
  by (rule in_txI) (auto simp: fthrow_def)

lemma in_tx_fexec: "in_tx (fexec E st) (\<lambda>n d r d'. (r, d') = st n d \<or> r = Inl FsUnavailable \<and> d' = d)"
proof (rule in_txI)
  fix w :: "'x fworld" and t r w' assume t: "fw_tx w = Some t" and m: "fexec E st w = (r, w')"
  obtain r0 d0 where s: "st (ft_now t) (ft_db t) = (r0, d0)" by fastforce
  show "\<exists>t'. fw_tx w' = Some t' \<and> ft_now t' = ft_now t \<and> fw_db w' = fw_db w \<and> fw_ext w' = fw_ext w \<and> fw_bus w' = fw_bus w \<and>
          ((r, ft_db t') = st (ft_now t) (ft_db t) \<or> r = Inl FsUnavailable \<and> ft_db t' = ft_db t)"
    using m t s by (cases "fe_fate E (fw_calls w) = Done") (auto simp: fexec_def)
qed

lemma in_tx_fbind:
  assumes "in_tx m P" and "\<And>x. in_tx (f x) (Q x)"
  shows "in_tx (fbind m f) (\<lambda>n d r d''. (\<exists>e. r = Inl e \<and> P n d (Inl e) d'') \<or> (\<exists>x d'. P n d (Inr x) d' \<and> Q x n d' r d''))"
proof (rule in_txI)
  fix w :: "'a fworld" and t r w' assume t: "fw_tx w = Some t" and b: "fbind m f w = (r, w')"
  obtain r1 w1 where m: "m w = (r1, w1)" by fastforce
  obtain t1 where d1: "fw_tx w1 = Some t1" "ft_now t1 = ft_now t" "fw_db w1 = fw_db w" "fw_ext w1 = fw_ext w"
      "fw_bus w1 = fw_bus w" "P (ft_now t) (ft_db t) r1 (ft_db t1)"
    by (rule in_txD [OF assms(1) t m])
  show "\<exists>t'. fw_tx w' = Some t' \<and> ft_now t' = ft_now t \<and> fw_db w' = fw_db w \<and> fw_ext w' = fw_ext w \<and> fw_bus w' = fw_bus w \<and>
      ((\<exists>e. r = Inl e \<and> P (ft_now t) (ft_db t) (Inl e) (ft_db t')) \<or>
       (\<exists>x d'. P (ft_now t) (ft_db t) (Inr x) d' \<and> Q x (ft_now t) d' r (ft_db t')))"
  proof (cases r1)
    case (Inl e) then show ?thesis using b m d1 by (auto simp: fbind_def)
  next
    case (Inr x)
    have f: "f x w1 = (r, w')" using b m Inr by (simp add: fbind_def)
    obtain t2 where "fw_tx w' = Some t2" "ft_now t2 = ft_now t1" "fw_db w' = fw_db w1" "fw_ext w' = fw_ext w1"
      "fw_bus w' = fw_bus w1" "Q x (ft_now t1) (ft_db t1) r (ft_db t2)"
      by (rule in_txD [OF assms(2) d1(1) f])
    then show ?thesis using d1 Inr by auto
  qed
qed

lemma in_tx_fhandle:
  assumes "in_tx m P" and "\<And>x. in_tx (k x) (Q x)"
  shows "in_tx (fhandle m k) (\<lambda>n d r d''. \<exists>x d'. P n d x d' \<and> Q x n d' r d'')"
proof (rule in_txI)
  fix w :: "'a fworld" and t r w' assume t: "fw_tx w = Some t" and b: "fhandle m k w = (r, w')"
  obtain r1 w1 where m: "m w = (r1, w1)" by fastforce
  obtain t1 where d1: "fw_tx w1 = Some t1" "ft_now t1 = ft_now t" "fw_db w1 = fw_db w" "fw_ext w1 = fw_ext w"
      "fw_bus w1 = fw_bus w" "P (ft_now t) (ft_db t) r1 (ft_db t1)"
    by (rule in_txD [OF assms(1) t m])
  have k: "k r1 w1 = (r, w')" using b m by (simp add: fhandle_def)
  obtain t2 where "fw_tx w' = Some t2" "ft_now t2 = ft_now t1" "fw_db w' = fw_db w1" "fw_ext w' = fw_ext w1"
      "fw_bus w' = fw_bus w1" "Q r1 (ft_now t1) (ft_db t1) r (ft_db t2)"
    by (rule in_txD [OF assms(2) d1(1) k])
  then show "\<exists>t'. fw_tx w' = Some t' \<and> ft_now t' = ft_now t \<and> fw_db w' = fw_db w \<and> fw_ext w' = fw_ext w \<and> fw_bus w' = fw_bus w \<and>
      (\<exists>x d'. P (ft_now t) (ft_db t) x d' \<and> Q x (ft_now t) d' r (ft_db t'))"
    using d1 by auto
qed

text \<open>The same of a run that succeeds, the only ones a transaction commits.\<close>

definition ok_tx :: "('x, 'a) fm \<Rightarrow> (time \<Rightarrow> fdb \<Rightarrow> 'a \<Rightarrow> fdb \<Rightarrow> bool) \<Rightarrow> bool" where
  "ok_tx m P \<longleftrightarrow> in_tx m (\<lambda>n d r d'. \<forall>x. r = Inr x \<longrightarrow> P n d x d')"

lemma ok_tx_weaken: "ok_tx m P \<Longrightarrow> (\<And>n d x d'. P n d x d' \<Longrightarrow> Q n d x d') \<Longrightarrow> ok_tx m Q"
  unfolding ok_tx_def by (erule in_tx_weaken) blast

lemma ok_tx_at: "(\<And>w. ok_tx (m w) P) \<Longrightarrow> ok_tx (\<lambda>w. m w w) P"
  unfolding ok_tx_def by (rule in_tx_at)

lemma ok_tx_fret: "ok_tx (fret x) (\<lambda>n d y d'. y = x \<and> d' = d)"
  unfolding ok_tx_def by (rule in_tx_weaken [OF in_tx_fret]) simp

lemma ok_tx_fthrow: "ok_tx (fthrow e) P"
  unfolding ok_tx_def by (rule in_tx_weaken [OF in_tx_fthrow]) simp

lemma ok_tx_fexec: "ok_tx (fexec E st) (\<lambda>n d x d'. st n d = (Inr x, d'))"
  unfolding ok_tx_def by (rule in_tx_weaken [OF in_tx_fexec]) auto

lemma ok_tx_fbind:
  assumes "ok_tx m P" and "\<And>x. ok_tx (f x) (Q x)"
  shows "ok_tx (fbind m f) (\<lambda>n d y d''. \<exists>x d'. P n d x d' \<and> Q x n d' y d'')"
  unfolding ok_tx_def
  by (rule in_tx_weaken [OF in_tx_fbind [OF assms [unfolded ok_tx_def]]]) blast

lemma ok_tx_fhandle:
  assumes "in_tx m P" and "\<And>x. ok_tx (k x) (Q x)"
  shows "ok_tx (fhandle m k) (\<lambda>n d y d''. \<exists>x d'. P n d x d' \<and> Q x n d' y d'')"
  unfolding ok_tx_def
  by (rule in_tx_weaken [OF in_tx_fhandle [OF assms [unfolded ok_tx_def]]]) blast

lemma ok_tx_if: "ok_tx m P \<Longrightarrow> ok_tx m' Q \<Longrightarrow> ok_tx (if c then m else m') (\<lambda>n d y d'. if c then P n d y d' else Q n d y d')"
  by simp

text \<open>A loop that succeeds made one step per element.\<close>

primrec steps :: "('a \<Rightarrow> fdb \<Rightarrow> 'b \<Rightarrow> fdb \<Rightarrow> bool) \<Rightarrow> 'a list \<Rightarrow> fdb \<Rightarrow> 'b list \<Rightarrow> fdb \<Rightarrow> bool" where
  "steps P [] d ys d' \<longleftrightarrow> ys = [] \<and> d' = d"
| "steps P (x # xs) d ys d' \<longleftrightarrow> (\<exists>y d1 ys1. P x d y d1 \<and> steps P xs d1 ys1 d' \<and> ys = y # ys1)"

lemma ok_tx_feach:
  assumes "\<And>x. ok_tx (f x) (P x)"
  shows "ok_tx (feach f xs) (\<lambda>n d ys d'. steps (\<lambda>x. P x n) xs d ys d')"
proof (induction xs)
  case Nil then show ?case by (simp add: ok_tx_fret)
next
  case (Cons x xs)
  show ?case unfolding feach.simps
    by (rule ok_tx_weaken [OF ok_tx_fbind [OF assms ok_tx_fbind [OF Cons ok_tx_fret]]]) auto
qed

lemma steps_keep:
  assumes "\<And>x d y d'. P x d y d' \<Longrightarrow> I d \<Longrightarrow> I d'"
  shows "steps P xs d ys d' \<Longrightarrow> I d \<Longrightarrow> I d'"
  by (induction xs arbitrary: d ys) (auto intro: assms)

lemma steps_fold: "(\<And>x d y d'. P x d y d' \<Longrightarrow> d' = g x d) \<Longrightarrow> steps P xs d ys d' \<Longrightarrow> d' = fold g xs d"
  by (induction xs arbitrary: d ys) auto

lemma steps_results: "(\<And>x d y d'. P x d y d' \<Longrightarrow> h y = k x) \<Longrightarrow> steps P xs d ys d' \<Longrightarrow> map h ys = map k xs"
  by (induction xs arbitrary: d ys) auto

lemma steps_seen:
  assumes step: "\<And>x d y d'. P x d y d' \<Longrightarrow> I d \<Longrightarrow> I d' \<and> A d d' \<and> S x d'"
    and later: "\<And>x d d'. S x d \<Longrightarrow> A d d' \<Longrightarrow> S x d'"
    and refl: "\<And>d. A d d" and trans: "\<And>a b c. A a b \<Longrightarrow> A b c \<Longrightarrow> A a c"
  shows "steps P xs d ys d' \<Longrightarrow> I d \<Longrightarrow> I d' \<and> A d d' \<and> (\<forall>x \<in> set xs. S x d')"
proof (induction xs arbitrary: d ys)
  case Nil then show ?case using refl by simp
next
  case (Cons x xs)
  then obtain y d1 ys1 where s: "P x d y d1" "steps P xs d1 ys1 d'" by auto
  have 1: "I d1 \<and> A d d1 \<and> S x d1" using step [OF s(1) Cons.prems(2)] .
  have "I d' \<and> A d1 d' \<and> (\<forall>x \<in> set xs. S x d')" using Cons.IH [OF s(2)] 1 by blast
  then show ?case using 1 later trans by (metis set_ConsD)
qed

lemma steps_where: "steps P xs d ys d' \<Longrightarrow> \<forall>y \<in> set ys. Q y \<Longrightarrow> steps (\<lambda>x d y d'. P x d y d' \<and> Q y) xs d ys d'"
  by (induction xs arbitrary: d ys) (auto, blast)

text \<open>A transaction: the tables it left, and whether the caller knows.\<close>

lemma in_tx_InTx:
  assumes P: "in_tx body P" and c: "InTx E body w = (r, w')"
  shows "fw_tx w' = None \<or> fw_tx w' = fw_tx w" and "fw_ext w' = fw_ext w" and "fw_bus w' = fw_bus w"
    and "(\<exists>e. r = Inl e \<and> fw_db w' = fw_db w) \<or>
         (\<exists>x. P (fnow E w) (fw_db w) (Inr x) (fw_db w') \<and> (r = Inr x \<or> r = Inl FsUnavailable))"
proof -
  let ?t0 = "\<lparr>ft_now = fnow E w, ft_db = fw_db w\<rparr>"
  let ?w0 = "(ftick w)\<lparr>fw_tx := Some ?t0\<rparr>"
  obtain r1 w1 where b: "body ?w0 = (r1, w1)" by fastforce
  have t0: "fw_tx ?w0 = Some ?t0" by simp
  obtain t1 where "fw_tx w1 = Some t1" "fw_db w1 = fw_db ?w0" "fw_ext w1 = fw_ext ?w0" "fw_bus w1 = fw_bus ?w0"
      "P (ft_now ?t0) (ft_db ?t0) r1 (ft_db t1)"
    by (rule in_txD [OF P t0 b])
  then show "fw_tx w' = None \<or> fw_tx w' = fw_tx w" "fw_ext w' = fw_ext w" "fw_bus w' = fw_bus w"
      "(\<exists>e. r = Inl e \<and> fw_db w' = fw_db w) \<or>
         (\<exists>x. P (fnow E w) (fw_db w) (Inr x) (fw_db w') \<and> (r = Inr x \<or> r = Inl FsUnavailable))"
    using c b by (auto simp: InTx_def split: if_splits sum.splits fate.splits)
qed

lemma ok_tx_InTx:
  assumes P: "ok_tx body P" and c: "InTx E body w = (r, w')"
  shows "(\<exists>e. r = Inl e \<and> fw_db w' = fw_db w) \<or>
         (\<exists>x. P (fnow E w) (fw_db w) x (fw_db w') \<and> (r = Inr x \<or> r = Inl FsUnavailable))"
  using in_tx_InTx(4) [OF P [unfolded ok_tx_def] c] by auto

end
