(* ===== verification/FsQueries.thy ===== *)
theory FsQueries
  imports FsSchema
begin

section \<open>offline-sync-app: the SQL statements\<close>

text \<open>
  The statements of \<open>offline-sync-app/internal/db/queries.sql.go\<close>, one \<open>fq_X\<close> per method \<open>X\<close>, with
  the constraints of the migrations. Identifiers the server draws are arguments. A row lock
  (\<open>FOR UPDATE\<close>) has no effect on a single session, and \<open>SKIP LOCKED\<close> is an argument telling whether
  another session holds the row. A single-row result over no rows is \<open>FsNoRows\<close>.
\<close>

definition one_row :: "'r list \<Rightarrow> fs_error + 'r" where
  "one_row rows = (case rows of [] \<Rightarrow> Inl FsNoRows | r # _ \<Rightarrow> Inr r)"

subsection \<open>Locations, site assessments, photos\<close>

definition set_location :: "location_row \<Rightarrow> location_row \<Rightarrow> location_row" where
  "set_location n r = r\<lparr>lc_name := lc_name n, lc_lat := lc_lat n, lc_lon := lc_lon n, lc_updated := lc_updated n\<rparr>"

definition fq_UpsertLocation :: "location_row \<Rightarrow> location_row fstmt" where
  "fq_UpsertLocation n t d =
     (case filter (\<lambda>r. lc_id r = lc_id n) (f_locations d) of
        [] \<Rightarrow> (Inr n, d\<lparr>f_locations := f_locations d @ [n]\<rparr>)
      | r # _ \<Rightarrow>
          if lc_updated n > lc_updated r
          then (Inr (set_location n r), d\<lparr>f_locations := update_where (\<lambda>x. lc_id x = lc_id n) (set_location n) (f_locations d)\<rparr>)
          else (Inl FsNoRows, d))"

definition fq_GetLocation :: "uuid \<Rightarrow> location_row fstmt" where
  "fq_GetLocation i t d = (one_row (filter (\<lambda>r. lc_id r = i) (f_locations d)), d)"

definition set_site :: "site_row \<Rightarrow> site_row \<Rightarrow> site_row" where
  "set_site n r = r\<lparr>sa_name := sa_name n, sa_notes := sa_notes n, sa_updated := sa_updated n\<rparr>"

definition fq_UpsertSiteAssessment :: "site_row \<Rightarrow> site_row fstmt" where
  "fq_UpsertSiteAssessment n t d =
     (case filter (\<lambda>r. sa_id r = sa_id n) (f_sites d) of
        [] \<Rightarrow>
          if sa_location n \<notin> lc_id ` set (f_locations d) then (Inl (FsConstraint ''site_assessments_location_id_fkey''), d)
          else (Inr n, d\<lparr>f_sites := f_sites d @ [n]\<rparr>)
      | r # _ \<Rightarrow>
          if sa_updated n > sa_updated r
          then (Inr (set_site n r), d\<lparr>f_sites := update_where (\<lambda>x. sa_id x = sa_id n) (set_site n) (f_sites d)\<rparr>)
          else (Inl FsNoRows, d))"

definition fq_GetSiteAssessment :: "uuid \<Rightarrow> site_row fstmt" where
  "fq_GetSiteAssessment i t d = (one_row (filter (\<lambda>r. sa_id r = i) (f_sites d)), d)"

definition fq_ListSiteAssessmentsByLocation :: "uuid \<Rightarrow> site_row list fstmt" where
  "fq_ListSiteAssessmentsByLocation l t d = (Inr (sort_key sa_created (filter (\<lambda>r. sa_location r = l) (f_sites d))), d)"

definition set_photo :: "photo_row \<Rightarrow> photo_row \<Rightarrow> photo_row" where
  "set_photo n r = r\<lparr>ph_key := ph_key n, ph_lat := ph_lat n, ph_lon := ph_lon n, ph_condition := ph_condition n,
                     ph_updated := ph_updated n\<rparr>"

definition conditions :: "string set" where "conditions = {''good'', ''moderate'', ''bad''}"

definition site_photos :: "uuid \<Rightarrow> fdb \<Rightarrow> nat" where
  "site_photos s d = count_where (\<lambda>r. ph_site r = s) (f_photos d)"

text \<open>The \<open>SELECT ... WHERE\<close> in front of the insert lets a new photo in only below ten; an existing one always.\<close>

definition fq_UpsertPhoto :: "photo_row \<Rightarrow> photo_row fstmt" where
  "fq_UpsertPhoto n t d =
     (let old = filter (\<lambda>r. ph_id r = ph_id n) (f_photos d) in
      if old = [] \<and> \<not> site_photos (ph_site n) d < 10 then (Inl FsNoRows, d)
      else if ph_condition n \<notin> conditions then (Inl (FsConstraint ''photos_condition_check''), d)
      else
        (case old of
           [] \<Rightarrow>
             if ph_site n \<notin> sa_id ` set (f_sites d) then (Inl (FsConstraint ''photos_site_assessment_id_fkey''), d)
             else (Inr n, d\<lparr>f_photos := f_photos d @ [n]\<rparr>)
         | r # _ \<Rightarrow>
             if ph_updated n > ph_updated r
             then (Inr (set_photo n r), d\<lparr>f_photos := update_where (\<lambda>x. ph_id x = ph_id n) (set_photo n) (f_photos d)\<rparr>)
             else (Inl FsNoRows, d)))"

definition fq_GetPhoto :: "uuid \<Rightarrow> photo_row fstmt" where
  "fq_GetPhoto i t d = (one_row (filter (\<lambda>r. ph_id r = i) (f_photos d)), d)"

definition fq_ListPhotosBySite :: "uuid \<Rightarrow> photo_row list fstmt" where
  "fq_ListPhotosBySite s t d = (Inr (sort_key ph_created (filter (\<lambda>r. ph_site r = s) (f_photos d))), d)"

definition fq_CountPhotosBySite :: "uuid \<Rightarrow> int fstmt" where
  "fq_CountPhotosBySite s t d = (Inr (int (site_photos s d)), d)"

text \<open>The photos of a location, one per matching pair of the join, counted by condition.\<close>

definition location_photos :: "uuid \<Rightarrow> fdb \<Rightarrow> photo_row list" where
  "location_photos l d =
     concat (map (\<lambda>p. map (\<lambda>_. p) (filter (\<lambda>s. sa_id s = ph_site p \<and> sa_location s = l) (f_sites d))) (f_photos d))"

definition fq_CountPhotosByConditionForLocation :: "uuid \<Rightarrow> (string \<times> int) list fstmt" where
  "fq_CountPhotosByConditionForLocation l t d =
     (let ps = location_photos l d in
      (Inr (map (\<lambda>c. (c, int (count_where (\<lambda>p. ph_condition p = c) ps))) (remdups (map ph_condition ps))), d))"

definition fq_UpsertLocationStats :: "uuid \<Rightarrow> int \<Rightarrow> int \<Rightarrow> int \<Rightarrow> unit fstmt" where
  "fq_UpsertLocationStats l good moderate bad t d =
     (let r = \<lparr>st_location = l, st_good = good, st_moderate = moderate, st_bad = bad, st_updated = t\<rparr> in
      if l \<in> st_location ` set (f_stats d)
      then (Inr (), d\<lparr>f_stats := update_where (\<lambda>x. st_location x = l) (\<lambda>_. r) (f_stats d)\<rparr>)
      else if l \<notin> lc_id ` set (f_locations d) then (Inl (FsConstraint ''location_stats_location_id_fkey''), d)
      else (Inr (), d\<lparr>f_stats := f_stats d @ [r]\<rparr>))"

definition fq_GetLocationStats :: "uuid \<Rightarrow> stats_row fstmt" where
  "fq_GetLocationStats l t d = (one_row (filter (\<lambda>r. st_location r = l) (f_stats d)), d)"

subsection \<open>Domain events and their consumers\<close>

definition fq_InsertDomainEvent ::
    "uuid \<Rightarrow> string \<Rightarrow> uuid \<Rightarrow> string \<Rightarrow> int \<Rightarrow> json \<Rightarrow> string \<Rightarrow> fs_event fstmt" where
  "fq_InsertDomainEvent i agg aggid ty schema payload actor t d =
     (let r = \<lparr>fv_id = i, fv_aggregate = agg, fv_aggregate_id = aggid, fv_type = ty, fv_schema = schema,
               fv_payload = payload, fv_actor = actor, fv_at = t, fv_published = None\<rparr> in
      if i \<in> fv_id ` set (f_events d) then (Inl (FsConstraint ''domain_events_pkey''), d)
      else (Inr r, d\<lparr>f_events := f_events d @ [r]\<rparr>))"

definition fq_ListUnpublishedEvents :: "nat \<Rightarrow> fs_event list fstmt" where
  "fq_ListUnpublishedEvents n t d = (Inr (take n (sort_key fv_at (filter (\<lambda>r. fv_published r = None) (f_events d)))), d)"

definition fq_MarkEventPublished :: "uuid \<Rightarrow> unit fstmt" where
  "fq_MarkEventPublished i t d =
     (Inr (), d\<lparr>f_events := update_where (\<lambda>r. fv_id r = i) (\<lambda>r. r\<lparr>fv_published := Some t\<rparr>) (f_events d)\<rparr>)"

definition fq_ListUnprocessedEventsForConsumer :: "string \<Rightarrow> nat \<Rightarrow> string list \<Rightarrow> fs_event list fstmt" where
  "fq_ListUnprocessedEventsForConsumer consumer n types t d =
     (Inr (take n (sort_key fv_at (filter (\<lambda>r. (fv_id r, consumer) \<notin> set (f_processed d) \<and> fv_type r \<in> set types) (f_events d)))), d)"

definition fq_MarkEventProcessed :: "uuid \<Rightarrow> string \<Rightarrow> unit fstmt" where
  "fq_MarkEventProcessed i consumer t d =
     (Inr (), if (i, consumer) \<in> set (f_processed d) then d else d\<lparr>f_processed := f_processed d @ [(i, consumer)]\<rparr>)"

definition fq_IsEventProcessed :: "uuid \<Rightarrow> string \<Rightarrow> bool fstmt" where
  "fq_IsEventProcessed i consumer t d = (Inr ((i, consumer) \<in> set (f_processed d)), d)"

subsection \<open>Connections\<close>

definition fq_InsertWSConnection :: "string \<Rightarrow> string \<Rightarrow> uuid \<Rightarrow> unit fstmt" where
  "fq_InsertWSConnection i user loc t d =
     (if i \<in> wc_id ` set (f_conns d) then (Inl (FsConstraint ''ws_connections_pkey''), d)
      else (Inr (), d\<lparr>f_conns := f_conns d @ [\<lparr>wc_id = i, wc_user = user, wc_location = loc, wc_at = t\<rparr>]\<rparr>))"

definition fq_DeleteWSConnection :: "string \<Rightarrow> unit fstmt" where
  "fq_DeleteWSConnection i t d = (Inr (), d\<lparr>f_conns := filter (\<lambda>r. wc_id r \<noteq> i) (f_conns d)\<rparr>)"

definition fq_ListWSConnectionsByLocation :: "uuid \<Rightarrow> fs_conn list fstmt" where
  "fq_ListWSConnectionsByLocation l t d = (Inr (filter (\<lambda>r. wc_location r = l) (f_conns d)), d)"

subsection \<open>Work items and their links\<close>

definition fq_GetWorkItemForUpdate :: "uuid \<Rightarrow> work_item fstmt" where
  "fq_GetWorkItemForUpdate i t d = (one_row (filter (\<lambda>r. wi_id r = i) (f_items d)), d)"

definition set_item :: "time \<Rightarrow> string \<Rightarrow> string \<Rightarrow> string \<Rightarrow> bool \<Rightarrow> work_item \<Rightarrow> work_item" where
  "set_item t title status notes deleted r =
     r\<lparr>wi_title := title, wi_status := status, wi_notes := notes,
       wi_deleted := (if deleted then Some (case wi_deleted r of Some x \<Rightarrow> x | None \<Rightarrow> t) else None), wi_updated := t\<rparr>"

definition fq_UpsertWorkItem :: "uuid \<Rightarrow> string \<Rightarrow> string \<Rightarrow> string \<Rightarrow> bool \<Rightarrow> work_item fstmt" where
  "fq_UpsertWorkItem i title status notes deleted t d =
     (case filter (\<lambda>r. wi_id r = i) (f_items d) of
        [] \<Rightarrow>
          (let r = \<lparr>wi_id = i, wi_title = title, wi_status = status, wi_notes = notes,
                    wi_deleted = (if deleted then Some t else None), wi_created = t, wi_updated = t\<rparr>
           in (Inr r, d\<lparr>f_items := f_items d @ [r]\<rparr>))
      | r # _ \<Rightarrow>
          (Inr (set_item t title status notes deleted r),
           d\<lparr>f_items := update_where (\<lambda>x. wi_id x = i) (set_item t title status notes deleted) (f_items d)\<rparr>))"

definition fq_UpdateWorkItemNotes :: "uuid \<Rightarrow> string \<Rightarrow> work_item fstmt" where
  "fq_UpdateWorkItemNotes i notes t d =
     (let P = (\<lambda>r. wi_id r = i \<and> wi_deleted r = None); f = (\<lambda>r. r\<lparr>wi_notes := notes, wi_updated := t\<rparr>) in
      (one_row (map f (filter P (f_items d))), d\<lparr>f_items := update_where P f (f_items d)\<rparr>))"

definition link_key :: "string \<Rightarrow> string \<Rightarrow> link_row \<Rightarrow> bool" where
  "link_key system ext r \<longleftrightarrow> lk_system r = system \<and> lk_external r = ext"

definition fq_InsertExternalLink :: "string \<Rightarrow> string \<Rightarrow> uuid \<Rightarrow> unit fstmt" where
  "fq_InsertExternalLink system ext i t d =
     (if \<exists>r \<in> set (f_links d). link_key system ext r then (Inr (), d)
      else if \<exists>r \<in> set (f_links d). lk_system r = system \<and> lk_internal r = i
      then (Inl (FsConstraint ''external_id_map_system_internal_id_key''), d)
      else (Inr (), d\<lparr>f_links := f_links d @ [\<lparr>lk_system = system, lk_external = ext, lk_internal = i, lk_version = 0\<rparr>]\<rparr>))"

definition fq_GetExternalLink :: "string \<Rightarrow> string \<Rightarrow> link_row fstmt" where
  "fq_GetExternalLink system ext t d = (one_row (filter (link_key system ext) (f_links d)), d)"

definition fq_GetExternalLinkByInternal :: "string \<Rightarrow> uuid \<Rightarrow> link_row fstmt" where
  "fq_GetExternalLinkByInternal system i t d =
     (one_row (filter (\<lambda>r. lk_system r = system \<and> lk_internal r = i) (f_links d)), d)"

definition fq_AdvanceLinkVersion :: "string \<Rightarrow> string \<Rightarrow> int \<Rightarrow> link_row fstmt" where
  "fq_AdvanceLinkVersion system ext version t d =
     (let P = (\<lambda>r. link_key system ext r \<and> lk_version r < version); f = (\<lambda>r. r\<lparr>lk_version := version\<rparr>) in
      (one_row (map f (filter P (f_links d))), d\<lparr>f_links := update_where P f (f_links d)\<rparr>))"

definition fq_GetSyncPushed :: "string \<Rightarrow> uuid \<Rightarrow> pushed_row fstmt" where
  "fq_GetSyncPushed system i t d = (one_row (filter (\<lambda>r. pu_system r = system \<and> pu_internal r = i) (f_pushed d)), d)"

definition fq_UpsertSyncPushed :: "string \<Rightarrow> uuid \<Rightarrow> int \<Rightarrow> string \<Rightarrow> unit fstmt" where
  "fq_UpsertSyncPushed system i version hash t d =
     (let n = \<lparr>pu_system = system, pu_internal = i, pu_version = version, pu_hash = hash, pu_at = t\<rparr>;
          K = (\<lambda>r. pu_system r = system \<and> pu_internal r = i) in
      (Inr (), if \<exists>r \<in> set (f_pushed d). K r
               then d\<lparr>f_pushed := update_where (\<lambda>r. K r \<and> pu_version r < version) (\<lambda>_. n) (f_pushed d)\<rparr>
               else d\<lparr>f_pushed := f_pushed d @ [n]\<rparr>))"

definition fq_GetSyncState :: "string \<Rightarrow> sync_state fstmt" where
  "fq_GetSyncState system t d = (one_row (filter (\<lambda>r. sy_system r = system) (f_sync d)), d)"

definition fq_UpsertSyncState ::
    "string \<Rightarrow> time option \<Rightarrow> time option \<Rightarrow> string \<Rightarrow> time option \<Rightarrow> unit fstmt" where
  "fq_UpsertSyncState system watermark since cursor runMax t d =
     (let n = \<lparr>sy_system = system, sy_watermark = watermark, sy_since = since, sy_cursor = cursor, sy_max = runMax, sy_updated = t\<rparr> in
      (Inr (), if system \<in> sy_system ` set (f_sync d)
               then d\<lparr>f_sync := update_where (\<lambda>r. sy_system r = system) (\<lambda>_. n) (f_sync d)\<rparr>
               else d\<lparr>f_sync := f_sync d @ [n]\<rparr>))"

subsection \<open>The webhook inbox and dead letters\<close>

definition inbox_key :: "string \<Rightarrow> string \<Rightarrow> inbox_row \<Rightarrow> bool" where
  "inbox_key system delivery r \<longleftrightarrow> ib_system r = system \<and> ib_delivery r = delivery"

definition pending :: "inbox_row \<Rightarrow> bool" where
  "pending r \<longleftrightarrow> ib_processed r = None \<and> ib_dead r = None"

text \<open>The result is the number of rows inserted.\<close>

definition fq_InsertWebhookInbox :: "string \<Rightarrow> string \<Rightarrow> string \<Rightarrow> nat fstmt" where
  "fq_InsertWebhookInbox system delivery body t d =
     (if \<exists>r \<in> set (f_inbox d). inbox_key system delivery r then (Inr 0, d)
      else (Inr 1, d\<lparr>f_inbox := f_inbox d @ [\<lparr>ib_system = system, ib_delivery = delivery, ib_body = body, ib_received = t,
              ib_attempts = 0, ib_error = [], ib_outcome = [], ib_processed = None, ib_dead = None\<rparr>]\<rparr>))"

text \<open>\<open>ORDER BY received_at, delivery_id\<close>, as a stable sort by one after the other.\<close>

definition fq_ListPendingInbox :: "(string \<Rightarrow> rat) \<Rightarrow> string \<Rightarrow> nat \<Rightarrow> string list fstmt" where
  "fq_ListPendingInbox rank system n t d =
     (Inr (map ib_delivery (take n (sort_key ib_received (sort_key (\<lambda>r. rank (ib_delivery r))
        (filter (\<lambda>r. ib_system r = system \<and> pending r) (f_inbox d)))))), d)"

definition fq_ClaimInboxRow :: "bool \<Rightarrow> string \<Rightarrow> string \<Rightarrow> inbox_row fstmt" where
  "fq_ClaimInboxRow locked system delivery t d =
     (one_row (if locked then [] else filter (\<lambda>r. inbox_key system delivery r \<and> pending r) (f_inbox d)), d)"

definition update_inbox :: "string \<Rightarrow> string \<Rightarrow> (inbox_row \<Rightarrow> inbox_row) \<Rightarrow> fdb \<Rightarrow> fdb" where
  "update_inbox system delivery f d = d\<lparr>f_inbox := update_where (inbox_key system delivery) f (f_inbox d)\<rparr>"

definition fq_MarkInboxProcessed :: "string \<Rightarrow> string \<Rightarrow> string \<Rightarrow> unit fstmt" where
  "fq_MarkInboxProcessed system delivery outcome t d =
     (Inr (), update_inbox system delivery (\<lambda>r. r\<lparr>ib_processed := Some t, ib_outcome := outcome\<rparr>) d)"

definition fq_MarkInboxDead :: "string \<Rightarrow> string \<Rightarrow> unit fstmt" where
  "fq_MarkInboxDead system delivery t d = (Inr (), update_inbox system delivery (\<lambda>r. r\<lparr>ib_dead := Some t\<rparr>) d)"

definition fq_RecordInboxFailure :: "string \<Rightarrow> string \<Rightarrow> string \<Rightarrow> inbox_row fstmt" where
  "fq_RecordInboxFailure system delivery err t d =
     (let f = (\<lambda>r. r\<lparr>ib_attempts := ib_attempts r + 1, ib_error := err\<rparr>) in
      (one_row (map f (filter (inbox_key system delivery) (f_inbox d))), update_inbox system delivery f d))"

definition fq_InsertDeadLetter :: "string \<Rightarrow> string \<Rightarrow> string \<Rightarrow> string \<Rightarrow> string \<Rightarrow> int \<Rightarrow> unit fstmt" where
  "fq_InsertDeadLetter source system ref payload reason attempts t d =
     (if source \<notin> {''inbox'', ''loader''} then (Inl (FsConstraint ''sync_dead_letters_source_check''), d)
      else (Inr (), d\<lparr>f_dead := f_dead d @ [\<lparr>dl_source = source, dl_system = system, dl_ref = ref, dl_payload = payload,
              dl_reason = reason, dl_attempts = attempts, dl_created = t\<rparr>]\<rparr>))"

definition fq_ListDeadLetters :: "string \<Rightarrow> dead_letter list fstmt" where
  "fq_ListDeadLetters system t d = (Inr (sort_key dl_created (filter (\<lambda>r. dl_system r = system) (f_dead d))), d)"

end
