(* ===== verification/FsSync.thy ===== *)
theory FsSync
  imports FsQueries
begin

section \<open>offline-sync-app: syncing what was captured offline\<close>

text \<open>
  \<open>internal/sync\<close> and \<open>internal/events\<close>: a batch of locations, site assessments and photos captured
  offline is applied in one transaction, last writer wins by \<open>updated_at\<close>, at most ten photos to a site,
  and each applied record writes one row of the outbox. Times of the input are nanoseconds, the
  columns keep microseconds.
\<close>

subsection \<open>Events\<close>

definition fs_SchemaVersion :: int where "fs_SchemaVersion = 1"

definition fs_Publish :: "fenv \<Rightarrow> string \<Rightarrow> uuid \<Rightarrow> string \<Rightarrow> json \<Rightarrow> string \<Rightarrow> ('x, unit) fm" where
  "fs_Publish E agg aggid ty payload actor w =
     fbind (fexec E (fq_InsertDomainEvent (fe_uuid E (fw_calls w)) agg aggid ty fs_SchemaVersion payload actor))
       (\<lambda>_. fret ()) w"

subsection \<open>Records and outcomes\<close>

datatype outcome = OutcomeApplied | OutcomeIgnoredStale | OutcomeConflict | OutcomeLimitExceeded | OutcomeEcho

record location_input =
  li_id :: uuid
  li_name :: string
  li_lat :: rat
  li_lon :: rat
  li_created :: int
  li_updated :: int

record site_input =
  si_id :: uuid
  si_location :: uuid
  si_name :: string
  si_notes :: string
  si_created :: int
  si_updated :: int

record photo_input =
  pi_id :: uuid
  pi_site :: uuid
  pi_key :: string
  pi_lat :: rat
  pi_lon :: rat
  pi_condition :: string
  pi_created :: int
  pi_updated :: int

record sync_request =
  rq_locations :: "location_input list"
  rq_sites :: "site_input list"
  rq_photos :: "photo_input list"

type_synonym record_result = "uuid \<times> outcome"

record sync_response =
  rs_locations :: "record_result list"
  rs_sites :: "record_result list"
  rs_photos :: "record_result list"

definition toTimestamptz :: "int \<Rightarrow> time" where "toTimestamptz t = t div 1000"

definition classifyBlocked :: "int \<Rightarrow> time \<Rightarrow> bool \<Rightarrow> outcome" where
  "classifyBlocked incoming stored contentEqual =
     (if incoming > stored * 1000 then OutcomeApplied
      else if incoming = stored * 1000 then (if contentEqual then OutcomeApplied else OutcomeConflict)
      else OutcomeIgnoredStale)"

subsection \<open>Applying a record\<close>

definition location_of :: "string \<Rightarrow> location_input \<Rightarrow> location_row" where
  "location_of actor i =
     \<lparr>lc_id = li_id i, lc_name = li_name i, lc_lat = li_lat i, lc_lon = li_lon i,
      lc_created = toTimestamptz (li_created i), lc_updated = toTimestamptz (li_updated i), lc_by = actor\<rparr>"

definition site_of :: "string \<Rightarrow> site_input \<Rightarrow> site_row" where
  "site_of actor i =
     \<lparr>sa_id = si_id i, sa_location = si_location i, sa_name = si_name i, sa_notes = si_notes i,
      sa_created = toTimestamptz (si_created i), sa_updated = toTimestamptz (si_updated i), sa_by = actor\<rparr>"

definition photo_of :: "string \<Rightarrow> photo_input \<Rightarrow> photo_row" where
  "photo_of actor i =
     \<lparr>ph_id = pi_id i, ph_site = pi_site i, ph_key = pi_key i, ph_lat = pi_lat i, ph_lon = pi_lon i, ph_condition = pi_condition i,
      ph_created = toTimestamptz (pi_created i), ph_updated = toTimestamptz (pi_updated i), ph_by = actor\<rparr>"

definition applyLocation :: "fenv \<Rightarrow> string \<Rightarrow> location_input \<Rightarrow> ('x, record_result) fm" where
  "applyLocation E actor i =
     fhandle (fexec E (fq_UpsertLocation (location_of actor i))) (\<lambda>r.
       case r of
         Inr _ \<Rightarrow> fret (li_id i, OutcomeApplied)
       | Inl e \<Rightarrow>
           if e \<noteq> FsNoRows then fthrow e
           else fbind (fexec E (fq_GetLocation (li_id i))) (\<lambda>old.
             fret (li_id i, classifyBlocked (li_updated i) (lc_updated old)
               (li_name i = lc_name old \<and> li_lat i = lc_lat old \<and> li_lon i = lc_lon old))))"

definition applySiteAssessment :: "fenv \<Rightarrow> string \<Rightarrow> site_input \<Rightarrow> ('x, record_result) fm" where
  "applySiteAssessment E actor i =
     fhandle (fexec E (fq_UpsertSiteAssessment (site_of actor i))) (\<lambda>r.
       case r of
         Inr _ \<Rightarrow> fret (si_id i, OutcomeApplied)
       | Inl e \<Rightarrow>
           if e \<noteq> FsNoRows then fthrow e
           else fbind (fexec E (fq_GetSiteAssessment (si_id i))) (\<lambda>old.
             fret (si_id i, classifyBlocked (si_updated i) (sa_updated old)
               (si_name i = sa_name old \<and> si_notes i = sa_notes old))))"

text \<open>No row after a blocked insert means that the site was full.\<close>

definition applyPhoto :: "fenv \<Rightarrow> string \<Rightarrow> photo_input \<Rightarrow> ('x, record_result) fm" where
  "applyPhoto E actor i =
     fhandle (fexec E (fq_UpsertPhoto (photo_of actor i))) (\<lambda>r.
       case r of
         Inr _ \<Rightarrow> fret (pi_id i, OutcomeApplied)
       | Inl e \<Rightarrow>
           if e \<noteq> FsNoRows then fthrow e
           else fhandle (fexec E (fq_GetPhoto (pi_id i))) (\<lambda>r.
             case r of
               Inl e \<Rightarrow> if e = FsNoRows then fret (pi_id i, OutcomeLimitExceeded) else fthrow e
             | Inr old \<Rightarrow>
                 fret (pi_id i, classifyBlocked (pi_updated i) (ph_updated old)
                   (pi_key i = ph_key old \<and> pi_lat i = ph_lat old \<and> pi_lon i = ph_lon old \<and> pi_condition i = ph_condition old))))"

definition Sync :: "fenv \<Rightarrow> string \<Rightarrow> sync_request \<Rightarrow> ('x, sync_response) fm" where
  "Sync E actor req =
     fbind (feach (applyLocation E actor) (rq_locations req)) (\<lambda>ls.
     fbind (feach (applySiteAssessment E actor) (rq_sites req)) (\<lambda>ss.
     fbind (feach (applyPhoto E actor) (rq_photos req)) (\<lambda>ps.
     fret \<lparr>rs_locations = ls, rs_sites = ss, rs_photos = ps\<rparr>)))"

subsection \<open>The transaction\<close>

text \<open>The payload of an event is the input record as \<open>encoding/json\<close> writes it.\<close>

definition location_payload :: "fenv \<Rightarrow> location_input \<Rightarrow> json" where
  "location_payload E i = JObject
     [(''id'', JString (fe_uuid_text E (li_id i))), (''name'', JString (li_name i)),
      (''latitude'', JNumber (fe_float E (li_lat i))), (''longitude'', JNumber (fe_float E (li_lon i))),
      (''createdAt'', JString (fe_time E (li_created i))), (''updatedAt'', JString (fe_time E (li_updated i)))]"

definition site_payload :: "fenv \<Rightarrow> site_input \<Rightarrow> json" where
  "site_payload E i = JObject
     [(''id'', JString (fe_uuid_text E (si_id i))), (''locationId'', JString (fe_uuid_text E (si_location i))),
      (''name'', JString (si_name i)), (''notes'', JString (si_notes i)),
      (''createdAt'', JString (fe_time E (si_created i))), (''updatedAt'', JString (fe_time E (si_updated i)))]"

definition photo_payload :: "fenv \<Rightarrow> photo_input \<Rightarrow> json" where
  "photo_payload E i = JObject
     [(''id'', JString (fe_uuid_text E (pi_id i))), (''siteAssessmentId'', JString (fe_uuid_text E (pi_site i))),
      (''s3Key'', JString (pi_key i)), (''latitude'', JNumber (fe_float E (pi_lat i))), (''longitude'', JNumber (fe_float E (pi_lon i))),
      (''condition'', JString (pi_condition i)),
      (''createdAt'', JString (fe_time E (pi_created i))), (''updatedAt'', JString (fe_time E (pi_updated i)))]"

definition publish_applied ::
    "fenv \<Rightarrow> string \<Rightarrow> string \<Rightarrow> string \<Rightarrow> ('i \<Rightarrow> uuid) \<Rightarrow> ('i \<Rightarrow> json) \<Rightarrow> 'i list \<Rightarrow> record_result list \<Rightarrow> ('x, unit list) fm" where
  "publish_applied E actor agg ty ident payload inputs results =
     feach (\<lambda>(i, _, out). if out \<noteq> OutcomeApplied then fret () else fs_Publish E agg (ident i) ty (payload i) actor)
       (zip inputs results)"

definition TxRunner_Sync :: "fenv \<Rightarrow> string \<Rightarrow> sync_request \<Rightarrow> ('x, sync_response) fm" where
  "TxRunner_Sync E actor req = InTx E (
     fbind (Sync E actor req) (\<lambda>resp.
     fbind (publish_applied E actor ''location'' ''location.upserted'' li_id (location_payload E) (rq_locations req) (rs_locations resp)) (\<lambda>_.
     fbind (publish_applied E actor ''site_assessment'' ''site_assessment.upserted'' si_id (site_payload E) (rq_sites req) (rs_sites resp)) (\<lambda>_.
     fbind (publish_applied E actor ''photo'' ''photo.upserted'' pi_id (photo_payload E) (rq_photos req) (rs_photos resp)) (\<lambda>_.
     fret resp)))))"

text \<open>A server at work: the batches it is sent, one after the other.\<close>

primrec run_syncs :: "fenv \<Rightarrow> (string \<times> sync_request) list \<Rightarrow> 'x fworld \<Rightarrow> (fs_error + sync_response) list \<times> 'x fworld" where
  "run_syncs E [] w = ([], w)"
| "run_syncs E (a # as) w =
     (let (r, w1) = TxRunner_Sync E (fst a) (snd a) w; (rs, w2) = run_syncs E as w1 in (r # rs, w2))"

subsection \<open>Last writer wins\<close>

definition lww_put :: "('r \<Rightarrow> uuid) \<Rightarrow> ('r \<Rightarrow> time) \<Rightarrow> ('r \<Rightarrow> 'r \<Rightarrow> 'r) \<Rightarrow> 'r \<Rightarrow> 'r list \<Rightarrow> 'r list" where
  "lww_put key stamp merge n rows =
     (case filter (\<lambda>r. key r = key n) rows of
        [] \<Rightarrow> rows @ [n]
      | r # _ \<Rightarrow> if stamp n > stamp r then update_where (\<lambda>x. key x = key n) (merge n) rows else rows)"

text \<open>No row is lost, none goes back in time, and none changes without a later stamp.\<close>

definition advances :: "('r \<Rightarrow> uuid) \<Rightarrow> ('r \<Rightarrow> time) \<Rightarrow> ('r \<Rightarrow> 'o) \<Rightarrow> 'r list \<Rightarrow> 'r list \<Rightarrow> bool" where
  "advances key stamp origin rows rows' \<longleftrightarrow>
     (\<forall>r \<in> set rows. \<exists>r' \<in> set rows'. key r' = key r \<and> origin r' = origin r \<and> stamp r \<le> stamp r' \<and> (stamp r = stamp r' \<longrightarrow> r' = r))"

text \<open>What a row shows: its stamp and the columns an edit sets.\<close>

definition row_shown :: "('r \<Rightarrow> uuid) \<Rightarrow> ('r \<Rightarrow> time) \<Rightarrow> ('r \<Rightarrow> 'c) \<Rightarrow> uuid \<Rightarrow> 'r list \<Rightarrow> (time \<times> 'c) option" where
  "row_shown key stamp content i rows = map_option (\<lambda>r. (stamp r, content r)) (find (\<lambda>r. key r = i) rows)"

primrec newest :: "(time \<times> 'c) list \<Rightarrow> (time \<times> 'c) option \<Rightarrow> (time \<times> 'c) option" where
  "newest [] u = u"
| "newest (x # xs) u = newest xs (case u of None \<Rightarrow> Some x | Some y \<Rightarrow> if fst x > fst y then Some x else Some y)"

lemma find_append: "find P (xs @ ys) = (case find P xs of None \<Rightarrow> find P ys | Some x \<Rightarrow> Some x)"
  by (induction xs) auto

locale lww_table =
  fixes key :: "'r \<Rightarrow> uuid" and stamp :: "'r \<Rightarrow> time" and merge :: "'r \<Rightarrow> 'r \<Rightarrow> 'r"
    and origin :: "'r \<Rightarrow> 'o" and content :: "'r \<Rightarrow> 'c"
  assumes key_merge [simp]: "key (merge n r) = key r"
    and stamp_merge [simp]: "stamp (merge n r) = stamp n"
    and origin_merge [simp]: "origin (merge n r) = origin r"
    and content_merge [simp]: "content (merge n r) = content n"
begin

lemma put_cases:
  obtains (fresh) "\<forall>r \<in> set rows. key r \<noteq> key n" "lww_put key stamp merge n rows = rows @ [n]"
  | (later) r where "r \<in> set rows" "key r = key n" "stamp r < stamp n"
      "lww_put key stamp merge n rows = update_where (\<lambda>x. key x = key n) (merge n) rows"
  | (stale) r where "r \<in> set rows" "key r = key n" "stamp n \<le> stamp r" "lww_put key stamp merge n rows = rows"
proof (cases "filter (\<lambda>r. key r = key n) rows")
  case Nil then show ?thesis using fresh by (auto simp: lww_put_def filter_empty_conv)
next
  case (Cons r rs)
  then have "r \<in> set (filter (\<lambda>r. key r = key n) rows)" by simp
  then have r: "r \<in> set rows" "key r = key n" by simp_all
  show ?thesis
  proof (cases "stamp r < stamp n")
    case True then show ?thesis using Cons by (intro later [OF r]) (simp_all add: lww_put_def)
  next
    case False then show ?thesis using Cons by (intro stale [OF r]) (simp_all add: lww_put_def)
  qed
qed

lemma keys_put: "map key (lww_put key stamp merge n rows) =
    (if \<exists>r \<in> set rows. key r = key n then map key rows else map key rows @ [key n])"
  by (rule put_cases [of rows n]) (auto simp: map_update_where)

lemma distinct_put: "distinct (map key rows) \<Longrightarrow> distinct (map key (lww_put key stamp merge n rows))"
  by (auto simp: keys_put)

lemma ids_put: "key ` set (lww_put key stamp merge n rows) = insert (key n) (key ` set rows)"
  using arg_cong [OF keys_put [of n rows], of set] by (auto split: if_splits intro: rev_image_eqI)

lemma same_row: "distinct (map key rows) \<Longrightarrow> r \<in> set rows \<Longrightarrow> r' \<in> set rows \<Longrightarrow> key r = key r' \<Longrightarrow> r = r'"
  by (meson distinct_map inj_onD)

lemma put_advances:
  assumes "distinct (map key rows)"
  shows "advances key stamp origin rows (lww_put key stamp merge n rows)"
proof (rule put_cases [of rows n])
  fix x assume x: "x \<in> set rows" "key x = key n" "stamp x < stamp n"
    and p: "lww_put key stamp merge n rows = update_where (\<lambda>x. key x = key n) (merge n) rows"
  show ?thesis unfolding advances_def
  proof (rule ballI)
    fix r assume r: "r \<in> set rows"
    let ?r = "if key r = key n then merge n r else r"
    have "?r \<in> set (lww_put key stamp merge n rows)" using r by (simp add: p set_update_where)
    moreover have "key r = key n \<Longrightarrow> stamp r < stamp n" using r x same_row [OF assms r x(1)] by auto
    ultimately show "\<exists>r' \<in> set (lww_put key stamp merge n rows).
        key r' = key r \<and> origin r' = origin r \<and> stamp r \<le> stamp r' \<and> (stamp r = stamp r' \<longrightarrow> r' = r)"
      by (intro bexI [of _ ?r]) auto
  qed
qed (auto simp: advances_def)

lemma advances_refl: "advances key stamp origin rows rows"
  by (auto simp: advances_def)

lemma advances_trans: "advances key stamp origin a b \<Longrightarrow> advances key stamp origin b c \<Longrightarrow> advances key stamp origin a c"
  unfolding advances_def by (metis order_antisym order_trans)

text \<open>A record that a table has already seen leaves no trace.\<close>

lemma row_put:
  assumes "r' \<in> set (lww_put key stamp merge n rows)"
  obtains (new) "\<forall>r \<in> set rows. key r \<noteq> key n" "r' = n"
  | (old) "r' \<in> set rows"
  | (merged) r where "r \<in> set rows" "key r = key n" "r' = merge n r"
proof (rule put_cases [of rows n])
  assume "\<forall>r \<in> set rows. key r \<noteq> key n" "lww_put key stamp merge n rows = rows @ [n]"
  then show ?thesis using assms new old by auto
next
  assume "lww_put key stamp merge n rows = update_where (\<lambda>x. key x = key n) (merge n) rows"
  then show ?thesis using assms old merged by (auto simp: set_update_where split: if_splits)
qed (use assms old in auto)

lemma put_seen: "distinct (map key rows) \<Longrightarrow> r \<in> set rows \<Longrightarrow> key r = key n \<Longrightarrow> stamp n \<le> stamp r \<Longrightarrow>
    lww_put key stamp merge n rows = rows"
  by (rule put_cases [of rows n]) (auto dest: same_row)

lemma seen_put: "\<exists>r \<in> set (lww_put key stamp merge n rows). key r = key n \<and> stamp n \<le> stamp r"
proof (rule put_cases [of rows n])
  fix r assume r: "r \<in> set rows" "key r = key n"
    and p: "lww_put key stamp merge n rows = update_where (\<lambda>x. key x = key n) (merge n) rows"
  then have "(\<lambda>r. if key r = key n then merge n r else r) r \<in> set (lww_put key stamp merge n rows)"
    unfolding p set_update_where by blast
  then show ?thesis using r by (intro bexI [of _ "merge n r"]) auto
qed auto

lemma seen_advances: "advances key stamp origin a b \<Longrightarrow> \<exists>r \<in> set a. key r = k \<and> t \<le> stamp r \<Longrightarrow> \<exists>r \<in> set b. key r = k \<and> t \<le> stamp r"
  unfolding advances_def by (metis order_trans)

text \<open>A table shows the newest record written under an identifier.\<close>

lemma find_unique: "distinct (map key rows) \<Longrightarrow> r \<in> set rows \<Longrightarrow> key r = i \<Longrightarrow> find (\<lambda>r. key r = i) rows = Some r"
  by (induction rows) (auto simp: rev_image_eqI)

lemma find_update: "find (\<lambda>r. key r = i) (update_where (\<lambda>x. key x = k) (merge n) rows) =
    map_option (\<lambda>r. if k = i then merge n r else r) (find (\<lambda>r. key r = i) rows)"
  by (induction rows) auto

lemma shown_put:
  assumes "distinct (map key rows)"
  shows "row_shown key stamp content i (lww_put key stamp merge n rows) =
    (if key n = i then newest [(stamp n, content n)] (row_shown key stamp content i rows) else row_shown key stamp content i rows)"
proof (rule put_cases [of rows n])
  assume f: "\<forall>r \<in> set rows. key r \<noteq> key n" and p: "lww_put key stamp merge n rows = rows @ [n]"
  have "key n = i \<Longrightarrow> find (\<lambda>r. key r = i) rows = None" using f by (auto simp: find_None_iff)
  then show ?thesis by (auto simp: row_shown_def p find_append split: option.split)
next
  fix r assume r: "r \<in> set rows" "key r = key n" "stamp r < stamp n"
    and p: "lww_put key stamp merge n rows = update_where (\<lambda>x. key x = key n) (merge n) rows"
  then show ?thesis using find_unique [OF assms r(1,2)] by (auto simp: row_shown_def p find_update option.map_comp comp_def)
next
  fix r assume r: "r \<in> set rows" "key r = key n" "stamp n \<le> stamp r" and p: "lww_put key stamp merge n rows = rows"
  then show ?thesis using find_unique [OF assms r(1,2)] by (auto simp: row_shown_def p)
qed

end

definition location_content :: "location_row \<Rightarrow> string \<times> rat \<times> rat" where
  "location_content r = (lc_name r, lc_lat r, lc_lon r)"

definition site_content :: "site_row \<Rightarrow> string \<times> string" where
  "site_content r = (sa_name r, sa_notes r)"

definition photo_content :: "photo_row \<Rightarrow> string \<times> rat \<times> rat \<times> string" where
  "photo_content r = (ph_key r, ph_lat r, ph_lon r, ph_condition r)"

interpretation lc: lww_table lc_id lc_updated set_location "\<lambda>r. (lc_created r, lc_by r)" location_content
  by unfold_locales (simp_all add: set_location_def location_content_def)

interpretation sa: lww_table sa_id sa_updated set_site "\<lambda>r. (sa_location r, sa_created r, sa_by r)" site_content
  by unfold_locales (simp_all add: set_site_def site_content_def)

interpretation ph: lww_table ph_id ph_updated set_photo "\<lambda>r. (ph_site r, ph_created r, ph_by r)" photo_content
  by unfold_locales (simp_all add: set_photo_def photo_content_def)

subsection \<open>What each record does to the tables\<close>

abbreviation put_location :: "location_row \<Rightarrow> fdb \<Rightarrow> fdb" where
  "put_location n d \<equiv> d\<lparr>f_locations := lww_put lc_id lc_updated set_location n (f_locations d)\<rparr>"

abbreviation put_site :: "site_row \<Rightarrow> fdb \<Rightarrow> fdb" where
  "put_site n d \<equiv> d\<lparr>f_sites := lww_put sa_id sa_updated set_site n (f_sites d)\<rparr>"

text \<open>A photo is turned away when its site is full.\<close>

definition turned_away :: "photo_row \<Rightarrow> fdb \<Rightarrow> bool" where
  "turned_away n d \<longleftrightarrow> (\<forall>r \<in> set (f_photos d). ph_id r \<noteq> ph_id n) \<and> 10 \<le> site_photos (ph_site n) d"

definition put_photo :: "photo_row \<Rightarrow> fdb \<Rightarrow> fdb" where
  "put_photo n d = (if turned_away n d then d else d\<lparr>f_photos := lww_put ph_id ph_updated set_photo n (f_photos d)\<rparr>)"

lemma UpsertLocation_tables: "fq_UpsertLocation n t d = (r, d') \<Longrightarrow> d' = put_location n d \<and> (r = Inl FsNoRows \<or> (\<exists>x. r = Inr x))"
  by (auto simp: fq_UpsertLocation_def lww_put_def split: list.splits if_splits)

lemma filter_hit: "filter P xs = y # ys \<Longrightarrow> \<exists>x \<in> set xs. P x"
proof -
  assume f: "filter P xs = y # ys"
  have "y \<in> set (filter P xs)" unfolding f by simp
  then show ?thesis by auto
qed

lemma UpsertSiteAssessment_tables:
  assumes u: "fq_UpsertSiteAssessment n t d = (r, d')"
  shows "d' = put_site n d \<and> ((\<exists>x \<in> set (f_sites d). sa_id x = sa_id n) \<or> sa_location n \<in> lc_id ` set (f_locations d)) \<and>
       (r = Inl FsNoRows \<or> (\<exists>x. r = Inr x)) \<or>
     d' = d \<and> (\<exists>c. r = Inl (FsConstraint c))"
proof (cases "filter (\<lambda>r. sa_id r = sa_id n) (f_sites d)")
  case Nil then show ?thesis using u by (auto simp: fq_UpsertSiteAssessment_def lww_put_def split: if_splits)
next
  case (Cons x xs)
  then show ?thesis using u filter_hit [OF Cons] by (auto simp: fq_UpsertSiteAssessment_def lww_put_def split: if_splits)
qed

lemma UpsertPhoto_tables:
  assumes u: "fq_UpsertPhoto n t d = (r, d')"
  shows "d' = put_photo n d \<and> (turned_away n d \<and> r = Inl FsNoRows \<or>
       \<not> turned_away n d \<and> ph_condition n \<in> conditions \<and>
       ((\<exists>x \<in> set (f_photos d). ph_id x = ph_id n) \<or> ph_site n \<in> sa_id ` set (f_sites d)) \<and>
       (r = Inl FsNoRows \<or> (\<exists>x. r = Inr x))) \<or>
     d' = d \<and> (\<exists>c. r = Inl (FsConstraint c))"
proof (cases "filter (\<lambda>r. ph_id r = ph_id n) (f_photos d)")
  case Nil
  then have "\<forall>x \<in> set (f_photos d). ph_id x \<noteq> ph_id n" by (simp add: filter_empty_conv)
  then show ?thesis using u Nil
    by (auto simp: fq_UpsertPhoto_def Let_def lww_put_def put_photo_def turned_away_def split: if_splits)
next
  case (Cons x xs)
  then have "\<not> turned_away n d" using filter_hit [OF Cons] by (auto simp: turned_away_def)
  then show ?thesis using u Cons filter_hit [OF Cons]
    by (auto simp: fq_UpsertPhoto_def Let_def lww_put_def put_photo_def split: if_splits)
qed

subsection \<open>What a committed batch did\<close>

lemma ok_upsert:
  fixes m :: "('x, 'b) fm" and st :: "'r fstmt"
  assumes "ok_tx m Q"
  shows "ok_tx (fhandle (fexec E st) (\<lambda>r. case r of Inr _ \<Rightarrow> fret y0 | Inl e \<Rightarrow> if e \<noteq> FsNoRows then fthrow e else m))
    (\<lambda>n d y d'. (\<exists>x. st n d = (Inr x, d') \<and> y = y0) \<or> (\<exists>d1. st n d = (Inl FsNoRows, d1) \<and> Q n d1 y d'))"
proof -
  let ?R = "\<lambda>r n d y d'. case r of Inr _ \<Rightarrow> y = y0 \<and> d' = d | Inl e \<Rightarrow> e = FsNoRows \<and> Q n d y d'"
  have k: "ok_tx (case r of Inr _ \<Rightarrow> fret y0 | Inl e \<Rightarrow> if e \<noteq> FsNoRows then fthrow e else m) (?R r)" for r :: "fs_error + 'r"
    using assms by (cases r) (auto intro: ok_tx_fret ok_tx_fthrow)
  show ?thesis by (rule ok_tx_weaken [OF ok_tx_fhandle [OF in_tx_fexec k]], elim exE conjE, rename_tac n d y d' r d1)
      (case_tac r; auto dest: sym)
qed

lemma row_of_simps [simp]:
  "lc_id (location_of a l) = li_id l" "sa_id (site_of a s) = si_id s" "sa_location (site_of a s) = si_location s"
  "ph_id (photo_of a p) = pi_id p" "ph_site (photo_of a p) = pi_site p" "ph_condition (photo_of a p) = pi_condition p"
  by (simp_all add: location_of_def site_of_def photo_of_def)

lemma applyLocation_ok:
  "ok_tx (applyLocation E actor i) (\<lambda>n d y d'. fst y = li_id i \<and> d' = put_location (location_of actor i) d)"
  unfolding applyLocation_def
  by (rule ok_tx_weaken [OF ok_upsert [OF ok_tx_fbind [OF ok_tx_fexec ok_tx_fret]]])
    (auto simp: fq_GetLocation_def dest: UpsertLocation_tables)

definition site_placed :: "site_input \<Rightarrow> fdb \<Rightarrow> bool" where
  "site_placed i d \<longleftrightarrow> (\<exists>x \<in> set (f_sites d). sa_id x = si_id i) \<or> si_location i \<in> lc_id ` set (f_locations d)"

lemma applySiteAssessment_ok:
  "ok_tx (applySiteAssessment E actor i) (\<lambda>n d y d'. fst y = si_id i \<and> d' = put_site (site_of actor i) d \<and> site_placed i d)"
  unfolding applySiteAssessment_def
  by (rule ok_tx_weaken [OF ok_upsert [OF ok_tx_fbind [OF ok_tx_fexec ok_tx_fret]]])
    (auto simp: fq_GetSiteAssessment_def site_placed_def dest!: UpsertSiteAssessment_tables)

definition photo_placed :: "photo_input \<Rightarrow> fdb \<Rightarrow> bool" where
  "photo_placed i d \<longleftrightarrow> pi_condition i \<in> conditions \<and>
     ((\<exists>x \<in> set (f_photos d). ph_id x = pi_id i) \<or> pi_site i \<in> sa_id ` set (f_sites d))"

lemma find_photo: "one_row (filter (\<lambda>r. ph_id r = k) (f_photos d)) = Inr old \<Longrightarrow> \<exists>x \<in> set (f_photos d). ph_id x = k"
  by (auto simp: one_row_def dest: filter_hit split: list.splits)

lemma applyPhoto_ok:
  "ok_tx (applyPhoto E actor i) (\<lambda>n d y d'. fst y = pi_id i \<and> d' = put_photo (photo_of actor i) d \<and>
     (if turned_away (photo_of actor i) d then snd y = OutcomeLimitExceeded else photo_placed i d))"
proof -
  let ?k = "\<lambda>r. case r of Inl e \<Rightarrow> if e = FsNoRows then fret (pi_id i, OutcomeLimitExceeded) else fthrow e
             | Inr old \<Rightarrow> fret (pi_id i, classifyBlocked (pi_updated i) (ph_updated old)
                   (pi_key i = ph_key old \<and> pi_lat i = ph_lat old \<and> pi_lon i = ph_lon old \<and> pi_condition i = ph_condition old))"
  have k: "ok_tx (?k r) (\<lambda>n d y d'. fst y = pi_id i \<and> d' = d \<and> (r = Inl FsNoRows \<and> snd y = OutcomeLimitExceeded \<or> (\<exists>x. r = Inr x)))"
    for r :: "fs_error + photo_row"
    by (cases r) (auto intro: ok_tx_weaken [OF ok_tx_fret] ok_tx_fthrow)
  have g: "ok_tx (fhandle (fexec E (fq_GetPhoto (pi_id i))) ?k)
      (\<lambda>n d y d'. fst y = pi_id i \<and> d' = d \<and> (snd y = OutcomeLimitExceeded \<or> (\<exists>x \<in> set (f_photos d). ph_id x = pi_id i)))"
    by (rule ok_tx_weaken [OF ok_tx_fhandle [OF in_tx_fexec k]]) (auto simp: fq_GetPhoto_def dest: find_photo)
  show ?thesis unfolding applyPhoto_def
    by (rule ok_tx_weaken [OF ok_upsert [OF g]])
      (auto simp: photo_placed_def put_photo_def turned_away_def dest!: UpsertPhoto_tables split: if_splits)
qed

text \<open>What an event says, apart from its identifier and time.\<close>

definition event_facts :: "fs_event \<Rightarrow> string \<times> uuid \<times> string \<times> int \<times> json \<times> string \<times> time option" where
  "event_facts e = (fv_aggregate e, fv_aggregate_id e, fv_type e, fv_schema e, fv_payload e, fv_actor e, fv_published e)"

text \<open>Only the outbox changes, by events that say \<open>facts\<close> in this order.\<close>

definition fs_appends :: "(string \<times> uuid \<times> string \<times> int \<times> json \<times> string \<times> time option) list \<Rightarrow> fdb \<Rightarrow> fdb \<Rightarrow> bool" where
  "fs_appends facts d d' \<longleftrightarrow> (\<exists>new. d' = d\<lparr>f_events := f_events d @ new\<rparr> \<and> map event_facts new = facts \<and>
     (distinct (map fv_id (f_events d)) \<longrightarrow> distinct (map fv_id (f_events d'))))"

lemma fs_appends_Nil [simp]: "fs_appends [] d d"
  by (simp add: fs_appends_def)

lemma fs_appends_trans: "fs_appends xs d d1 \<Longrightarrow> fs_appends ys d1 d2 \<Longrightarrow> fs_appends (xs @ ys) d d2"
  unfolding fs_appends_def
  by (elim exE conjE, rename_tac new new', rule_tac x = "new @ new'" in exI) simp

lemma fs_append_one: "fv_id e \<notin> fv_id ` set (f_events d) \<Longrightarrow> fs_appends [event_facts e] d (d\<lparr>f_events := f_events d @ [e]\<rparr>)"
  unfolding fs_appends_def by (intro exI [of _ "[e]"]) auto

lemma InsertDomainEvent_appends:
  "fq_InsertDomainEvent i agg aggid ty schema payload actor t d = (Inr x, d') \<Longrightarrow>
    fs_appends [(agg, aggid, ty, schema, payload, actor, None)] d d'"
  using fs_append_one [of "\<lparr>fv_id = i, fv_aggregate = agg, fv_aggregate_id = aggid, fv_type = ty, fv_schema = schema,
      fv_payload = payload, fv_actor = actor, fv_at = t, fv_published = None\<rparr>" d]
  by (auto simp: fq_InsertDomainEvent_def Let_def event_facts_def split: if_splits)

lemma fs_Publish_ok:
  "ok_tx (fs_Publish E agg aggid ty payload actor) (\<lambda>n. \<lambda>d _ d'. fs_appends [(agg, aggid, ty, fs_SchemaVersion, payload, actor, None)] d d')"
  unfolding fs_Publish_def [abs_def]
  by (rule ok_tx_at, rule ok_tx_weaken [OF ok_tx_fbind [OF ok_tx_fexec ok_tx_fret]])
    (auto dest: InsertDomainEvent_appends)

lemma steps_appends: "steps (\<lambda>x d y d'. fs_appends (g x) d d') xs d ys d' \<Longrightarrow> fs_appends (concat (map g xs)) d d'"
  by (induction xs arbitrary: d ys) (auto intro: fs_appends_trans)

definition applied_facts ::
    "string \<Rightarrow> string \<Rightarrow> string \<Rightarrow> ('i \<Rightarrow> uuid) \<Rightarrow> ('i \<Rightarrow> json) \<Rightarrow> 'i list \<Rightarrow> record_result list \<Rightarrow>
     (string \<times> uuid \<times> string \<times> int \<times> json \<times> string \<times> time option) list" where
  "applied_facts actor agg ty ident payload inputs results =
     map (\<lambda>(i, _). (agg, ident i, ty, fs_SchemaVersion, payload i, actor, None))
       (filter (\<lambda>(i, _, out). out = OutcomeApplied) (zip inputs results))"

lemma publish_applied_ok:
  "ok_tx (publish_applied E actor agg ty ident payload inputs results)
     (\<lambda>n d _ d'. fs_appends (applied_facts actor agg ty ident payload inputs results) d d')"
proof -
  let ?f = "\<lambda>(i, _ :: uuid, out). if out \<noteq> OutcomeApplied then fret () else fs_Publish E agg (ident i) ty (payload i) actor"
  let ?e = "\<lambda>(i, _). (agg, ident i, ty, fs_SchemaVersion, payload i, actor, None)"
  let ?p = "\<lambda>(i, _, out). out = OutcomeApplied"
  have f: "ok_tx (?f x) (\<lambda>n d y d'. fs_appends (map ?e (filter ?p [x])) d d')" for x
    by (cases x) (auto intro: ok_tx_weaken [OF ok_tx_fret] fs_Publish_ok)
  have c: "concat (map (\<lambda>x. map ?e (filter ?p [x])) xs) = map ?e (filter ?p xs)" for xs
    by (induction xs) auto
  show ?thesis unfolding publish_applied_def applied_facts_def
    by (rule ok_tx_weaken [OF ok_tx_feach [OF f]], drule steps_appends, simp only: c)
qed

definition location_step :: "string \<Rightarrow> location_input \<Rightarrow> fdb \<Rightarrow> record_result \<Rightarrow> fdb \<Rightarrow> bool" where
  "location_step actor i d y d' \<longleftrightarrow> fst y = li_id i \<and> d' = put_location (location_of actor i) d"

definition site_step :: "string \<Rightarrow> site_input \<Rightarrow> fdb \<Rightarrow> record_result \<Rightarrow> fdb \<Rightarrow> bool" where
  "site_step actor i d y d' \<longleftrightarrow> fst y = si_id i \<and> d' = put_site (site_of actor i) d \<and> site_placed i d"

definition photo_step :: "string \<Rightarrow> photo_input \<Rightarrow> fdb \<Rightarrow> record_result \<Rightarrow> fdb \<Rightarrow> bool" where
  "photo_step actor i d y d' \<longleftrightarrow> fst y = pi_id i \<and> d' = put_photo (photo_of actor i) d \<and>
     (if turned_away (photo_of actor i) d then snd y = OutcomeLimitExceeded else photo_placed i d)"

lemma Sync_ok:
  "ok_tx (Sync E actor req) (\<lambda>n d resp d'. \<exists>d1 d2.
     steps (location_step actor) (rq_locations req) d (rs_locations resp) d1 \<and>
     steps (site_step actor) (rq_sites req) d1 (rs_sites resp) d2 \<and>
     steps (photo_step actor) (rq_photos req) d2 (rs_photos resp) d')"
proof -
  have l: "ok_tx (applyLocation E actor i) (\<lambda>n. location_step actor i)" for i
    using applyLocation_ok unfolding location_step_def .
  have s: "ok_tx (applySiteAssessment E actor i) (\<lambda>n. site_step actor i)" for i
    using applySiteAssessment_ok unfolding site_step_def .
  have p: "ok_tx (applyPhoto E actor i) (\<lambda>n. photo_step actor i)" for i
    using applyPhoto_ok unfolding photo_step_def .
  show ?thesis unfolding Sync_def
    by (rule ok_tx_weaken [OF ok_tx_fbind [OF ok_tx_feach [OF l] ok_tx_fbind [OF ok_tx_feach [OF s]
        ok_tx_fbind [OF ok_tx_feach [OF p] ok_tx_fret]]]]) (auto, blast)
qed

text \<open>The events of a committed batch: one for each applied record, in the order of the request.\<close>

definition events_of ::
    "fenv \<Rightarrow> string \<Rightarrow> sync_request \<Rightarrow> sync_response \<Rightarrow> (string \<times> uuid \<times> string \<times> int \<times> json \<times> string \<times> time option) list" where
  "events_of E actor req resp =
     applied_facts actor ''location'' ''location.upserted'' li_id (location_payload E) (rq_locations req) (rs_locations resp) @
     applied_facts actor ''site_assessment'' ''site_assessment.upserted'' si_id (site_payload E) (rq_sites req) (rs_sites resp) @
     applied_facts actor ''photo'' ''photo.upserted'' pi_id (photo_payload E) (rq_photos req) (rs_photos resp)"

definition batch_effect :: "fenv \<Rightarrow> string \<Rightarrow> sync_request \<Rightarrow> sync_response \<Rightarrow> fdb \<Rightarrow> fdb \<Rightarrow> bool" where
  "batch_effect E actor req resp d d' \<longleftrightarrow> (\<exists>d1 d2 d3.
     steps (location_step actor) (rq_locations req) d (rs_locations resp) d1 \<and>
     steps (site_step actor) (rq_sites req) d1 (rs_sites resp) d2 \<and>
     steps (photo_step actor) (rq_photos req) d2 (rs_photos resp) d3 \<and>
     fs_appends (events_of E actor req resp) d3 d')"

lemma TxRunner_Sync_commits:
  assumes "TxRunner_Sync E actor req w = (r, w')"
  obtains (unchanged) e where "r = Inl e" and "fw_db w' = fw_db w"
  | (committed) resp where "batch_effect E actor req resp (fw_db w) (fw_db w')" and "r = Inr resp \<or> r = Inl FsUnavailable"
proof -
  have "ok_tx (fbind (Sync E actor req) (\<lambda>resp.
     fbind (publish_applied E actor ''location'' ''location.upserted'' li_id (location_payload E) (rq_locations req) (rs_locations resp)) (\<lambda>_.
     fbind (publish_applied E actor ''site_assessment'' ''site_assessment.upserted'' si_id (site_payload E) (rq_sites req) (rs_sites resp)) (\<lambda>_.
     fbind (publish_applied E actor ''photo'' ''photo.upserted'' pi_id (photo_payload E) (rq_photos req) (rs_photos resp)) (\<lambda>_.
     fret resp))))) (\<lambda>n d resp d'. batch_effect E actor req resp d d')"
    by (rule ok_tx_weaken [OF ok_tx_fbind [OF Sync_ok ok_tx_fbind [OF publish_applied_ok ok_tx_fbind [OF publish_applied_ok
        ok_tx_fbind [OF publish_applied_ok ok_tx_fret]]]]])
      (unfold batch_effect_def events_of_def, blast intro: fs_appends_trans)
  from ok_tx_InTx [OF this assms [unfolded TxRunner_Sync_def]] show ?thesis
    using unchanged committed by blast
qed

end
