(* ===== verification/FsTwoway.thy ===== *)
theory FsTwoway
  imports FsSync
begin

section \<open>offline-sync-app: work items shared with an external system\<close>

text \<open>
  \<open>internal/twoway\<close>: work items are kept in step with the issues of an external system. \<open>Apply\<close> is the
  inbound path of a webhook delivery or of a polled issue, \<open>EditNotes\<close> the local write path.
\<close>

subsection \<open>Content and ownership\<close>

record issue =
  xi_id :: string
  xi_summary :: string
  xi_status :: string
  xi_description :: string
  xi_version :: int
  xi_deleted :: bool
  xi_updated :: int

record issue_patch =
  xp_summary :: "string option"
  xp_status :: "string option"
  xp_description :: "string option"

record issue_page =
  xg_issues :: "issue list"
  xg_next :: string

record content =
  ct_title :: string
  ct_status :: string
  ct_notes :: string

definition ContentOf :: "issue \<Rightarrow> content" where
  "ContentOf i = \<lparr>ct_title = xi_summary i, ct_status = xi_status i, ct_notes = xi_description i\<rparr>"

text \<open>\<open>hex.EncodeToString\<close>.\<close>

definition hex_encode :: "string \<Rightarrow> string" where
  "hex_encode s = concat (map (\<lambda>c. [hex_digit (of_char c div 16), hex_digit (of_char c mod 16)]) s)"

definition content_hash :: "fenv \<Rightarrow> content \<Rightarrow> string" where
  "content_hash E c = hex_encode (fe_sha E (render (JObject
     [(''title'', JString (ct_title c)), (''status'', JString (ct_status c)), (''notes'', JString (ct_notes c))])))"

datatype fs_field = FieldTitle | FieldStatus | FieldNotes

datatype fs_owner = OwnerInternal | OwnerExternal

type_synonym ownership = "fs_field \<rightharpoonup> fs_owner"

definition DefaultOwnership :: ownership where
  "DefaultOwnership = [FieldTitle \<mapsto> OwnerExternal, FieldStatus \<mapsto> OwnerExternal, FieldNotes \<mapsto> OwnerInternal]"

definition externalOwns :: "ownership \<Rightarrow> fs_field \<Rightarrow> bool" where
  "externalOwns own f \<longleftrightarrow> own f = Some OwnerExternal"

definition pick :: "ownership \<Rightarrow> fs_field \<Rightarrow> string \<Rightarrow> string \<Rightarrow> string \<times> fs_field list" where
  "pick own f cur inc = (if externalOwns own f then (inc, []) else if inc \<noteq> cur then (cur, [f]) else (cur, []))"

definition Merge :: "ownership \<Rightarrow> content \<Rightarrow> content \<Rightarrow> content \<times> fs_field list" where
  "Merge own current incoming =
     (let (t, r1) = pick own FieldTitle (ct_title current) (ct_title incoming);
          (s, r2) = pick own FieldStatus (ct_status current) (ct_status incoming);
          (n, r3) = pick own FieldNotes (ct_notes current) (ct_notes incoming)
      in (\<lparr>ct_title = t, ct_status = s, ct_notes = n\<rparr>, r1 @ r2 @ r3))"

definition PatchFor :: "ownership \<Rightarrow> content \<Rightarrow> issue_patch" where
  "PatchFor own c =
     \<lparr>xp_summary = (if externalOwns own FieldTitle then None else Some (ct_title c)),
      xp_status = (if externalOwns own FieldStatus then None else Some (ct_status c)),
      xp_description = (if externalOwns own FieldNotes then None else Some (ct_notes c))\<rparr>"

definition patch_empty :: "issue_patch \<Rightarrow> bool" where
  "patch_empty p \<longleftrightarrow> xp_summary p = None \<and> xp_status p = None \<and> xp_description p = None"

subsection \<open>Applying an issue\<close>

definition EventWorkItemUpdated :: string where "EventWorkItemUpdated = ''work_item.updated''"

definition EventWorkItemDeleted :: string where "EventWorkItemDeleted = ''work_item.deleted''"

definition OriginActor :: "string \<Rightarrow> string" where "OriginActor system = ''system:'' @ system"

definition WorkItemPayload :: "fenv \<Rightarrow> uuid \<Rightarrow> content \<Rightarrow> bool \<Rightarrow> json" where
  "WorkItemPayload E i c deleted = JObject
     [(''id'', JString (fe_uuid_text E i)), (''title'', JString (ct_title c)), (''status'', JString (ct_status c)),
      (''notes'', JString (ct_notes c)), (''deleted'', JBool deleted)]"

datatype source = SourceWebhook | SourcePoll

text \<open>An applier is its system and the ownership.\<close>

record applier =
  ap_system :: string
  ap_own :: ownership

definition contentOfRow :: "work_item \<Rightarrow> content" where
  "contentOfRow r = \<lparr>ct_title = wi_title r, ct_status = wi_status r, ct_notes = wi_notes r\<rparr>"

definition ResolveInternalID :: "fenv \<Rightarrow> string \<Rightarrow> string \<Rightarrow> ('x, uuid) fm" where
  "ResolveInternalID E system ext w =
     fbind (fexec E (fq_InsertExternalLink system ext (fe_uuid E (fw_calls w)))) (\<lambda>_.
     fbind (fexec E (fq_GetExternalLink system ext)) (\<lambda>link. fret (lk_internal link))) w"

definition isEcho :: "fenv \<Rightarrow> string \<Rightarrow> uuid \<Rightarrow> issue \<Rightarrow> ('x, bool) fm" where
  "isEcho E system i issue =
     fhandle (fexec E (fq_GetSyncPushed system i)) (\<lambda>r.
       case r of
         Inl e \<Rightarrow> if e = FsNoRows then fret False else fthrow e
       | Inr p \<Rightarrow> fret (pu_version p = xi_version issue \<and> pu_hash p = content_hash E (ContentOf issue)))"

definition publish_item :: "fenv \<Rightarrow> string \<Rightarrow> uuid \<Rightarrow> content \<Rightarrow> bool \<Rightarrow> ('x, unit) fm" where
  "publish_item E system i c deleted =
     fs_Publish E ''work_item'' i (if deleted then EventWorkItemDeleted else EventWorkItemUpdated)
       (WorkItemPayload E i c deleted) (OriginActor system)"

text \<open>The tail of \<open>Apply\<close>, after the version gate and the row lock.\<close>

definition apply_item :: "fenv \<Rightarrow> applier \<Rightarrow> issue \<Rightarrow> uuid \<Rightarrow> work_item option \<Rightarrow> ('x, outcome) fm" where
  "apply_item E A issue i current =
     (let (merged, rejected) = (case current of
            None \<Rightarrow> (ContentOf issue, [])
          | Some c \<Rightarrow> Merge (ap_own A) (contentOfRow c) (ContentOf issue));
          changed = (case current of
            None \<Rightarrow> True
          | Some c \<Rightarrow> merged \<noteq> contentOfRow c \<or> xi_deleted issue \<noteq> (wi_deleted c \<noteq> None))
      in fbind (fexec E (fq_UpsertWorkItem i (ct_title merged) (ct_status merged) (ct_notes merged) (xi_deleted issue))) (\<lambda>_.
         fbind (if changed then publish_item E (ap_system A) i merged (xi_deleted issue) else fret ()) (\<lambda>_.
         fret (if rejected \<noteq> [] then OutcomeConflict else OutcomeApplied))))"

definition Apply :: "fenv \<Rightarrow> applier \<Rightarrow> source \<Rightarrow> issue \<Rightarrow> ('x, outcome) fm" where
  "Apply E A src issue =
     fbind (ResolveInternalID E (ap_system A) (xi_id issue)) (\<lambda>i.
     fbind (if src = SourceWebhook then isEcho E (ap_system A) i issue else fret False) (\<lambda>echo.
     if echo then fret OutcomeEcho
     else fhandle (fexec E (fq_AdvanceLinkVersion (ap_system A) (xi_id issue) (xi_version issue))) (\<lambda>r.
       case r of
         Inl e \<Rightarrow> if e = FsNoRows then fret OutcomeIgnoredStale else fthrow e
       | Inr _ \<Rightarrow>
           fhandle (fexec E (fq_GetWorkItemForUpdate i)) (\<lambda>r.
             case r of
               Inl e \<Rightarrow> if e \<noteq> FsNoRows then fthrow e else apply_item E A issue i None
             | Inr c \<Rightarrow> apply_item E A issue i (Some c)))))"

subsection \<open>Inbound deliveries, local edits\<close>

definition issue_fields :: "string list" where
  "issue_fields = [''id'', ''summary'', ''status'', ''description'', ''version'', ''deleted'', ''updatedAt'']"

fun issue_into :: "fenv \<Rightarrow> issue \<Rightarrow> json \<Rightarrow> issue \<times> bool" where
  "issue_into E cur (JObject ms) =
     (let field = (\<lambda>name. assigned issue_fields name ms);
          (i, ok1) = assign_all string_into (xi_id cur) (field ''id'');
          (s, ok2) = assign_all string_into (xi_summary cur) (field ''summary'');
          (st, ok3) = assign_all string_into (xi_status cur) (field ''status'');
          (d, ok4) = assign_all string_into (xi_description cur) (field ''description'');
          (v, ok5) = assign_all (int_into 64) (xi_version cur) (field ''version'');
          (del, ok6) = assign_all bool_into (xi_deleted cur) (field ''deleted'');
          (t, ok7) = assign_all (text_into (fe_parse_time E)) (xi_updated cur) (field ''updatedAt'')
      in (\<lparr>xi_id = i, xi_summary = s, xi_status = st, xi_description = d, xi_version = v, xi_deleted = del, xi_updated = t\<rparr>,
          ok1 \<and> ok2 \<and> ok3 \<and> ok4 \<and> ok5 \<and> ok6 \<and> ok7))"
| "issue_into E cur JNull = (cur, True)"
| "issue_into E cur v = (cur, False)"

text \<open>The zero value of an issue; the zero \<open>time.Time\<close> is January 1 of year 1.\<close>

definition fs_zero_time :: int where "fs_zero_time = - 62135596800 * 1000000000"

definition zero_issue :: issue where
  "zero_issue = \<lparr>xi_id = [], xi_summary = [], xi_status = [], xi_description = [], xi_version = 0, xi_deleted = False,
     xi_updated = fs_zero_time\<rparr>"

definition decode_webhook :: "fenv \<Rightarrow> string \<Rightarrow> issue option" where
  "decode_webhook E body =
     (case Unmarshal body of None \<Rightarrow> None | Some v \<Rightarrow>
     (case members_of v of None \<Rightarrow> None | Some ms \<Rightarrow>
        (case assign_all (issue_into E) zero_issue (assigned [''issue''] ''issue'' ms) of (i, ok) \<Rightarrow> if ok then Some i else None)))"

definition ProcessWebhook :: "fenv \<Rightarrow> applier \<Rightarrow> string \<Rightarrow> ('x, outcome) fm" where
  "ProcessWebhook E A body =
     (case decode_webhook E body of
        None \<Rightarrow> fthrow DecodeFailed
      | Some i \<Rightarrow> if xi_id i = [] \<or> xi_version i \<le> 0 then fthrow InvalidWebhook else Apply E A SourceWebhook i)"

definition EditNotes :: "fenv \<Rightarrow> uuid \<Rightarrow> string \<Rightarrow> string \<Rightarrow> ('x, unit) fm" where
  "EditNotes E i notes actor = InTx E
     (fhandle (fexec E (fq_UpdateWorkItemNotes i notes)) (\<lambda>r.
        case r of
          Inl e \<Rightarrow> if e = FsNoRows then fthrow WorkItemNotFound else fthrow e
        | Inr item \<Rightarrow>
            fs_Publish E ''work_item'' i EventWorkItemUpdated
              (WorkItemPayload E i \<lparr>ct_title = wi_title item, ct_status = wi_status item, ct_notes = wi_notes item\<rparr> False) actor))"

end
