(* ===== verification/FsTwowayProofs.thy ===== *)
theory FsTwowayProofs
  imports FsTwoway
begin

section \<open>offline-sync-app: what applying an issue does\<close>

text \<open>
  \<open>applies\<close> relates the tables before and after a committed \<open>Apply\<close>; the lemmas give its parts and
  the invariants of the tables it works on.
\<close>

subsection \<open>The parts of a committed \<open>Apply\<close>\<close>

definition new_link :: "string \<Rightarrow> string \<Rightarrow> uuid \<Rightarrow> link_row" where
  "new_link system ext i = \<lparr>lk_system = system, lk_external = ext, lk_internal = i, lk_version = 0\<rparr>"

definition resolves :: "string \<Rightarrow> string \<Rightarrow> fdb \<Rightarrow> uuid \<Rightarrow> fdb \<Rightarrow> bool" where
  "resolves system ext d i d' \<longleftrightarrow>
     (\<exists>l \<in> set (f_links d). link_key system ext l \<and> lk_internal l = i) \<and> d' = d \<or>
     (\<forall>l \<in> set (f_links d). \<not> link_key system ext l \<and> \<not> (lk_system l = system \<and> lk_internal l = i)) \<and>
       d' = d\<lparr>f_links := f_links d @ [new_link system ext i]\<rparr>"

definition advance :: "string \<Rightarrow> string \<Rightarrow> int \<Rightarrow> fdb \<Rightarrow> fdb" where
  "advance system ext v d =
     d\<lparr>f_links := update_where (\<lambda>l. link_key system ext l \<and> lk_version l < v) (\<lambda>l. l\<lparr>lk_version := v\<rparr>) (f_links d)\<rparr>"

definition item_at :: "uuid \<Rightarrow> fdb \<Rightarrow> work_item option" where
  "item_at i d = find (\<lambda>r. wi_id r = i) (f_items d)"

definition merged_with :: "applier \<Rightarrow> issue \<Rightarrow> work_item option \<Rightarrow> content \<times> fs_field list" where
  "merged_with A issue current =
     (case current of None \<Rightarrow> (ContentOf issue, []) | Some c \<Rightarrow> Merge (ap_own A) (contentOfRow c) (ContentOf issue))"

definition put_item :: "time \<Rightarrow> uuid \<Rightarrow> content \<Rightarrow> bool \<Rightarrow> fdb \<Rightarrow> fdb" where
  "put_item t i c deleted d = snd (fq_UpsertWorkItem i (ct_title c) (ct_status c) (ct_notes c) deleted t d)"

definition item_changed :: "content \<Rightarrow> issue \<Rightarrow> work_item option \<Rightarrow> bool" where
  "item_changed merged issue current =
     (case current of None \<Rightarrow> True | Some c \<Rightarrow> merged \<noteq> contentOfRow c \<or> xi_deleted issue \<noteq> (wi_deleted c \<noteq> None))"

definition item_facts :: "fenv \<Rightarrow> applier \<Rightarrow> issue \<Rightarrow> uuid \<Rightarrow> work_item option \<Rightarrow>
    (string \<times> uuid \<times> string \<times> int \<times> json \<times> string \<times> time option) list" where
  "item_facts E A issue i current =
     (let c = fst (merged_with A issue current) in
      if item_changed c issue current
      then [(''work_item'', i, if xi_deleted issue then EventWorkItemDeleted else EventWorkItemUpdated, fs_SchemaVersion,
             WorkItemPayload E i c (xi_deleted issue), OriginActor (ap_system A), None)]
      else [])"

definition applies :: "fenv \<Rightarrow> applier \<Rightarrow> source \<Rightarrow> issue \<Rightarrow> time \<Rightarrow> fdb \<Rightarrow> outcome \<Rightarrow> fdb \<Rightarrow> bool" where
  "applies E A src issue n d out d' \<longleftrightarrow> (\<exists>i d1. resolves (ap_system A) (xi_id issue) d i d1 \<and>
     (out = OutcomeEcho \<and> src = SourceWebhook \<and> d' = d1 \<and>
        (\<exists>p \<in> set (f_pushed d1). pu_system p = ap_system A \<and> pu_internal p = i \<and> pu_version p = xi_version issue \<and>
           pu_hash p = content_hash E (ContentOf issue)) \<or>
      out = OutcomeIgnoredStale \<and> d' = d1 \<and>
        (\<forall>l \<in> set (f_links d1). link_key (ap_system A) (xi_id issue) l \<longrightarrow> xi_version issue \<le> lk_version l) \<or>
      (\<exists>l \<in> set (f_links d1). link_key (ap_system A) (xi_id issue) l \<and> lk_version l < xi_version issue) \<and>
      (let current = item_at i d1; (merged, rejected) = merged_with A issue current in
        out = (if rejected \<noteq> [] then OutcomeConflict else OutcomeApplied) \<and>
        fs_appends (item_facts E A issue i current)
          (put_item n i merged (xi_deleted issue) (advance (ap_system A) (xi_id issue) (xi_version issue) d1)) d')))"

lemma one_row_find: "one_row (filter P xs) = (case find P xs of None \<Rightarrow> Inl FsNoRows | Some x \<Rightarrow> Inr x)"
  by (induction xs) (auto simp: one_row_def)

lemma find_SomeD: "find P xs = Some x \<Longrightarrow> x \<in> set xs \<and> P x"
  by (induction xs) (auto split: if_splits)

lemma InsertLink_Get:
  assumes "fq_InsertExternalLink system ext i t d = (Inr u, d1)" and "fq_GetExternalLink system ext t d1 = (Inr link, d2)"
  shows "resolves system ext d (lk_internal link) d2"
proof (cases "\<exists>r \<in> set (f_links d). link_key system ext r")
  case True
  then have "d1 = d" using assms(1) by (simp add: fq_InsertExternalLink_def)
  then have "find (link_key system ext) (f_links d) = Some link \<and> d2 = d"
    using assms(2) by (auto simp: fq_GetExternalLink_def one_row_find split: option.splits)
  then show ?thesis using find_SomeD [of "link_key system ext" "f_links d" link] by (auto simp: resolves_def)
next
  case False
  then have n: "\<forall>r \<in> set (f_links d). \<not> (lk_system r = system \<and> lk_internal r = i)" and d1: "d1 = d\<lparr>f_links := f_links d @ [new_link system ext i]\<rparr>"
    using assms(1) by (auto simp: fq_InsertExternalLink_def new_link_def split: if_splits)
  have "filter (link_key system ext) (f_links d) = []" using False by (auto simp: filter_empty_conv)
  then have "link = new_link system ext i \<and> d2 = d1" using assms(2)
    by (auto simp: fq_GetExternalLink_def one_row_def d1 new_link_def link_key_def split: if_splits)
  then show ?thesis using False n d1 by (auto simp: resolves_def new_link_def)
qed

lemma ResolveInternalID_ok: "ok_tx (ResolveInternalID E system ext) (\<lambda>n. resolves system ext)"
  unfolding ResolveInternalID_def [abs_def]
  by (rule ok_tx_at, rule ok_tx_weaken [OF ok_tx_fbind [OF ok_tx_fexec ok_tx_fbind [OF ok_tx_fexec ok_tx_fret]]])
    (auto dest: InsertLink_Get)

text \<open>A handler that looks at \<open>FsNoRows\<close>.\<close>

lemma ok_found:
  fixes m :: "('x, 'b) fm" and st :: "'r fstmt"
  assumes "ok_tx m P" and "\<And>x. ok_tx (k x) (Q x)"
  shows "ok_tx (fhandle (fexec E st) (\<lambda>r. case r of Inl e \<Rightarrow> if e = FsNoRows then m else fthrow e | Inr x \<Rightarrow> k x))
    (\<lambda>n d y d'. (\<exists>d1. st n d = (Inl FsNoRows, d1) \<and> P n d1 y d') \<or> (\<exists>x d1. st n d = (Inr x, d1) \<and> Q x n d1 y d'))"
proof -
  let ?R = "\<lambda>r n d y d'. case r of Inl e \<Rightarrow> e = FsNoRows \<and> P n d y d' | Inr x \<Rightarrow> Q x n d y d'"
  have k: "ok_tx (case r of Inl e \<Rightarrow> if e = FsNoRows then m else fthrow e | Inr x \<Rightarrow> k x) (?R r)" for r :: "fs_error + 'r"
    using assms by (cases r) (auto intro: ok_tx_fthrow)
  show ?thesis by (rule ok_tx_weaken [OF ok_tx_fhandle [OF in_tx_fexec k]], elim exE conjE, rename_tac n d y d' r d1)
      (case_tac r; auto dest: sym)
qed

lemma isEcho_ok: "ok_tx (isEcho E system i issue) (\<lambda>n d b d'. d' = d \<and> (b \<longrightarrow>
    (\<exists>p \<in> set (f_pushed d). pu_system p = system \<and> pu_internal p = i \<and> pu_version p = xi_version issue \<and>
       pu_hash p = content_hash E (ContentOf issue))))"
  unfolding isEcho_def
  by (rule ok_tx_weaken [OF ok_found [OF ok_tx_fret ok_tx_fret]])
    (auto simp: fq_GetSyncPushed_def one_row_find dest!: find_SomeD split: option.splits)

lemma publish_item_ok: "ok_tx (publish_item E system i c deleted) (\<lambda>n d _ d'. fs_appends
    [(''work_item'', i, if deleted then EventWorkItemDeleted else EventWorkItemUpdated, fs_SchemaVersion,
      WorkItemPayload E i c deleted, OriginActor system, None)] d d')"
  unfolding publish_item_def by (rule fs_Publish_ok)

lemma apply_item_ok:
  "ok_tx (apply_item E A issue i current) (\<lambda>n d out d'.
     let (merged, rejected) = merged_with A issue current in
       out = (if rejected \<noteq> [] then OutcomeConflict else OutcomeApplied) \<and>
       fs_appends (item_facts E A issue i current) (put_item n i merged (xi_deleted issue) d) d')"
proof -
  obtain merged rejected where m: "merged_with A issue current = (merged, rejected)" by fastforce
  have p: "ok_tx (if item_changed merged issue current then publish_item E (ap_system A) i merged (xi_deleted issue) else fret ())
      (\<lambda>n d _ d'. fs_appends (item_facts E A issue i current) d d')"
    using publish_item_ok [of E "ap_system A" i merged "xi_deleted issue"]
    by (auto simp: item_facts_def m intro: ok_tx_weaken [OF ok_tx_fret])
  have u: "ok_tx (fexec E (fq_UpsertWorkItem i (ct_title merged) (ct_status merged) (ct_notes merged) (xi_deleted issue)))
      (\<lambda>n d _ d'. d' = put_item n i merged (xi_deleted issue) d)"
    by (rule ok_tx_weaken [OF ok_tx_fexec]) (simp add: put_item_def)
  have e: "apply_item E A issue i current =
      fbind (fexec E (fq_UpsertWorkItem i (ct_title merged) (ct_status merged) (ct_notes merged) (xi_deleted issue))) (\<lambda>_.
      fbind (if item_changed merged issue current then publish_item E (ap_system A) i merged (xi_deleted issue) else fret ()) (\<lambda>_.
      fret (if rejected \<noteq> [] then OutcomeConflict else OutcomeApplied)))"
    using m by (simp add: apply_item_def merged_with_def item_changed_def)
  show ?thesis unfolding e m Let_def prod.case
    by (rule ok_tx_weaken [OF ok_tx_fbind [OF u ok_tx_fbind [OF p ok_tx_fret]]]) auto
qed

lemma AdvanceLinkVersion_tables:
  assumes "fq_AdvanceLinkVersion system ext v t d = (r, d')"
  shows "(\<forall>l \<in> set (f_links d). link_key system ext l \<longrightarrow> v \<le> lk_version l) \<and> r = Inl FsNoRows \<and> d' = d \<or>
     (\<exists>l \<in> set (f_links d). link_key system ext l \<and> lk_version l < v) \<and> (\<exists>x. r = Inr x) \<and> d' = advance system ext v d"
proof (cases "filter (\<lambda>l. link_key system ext l \<and> lk_version l < v) (f_links d)")
  case Nil
  then have n: "\<forall>l \<in> set (f_links d). \<not> (link_key system ext l \<and> lk_version l < v)" by (simp add: filter_empty_conv)
  then show ?thesis using assms Nil update_where_none [OF n] by (auto simp: fq_AdvanceLinkVersion_def one_row_def)
next
  case (Cons l ls)
  then show ?thesis using assms filter_hit [OF Cons] by (auto simp: fq_AdvanceLinkVersion_def one_row_def advance_def Let_def)
qed

lemma if_flip: "(if \<not> b then x else y) = (if b then y else x)" by simp

lemma Apply_ok: "ok_tx (Apply E A src issue) (applies E A src issue)"
proof -
  let ?sys = "ap_system A" and ?ext = "xi_id issue" and ?v = "xi_version issue"
  let ?tail = "\<lambda>i current n d out d'. let (merged, rejected) = merged_with A issue current in
       out = (if rejected \<noteq> [] then OutcomeConflict else OutcomeApplied) \<and>
       fs_appends (item_facts E A issue i current) (put_item n i merged (xi_deleted issue) d) d'"
  let ?gate = "\<lambda>i. fhandle (fexec E (fq_AdvanceLinkVersion ?sys ?ext ?v)) (\<lambda>r.
       case r of
         Inl e \<Rightarrow> if e = FsNoRows then fret OutcomeIgnoredStale else fthrow e
       | Inr _ \<Rightarrow>
           fhandle (fexec E (fq_GetWorkItemForUpdate i)) (\<lambda>r.
             case r of
               Inl e \<Rightarrow> if e = FsNoRows then apply_item E A issue i None else fthrow e
             | Inr c \<Rightarrow> apply_item E A issue i (Some c)))"
  let ?gated = "\<lambda>i n d out d'. out = OutcomeIgnoredStale \<and> d' = d \<and> (\<forall>l \<in> set (f_links d). link_key ?sys ?ext l \<longrightarrow> ?v \<le> lk_version l) \<or>
      (\<exists>l \<in> set (f_links d). link_key ?sys ?ext l \<and> lk_version l < ?v) \<and> ?tail i (item_at i d) n (advance ?sys ?ext ?v d) out d'"
  have get: "ok_tx (fhandle (fexec E (fq_GetWorkItemForUpdate i)) (\<lambda>r.
             case r of
               Inl e \<Rightarrow> if e = FsNoRows then apply_item E A issue i None else fthrow e
             | Inr c \<Rightarrow> apply_item E A issue i (Some c))) (\<lambda>n d. ?tail i (item_at i d) n d)" for i
    by (rule ok_tx_weaken [OF ok_found [OF apply_item_ok apply_item_ok]])
      (auto simp: fq_GetWorkItemForUpdate_def one_row_find item_at_def split: option.splits)
  have gate: "ok_tx (?gate i) (?gated i)" for i
    by (rule ok_tx_weaken [OF ok_found [OF ok_tx_fret get]])
      (auto simp: item_at_def advance_def dest!: AdvanceLinkVersion_tables)
  let ?echo = "\<lambda>i b d. src = SourceWebhook \<and> b \<and> (\<exists>p \<in> set (f_pushed d). pu_system p = ?sys \<and> pu_internal p = i \<and>
      pu_version p = ?v \<and> pu_hash p = content_hash E (ContentOf issue))"
  have echo: "ok_tx (if src = SourceWebhook then isEcho E ?sys i issue else fret False) (\<lambda>n d b d'. d' = d \<and> (b \<longrightarrow> ?echo i b d))" for i
    by (auto intro: ok_tx_weaken [OF isEcho_ok] ok_tx_weaken [OF ok_tx_fret])
  have tail: "ok_tx (if b then fret OutcomeEcho else ?gate i)
      (\<lambda>n d out d'. if b then out = OutcomeEcho \<and> d' = d else ?gated i n d out d')" for b i
    by (rule ok_tx_weaken [OF ok_tx_if [OF ok_tx_fret gate]]) (simp split: if_splits)
  have a: "Apply E A src issue = fbind (ResolveInternalID E ?sys ?ext) (\<lambda>i.
      fbind (if src = SourceWebhook then isEcho E ?sys i issue else fret False) (\<lambda>b. if b then fret OutcomeEcho else ?gate i))"
    unfolding Apply_def if_flip ..
  show ?thesis unfolding a
  proof (rule ok_tx_weaken [OF ok_tx_fbind [OF ResolveInternalID_ok ok_tx_fbind [OF echo tail]]], elim exE conjE)
    fix n d out d' i d1 b d2
    assume r: "resolves ?sys ?ext d i d1" and e: "d2 = d1" "b \<longrightarrow> ?echo i b d1"
      and t: "if b then out = OutcomeEcho \<and> d' = d2 else ?gated i n d2 out d'"
    then have "if b then out = OutcomeEcho \<and> d' = d1 \<and> ?echo i b d1 else ?gated i n d1 out d'" by (cases b) simp_all
    then show "applies E A src issue n d out d'" unfolding applies_def Let_def
      by (intro exI [of _ i] exI [of _ d1] conjI [OF r]) (cases b; simp only: if_True if_False; blast)
  qed
qed

subsection \<open>Links and items\<close>

definition tw_ok :: "fdb \<Rightarrow> bool" where
  "tw_ok d \<longleftrightarrow>
     distinct (map (\<lambda>l. (lk_system l, lk_external l)) (f_links d)) \<and>
     distinct (map (\<lambda>l. (lk_system l, lk_internal l)) (f_links d)) \<and>
     distinct (map wi_id (f_items d)) \<and>
     (\<forall>l \<in> set (f_links d). 0 < lk_version l \<longrightarrow> lk_internal l \<in> wi_id ` set (f_items d))"

definition link_at :: "string \<Rightarrow> string \<Rightarrow> fdb \<Rightarrow> link_row option" where
  "link_at system ext d = find (link_key system ext) (f_links d)"

lemma find_update_where: "(\<And>x. P (f x) = P x) \<Longrightarrow>
    find P (update_where Q f xs) = map_option (\<lambda>x. if Q x then f x else x) (find P xs)"
  by (induction xs) auto

lemma find_the: "distinct (map k xs) \<Longrightarrow> x \<in> set xs \<Longrightarrow> (\<And>y. P y \<longleftrightarrow> k y = k x) \<Longrightarrow> find P xs = Some x"
  by (induction xs) (auto simp: image_iff)

lemma link_at_the:
  assumes "tw_ok d" and "l \<in> set (f_links d)" and "link_key system ext l"
  shows "link_at system ext d = Some l"
  unfolding link_at_def
  by (rule find_the [of "\<lambda>l. (lk_system l, lk_external l)"]) (use assms in \<open>auto simp: tw_ok_def link_key_def\<close>)

lemma link_at_in: "link_at system ext d = Some l \<Longrightarrow> l \<in> set (f_links d) \<and> lk_system l = system \<and> lk_external l = ext"
  by (auto simp: link_at_def link_key_def dest: find_SomeD)

lemma item_at_in: "item_at i d = Some r \<Longrightarrow> r \<in> set (f_items d) \<and> wi_id r = i"
  by (auto simp: item_at_def dest: find_SomeD)

lemma item_at_the: "tw_ok d \<Longrightarrow> r \<in> set (f_items d) \<Longrightarrow> item_at (wi_id r) d = Some r"
  unfolding item_at_def by (rule find_the [of wi_id]) (auto simp: tw_ok_def)

lemma item_at_none: "item_at i d = None \<longleftrightarrow> i \<notin> wi_id ` set (f_items d)"
  by (auto simp: item_at_def find_None_iff)

lemma fs_appends_tables: "fs_appends facts d d' \<Longrightarrow> f_links d' = f_links d \<and> f_items d' = f_items d"
  by (auto simp: fs_appends_def)

lemma advance_tables [simp]:
  "f_items (advance s e v d) = f_items d"
  "link_at s' e' (advance s e v d) = map_option (\<lambda>l. if link_key s e l \<and> lk_version l < v then l\<lparr>lk_version := v\<rparr> else l) (link_at s' e' d)"
  "item_at i (advance s e v d) = item_at i d"
  by (auto simp: advance_def link_at_def item_at_def link_key_def intro!: find_update_where)

definition written :: "time \<Rightarrow> uuid \<Rightarrow> content \<Rightarrow> bool \<Rightarrow> work_item option \<Rightarrow> work_item" where
  "written t i c deleted current =
     (case current of
        None \<Rightarrow> \<lparr>wi_id = i, wi_title = ct_title c, wi_status = ct_status c, wi_notes = ct_notes c,
                  wi_deleted = (if deleted then Some t else None), wi_created = t, wi_updated = t\<rparr>
      | Some r \<Rightarrow> set_item t (ct_title c) (ct_status c) (ct_notes c) deleted r)"

lemma written_shows [simp]:
  "contentOfRow (written t i c deleted current) = c" "wi_deleted (written t i c deleted current) \<noteq> None \<longleftrightarrow> deleted"
  "(\<exists>x. wi_deleted (written t i c deleted current) = Some x) \<longleftrightarrow> deleted"
  by (auto simp: written_def contentOfRow_def set_item_def split: option.splits)

lemma put_item_tables:
  "f_links (put_item t i c deleted d) = f_links d"
  "link_at s e (put_item t i c deleted d) = link_at s e d"
  "item_at j (put_item t i c deleted d) = (if j = i then Some (written t i c deleted (item_at i d)) else item_at j d)"
  "f_items (put_item t i c deleted d) =
     (if item_at i d = None then f_items d @ [written t i c deleted None]
      else update_where (\<lambda>x. wi_id x = i) (set_item t (ct_title c) (ct_status c) (ct_notes c) deleted) (f_items d))"
proof -
  let ?f = "set_item t (ct_title c) (ct_status c) (ct_notes c) deleted"
  have "filter (\<lambda>r. wi_id r = i) (f_items d) = [] \<longleftrightarrow> item_at i d = None"
    by (auto simp: item_at_def find_None_iff filter_empty_conv)
  then show it: "f_items (put_item t i c deleted d) =
     (if item_at i d = None then f_items d @ [written t i c deleted None] else update_where (\<lambda>x. wi_id x = i) ?f (f_items d))"
    by (auto simp: put_item_def fq_UpsertWorkItem_def Let_def written_def split: list.split)
  show l: "f_links (put_item t i c deleted d) = f_links d"
    by (auto simp: put_item_def fq_UpsertWorkItem_def Let_def split: list.split)
  then show "link_at s e (put_item t i c deleted d) = link_at s e d" by (simp add: link_at_def)
  have "find (\<lambda>r. wi_id r = j) (update_where (\<lambda>x. wi_id x = i) ?f (f_items d)) =
      map_option (\<lambda>x. if wi_id x = i then ?f x else x) (find (\<lambda>r. wi_id r = j) (f_items d))"
    by (rule find_update_where) (simp add: set_item_def)
  then show "item_at j (put_item t i c deleted d) = (if j = i then Some (written t i c deleted (item_at i d)) else item_at j d)"
    using it by (auto simp: item_at_def find_append written_def split: option.splits dest: find_SomeD)
qed

text \<open>The cases of a committed \<open>Apply\<close>, with the link and the item it found.\<close>

lemma resolves_ok:
  assumes "resolves system ext d i d'" and "tw_ok d"
  obtains (linked) l where "link_at system ext d = Some l" and "lk_internal l = i" and "d' = d"
  | (fresh) "link_at system ext d = None" and "\<forall>l \<in> set (f_links d). \<not> (lk_system l = system \<and> lk_internal l = i)"
      and "d' = d\<lparr>f_links := f_links d @ [new_link system ext i]\<rparr>"
  using assms link_at_the [OF assms(2)] unfolding resolves_def by (auto simp: link_at_def find_None_iff)

lemma resolves_tw_ok: "resolves system ext d i d' \<Longrightarrow> tw_ok d \<Longrightarrow> tw_ok d'"
  by (auto simp: resolves_def tw_ok_def new_link_def link_key_def)

lemma advance_tw_ok:
  assumes "tw_ok d" and "\<forall>l \<in> set (f_links d). link_key s e l \<longrightarrow> lk_internal l \<in> wi_id ` set (f_items d)"
  shows "tw_ok (advance s e v d)"
proof -
  have "map (\<lambda>l. (lk_system l, lk_external l)) (f_links (advance s e v d)) = map (\<lambda>l. (lk_system l, lk_external l)) (f_links d)"
    "map (\<lambda>l. (lk_system l, lk_internal l)) (f_links (advance s e v d)) = map (\<lambda>l. (lk_system l, lk_internal l)) (f_links d)"
    by (simp_all add: advance_def map_update_where)
  moreover have "\<forall>l \<in> set (f_links (advance s e v d)). 0 < lk_version l \<longrightarrow> lk_internal l \<in> wi_id ` set (f_items d)"
    using assms by (auto simp: advance_def set_update_where tw_ok_def split: if_splits)
  ultimately show ?thesis using assms(1) by (simp add: tw_ok_def)
qed

lemma put_item_ids: "map wi_id (f_items (put_item t i c deleted d)) = map wi_id (f_items d) @ (if item_at i d = None then [i] else [])"
  unfolding put_item_tables by (simp add: written_def map_update_where set_item_def)

lemma put_item_tw_ok:
  assumes "tw_ok d" shows "tw_ok (put_item t i c deleted d)"
proof -
  have s: "wi_id ` set (f_items (put_item t i c deleted d)) = insert i (wi_id ` set (f_items d))"
    using arg_cong [OF put_item_ids [of t i c deleted d], of set] by (auto simp: item_at_none split: if_splits)
  have "distinct (map wi_id (f_items (put_item t i c deleted d)))"
    unfolding put_item_ids using assms by (auto simp: tw_ok_def item_at_none)
  then show ?thesis using assms by (auto simp: tw_ok_def put_item_tables(1) s)
qed

lemma put_item_advance: "put_item t i c deleted (advance s e v d) = advance s e v (put_item t i c deleted d)"
  by (auto simp: put_item_def fq_UpsertWorkItem_def advance_def Let_def split: list.split)

lemma applies_cases:
  assumes "applies E A src issue n d out d'" and "tw_ok d"
  obtains (echo) d1 i p where "resolves (ap_system A) (xi_id issue) d i d1" and "out = OutcomeEcho" and "d' = d1"
      and "src = SourceWebhook" and "p \<in> set (f_pushed d1)" and "pu_system p = ap_system A" and "pu_internal p = i"
  | (stale) d1 i l where "resolves (ap_system A) (xi_id issue) d i d1" and "out = OutcomeIgnoredStale" and "d' = d1"
      and "link_at (ap_system A) (xi_id issue) d1 = Some l" and "xi_version issue \<le> lk_version l"
  | (written) d1 i l merged rejected where "resolves (ap_system A) (xi_id issue) d i d1"
      and "link_at (ap_system A) (xi_id issue) d1 = Some l" and "lk_version l < xi_version issue" and "lk_internal l = i"
      and "merged_with A issue (item_at i d1) = (merged, rejected)"
      and "out = (if rejected \<noteq> [] then OutcomeConflict else OutcomeApplied)"
      and "fs_appends (item_facts E A issue i (item_at i d1))
          (put_item n i merged (xi_deleted issue) (advance (ap_system A) (xi_id issue) (xi_version issue) d1)) d'"
proof -
  obtain i d1 where r: "resolves (ap_system A) (xi_id issue) d i d1" and
    c: "out = OutcomeEcho \<and> src = SourceWebhook \<and> d' = d1 \<and>
        (\<exists>p \<in> set (f_pushed d1). pu_system p = ap_system A \<and> pu_internal p = i \<and> pu_version p = xi_version issue \<and>
           pu_hash p = content_hash E (ContentOf issue)) \<or>
      out = OutcomeIgnoredStale \<and> d' = d1 \<and>
        (\<forall>l \<in> set (f_links d1). link_key (ap_system A) (xi_id issue) l \<longrightarrow> xi_version issue \<le> lk_version l) \<or>
      (\<exists>l \<in> set (f_links d1). link_key (ap_system A) (xi_id issue) l \<and> lk_version l < xi_version issue) \<and>
      (let current = item_at i d1; (merged, rejected) = merged_with A issue current in
        out = (if rejected \<noteq> [] then OutcomeConflict else OutcomeApplied) \<and>
        fs_appends (item_facts E A issue i current)
          (put_item n i merged (xi_deleted issue) (advance (ap_system A) (xi_id issue) (xi_version issue) d1)) d')"
    using assms(1) unfolding applies_def by blast
  have ok: "tw_ok d1" using resolves_tw_ok [OF r assms(2)] .
  obtain l where l: "link_at (ap_system A) (xi_id issue) d1 = Some l" "lk_internal l = i"
    by (rule resolves_ok [OF r assms(2)]) (auto simp: link_at_def find_append new_link_def link_key_def)
  have in1: "l \<in> set (f_links d1)" "link_key (ap_system A) (xi_id issue) l"
    using link_at_in [OF l(1)] by (auto simp: link_key_def)
  have only: "l' = l" if "l' \<in> set (f_links d1)" "link_key (ap_system A) (xi_id issue) l'" for l'
    using link_at_the [OF ok that] l(1) by simp
  obtain merged rejected where m: "merged_with A issue (item_at i d1) = (merged, rejected)" by fastforce
  from c show ?thesis
  proof (elim disjE conjE)
    assume "out = OutcomeEcho" "src = SourceWebhook" "d' = d1" "\<exists>p \<in> set (f_pushed d1). pu_system p = ap_system A \<and>
      pu_internal p = i \<and> pu_version p = xi_version issue \<and> pu_hash p = content_hash E (ContentOf issue)"
    then show ?thesis using echo r by blast
  next
    assume "out = OutcomeIgnoredStale" "d' = d1"
      "\<forall>l \<in> set (f_links d1). link_key (ap_system A) (xi_id issue) l \<longrightarrow> xi_version issue \<le> lk_version l"
    then show ?thesis using stale r l in1 by blast
  next
    assume "\<exists>l \<in> set (f_links d1). link_key (ap_system A) (xi_id issue) l \<and> lk_version l < xi_version issue"
      and "let current = item_at i d1; (merged, rejected) = merged_with A issue current in
        out = (if rejected \<noteq> [] then OutcomeConflict else OutcomeApplied) \<and>
        fs_appends (item_facts E A issue i current)
          (put_item n i merged (xi_deleted issue) (advance (ap_system A) (xi_id issue) (xi_version issue) d1)) d'"
    then show ?thesis using written [OF r l(1) _ l(2) m] only m by (auto simp: Let_def)
  qed
qed

lemma applies_tw_ok:
  assumes "applies E A src issue n d out d'" and "tw_ok d" shows "tw_ok d'"
proof (rule applies_cases [OF assms])
  fix d1 i l merged rejected
  assume r: "resolves (ap_system A) (xi_id issue) d i d1" and l: "link_at (ap_system A) (xi_id issue) d1 = Some l" "lk_internal l = i"
    and a: "fs_appends (item_facts E A issue i (item_at i d1))
          (put_item n i merged (xi_deleted issue) (advance (ap_system A) (xi_id issue) (xi_version issue) d1)) d'"
  let ?d2 = "put_item n i merged (xi_deleted issue) d1"
  have ok1: "tw_ok d1" using resolves_tw_ok [OF r assms(2)] .
  have "lk_internal l' \<in> wi_id ` set (f_items ?d2)" if "l' \<in> set (f_links ?d2)" "link_key (ap_system A) (xi_id issue) l'" for l'
  proof -
    have "l' = l" using link_at_the [OF ok1 _ that(2)] that(1) l(1) by (simp add: put_item_tables)
    moreover have "item_at i ?d2 \<noteq> None" by (simp add: put_item_tables)
    ultimately show ?thesis using l(2) by (simp add: item_at_none)
  qed
  then have "tw_ok (advance (ap_system A) (xi_id issue) (xi_version issue) ?d2)"
    using advance_tw_ok put_item_tw_ok [OF ok1] by blast
  then show ?thesis using fs_appends_tables [OF a] by (simp add: put_item_advance tw_ok_def)
qed (use resolves_tw_ok assms(2) in auto)

end
