(* ===== verification/Base64.thy ===== *)
theory Base64
  imports Prelude
begin

section \<open>encoding/base64 (RawURLEncoding) and strings.Split\<close>

text \<open>
  The two standard-library routines the signed tokens are built with: base64 without padding
  over the URL alphabet (\<open>EncodeToString\<close>, \<open>DecodeString\<close>) and splitting at a separator.
  \<open>DecodeString\<close> skips carriage returns and line feeds, refuses any other foreign character
  and a single left-over character, and ignores the unused bits of the last group.
\<close>

unbundle bit_operations_syntax

definition alphabet :: string where
  "alphabet = ''ABCDEFGHIJKLMNOPQRSTUVWXYZabcdefghijklmnopqrstuvwxyz0123456789-_''"

definition enc_char :: "6 word \<Rightarrow> char" where
  "enc_char s = alphabet ! unat s"

definition dec_char :: "char \<Rightarrow> 6 word option" where
  "dec_char c = map_option of_nat (map_of (zip alphabet [0..<64]) c)"

fun sextets :: "bytes \<Rightarrow> 6 word list" where
  "sextets [] = []"
| "sextets [a] = [ucast (drop_bit 2 a), push_bit 4 (ucast a)]"
| "sextets [a, b] = [ucast (drop_bit 2 a), push_bit 4 (ucast a) OR ucast (drop_bit 4 b), push_bit 2 (ucast b)]"
| "sextets (a # b # c # bs) =
     [ucast (drop_bit 2 a), push_bit 4 (ucast a) OR ucast (drop_bit 4 b),
      push_bit 2 (ucast b) OR ucast (drop_bit 6 c), ucast c] @ sextets bs"

definition byte1 :: "6 word \<Rightarrow> 6 word \<Rightarrow> 8 word" where
  "byte1 s t = push_bit 2 (ucast s) OR ucast (drop_bit 4 t)"
definition byte2 :: "6 word \<Rightarrow> 6 word \<Rightarrow> 8 word" where
  "byte2 t u = push_bit 4 (ucast t) OR ucast (drop_bit 2 u)"
definition byte3 :: "6 word \<Rightarrow> 6 word \<Rightarrow> 8 word" where
  "byte3 u v = push_bit 6 (ucast u) OR ucast v"

fun octets :: "6 word list \<Rightarrow> bytes option" where
  "octets [] = Some []"
| "octets [s] = None"
| "octets [s, t] = Some [byte1 s t]"
| "octets [s, t, u] = Some [byte1 s t, byte2 t u]"
| "octets (s # t # u # v # ss) =
     (case octets ss of None \<Rightarrow> None | Some bs \<Rightarrow> Some (byte1 s t # byte2 t u # byte3 u v # bs))"

definition EncodeToString :: "bytes \<Rightarrow> string" where
  "EncodeToString bs = map enc_char (sextets bs)"

fun sequence :: "'a option list \<Rightarrow> 'a list option" where
  "sequence [] = Some []"
| "sequence (None # xs) = None"
| "sequence (Some x # xs) = map_option ((#) x) (sequence xs)"

definition line_break :: "char \<Rightarrow> bool" where
  "line_break c \<longleftrightarrow> of_char c \<in> {10, 13 :: nat}"

definition DecodeString :: "string \<Rightarrow> bytes option" where
  "DecodeString s =
     (case sequence (map dec_char (filter (\<lambda>c. \<not> line_break c) s)) of
        None \<Rightarrow> None | Some ss \<Rightarrow> octets ss)"

subsection \<open>Round trip\<close>

lemma length_alphabet: "length alphabet = 64" and distinct_alphabet: "distinct alphabet"
  by (simp_all add: alphabet_def)

lemma unat_sextet: "unat (s :: 6 word) < 64"
  by (rule order_less_le_trans [OF unsigned_less]) simp

lemma dec_enc_char [simp]: "dec_char (enc_char s) = Some s"
proof -
  let ?z = "zip alphabet [0..<64]"
  have "(enc_char s, unat s) \<in> set ?z"
    using unat_sextet [of s] length_alphabet unfolding enc_char_def in_set_zip by (intro exI [of _ "unat s"]) simp
  moreover have "distinct (map fst ?z)" using distinct_alphabet length_alphabet by simp
  ultimately have "map_of ?z (enc_char s) = Some (unat s)" by simp
  then show ?thesis by (simp add: dec_char_def)
qed

lemma enc_char_in: "enc_char s \<in> set alphabet"
  using unat_sextet [of s] length_alphabet by (simp add: enc_char_def)

lemma no_line_break: "c \<in> set alphabet \<Longrightarrow> \<not> line_break c"
  by (auto simp: alphabet_def line_break_def)

lemma no_dot: "CHR ''.'' \<notin> set alphabet"
  by (simp add: alphabet_def)

lemma sequence_Some [simp]: "sequence (map Some xs) = Some xs"
  by (induction xs) simp_all

lemma eight_bits:
  fixes a b :: "8 word"
  assumes "\<And>n. n \<in> {0, 1, 2, 3, 4, 5, 6, 7} \<Longrightarrow> bit a n = bit b n"
  shows "a = b"
proof (rule bit_word_eqI)
  fix n assume "n < LENGTH(8)"
  then have "n \<in> {0, 1, 2, 3, 4, 5, 6, 7}" by auto
  then show "bit a n = bit b n" by (rule assms)
qed

lemma no_bit8: "8 \<le> n \<Longrightarrow> \<not> bit (a :: 8 word) n"
  by (auto dest: bit_imp_le_length)

lemma bytes_of_sextets:
  "byte1 (ucast (drop_bit 2 a)) (push_bit 4 (ucast a) OR ucast (drop_bit 4 b)) = a"
  "byte1 (ucast (drop_bit 2 a)) (push_bit 4 (ucast a)) = a"
  "byte2 (push_bit 4 (ucast a) OR ucast (drop_bit 4 b)) (push_bit 2 (ucast b) OR ucast (drop_bit 6 c)) = b"
  "byte2 (push_bit 4 (ucast a) OR ucast (drop_bit 4 b)) (push_bit 2 (ucast b)) = b"
  "byte3 (push_bit 2 (ucast b) OR ucast (drop_bit 6 c)) (ucast c) = c"
  for a b c :: "8 word"
  by (rule eight_bits, auto simp: byte1_def byte2_def byte3_def bit_simps no_bit8 numeral_2_eq_2 [symmetric] numeral_3_eq_3 [symmetric])+

lemma octets_sextets [simp]: "octets (sextets bs) = Some bs"
  by (induction bs rule: sextets.induct) (simp_all add: bytes_of_sextets)

lemma EncodeToString_chars: "c \<in> set (EncodeToString bs) \<Longrightarrow> c \<in> set alphabet"
  by (auto simp: EncodeToString_def enc_char_in)

lemma DecodeString_EncodeToString [simp]: "DecodeString (EncodeToString bs) = Some bs"
proof -
  have "filter (\<lambda>c. \<not> line_break c) (EncodeToString bs) = EncodeToString bs"
    using EncodeToString_chars no_line_break by (simp add: filter_id_conv)
  moreover have "map dec_char (EncodeToString bs) = map Some (sextets bs)"
    by (simp add: EncodeToString_def)
  ultimately show ?thesis by (simp only: DecodeString_def sequence_Some octets_sextets option.case)
qed

lemma EncodeToString_inj: "EncodeToString a = EncodeToString b \<Longrightarrow> a = b"
  by (metis DecodeString_EncodeToString option.inject)

subsection \<open>strings.Split at one character\<close>

fun split_on :: "char \<Rightarrow> string \<Rightarrow> string list" where
  "split_on c [] = [[]]"
| "split_on c (x # xs) =
     (if x = c then [] # split_on c xs
      else (case split_on c xs of [] \<Rightarrow> [[x]] | p # ps \<Rightarrow> (x # p) # ps))"

lemma split_on_nonempty [simp]: "split_on c s \<noteq> []"
  by (cases s) (auto split: list.splits)

lemma split_on_plain: "c \<notin> set a \<Longrightarrow> split_on c a = [a]"
  by (induction a) auto

lemma split_on_append: "c \<notin> set a \<Longrightarrow> split_on c (a @ c # b) = a # split_on c b"
  by (induction a) (auto split: list.splits)

text \<open>Bytes of a string, as \<open>[]byte(s)\<close>; HOL's characters are bytes.\<close>

definition bytes_of :: "string \<Rightarrow> bytes" where
  "bytes_of s = map (\<lambda>c. of_nat (of_char c)) s"

definition string_of :: "bytes \<Rightarrow> string" where
  "string_of bs = map (\<lambda>b. char_of (unat b)) bs"

lemma of_char_byte: "unat (of_nat (of_char c) :: 8 word) = of_char c"
  by (simp add: unat_of_nat take_bit_nat_eq_self)

lemma string_of_bytes_of [simp]: "string_of (bytes_of s) = s"
  by (induction s) (simp_all add: string_of_def bytes_of_def of_char_byte)

lemma bytes_of_inj: "bytes_of s = bytes_of t \<Longrightarrow> s = t"
  by (metis string_of_bytes_of)

end
