(* ===== verification/FsWebhook.thy ===== *)
theory FsWebhook
  imports FsTwowayProofs Base64
begin

section \<open>offline-sync-app: signed webhooks and their inbox\<close>

text \<open>
  \<open>internal/webhook\<close>: a delivery is authenticated and stored (\<open>NewHandler\<close>), a worker applies the
  stored deliveries later (\<open>worker_RunOnce\<close>), each in a transaction of its own with the mark that it has
  been processed; one that keeps failing moves to the dead letters.
\<close>

subsection \<open>Authentication\<close>

datatype verify_error = ErrMalformedHeaders | ErrBadSignature | ErrStaleTimestamp

text \<open>Secret and tolerance, in nanoseconds.\<close>

record webhook_verifier =
  vf_secret :: string
  vf_tolerance :: int

definition signaturePrefix :: string where "signaturePrefix = ''sha256=''"

definition cut_prefix :: "string \<Rightarrow> string \<Rightarrow> string option" where
  "cut_prefix p s = (if take (length p) s = p then Some (drop (length p) s) else None)"

fun hex_decode :: "string \<Rightarrow> string option" where
  "hex_decode [] = Some []"
| "hex_decode [c] = None"
| "hex_decode (c # c' # s) =
     (case (hex_value c, hex_value c', hex_decode s) of
        (Some m, Some n, Some t) \<Rightarrow> Some (byte (16 * m + n) # t)
      | _ \<Rightarrow> None)"

text \<open>\<open>strconv.ParseInt(s, 10, 64)\<close>, with the sign Go allows.\<close>

definition parse_seconds :: "string \<Rightarrow> int option" where
  "parse_seconds s = parse_int 64 (case s of c # ds \<Rightarrow> if c = CHR ''+'' \<and> (ds = [] \<or> hd ds \<noteq> CHR ''-'') then ds else s | [] \<Rightarrow> s)"

definition mac_input :: "string \<Rightarrow> string \<Rightarrow> string \<Rightarrow> string" where
  "mac_input timestamp deliveryID body = timestamp @ ''.'' @ deliveryID @ ''.'' @ body"

text \<open>The clock counts microseconds, durations are nanoseconds.\<close>

definition Verify :: "fenv \<Rightarrow> webhook_verifier \<Rightarrow> time \<Rightarrow> string \<Rightarrow> string \<Rightarrow> string \<Rightarrow> string \<Rightarrow> verify_error option" where
  "Verify E v t timestamp deliveryID signature body =
     (case cut_prefix signaturePrefix signature of
        None \<Rightarrow> Some ErrMalformedHeaders
      | Some hexSig \<Rightarrow>
          if timestamp = [] \<or> CHR ''.'' \<in> set deliveryID then Some ErrMalformedHeaders
          else
            (case hex_decode hexSig of
               None \<Rightarrow> Some ErrMalformedHeaders
             | Some got \<Rightarrow>
                 (case parse_seconds timestamp of
                    None \<Rightarrow> Some ErrMalformedHeaders
                  | Some secs \<Rightarrow>
                      if got \<noteq> fe_hmac E (vf_secret v) (mac_input timestamp deliveryID body) then Some ErrBadSignature
                      else
                        (let age = t * 1000 - secs * 1000000000 in
                         if age > vf_tolerance v \<or> age < - vf_tolerance v then Some ErrStaleTimestamp else None))))"

subsection \<open>Receiving\<close>

text \<open>Headers (empty if missing) and body (\<open>None\<close> if it cannot be read).\<close>

record webhook_request =
  wq_delivery :: string
  wq_timestamp :: string
  wq_signature :: string
  wq_body :: "string option"

definition webhook_reply :: "nat \<Rightarrow> string \<Rightarrow> nat \<times> json" where
  "webhook_reply status code = (status, JObject [(if status \<ge> 400 then ''error'' else ''status'', JString code)])"

definition rejectionCode :: "verify_error \<Rightarrow> string" where
  "rejectionCode e = (case e of ErrStaleTimestamp \<Rightarrow> ''stale_timestamp'' | ErrMalformedHeaders \<Rightarrow> ''malformed_headers'' | _ \<Rightarrow> ''bad_signature'')"

definition DBInbox_Insert :: "fenv \<Rightarrow> string \<Rightarrow> string \<Rightarrow> string \<Rightarrow> ('x, bool) fm" where
  "DBInbox_Insert E system deliveryID body =
     fbind (fexec E (fq_InsertWebhookInbox system deliveryID body)) (\<lambda>n. fret (n = 1))"

definition NewHandler :: "fenv \<Rightarrow> string \<Rightarrow> webhook_verifier \<Rightarrow> nat \<Rightarrow> webhook_request \<Rightarrow> 'x fworld \<Rightarrow> (nat \<times> json) \<times> 'x fworld" where
  "NewHandler E system v maxBodyBytes q w =
     (case wq_body q of
        None \<Rightarrow> (webhook_reply 400 ''unreadable_body'', w)
      | Some body \<Rightarrow>
          if length body > maxBodyBytes then (webhook_reply 413 ''payload_too_large'', w)
          else
            (case Verify E v (fnow E w) (wq_timestamp q) (wq_delivery q) (wq_signature q) body of
               Some e \<Rightarrow> (webhook_reply 401 (rejectionCode e), w)
             | None \<Rightarrow>
                 if wq_delivery q = [] then (webhook_reply 400 ''missing_delivery_id'', w)
                 else
                   (case DBInbox_Insert E system (wq_delivery q) body w of
                      (Inl _, w') \<Rightarrow> (webhook_reply 500 ''inbox_unavailable'', w')
                    | (Inr inserted, w') \<Rightarrow>
                        (webhook_reply 202 (if \<not> inserted then ''duplicate'' else ''accepted''), w'))))"

text \<open>\<open>NewRouter\<close>: the handler is mounted at \<open>POST /webhooks/{system}\<close>; \<open>None\<close> is what \<open>ServeMux\<close> answers itself.\<close>

definition webhook_router ::
    "fenv \<Rightarrow> string \<Rightarrow> webhook_verifier \<Rightarrow> nat \<Rightarrow> string \<Rightarrow> string \<Rightarrow> webhook_request \<Rightarrow> 'x fworld \<Rightarrow> ((nat \<times> json) option) \<times> 'x fworld" where
  "webhook_router E system v maxBodyBytes meth path q w =
     (if meth = ''POST'' \<and> path = ''/webhooks/'' @ system
      then (case NewHandler E system v maxBodyBytes q w of (r, w') \<Rightarrow> (Some r, w'))
      else (None, w))"

subsection \<open>The worker\<close>

definition outcome_text :: "outcome \<Rightarrow> string" where
  "outcome_text out =
     (case out of OutcomeApplied \<Rightarrow> ''applied'' | OutcomeIgnoredStale \<Rightarrow> ''ignored_stale'' | OutcomeConflict \<Rightarrow> ''conflict''
      | OutcomeLimitExceeded \<Rightarrow> ''limit_exceeded'' | OutcomeEcho \<Rightarrow> ''echo'')"

definition inbox_batchSize :: nat where "inbox_batchSize = 25"

text \<open>\<open>busy\<close> says at which calls another worker holds the lock of the row asked for.\<close>

definition process_claimed :: "fenv \<Rightarrow> applier \<Rightarrow> string \<Rightarrow> inbox_row \<Rightarrow> ('x, unit) fm" where
  "process_claimed E A deliveryID row =
     fbind (ProcessWebhook E A (ib_body row)) (\<lambda>out.
     fexec E (fq_MarkInboxProcessed (ap_system A) deliveryID (outcome_text out)))"

definition claim_and_process :: "fenv \<Rightarrow> bool \<Rightarrow> applier \<Rightarrow> string \<Rightarrow> ('x, unit) fm" where
  "claim_and_process E locked A deliveryID =
     fhandle (fexec E (fq_ClaimInboxRow locked (ap_system A) deliveryID)) (\<lambda>r.
       case r of
         Inl e \<Rightarrow> if e = FsNoRows then fthrow RolledBack else fthrow e
       | Inr row \<Rightarrow> process_claimed E A deliveryID row)"

definition processOne :: "fenv \<Rightarrow> (nat \<Rightarrow> bool) \<Rightarrow> applier \<Rightarrow> string \<Rightarrow> ('x, bool) fm" where
  "processOne E busy A deliveryID w =
     (case InTx E (claim_and_process E (busy (fw_calls w)) A deliveryID) w of
        (Inl e, w') \<Rightarrow> if e = RolledBack then (Inr False, w') else (Inl e, w')
      | (Inr _, w') \<Rightarrow> (Inr True, w'))"

definition recordFailure :: "fenv \<Rightarrow> string \<Rightarrow> int \<Rightarrow> string \<Rightarrow> fs_error \<Rightarrow> ('x, unit) fm" where
  "recordFailure E system maxAttempts deliveryID cause = InTx E
     (fbind (fexec E (fq_RecordInboxFailure system deliveryID (fe_text E cause))) (\<lambda>row.
      if ib_attempts row \<ge> maxAttempts
      then fbind (fexec E (fq_InsertDeadLetter ''inbox'' system deliveryID (ib_body row) (fe_text E cause) (ib_attempts row))) (\<lambda>_.
           fexec E (fq_MarkInboxDead system deliveryID))
      else fret ()))"

text \<open>The number of deliveries processed, and the error that ended the run.\<close>

primrec worker_loop :: "fenv \<Rightarrow> (nat \<Rightarrow> bool) \<Rightarrow> applier \<Rightarrow> int \<Rightarrow> string list \<Rightarrow> nat \<Rightarrow> 'x fworld \<Rightarrow> (nat \<times> fs_error option) \<times> 'x fworld" where
  "worker_loop E busy A maxAttempts [] processed w = ((processed, None), w)"
| "worker_loop E busy A maxAttempts (i # ids) processed w =
     (case processOne E busy A i w of
        (Inl e, w1) \<Rightarrow>
          (case recordFailure E (ap_system A) maxAttempts i e w1 of
             (Inl ferr, w2) \<Rightarrow> ((processed, Some ferr), w2)
           | (Inr _, w2) \<Rightarrow> worker_loop E busy A maxAttempts ids processed w2)
      | (Inr d, w1) \<Rightarrow> worker_loop E busy A maxAttempts ids (if d then processed + 1 else processed) w1)"

definition worker_RunOnce :: "fenv \<Rightarrow> (nat \<Rightarrow> bool) \<Rightarrow> applier \<Rightarrow> int \<Rightarrow> 'x fworld \<Rightarrow> (nat \<times> fs_error option) \<times> 'x fworld" where
  "worker_RunOnce E busy A maxAttempts w =
     (case fexec E (fq_ListPendingInbox (fe_rank E) (ap_system A) inbox_batchSize) w of
        (Inl e, w') \<Rightarrow> ((0, Some e), w')
      | (Inr ids, w') \<Rightarrow> worker_loop E busy A maxAttempts ids 0 w')"

subsection \<open>What the worker does\<close>

definition marked :: "string \<Rightarrow> string \<Rightarrow> string \<Rightarrow> time \<Rightarrow> fdb \<Rightarrow> fdb" where
  "marked system deliveryID out t d = snd (fq_MarkInboxProcessed system deliveryID out t d)"

lemma mark_eq: "fq_MarkInboxProcessed system deliveryID out t d = (Inr (), marked system deliveryID out t d)"
  by (simp add: marked_def fq_MarkInboxProcessed_def)

text \<open>One delivery applied: the row was pending, its issue was applied, its row was marked.\<close>

definition delivers :: "fenv \<Rightarrow> applier \<Rightarrow> string \<Rightarrow> time \<Rightarrow> fdb \<Rightarrow> fdb \<Rightarrow> bool" where
  "delivers E A deliveryID n d d' \<longleftrightarrow> (\<exists>row issue out d1.
     row \<in> set (f_inbox d) \<and> inbox_key (ap_system A) deliveryID row \<and> pending row \<and>
     decode_webhook E (ib_body row) = Some issue \<and> xi_id issue \<noteq> [] \<and> 0 < xi_version issue \<and>
     applies E A SourceWebhook issue n d out d1 \<and> d' = marked (ap_system A) deliveryID (outcome_text out) n d1)"

lemma ProcessWebhook_ok: "ok_tx (ProcessWebhook E A body) (\<lambda>n d out d'. \<exists>issue. decode_webhook E body = Some issue \<and>
    xi_id issue \<noteq> [] \<and> 0 < xi_version issue \<and> applies E A SourceWebhook issue n d out d')"
proof (cases "decode_webhook E body")
  case None then show ?thesis by (simp add: ProcessWebhook_def ok_tx_fthrow)
next
  case (Some i)
  then show ?thesis by (auto simp: ProcessWebhook_def intro: ok_tx_fthrow ok_tx_weaken [OF Apply_ok])
qed

lemma claim_and_process_ok: "ok_tx (claim_and_process E locked A i) (\<lambda>n d _ d'. delivers E A i n d d')"
proof -
  have m: "ok_tx (process_claimed E A i row) (\<lambda>n d _ d'. \<exists>issue out d1. decode_webhook E (ib_body row) = Some issue \<and>
      xi_id issue \<noteq> [] \<and> 0 < xi_version issue \<and> applies E A SourceWebhook issue n d out d1 \<and>
      d' = marked (ap_system A) i (outcome_text out) n d1)" for row
    unfolding process_claimed_def
    by (rule ok_tx_weaken [OF ok_tx_fbind [OF ProcessWebhook_ok ok_tx_fexec]]) (auto simp: mark_eq)
  have f: "ok_tx (fthrow RolledBack) (\<lambda>n d _ d'. False)" by (rule ok_tx_fthrow)
  show ?thesis unfolding claim_and_process_def
    by (rule ok_tx_weaken [OF ok_found [OF f m]])
      (auto simp: fq_ClaimInboxRow_def one_row_find delivers_def split: option.splits if_splits dest!: find_SomeD; fastforce simp: one_row_def)
qed

lemma processOne_cases:
  assumes "processOne E busy A i w = (r, w')"
  obtains (unchanged) "fw_db w' = fw_db w" and "r \<noteq> Inr True"
  | (delivered) "delivers E A i (fnow E w) (fw_db w) (fw_db w')" and "r = Inr True \<or> r = Inl FsUnavailable"
proof -
  obtain r0 where t: "InTx E (claim_and_process E (busy (fw_calls w)) A i) w = (r0, w')"
    and r: "r = (case r0 of Inl e \<Rightarrow> if e = RolledBack then Inr False else Inl e | Inr _ \<Rightarrow> Inr True)"
    using assms by (auto simp: processOne_def split: prod.splits sum.splits if_splits)
  show ?thesis using ok_tx_InTx [OF claim_and_process_ok t] r unchanged delivered by (auto split: sum.splits if_splits)
qed

text \<open>One failure recorded.\<close>

definition failed_row :: "string \<Rightarrow> inbox_row \<Rightarrow> inbox_row" where
  "failed_row err r = r\<lparr>ib_attempts := ib_attempts r + 1, ib_error := err\<rparr>"

definition fails :: "string \<Rightarrow> int \<Rightarrow> string \<Rightarrow> string \<Rightarrow> time \<Rightarrow> fdb \<Rightarrow> fdb \<Rightarrow> bool" where
  "fails system maxAttempts i err n d d' \<longleftrightarrow> (\<exists>row \<in> set (f_inbox d). inbox_key system i row \<and>
     (let d1 = update_inbox system i (failed_row err) d; row1 = failed_row err row in
      if ib_attempts row1 \<ge> maxAttempts
      then d' = (update_inbox system i (\<lambda>r. r\<lparr>ib_dead := Some n\<rparr>) d1)\<lparr>f_dead := f_dead d @
             [\<lparr>dl_source = ''inbox'', dl_system = system, dl_ref = i, dl_payload = ib_body row, dl_reason = err,
               dl_attempts = ib_attempts row1, dl_created = n\<rparr>]\<rparr>
      else d' = d1))"

lemma RecordFailure_row:
  assumes "fq_RecordInboxFailure system i err t d = (Inr row1, d1)"
  obtains row where "row \<in> set (f_inbox d)" and "inbox_key system i row" and "row1 = failed_row err row"
    and "d1 = update_inbox system i (failed_row err) d"
proof (cases "filter (inbox_key system i) (f_inbox d)")
  case Nil then show ?thesis using assms by (simp add: fq_RecordInboxFailure_def one_row_def Let_def)
next
  case (Cons x xs)
  then have "x \<in> set (filter (inbox_key system i) (f_inbox d))" by simp
  then have x: "x \<in> set (f_inbox d)" "inbox_key system i x" by simp_all
  show ?thesis using assms Cons by (intro that [OF x]) (auto simp: fq_RecordInboxFailure_def one_row_def Let_def failed_row_def [abs_def])
qed

lemma recordFailure_cases:
  assumes "recordFailure E system maxAttempts i cause w = (r, w')"
  obtains (unchanged) e where "fw_db w' = fw_db w" and "r = Inl e"
  | (recorded) "fails system maxAttempts i (fe_text E cause) (fnow E w) (fw_db w) (fw_db w')" and "r = Inr () \<or> r = Inl FsUnavailable"
proof -
  let ?err = "fe_text E cause"
  have k: "ok_tx (if ib_attempts row \<ge> maxAttempts
      then fbind (fexec E (fq_InsertDeadLetter ''inbox'' system i (ib_body row) ?err (ib_attempts row))) (\<lambda>_. fexec E (fq_MarkInboxDead system i))
      else fret ()) (\<lambda>n d _ d'. if ib_attempts row \<ge> maxAttempts
        then d' = (update_inbox system i (\<lambda>r. r\<lparr>ib_dead := Some n\<rparr>) d)\<lparr>f_dead := f_dead d @
             [\<lparr>dl_source = ''inbox'', dl_system = system, dl_ref = i, dl_payload = ib_body row, dl_reason = ?err,
               dl_attempts = ib_attempts row, dl_created = n\<rparr>]\<rparr>
        else d' = d)" for row
    by (rule ok_tx_weaken [OF ok_tx_if [OF ok_tx_fbind [OF ok_tx_fexec ok_tx_fexec] ok_tx_fret]])
      (auto simp: fq_InsertDeadLetter_def fq_MarkInboxDead_def update_inbox_def split: if_splits)
  have "ok_tx (fbind (fexec E (fq_RecordInboxFailure system i ?err)) (\<lambda>row. if ib_attempts row \<ge> maxAttempts
      then fbind (fexec E (fq_InsertDeadLetter ''inbox'' system i (ib_body row) ?err (ib_attempts row))) (\<lambda>_. fexec E (fq_MarkInboxDead system i))
      else fret ())) (\<lambda>n d _ d'. fails system maxAttempts i ?err n d d')"
    by (rule ok_tx_weaken [OF ok_tx_fbind [OF ok_tx_fexec k]])
      (auto simp: fails_def Let_def failed_row_def update_inbox_def split: if_splits elim!: RecordFailure_row)
  from ok_tx_InTx [OF this assms [unfolded recordFailure_def]] show ?thesis
    using unchanged recorded by (auto simp: unit_eq)
qed

end
