(* ===== verification/Schema.thy ===== *)
theory Schema
  imports Prelude Complex_Main
begin

section \<open>The relational schema of ticket-booking\<close>

text \<open>
  The tables of \<open>ticket-booking/migrations\<close> as records (the Go row structs of
  \<open>internal/db/models.go\<close>), the database as the record of its tables, the constraints
  the migrations declare, and how a call reaches the
  database: a statement on the pool (\<open>exec\<close>) or inside a transaction
  (\<open>begin_tx\<close>, \<open>exec_tx\<close>, \<open>commit_tx\<close>). Nullable columns are options; columns with a fixed
  vocabulary (statuses, saga steps, audit outcomes, event types) are datatypes.
\<close>

subsection \<open>Vocabularies\<close>

datatype order_status = Pending | Authorizing | Confirming | Confirmed | Ticketed | Failed | Compensated

datatype pay_status = PayPending | PayCaptured | PayFailed | PayUnknown

datatype saga_step_name = ExtendHoldStep | ChargeStep | ConfirmStep | IssueTicketStep

datatype step_state = StepPending | StepDone | StepCompensated | StepFailed

datatype hold_outcome = ACQUIRED | LOST_REDIS | LOST_DB_CAS | RELEASED | CONFIRMED | STALE_FENCE_REJECTED

datatype event_type = SeatHeldEvent | SeatReleasedEvent | SeatBookedEvent | OrderCreatedEvent

text \<open>
  Event payloads are JSON objects; the values the code writes are integers, strings,
  identifiers and instants.
\<close>

datatype json_value = JInt int | JStr string | JUuid uuid | JTime time

type_synonym payload = "(string \<times> json_value) list"

subsection \<open>Rows\<close>

record event_seat =
  es_event :: int
  es_seat :: int
  es_ordinal :: int
  es_status :: int \<comment> \<open>0 AVAILABLE, 1 HELD, 2 BOOKED, 3 PENDING-PAYMENT\<close>
  es_sellable :: bool
  es_hold :: "uuid option"
  es_held_by :: "string option"
  es_expires :: "time option"
  es_booking :: "uuid option"
  es_price :: int
  es_hold_price :: "int option"
  es_version :: int
  es_fence :: int
  es_updated :: time

record holds_audit =
  ha_hold :: uuid
  ha_event :: int
  ha_seat :: int
  ha_user :: string
  ha_outcome :: hold_outcome
  ha_fence :: "int option"
  ha_expires :: "time option"

record domain_event =
  de_id :: uuid
  de_aggregate :: string
  de_type :: event_type
  de_schema :: int
  de_payload :: payload
  de_published :: "time option"
  de_created :: time
  de_seq :: nat

record order_row =
  ord_id :: uuid
  ord_user :: string
  ord_event :: int
  ord_hold :: uuid
  ord_seats :: "int list"
  ord_amount :: int
  ord_status :: order_status
  ord_reallocated :: bool
  ord_failure_code :: "string option"
  ord_failure_detail :: "string option"
  ord_created :: time
  ord_updated :: time

record payment_row =
  pay_id :: uuid
  pay_order :: uuid
  pay_key :: string
  pay_ref :: "string option"
  pay_amount :: int
  pay_status_of :: pay_status
  pay_attempts :: int
  pay_error :: "string option"
  pay_created :: time
  pay_updated :: time

datatype refund_status = RefundPending | RefundCompleted | RefundFailed

record refund_row =
  rf_id :: uuid
  rf_payment :: uuid
  rf_ref :: "string option"
  rf_amount :: int
  rf_status :: refund_status

record saga_step =
  ss_order :: uuid
  ss_step :: saga_step_name
  ss_state :: step_state
  ss_attempts :: int
  ss_error :: "string option"

record ticket_row =
  tk_id :: uuid
  tk_order :: uuid
  tk_event :: int
  tk_seat :: int
  tk_key :: string
  tk_redeemed :: "time option"
  tk_revoked :: "time option"

record reminder_row =
  rm_ticket :: uuid
  rm_kind :: string

record event_row =
  ev_id :: int
  ev_venue :: int
  ev_artist :: string
  ev_title :: string
  ev_starts :: time
  ev_onsale :: time
  ev_region :: string
  ev_status :: string
  ev_layout :: int
  ev_created :: time

record price_tier =
  pt_event :: int
  pt_tier :: string
  pt_price :: int

record venue_row =
  vn_id :: int
  vn_name :: string
  vn_city :: string
  vn_layout :: int
  vn_created :: time

record seat_row =
  sr_id :: int
  sr_section :: int
  sr_label :: string
  sr_order :: int

record venue_seat =
  st_id :: int
  st_row :: int
  st_label :: string
  st_x :: int
  st_y :: int

record section_row =
  sec_id :: int
  sec_venue :: int
  sec_name :: string
  sec_tier :: string
  sec_order :: int
  sec_closed :: bool

record ws_row =
  ws_conn :: uuid
  ws_event :: int
  ws_user :: string
  ws_seq :: nat
  ws_disconnected :: "time option"

record room_audit =
  wr_event :: int
  wr_rate :: rat
  wr_cursor :: int
  wr_p99 :: rat
  wr_pool :: rat
  wr_errors :: rat
  wr_red_latency :: bool
  wr_red_pool :: bool
  wr_red_errors :: bool
  wr_created :: time

record db =
  t_seats :: "event_seat list"
  t_audit :: "holds_audit list"
  t_outbox :: "domain_event list"
  t_outbox_seq :: nat
  t_processed :: "(uuid \<times> string) list"
  t_orders :: "order_row list"
  t_steps :: "saga_step list"
  t_payments :: "payment_row list"
  t_refunds :: "refund_row list"
  t_tickets :: "ticket_row list"
  t_reminders :: "reminder_row list"
  t_events :: "event_row list"
  t_sections :: "section_row list"
  t_seat_rows :: "seat_row list"
  t_venue_seats :: "venue_seat list"
  t_ws :: "ws_row list"
  t_venues :: "venue_row list"
  t_tiers :: "price_tier list"
  t_room_audit :: "room_audit list"

subsection \<open>Constraints\<close>

definition seat_key :: "event_seat \<Rightarrow> int \<times> int" where
  "seat_key r = (es_event r, es_seat r)"

definition seat_check :: "event_seat \<Rightarrow> bool" where
  "seat_check r \<longleftrightarrow>
     (es_status r = 2 \<longrightarrow> es_booking r \<noteq> None)
   \<and> (es_status r = 1 \<or> es_status r = 3 \<longrightarrow> es_hold r \<noteq> None \<and> es_expires r \<noteq> None)"

text \<open>
  What the CAS statements keep beyond the declared checks: the status is one of the four
  codes, hold columns are set exactly while the seat is held, and only a booked seat names
  an order.
\<close>

definition seat_wf :: "event_seat \<Rightarrow> bool" where
  "seat_wf r \<longleftrightarrow> seat_check r \<and> es_status r \<in> {0, 1, 2, 3} \<and> 0 \<le> es_fence r
   \<and> (es_status r \<in> {0, 2} \<longrightarrow> es_hold r = None \<and> es_held_by r = None \<and> es_expires r = None)
   \<and> (es_status r \<in> {1, 3} \<longrightarrow> es_held_by r \<noteq> None \<and> es_hold_price r \<noteq> None)
   \<and> (es_booking r \<noteq> None \<longrightarrow> es_status r = 2)"

definition seats_wf :: "event_seat list \<Rightarrow> bool" where
  "seats_wf rows \<longleftrightarrow> distinct (map seat_key rows) \<and> list_all seat_wf rows"

lemma seat_wf_check [simp]: "seat_wf r \<Longrightarrow> seat_check r"
  by (simp add: seat_wf_def)

lemma seats_wf_row: "seats_wf rows \<Longrightarrow> r \<in> set rows \<Longrightarrow> seat_wf r"
  by (simp add: seats_wf_def list_all_iff)

lemma seats_wf_update:
  assumes "seats_wf rows" and "\<And>r. seat_key (f r) = seat_key r"
    and "\<And>r. seat_wf r \<Longrightarrow> P r \<Longrightarrow> seat_wf (f r)"
  shows "seats_wf (update_where P f rows)"
  using assms by (simp add: seats_wf_def map_update_where list_all_update_where)

subsection \<open>Calls\<close>

text \<open>
  An entry accepted by the event bus, as \<open>outbox.Envelope\<close> has it.
\<close>

record envelope =
  en_id :: uuid
  en_aggregate :: string
  en_type :: event_type
  en_schema :: int
  en_payload :: payload

text \<open>
  The world a service runs in: the committed database, the state \<open>'l\<close> of the seat lock (the
  Redis contention filter, or whatever implements that interface), the state \<open>'p\<close> of the
  payment provider, the objects put in the object store (bucket, key and content, the newest
  last), the entries the event bus has accepted, and the number of external calls made so
  far, which indexes the environment.
\<close>

record ('l, 'p) world =
  w_db :: db
  w_lock :: 'l
  w_pay :: 'p
  w_objects :: "((string \<times> string) \<times> bytes) list"
  w_bus :: "envelope list"
  w_calls :: nat

type_synonym 'a stmt = "time \<Rightarrow> db \<Rightarrow> (error + 'a) \<times> db"

definition tick :: "('l, 'p) world \<Rightarrow> ('l, 'p) world" where
  "tick w = w\<lparr>w_calls := Suc (w_calls w)\<rparr>"

definition new_uuid :: "env \<Rightarrow> ('l, 'p) world \<Rightarrow> uuid \<times> ('l, 'p) world" where
  "new_uuid E w = (uuid_at E (w_calls w), tick w)"

definition now :: "env \<Rightarrow> ('l, 'p) world \<Rightarrow> time" where
  "now E w = clock_at E (w_calls w)"

text \<open>A statement on the pool is its own transaction: \<open>now()\<close> is the instant of the call.\<close>

definition exec :: "env \<Rightarrow> 'a stmt \<Rightarrow> ('l, 'p) world \<Rightarrow> (error + 'a) \<times> ('l, 'p) world" where
  "exec E st w =
     (let (r, d) = st (now E w) (w_db w) in
      case fate_of E (w_calls w) of
        Done \<Rightarrow> (r, (tick w)\<lparr>w_db := d\<rparr>)
      | Lost \<Rightarrow> (Inl Unavailable, tick w)
      | Ambiguous \<Rightarrow> (Inl Unavailable, (tick w)\<lparr>w_db := d\<rparr>))"

text \<open>
  A transaction works on its own copy of the database, under the \<open>now()\<close> of its begin; the
  committed database changes only at the commit. A deferred rollback is the copy being
  dropped.
\<close>

record tx =
  tx_now :: time
  tx_db :: db

definition begin_tx :: "env \<Rightarrow> ('l, 'p) world \<Rightarrow> (error + tx) \<times> ('l, 'p) world" where
  "begin_tx E w =
     (if fate_of E (w_calls w) = Done then (Inr \<lparr>tx_now = now E w, tx_db = w_db w\<rparr>, tick w)
      else (Inl Unavailable, tick w))"

definition exec_tx :: "env \<Rightarrow> 'a stmt \<Rightarrow> tx \<Rightarrow> ('l, 'p) world \<Rightarrow> (error + 'a \<times> tx) \<times> ('l, 'p) world" where
  "exec_tx E st t w =
     (if fate_of E (w_calls w) = Done
      then (case st (tx_now t) (tx_db t) of
              (Inl e, d) \<Rightarrow> (Inl e, tick w)
            | (Inr x, d) \<Rightarrow> (Inr (x, t\<lparr>tx_db := d\<rparr>), tick w))
      else (Inl Unavailable, tick w))"

definition commit_tx :: "env \<Rightarrow> tx \<Rightarrow> ('l, 'p) world \<Rightarrow> (error + unit) \<times> ('l, 'p) world" where
  "commit_tx E t w =
     (case fate_of E (w_calls w) of
        Done \<Rightarrow> (Inr (), (tick w)\<lparr>w_db := tx_db t\<rparr>)
      | Lost \<Rightarrow> (Inl Unavailable, tick w)
      | Ambiguous \<Rightarrow> (Inl Unavailable, (tick w)\<lparr>w_db := tx_db t\<rparr>))"

lemma tick_simps [simp]:
  "w_db (tick w) = w_db w" "w_lock (tick w) = w_lock w" "w_pay (tick w) = w_pay w"
  "w_objects (tick w) = w_objects w" "w_bus (tick w) = w_bus w" "w_calls (tick w) = Suc (w_calls w)"
  by (simp_all add: tick_def)

lemma new_uuid_simps [simp]:
  "fst (new_uuid E w) = uuid_at E (w_calls w)" "snd (new_uuid E w) = tick w"
  by (simp_all add: new_uuid_def)

text \<open>
  The only ways a call can end. A failed call leaves the database as it was or, when the
  answer was lost, as the statement left it; the lock and the provider are never touched.
\<close>

lemma exec_cases:
  assumes "exec E st w = (r, w')"
  obtains (run) d where "st (now E w) (w_db w) = (r, d)" "w' = (tick w)\<lparr>w_db := d\<rparr>"
    | (lost) "r = Inl Unavailable" "w' = tick w"
    | (ambiguous) r' d where "r = Inl Unavailable" "st (now E w) (w_db w) = (r', d)" "w' = (tick w)\<lparr>w_db := d\<rparr>"
        "fate_of E (w_calls w) = Ambiguous"
  using assms by (auto simp: exec_def split: prod.splits fate.splits)

lemma exec_Done:
  "fate_of E (w_calls w) = Done \<Longrightarrow>
   exec E st w = (fst (st (now E w) (w_db w)), (tick w)\<lparr>w_db := snd (st (now E w) (w_db w))\<rparr>)"
  by (simp add: exec_def split: prod.splits)

lemma begin_tx_cases:
  assumes "begin_tx E w = (r, w')"
  obtains "r = Inr \<lparr>tx_now = now E w, tx_db = w_db w\<rparr>" "w' = tick w" "fate_of E (w_calls w) = Done"
    | "r = Inl Unavailable" "w' = tick w"
  using assms by (auto simp: begin_tx_def split: if_splits)

lemma exec_tx_cases:
  assumes "exec_tx E st t w = (r, w')"
  obtains (fails) e where "r = Inl e" "w' = tick w"
    | (run) x d where "r = Inr (x, t\<lparr>tx_db := d\<rparr>)" "st (tx_now t) (tx_db t) = (Inr x, d)" "w' = tick w"
  using assms by (auto simp: exec_tx_def split: if_splits prod.splits sum.splits)

lemma commit_tx_cases:
  assumes "commit_tx E t w = (r, w')"
  obtains (committed) "r = Inr ()" "w' = (tick w)\<lparr>w_db := tx_db t\<rparr>"
    | (lost) "r = Inl Unavailable" "w' = tick w"
    | (ambiguous) "r = Inl Unavailable" "w' = (tick w)\<lparr>w_db := tx_db t\<rparr>" "fate_of E (w_calls w) = Ambiguous"
  using assms by (auto simp: commit_tx_def split: fate.splits)

lemma call_frames [frame_simps]:
  "exec E st w = (r, w') \<Longrightarrow> w_lock w' = w_lock w"
  "exec E st w = (r, w') \<Longrightarrow> w_pay w' = w_pay w"
  "begin_tx E w = (rb, w') \<Longrightarrow> w_db w' = w_db w \<and> w_lock w' = w_lock w \<and> w_pay w' = w_pay w"
  "exec_tx E st t w = (rt, w') \<Longrightarrow> w_db w' = w_db w \<and> w_lock w' = w_lock w \<and> w_pay w' = w_pay w"
  "commit_tx E t w = (rc, w') \<Longrightarrow> w_lock w' = w_lock w \<and> w_pay w' = w_pay w"
  by (auto elim!: exec_cases begin_tx_cases exec_tx_cases commit_tx_cases)

end
