(* ===== verification/Queries.thy ===== *)
theory Queries
  imports Schema
begin

section \<open>The SQL statements of internal/db\<close>

text \<open>
  One definition per statement of \<open>ticket-booking/internal/db/queries.sql.go\<close>, named
  \<open>q_<Go method>\<close>: the rows it selects, what it sets, what it returns and the constraint
  that can reject it. A comparison with a NULL column is not true. Rows come back in storage
  order where the statement has no \<open>ORDER BY\<close>.
\<close>

subsection \<open>event-seats: the compare-and-set statements\<close>

record acquired_row =
  ar_seat :: int
  ar_ordinal :: int
  ar_fence :: int
  ar_expires :: time
  ar_price :: int

definition before :: "time option \<Rightarrow> time \<Rightarrow> bool" where
  "before e t = (case e of None \<Rightarrow> False | Some x \<Rightarrow> x < t)"

definition after :: "time option \<Rightarrow> time \<Rightarrow> bool" where
  "after e t = (case e of None \<Rightarrow> False | Some x \<Rightarrow> t < x)"

definition acquirable :: "time \<Rightarrow> int \<Rightarrow> int list \<Rightarrow> event_seat \<Rightarrow> bool" where
  "acquirable t ev seats r \<longleftrightarrow>
     es_event r = ev \<and> es_seat r \<in> set seats \<and> es_sellable r
   \<and> (es_status r = 0 \<or> (es_status r \<in> {1, 3} \<and> before (es_expires r) t))"

definition set_held :: "time \<Rightarrow> uuid \<Rightarrow> string \<Rightarrow> int \<Rightarrow> event_seat \<Rightarrow> event_seat" where
  "set_held t h user ttl r =
     r\<lparr>es_status := 1, es_hold := Some h, es_held_by := Some user,
       es_expires := Some (t + make_interval ttl), es_hold_price := Some (es_price r),
       es_fence := es_fence r + 1, es_version := es_version r + 1, es_updated := t\<rparr>"

definition acquired_of :: "time \<Rightarrow> int \<Rightarrow> event_seat \<Rightarrow> acquired_row" where
  "acquired_of t ttl r =
     \<lparr>ar_seat = es_seat r, ar_ordinal = es_ordinal r, ar_fence = es_fence r + 1,
      ar_expires = t + make_interval ttl, ar_price = es_price r\<rparr>"

definition q_AcquireHold ::
    "int \<Rightarrow> int list \<Rightarrow> uuid \<Rightarrow> string \<Rightarrow> int \<Rightarrow> acquired_row list stmt" where
  "q_AcquireHold ev seats h user ttl t d =
     (Inr (map (acquired_of t ttl) (filter (acquirable t ev seats) (t_seats d))),
      d\<lparr>t_seats := update_where (acquirable t ev seats) (set_held t h user ttl) (t_seats d)\<rparr>)"

definition held_as :: "int \<Rightarrow> int list \<Rightarrow> uuid \<Rightarrow> event_seat \<Rightarrow> bool" where
  "held_as ev seats h r \<longleftrightarrow>
     es_event r = ev \<and> es_seat r \<in> set seats \<and> es_status r \<in> {1, 3} \<and> es_hold r = Some h"

definition set_free :: "time \<Rightarrow> event_seat \<Rightarrow> event_seat" where
  "set_free t r =
     r\<lparr>es_status := 0, es_hold := None, es_held_by := None, es_expires := None,
       es_hold_price := None, es_version := es_version r + 1, es_updated := t\<rparr>"

definition q_ReleaseHold :: "int \<Rightarrow> int list \<Rightarrow> uuid \<Rightarrow> nat stmt" where
  "q_ReleaseHold ev seats h t d =
     (Inr (count_where (held_as ev seats h) (t_seats d)),
      d\<lparr>t_seats := update_where (held_as ev seats h) (set_free t) (t_seats d)\<rparr>)"

definition live_as :: "time \<Rightarrow> int \<Rightarrow> int list \<Rightarrow> uuid \<Rightarrow> event_seat \<Rightarrow> bool" where
  "live_as t ev seats h r \<longleftrightarrow> held_as ev seats h r \<and> after (es_expires r) t"

definition set_extended :: "time \<Rightarrow> int \<Rightarrow> event_seat \<Rightarrow> event_seat" where
  "set_extended t secs r =
     r\<lparr>es_status := 3,
       es_expires := (case es_expires r of
                        None \<Rightarrow> Some (t + make_interval secs)
                      | Some x \<Rightarrow> Some (max x (t + make_interval secs))),
       es_version := es_version r + 1, es_updated := t\<rparr>"

definition q_ExtendHold :: "int \<Rightarrow> int list \<Rightarrow> uuid \<Rightarrow> int \<Rightarrow> nat stmt" where
  "q_ExtendHold ev seats h secs t d =
     (Inr (count_where (live_as t ev seats h) (t_seats d)),
      d\<lparr>t_seats := update_where (live_as t ev seats h) (set_extended t secs) (t_seats d)\<rparr>)"

text \<open>
  \<open>ConfirmSeats\<close> joins the table with the two arrays zipped by ordinality. The new values do
  not depend on the joined row, so a seat is updated once, when some pair matches it.
\<close>

definition confirmable :: "time \<Rightarrow> int \<Rightarrow> int list \<Rightarrow> int list \<Rightarrow> uuid \<Rightarrow> event_seat \<Rightarrow> bool" where
  "confirmable t ev seats fences h r \<longleftrightarrow>
     es_event r = ev \<and> (es_seat r, es_fence r) \<in> set (zip seats fences)
   \<and> es_status r \<in> {1, 3} \<and> es_hold r = Some h \<and> after (es_expires r) t"

definition set_booked :: "time \<Rightarrow> uuid \<Rightarrow> event_seat \<Rightarrow> event_seat" where
  "set_booked t ordr r =
     r\<lparr>es_status := 2, es_booking := Some ordr, es_hold := None, es_held_by := None,
       es_expires := None, es_version := es_version r + 1, es_updated := t\<rparr>"

definition q_ConfirmSeats :: "int \<Rightarrow> int list \<Rightarrow> int list \<Rightarrow> uuid \<Rightarrow> uuid \<Rightarrow> nat stmt" where
  "q_ConfirmSeats ev seats fences h ordr t d =
     (Inr (count_where (confirmable t ev seats fences h) (t_seats d)),
      d\<lparr>t_seats := update_where (confirmable t ev seats fences h) (set_booked t ordr) (t_seats d)\<rparr>)"

subsection \<open>event-seats: reads\<close>

definition q_GetSeatsByHoldID :: "uuid \<Rightarrow> event_seat list stmt" where
  "q_GetSeatsByHoldID h t d =
     (Inr (sort_key es_seat (filter (\<lambda>r. es_hold r = Some h) (t_seats d))), d)"

definition q_GetSeatIDsByOrdinals :: "int \<Rightarrow> int list \<Rightarrow> (int \<times> int) list stmt" where
  "q_GetSeatIDsByOrdinals ev ords t d =
     (Inr (map (\<lambda>r. (es_seat r, es_ordinal r))
        (filter (\<lambda>r. es_event r = ev \<and> es_ordinal r \<in> set ords) (t_seats d))), d)"

definition q_CountAvailableSeats :: "int \<Rightarrow> nat stmt" where
  "q_CountAvailableSeats ev t d =
     (Inr (count_where (\<lambda>r. es_event r = ev \<and> es_status r = 0 \<and> es_sellable r) (t_seats d)), d)"

definition q_CountEventSeats :: "int \<Rightarrow> nat stmt" where
  "q_CountEventSeats ev t d = (Inr (count_where (\<lambda>r. es_event r = ev) (t_seats d)), d)"

text \<open>The \<open>ORDER BY seat_ordinal\<close> scan of an event: ordinal, status, sellable.\<close>

definition q_ListEventSeatsForAvailability :: "int \<Rightarrow> (int \<times> int \<times> bool) list stmt" where
  "q_ListEventSeatsForAvailability ev t d =
     (Inr (map (\<lambda>r. (es_ordinal r, es_status r, es_sellable r))
        (sort_key es_ordinal (filter (\<lambda>r. es_event r = ev) (t_seats d)))), d)"

definition q_ListSeatOrdinalsByEvent :: "int \<Rightarrow> (int \<times> int) list stmt" where
  "q_ListSeatOrdinalsByEvent ev t d =
     (Inr (map (\<lambda>r. (es_seat r, es_ordinal r)) (filter (\<lambda>r. es_event r = ev) (t_seats d))), d)"

definition q_ListExpiredHolds :: "(int \<times> uuid) list stmt" where
  "q_ListExpiredHolds t d =
     (Inr (remdups (map (\<lambda>r. (es_event r, the (es_hold r)))
        (filter (\<lambda>r. es_status r \<in> {1, 3} \<and> before (es_expires r) t \<and> es_hold r \<noteq> None) (t_seats d)))), d)"

definition q_ListSeatIDsForHold :: "int \<Rightarrow> uuid \<Rightarrow> int list stmt" where
  "q_ListSeatIDsForHold ev h t d =
     (Inr (map es_seat (filter (\<lambda>r. es_event r = ev \<and> es_hold r = Some h) (t_seats d))), d)"

definition q_ListSeatIDsForOrder :: "int \<Rightarrow> uuid \<Rightarrow> int list stmt" where
  "q_ListSeatIDsForOrder ev ordr t d =
     (Inr (map es_seat (filter (\<lambda>r. es_event r = ev \<and> es_booking r = Some ordr) (t_seats d))), d)"

record candidate_row =
  cd_seat :: int
  cd_ordinal :: int
  cd_row :: int

definition q_ListAvailableForBestAvailable :: "int \<Rightarrow> int \<Rightarrow> candidate_row list stmt" where
  "q_ListAvailableForBestAvailable ev maxp t d =
     (Inr (concat (map (\<lambda>r. map (\<lambda>s. \<lparr>cd_seat = es_seat r, cd_ordinal = es_ordinal r, cd_row = st_row s\<rparr>)
                          (filter (\<lambda>s. st_id s = es_seat r) (t_venue_seats d)))
        (sort_key es_ordinal
           (filter (\<lambda>r. es_event r = ev \<and> es_status r = 0 \<and> es_sellable r \<and> es_price r \<le> maxp) (t_seats d))))), d)"

definition q_BulkInsertEventSeats :: "event_seat list \<Rightarrow> nat stmt" where
  "q_BulkInsertEventSeats rows t d =
     (if distinct (map seat_key (t_seats d @ rows))
       \<and> distinct (map (\<lambda>r. (es_event r, es_ordinal r)) (t_seats d @ rows))
       \<and> list_all seat_check rows
      then (Inr (length rows), d\<lparr>t_seats := t_seats d @ rows\<rparr>)
      else (Inl (ConstraintViolation ''event_seats''), d))"

subsection \<open>holds-audit\<close>

definition q_InsertHoldsAudit :: "holds_audit \<Rightarrow> unit stmt" where
  "q_InsertHoldsAudit a t d = (Inr (), d\<lparr>t_audit := t_audit d @ [a]\<rparr>)"

subsection \<open>The outbox\<close>

definition q_InsertDomainEvent ::
    "uuid \<Rightarrow> string \<Rightarrow> event_type \<Rightarrow> int \<Rightarrow> payload \<Rightarrow> unit stmt" where
  "q_InsertDomainEvent i agg ty ver pl t d =
     (if i \<in> de_id ` set (t_outbox d) then (Inl (ConstraintViolation ''domain_events_pkey''), d)
      else (Inr (),
        d\<lparr>t_outbox := t_outbox d @
             [\<lparr>de_id = i, de_aggregate = agg, de_type = ty, de_schema = ver, de_payload = pl,
               de_published = None, de_created = t, de_seq = t_outbox_seq d\<rparr>],
          t_outbox_seq := Suc (t_outbox_seq d)\<rparr>))"

definition q_ListUnpublishedDomainEvents :: "nat \<Rightarrow> domain_event list stmt" where
  "q_ListUnpublishedDomainEvents rowlimit t d =
     (Inr (take rowlimit (sort_key de_seq (filter (\<lambda>e. de_published e = None) (t_outbox d)))), d)"

definition q_MarkDomainEventPublished :: "uuid \<Rightarrow> unit stmt" where
  "q_MarkDomainEventPublished i t d =
     (Inr (), d\<lparr>t_outbox := update_where (\<lambda>e. de_id e = i) (\<lambda>e. e\<lparr>de_published := Some t\<rparr>) (t_outbox d)\<rparr>)"

definition q_ListUnprocessedDomainEvents :: "string \<Rightarrow> nat \<Rightarrow> domain_event list stmt" where
  "q_ListUnprocessedDomainEvents cons rowlimit t d =
     (Inr (take rowlimit (sort_key de_seq
        (filter (\<lambda>e. de_type e \<in> {SeatHeldEvent, SeatReleasedEvent, SeatBookedEvent}
                    \<and> (de_id e, cons) \<notin> set (t_processed d)) (t_outbox d)))), d)"

definition q_MarkEventProcessed :: "uuid \<Rightarrow> string \<Rightarrow> unit stmt" where
  "q_MarkEventProcessed i cons t d =
     (Inr (), if (i, cons) \<in> set (t_processed d) then d
              else d\<lparr>t_processed := t_processed d @ [(i, cons)]\<rparr>)"

subsection \<open>Orders and saga steps\<close>

definition q_CreateOrder :: "uuid \<Rightarrow> string \<Rightarrow> int \<Rightarrow> uuid \<Rightarrow> int list \<Rightarrow> int \<Rightarrow> order_row stmt" where
  "q_CreateOrder i user ev h seats amount t d =
     (let o' = \<lparr>ord_id = i, ord_user = user, ord_event = ev, ord_hold = h, ord_seats = seats,
                ord_amount = amount, ord_status = Pending, ord_reallocated = False,
                ord_failure_code = None, ord_failure_detail = None, ord_created = t, ord_updated = t\<rparr>
      in if i \<in> ord_id ` set (t_orders d) then (Inl (ConstraintViolation ''orders_pkey''), d)
         else if h \<in> ord_hold ` set (t_orders d) then (Inl (ConstraintViolation ''orders_hold_id_key''), d)
         else (Inr o', d\<lparr>t_orders := t_orders d @ [o']\<rparr>))"

definition q_GetOrder :: "uuid \<Rightarrow> order_row stmt" where
  "q_GetOrder i t d =
     (case filter (\<lambda>r. ord_id r = i) (t_orders d) of [] \<Rightarrow> Inl NoRows | r # _ \<Rightarrow> Inr r, d)"

definition q_GetOrderByHoldID :: "uuid \<Rightarrow> order_row stmt" where
  "q_GetOrderByHoldID h t d =
     (case filter (\<lambda>r. ord_hold r = h) (t_orders d) of [] \<Rightarrow> Inl NoRows | r # _ \<Rightarrow> Inr r, d)"

definition q_UpdateOrderStatus :: "uuid \<Rightarrow> order_status \<Rightarrow> unit stmt" where
  "q_UpdateOrderStatus i st t d =
     (Inr (), d\<lparr>t_orders := update_where (\<lambda>r. ord_id r = i)
                              (\<lambda>r. r\<lparr>ord_status := st, ord_updated := t\<rparr>) (t_orders d)\<rparr>)"

definition q_FailOrder :: "uuid \<Rightarrow> string option \<Rightarrow> string option \<Rightarrow> unit stmt" where
  "q_FailOrder i code detail t d =
     (Inr (), d\<lparr>t_orders := update_where (\<lambda>r. ord_id r = i)
                              (\<lambda>r. r\<lparr>ord_status := Failed, ord_failure_code := code,
                                    ord_failure_detail := detail, ord_updated := t\<rparr>) (t_orders d)\<rparr>)"

definition q_ReallocateOrder :: "uuid \<Rightarrow> uuid \<Rightarrow> int list \<Rightarrow> unit stmt" where
  "q_ReallocateOrder i h seats t d =
     (if \<exists>r \<in> set (t_orders d). ord_id r = i
       then if \<exists>r \<in> set (t_orders d). ord_id r \<noteq> i \<and> ord_hold r = h
            then (Inl (ConstraintViolation ''orders_hold_id_key''), d)
            else (Inr (), d\<lparr>t_orders := update_where (\<lambda>r. ord_id r = i)
                   (\<lambda>r. r\<lparr>ord_hold := h, ord_seats := seats, ord_reallocated := True, ord_updated := t\<rparr>)
                   (t_orders d)\<rparr>)
       else (Inr (), d))"

definition q_CreateSagaStep :: "uuid \<Rightarrow> saga_step_name \<Rightarrow> unit stmt" where
  "q_CreateSagaStep i s t d =
     (if i \<notin> ord_id ` set (t_orders d) then (Inl (ConstraintViolation ''order_saga_steps_order_id_fkey''), d)
      else if \<exists>r \<in> set (t_steps d). ss_order r = i \<and> ss_step r = s
      then (Inl (ConstraintViolation ''order_saga_steps_pkey''), d)
      else (Inr (), d\<lparr>t_steps := t_steps d @
             [\<lparr>ss_order = i, ss_step = s, ss_state = StepPending, ss_attempts = 0, ss_error = None\<rparr>]\<rparr>))"

definition q_UpdateSagaStep :: "uuid \<Rightarrow> saga_step_name \<Rightarrow> step_state \<Rightarrow> string option \<Rightarrow> unit stmt" where
  "q_UpdateSagaStep i s st err t d =
     (Inr (), d\<lparr>t_steps := update_where (\<lambda>r. ss_order r = i \<and> ss_step r = s)
                (\<lambda>r. r\<lparr>ss_state := st, ss_error := err, ss_attempts := ss_attempts r + 1\<rparr>) (t_steps d)\<rparr>)"

definition q_ListStuckOrders :: "int \<Rightarrow> nat \<Rightarrow> uuid list stmt" where
  "q_ListStuckOrders secs rowlimit t d =
     (Inr (take rowlimit (map ord_id (sort_key ord_created
        (filter (\<lambda>r. ord_status r \<in> {Pending, Authorizing, Confirming}
                    \<and> ord_updated r < t - make_interval secs) (t_orders d))))), d)"

subsection \<open>Payments and refunds\<close>

text \<open>
  \<open>INSERT \<dots> ON CONFLICT (idempotency_key) DO NOTHING RETURNING *\<close> under \<open>:one\<close>: a key that
  exists returns no row, which the driver reports as \<open>NoRows\<close>.
\<close>

definition q_InsertPayment :: "uuid \<Rightarrow> uuid \<Rightarrow> string \<Rightarrow> int \<Rightarrow> payment_row stmt" where
  "q_InsertPayment i ordr k amount t d =
     (let p = \<lparr>pay_id = i, pay_order = ordr, pay_key = k, pay_ref = None, pay_amount = amount,
               pay_status_of = PayPending, pay_attempts = 0, pay_error = None,
               pay_created = t, pay_updated = t\<rparr>
      in if k \<in> pay_key ` set (t_payments d) then (Inl NoRows, d)
         else if i \<in> pay_id ` set (t_payments d) then (Inl (ConstraintViolation ''payments_pkey''), d)
         else if ordr \<notin> ord_id ` set (t_orders d) then (Inl (ConstraintViolation ''payments_order_id_fkey''), d)
         else (Inr p, d\<lparr>t_payments := t_payments d @ [p]\<rparr>))"

definition q_GetPaymentByIdempotencyKey :: "string \<Rightarrow> payment_row stmt" where
  "q_GetPaymentByIdempotencyKey k t d =
     (case filter (\<lambda>r. pay_key r = k) (t_payments d) of [] \<Rightarrow> Inl NoRows | r # _ \<Rightarrow> Inr r, d)"

definition q_UpdatePaymentStatus ::
    "uuid \<Rightarrow> pay_status \<Rightarrow> string option \<Rightarrow> string option \<Rightarrow> unit stmt" where
  "q_UpdatePaymentStatus i st ref err t d =
     (Inr (), d\<lparr>t_payments := update_where (\<lambda>r. pay_id r = i)
                (\<lambda>r. r\<lparr>pay_status_of := st, pay_ref := ref, pay_error := err,
                      pay_attempts := pay_attempts r + 1, pay_updated := t\<rparr>) (t_payments d)\<rparr>)"

definition q_ListStuckPayments :: "int \<Rightarrow> nat \<Rightarrow> payment_row list stmt" where
  "q_ListStuckPayments secs rowlimit t d =
     (Inr (take rowlimit (sort_key pay_created
        (filter (\<lambda>r. pay_status_of r \<in> {PayPending, PayUnknown}
                    \<and> pay_created r < t - make_interval secs) (t_payments d)))), d)"

definition q_InsertRefund :: "uuid \<Rightarrow> uuid \<Rightarrow> string option \<Rightarrow> int \<Rightarrow> refund_status \<Rightarrow> refund_row stmt" where
  "q_InsertRefund i p ref amount st t d =
     (let r = \<lparr>rf_id = i, rf_payment = p, rf_ref = ref, rf_amount = amount, rf_status = st\<rparr>
      in if i \<in> rf_id ` set (t_refunds d) then (Inl (ConstraintViolation ''refunds_pkey''), d)
         else if p \<notin> pay_id ` set (t_payments d) then (Inl (ConstraintViolation ''refunds_payment_id_fkey''), d)
         else (Inr r, d\<lparr>t_refunds := t_refunds d @ [r]\<rparr>))"

text \<open>
  The two money-invariant queries. The first is a left join kept where no captured payment
  matches; the second keeps the captured payments with neither a confirmed order nor a
  completed refund.
\<close>

definition sold :: "order_row \<Rightarrow> bool" where
  "sold r \<longleftrightarrow> ord_status r \<in> {Confirmed, Ticketed}"

definition q_FindOrdersMissingPayment :: "uuid list stmt" where
  "q_FindOrdersMissingPayment t d =
     (Inr (map ord_id (filter (\<lambda>r. sold r \<and>
        \<not> (\<exists>p \<in> set (t_payments d). pay_order p = ord_id r \<and> pay_status_of p = PayCaptured)) (t_orders d))), d)"

definition q_FindCapturedPaymentsMissingOrderOrRefund :: "uuid list stmt" where
  "q_FindCapturedPaymentsMissingOrderOrRefund t d =
     (Inr (map pay_id (filter (\<lambda>p. pay_status_of p = PayCaptured
        \<and> \<not> (\<exists>r \<in> set (t_orders d). ord_id r = pay_order p \<and> sold r)
        \<and> \<not> (\<exists>f \<in> set (t_refunds d). rf_payment f = pay_id p \<and> rf_status f = RefundCompleted)) (t_payments d))), d)"

subsection \<open>Tickets and reminders\<close>

definition q_InsertTicket :: "uuid \<Rightarrow> uuid \<Rightarrow> int \<Rightarrow> int \<Rightarrow> string \<Rightarrow> ticket_row stmt" where
  "q_InsertTicket i ordr ev seat key t d =
     (let r = \<lparr>tk_id = i, tk_order = ordr, tk_event = ev, tk_seat = seat, tk_key = key,
               tk_redeemed = None, tk_revoked = None\<rparr>
      in if i \<in> tk_id ` set (t_tickets d) then (Inl (ConstraintViolation ''tickets_pkey''), d)
         else if ordr \<notin> ord_id ` set (t_orders d) then (Inl (ConstraintViolation ''tickets_order_id_fkey''), d)
         else if \<exists>x \<in> set (t_tickets d). tk_event x = ev \<and> tk_seat x = seat \<and> tk_revoked x = None
         then (Inl (ConstraintViolation ''tickets_seat_live_uq''), d)
         else (Inr r, d\<lparr>t_tickets := t_tickets d @ [r]\<rparr>))"

definition q_GetTicket :: "uuid \<Rightarrow> ticket_row stmt" where
  "q_GetTicket i t d =
     (case filter (\<lambda>r. tk_id r = i) (t_tickets d) of [] \<Rightarrow> Inl NoRows | r # _ \<Rightarrow> Inr r, d)"

definition redeemable :: "uuid \<Rightarrow> ticket_row \<Rightarrow> bool" where
  "redeemable i r \<longleftrightarrow> tk_id r = i \<and> tk_redeemed r = None \<and> tk_revoked r = None"

definition q_RedeemTicket :: "uuid \<Rightarrow> nat stmt" where
  "q_RedeemTicket i t d =
     (Inr (count_where (redeemable i) (t_tickets d)),
      d\<lparr>t_tickets := update_where (redeemable i) (\<lambda>r. r\<lparr>tk_redeemed := Some t\<rparr>) (t_tickets d)\<rparr>)"

definition q_ListTicketsDueForReminder :: "time \<Rightarrow> time \<Rightarrow> string \<Rightarrow> (uuid \<times> int \<times> time) list stmt" where
  "q_ListTicketsDueForReminder low high kind t d =
     (Inr (concat (map (\<lambda>tk. map (\<lambda>e. (tk_id tk, tk_event tk, ev_starts e))
                         (filter (\<lambda>e. ev_id e = tk_event tk \<and> low \<le> ev_starts e \<and> ev_starts e \<le> high) (t_events d)))
        (filter (\<lambda>tk. tk_revoked tk = None
           \<and> \<not> (\<exists>r \<in> set (t_reminders d). rm_ticket r = tk_id tk \<and> rm_kind r = kind)) (t_tickets d)))), d)"

definition q_MarkReminderSent :: "uuid \<Rightarrow> string \<Rightarrow> unit stmt" where
  "q_MarkReminderSent i kind t d =
     (if i \<notin> tk_id ` set (t_tickets d) then (Inl (ConstraintViolation ''reminders_sent_ticket_id_fkey''), d)
      else (Inr (), if \<exists>r \<in> set (t_reminders d). rm_ticket r = i \<and> rm_kind r = kind then d
                    else d\<lparr>t_reminders := t_reminders d @ [\<lparr>rm_ticket = i, rm_kind = kind\<rparr>]\<rparr>))"

subsection \<open>Events and WebSocket connections\<close>

definition q_GetEvent :: "int \<Rightarrow> event_row stmt" where
  "q_GetEvent i t d =
     (case filter (\<lambda>r. ev_id r = i) (t_events d) of [] \<Rightarrow> Inl NoRows | r # _ \<Rightarrow> Inr r, d)"

definition q_SetEventOnSale :: "int \<Rightarrow> unit stmt" where
  "q_SetEventOnSale i t d =
     (Inr (), d\<lparr>t_events := update_where (\<lambda>r. ev_id r = i) (\<lambda>r. r\<lparr>ev_status := ''ON_SALE''\<rparr>) (t_events d)\<rparr>)"

definition q_InsertWSConnection :: "uuid \<Rightarrow> int \<Rightarrow> string \<Rightarrow> unit stmt" where
  "q_InsertWSConnection i ev user t d =
     (if i \<in> ws_conn ` set (t_ws d) then (Inl (ConstraintViolation ''ws_connections_pkey''), d)
      else (Inr (), d\<lparr>t_ws := t_ws d @ [\<lparr>ws_conn = i, ws_event = ev, ws_user = user, ws_seq = 0,
                                        ws_disconnected = None\<rparr>]\<rparr>))"

definition q_CloseWSConnection :: "uuid \<Rightarrow> unit stmt" where
  "q_CloseWSConnection i t d =
     (Inr (), d\<lparr>t_ws := update_where (\<lambda>r. ws_conn r = i) (\<lambda>r. r\<lparr>ws_disconnected := Some t\<rparr>) (t_ws d)\<rparr>)"

subsection \<open>What the seat statements do to a row\<close>

lemma set_held_simps [simp]:
  "es_event (set_held t h u ttl r) = es_event r" "es_seat (set_held t h u ttl r) = es_seat r"
  "es_ordinal (set_held t h u ttl r) = es_ordinal r" "es_sellable (set_held t h u ttl r) = es_sellable r"
  "es_status (set_held t h u ttl r) = 1" "es_hold (set_held t h u ttl r) = Some h"
  "es_held_by (set_held t h u ttl r) = Some u" "es_booking (set_held t h u ttl r) = es_booking r"
  "es_expires (set_held t h u ttl r) = Some (t + make_interval ttl)"
  "es_hold_price (set_held t h u ttl r) = Some (es_price r)" "es_price (set_held t h u ttl r) = es_price r"
  "es_fence (set_held t h u ttl r) = es_fence r + 1"
  "seat_key (set_held t h u ttl r) = seat_key r"
  by (simp_all add: set_held_def seat_key_def)

lemma set_free_simps [simp]:
  "es_event (set_free t r) = es_event r" "es_seat (set_free t r) = es_seat r"
  "es_ordinal (set_free t r) = es_ordinal r" "es_sellable (set_free t r) = es_sellable r"
  "es_status (set_free t r) = 0" "es_hold (set_free t r) = None"
  "es_held_by (set_free t r) = None" "es_booking (set_free t r) = es_booking r"
  "es_expires (set_free t r) = None" "es_price (set_free t r) = es_price r"
  "es_fence (set_free t r) = es_fence r" "seat_key (set_free t r) = seat_key r"
  by (simp_all add: set_free_def seat_key_def)

lemma set_extended_simps [simp]:
  "es_event (set_extended t s r) = es_event r" "es_seat (set_extended t s r) = es_seat r"
  "es_ordinal (set_extended t s r) = es_ordinal r" "es_sellable (set_extended t s r) = es_sellable r"
  "es_status (set_extended t s r) = 3" "es_hold (set_extended t s r) = es_hold r"
  "es_held_by (set_extended t s r) = es_held_by r" "es_booking (set_extended t s r) = es_booking r"
  "es_hold_price (set_extended t s r) = es_hold_price r" "es_price (set_extended t s r) = es_price r"
  "es_fence (set_extended t s r) = es_fence r" "seat_key (set_extended t s r) = seat_key r"
  "es_expires (set_extended t s r) \<noteq> None"
  by (simp_all add: set_extended_def seat_key_def split: option.splits)

lemma set_booked_simps [simp]:
  "es_event (set_booked t b r) = es_event r" "es_seat (set_booked t b r) = es_seat r"
  "es_ordinal (set_booked t b r) = es_ordinal r" "es_sellable (set_booked t b r) = es_sellable r"
  "es_status (set_booked t b r) = 2" "es_hold (set_booked t b r) = None"
  "es_held_by (set_booked t b r) = None" "es_booking (set_booked t b r) = Some b"
  "es_expires (set_booked t b r) = None" "es_price (set_booked t b r) = es_price r"
  "es_hold_price (set_booked t b r) = es_hold_price r"
  "es_fence (set_booked t b r) = es_fence r" "seat_key (set_booked t b r) = seat_key r"
  by (simp_all add: set_booked_def seat_key_def)

lemma before_Some: "before e t \<Longrightarrow> \<exists>x. e = Some x \<and> x < t"
  by (auto simp: before_def split: option.splits)

lemma after_Some: "after e t \<Longrightarrow> \<exists>x. e = Some x \<and> t < x"
  by (auto simp: after_def split: option.splits)

lemma before_after [simp]: "before e t \<Longrightarrow> after e t \<Longrightarrow> False"
  by (auto dest!: before_Some after_Some)

end
