(* ===== verification/SeatLifecycle.thy ===== *)
theory SeatLifecycle
  imports Queries "HOL-Library.Sublist"
begin

section \<open>The life of a seat row\<close>

text \<open>
  The abstract specification of \<open>event_seats\<close>: a step relation on single rows with one rule
  per compare-and-set statement, the order \<open>seats_evolve\<close> it induces on whole tables, and
  the contract \<open>seat_writer\<close> that every operation of the services is shown to fulfil: it
  changes \<open>event_seats\<close> by such steps only. What the contract gives (a booked seat stays
  booked by the same order, fences never go back, the table stays well formed) is proved
  once here and reaches each operation through an interpretation.
\<close>

subsection \<open>Steps of one row\<close>

inductive seat_step :: "event_seat \<Rightarrow> event_seat \<Rightarrow> bool" where
  hold: "acquirable t ev seats r \<Longrightarrow> seat_step r (set_held t h u ttl r)"
| free: "held_as ev seats h r \<Longrightarrow> seat_step r (set_free t r)"
| extend: "live_as t ev seats h r \<Longrightarrow> seat_step r (set_extended t secs r)"
| book: "confirmable t ev seats fences h r \<Longrightarrow> seat_step r (set_booked t b r)"

inductive_cases seat_stepE: "seat_step r r'"

inductive_simps seat_step_simp: "seat_step r r'"

text \<open>BOOKED is terminal: no statement selects a booked row.\<close>

lemma booked_terminal: "seat_step r r' \<Longrightarrow> es_status r \<noteq> 2"
  by (auto elim!: seat_stepE simp: acquirable_def held_as_def live_as_def confirmable_def)

lemma seat_step_key: "seat_step r r' \<Longrightarrow> seat_key r' = seat_key r"
  by (auto elim!: seat_stepE)

lemma seat_step_ordinal: "seat_step r r' \<Longrightarrow> es_ordinal r' = es_ordinal r \<and> es_sellable r' = es_sellable r
    \<and> es_price r' = es_price r"
  by (auto elim!: seat_stepE)

lemma seat_step_fence: "seat_step r r' \<Longrightarrow> es_fence r \<le> es_fence r'"
  by (auto elim!: seat_stepE)

text \<open>A row changes its hold only by gaining a higher fence or by losing the hold.\<close>

lemma seat_step_hold_fence:
  "seat_step r r' \<Longrightarrow> es_hold r' = Some h \<Longrightarrow> es_hold r = Some h \<or> es_fence r < es_fence r'"
  by (auto elim!: seat_stepE)

lemma seat_step_wf: "seat_step r r' \<Longrightarrow> seat_wf r \<Longrightarrow> seat_wf r'"
  by (induction rule: seat_step.induct)
     (auto simp: seat_wf_def seat_check_def acquirable_def held_as_def live_as_def confirmable_def
        set_extended_def split: option.splits)

text \<open>An unsellable seat is never held, so it never reaches a buyer.\<close>

lemma seat_step_unsellable:
  "seat_step r r' \<Longrightarrow> \<not> es_sellable r \<Longrightarrow> es_status r = 0 \<Longrightarrow> False"
  by (auto elim!: seat_stepE simp: acquirable_def held_as_def live_as_def confirmable_def)

lemma booked_stays: "seat_step\<^sup>*\<^sup>* r r' \<Longrightarrow> es_status r = 2 \<Longrightarrow> r' = r"
  by (induction rule: rtranclp_induct) (auto dest: booked_terminal)

lemma steps_key: "seat_step\<^sup>*\<^sup>* r r' \<Longrightarrow> seat_key r' = seat_key r"
  by (induction rule: rtranclp_induct) (auto dest: seat_step_key)

lemma steps_ordinal: "seat_step\<^sup>*\<^sup>* r r' \<Longrightarrow> es_ordinal r' = es_ordinal r \<and> es_sellable r' = es_sellable r"
  by (induction rule: rtranclp_induct) (auto dest: seat_step_ordinal)

lemma steps_fence: "seat_step\<^sup>*\<^sup>* r r' \<Longrightarrow> es_fence r \<le> es_fence r'"
  by (induction rule: rtranclp_induct) (auto dest: seat_step_fence)

lemma steps_wf: "seat_step\<^sup>*\<^sup>* r r' \<Longrightarrow> seat_wf r \<Longrightarrow> seat_wf r'"
  by (induction rule: rtranclp_induct) (auto dest: seat_step_wf)

text \<open>
  A zombie holder: once the fence has moved past the value a holder was given, it never
  comes back, so no later confirmation can match that value.
\<close>

lemma stale_fence_never_confirms:
  assumes "seat_step\<^sup>*\<^sup>* r r'" and "f < es_fence r"
  shows "\<not> confirmable t ev [es_seat r'] [f] h r'"
  using steps_fence [OF assms(1)] assms(2) by (auto simp: confirmable_def)

subsection \<open>Tables\<close>

definition seats_evolve :: "event_seat list \<Rightarrow> event_seat list \<Rightarrow> bool" where
  "seats_evolve rows rows' \<longleftrightarrow> list_all2 seat_step\<^sup>*\<^sup>* rows rows'"

lemma seats_evolve_refl [simp, intro]: "seats_evolve rows rows"
  by (simp add: seats_evolve_def list.rel_refl)

lemma seats_evolve_trans [trans]:
  "seats_evolve a b \<Longrightarrow> seats_evolve b c \<Longrightarrow> seats_evolve a c"
  unfolding seats_evolve_def by (rule list_all2_trans [OF rtranclp_trans])

lemma seats_evolve_update:
  "(\<And>r. P r \<Longrightarrow> seat_step r (f r)) \<Longrightarrow> seats_evolve rows (update_where P f rows)"
  by (auto simp: seats_evolve_def update_where_def list.rel_map list_all2_same intro: r_into_rtranclp)

lemma seats_evolve_length: "seats_evolve rows rows' \<Longrightarrow> length rows' = length rows"
  by (simp add: seats_evolve_def list_all2_lengthD)

lemma seats_evolve_keys: "seats_evolve rows rows' \<Longrightarrow> map seat_key rows' = map seat_key rows"
  unfolding seats_evolve_def by (induction rule: list_all2_induct) (auto dest: steps_key)

lemma seats_evolve_ordinals:
  "seats_evolve rows rows' \<Longrightarrow>
   map (\<lambda>r. (seat_key r, es_ordinal r)) rows' = map (\<lambda>r. (seat_key r, es_ordinal r)) rows"
  unfolding seats_evolve_def by (induction rule: list_all2_induct) (auto dest: steps_key steps_ordinal)

lemma seats_evolve_wf: "seats_evolve rows rows' \<Longrightarrow> seats_wf rows \<Longrightarrow> seats_wf rows'"
proof -
  assume e: "seats_evolve rows rows'" and wf: "seats_wf rows"
  have "seat_wf (rows' ! n)" if n: "n < length rows'" for n
  proof (rule steps_wf)
    show "seat_step\<^sup>*\<^sup>* (rows ! n) (rows' ! n)"
      using e n by (simp add: seats_evolve_def list_all2_conv_all_nth)
    show "seat_wf (rows ! n)"
      using wf n seats_evolve_length [OF e] by (simp add: seats_wf_def list_all_length)
  qed
  then have "list_all seat_wf rows'" by (simp add: list_all_length)
  with wf seats_evolve_keys [OF e] show ?thesis by (simp add: seats_wf_def)
qed

lemma seats_evolve_row:
  assumes "seats_evolve rows rows'" and "r \<in> set rows"
  obtains r' where "r' \<in> set rows'" "seat_step\<^sup>*\<^sup>* r r'"
  using assms unfolding seats_evolve_def by (metis in_set_conv_nth list_all2_conv_all_nth)

lemma seats_evolve_booked:
  "seats_evolve rows rows' \<Longrightarrow> r \<in> set rows \<Longrightarrow> es_status r = 2 \<Longrightarrow> r \<in> set rows'"
  by (metis seats_evolve_row booked_stays)

text \<open>
  The order that booked a seat, read off the table; with distinct keys there is at most one.
\<close>

definition booked_by :: "event_seat list \<Rightarrow> int \<Rightarrow> int \<Rightarrow> uuid \<Rightarrow> bool" where
  "booked_by rows ev seat b \<longleftrightarrow>
     (\<exists>r \<in> set rows. es_event r = ev \<and> es_seat r = seat \<and> es_status r = 2 \<and> es_booking r = Some b)"

lemma booked_by_unique:
  assumes "seats_wf rows" and "booked_by rows ev seat b" and "booked_by rows ev seat b'"
  shows "b = b'"
proof -
  have d: "distinct (map seat_key rows)" using assms(1) by (simp add: seats_wf_def)
  obtain r r' where rr: "r \<in> set rows" "r' \<in> set rows" "seat_key r = seat_key r'"
      "es_booking r = Some b" "es_booking r' = Some b'"
    using assms(2,3) by (auto simp: booked_by_def seat_key_def)
  then have "r = r'" using unique_key_row [OF d] by blast
  with rr show ?thesis by simp
qed

lemma booked_by_evolve:
  "seats_evolve rows rows' \<Longrightarrow> booked_by rows ev seat b \<Longrightarrow> booked_by rows' ev seat b"
  unfolding booked_by_def using seats_evolve_booked by blast

subsection \<open>Statements\<close>

text \<open>
  A statement respects the seats when whatever it does to \<open>event_seats\<close> is an evolution. The
  four compare-and-set statements do; the others leave that table alone.
\<close>

definition respects_seats :: "'a stmt \<Rightarrow> bool" where
  "respects_seats st \<longleftrightarrow> (\<forall>t d. seats_evolve (t_seats d) (t_seats (snd (st t d))))"

lemma respects_seatsI: "(\<And>t d. seats_evolve (t_seats d) (t_seats (snd (st t d)))) \<Longrightarrow> respects_seats st"
  by (simp add: respects_seats_def)

lemma respects_seatsD: "respects_seats st \<Longrightarrow> st t d = (r, d') \<Longrightarrow> seats_evolve (t_seats d) (t_seats d')"
  by (metis respects_seats_def snd_conv)

lemma AcquireHold_respects [simp]: "respects_seats (q_AcquireHold ev seats h u ttl)"
  by (rule respects_seatsI) (auto simp: q_AcquireHold_def intro: seats_evolve_update seat_step.hold)

lemma ReleaseHold_respects [simp]: "respects_seats (q_ReleaseHold ev seats h)"
  by (rule respects_seatsI) (auto simp: q_ReleaseHold_def intro: seats_evolve_update seat_step.free)

lemma ExtendHold_respects [simp]: "respects_seats (q_ExtendHold ev seats h secs)"
  by (rule respects_seatsI) (auto simp: q_ExtendHold_def intro: seats_evolve_update seat_step.extend)

lemma ConfirmSeats_respects [simp]: "respects_seats (q_ConfirmSeats ev seats fences h b)"
  by (rule respects_seatsI) (auto simp: q_ConfirmSeats_def intro: seats_evolve_update seat_step.book)

definition keeps_seats :: "'a stmt \<Rightarrow> bool" where
  "keeps_seats st \<longleftrightarrow> (\<forall>t d. t_seats (snd (st t d)) = t_seats d)"

lemma keeps_seatsD: "keeps_seats st \<Longrightarrow> st t d = (r, d') \<Longrightarrow> t_seats d' = t_seats d"
  by (metis keeps_seats_def snd_conv)

lemma keeps_respects [simp]: "keeps_seats st \<Longrightarrow> respects_seats st"
  by (simp add: keeps_seats_def respects_seats_def)

lemma keeps_seats_statements [simp]:
  "keeps_seats (q_GetSeatsByHoldID h)" "keeps_seats (q_GetSeatIDsByOrdinals ev ords)"
  "keeps_seats (q_ListSeatOrdinalsByEvent ev)" "keeps_seats q_ListExpiredHolds"
  "keeps_seats (q_ListEventSeatsForAvailability ev)"
  "keeps_seats (q_ListSeatIDsForHold ev h)" "keeps_seats (q_ListSeatIDsForOrder ev b)"
  "keeps_seats (q_ListAvailableForBestAvailable ev p)" "keeps_seats (q_InsertHoldsAudit a)"
  "keeps_seats (q_InsertDomainEvent i agg ty ver pl)" "keeps_seats (q_MarkDomainEventPublished i)"
  "keeps_seats (q_ListUnpublishedDomainEvents rowlimit)" "keeps_seats (q_MarkEventProcessed i cons)"
  "keeps_seats (q_ListUnprocessedDomainEvents cons rowlimit)"
  "keeps_seats (q_CreateOrder i u ev h ss amount)" "keeps_seats (q_GetOrder i)"
  "keeps_seats (q_UpdateOrderStatus i st)" "keeps_seats (q_FailOrder i c dt)"
  "keeps_seats (q_ReallocateOrder i h ss)" "keeps_seats (q_CreateSagaStep i s)"
  "keeps_seats (q_UpdateSagaStep i s sst err)" "keeps_seats (q_InsertPayment i b k amount)"
  "keeps_seats (q_GetPaymentByIdempotencyKey k)" "keeps_seats (q_UpdatePaymentStatus i ps ref err)"
  "keeps_seats (q_ListStuckPayments secs rowlimit)" "keeps_seats (q_ListStuckOrders secs rowlimit)"
  "keeps_seats (q_InsertRefund i j ref amount rs)" "keeps_seats (q_InsertTicket i b ev seat key)"
  by (simp_all add: keeps_seats_def q_GetSeatsByHoldID_def q_GetSeatIDsByOrdinals_def
      q_ListSeatOrdinalsByEvent_def q_ListExpiredHolds_def q_ListSeatIDsForHold_def
      q_ListEventSeatsForAvailability_def
      q_ListSeatIDsForOrder_def q_ListAvailableForBestAvailable_def q_InsertHoldsAudit_def
      q_InsertDomainEvent_def q_MarkDomainEventPublished_def q_ListUnpublishedDomainEvents_def
      q_MarkEventProcessed_def q_ListUnprocessedDomainEvents_def q_CreateOrder_def Let_def
      q_GetOrder_def q_UpdateOrderStatus_def q_FailOrder_def q_ReallocateOrder_def
      q_CreateSagaStep_def q_UpdateSagaStep_def q_InsertPayment_def q_GetPaymentByIdempotencyKey_def
      q_UpdatePaymentStatus_def q_ListStuckPayments_def q_ListStuckOrders_def q_InsertRefund_def
      q_InsertTicket_def)

lemma exec_evolves:
  assumes "respects_seats st" and "exec E st w = (r, w')"
  shows "seats_evolve (t_seats (w_db w)) (t_seats (w_db w'))"
  using assms(2) by (rule exec_cases) (auto dest: respects_seatsD [OF assms(1)])

lemma exec_keeps:
  assumes "keeps_seats st" and "exec E st w = (r, w')"
  shows "t_seats (w_db w') = t_seats (w_db w)"
  using assms(2) by (rule exec_cases) (auto dest: keeps_seatsD [OF assms(1)])

lemma exec_tx_evolves:
  assumes "respects_seats st" and "exec_tx E st t w = (Inr (x, t'), w')"
  shows "seats_evolve (t_seats (tx_db t)) (t_seats (tx_db t'))"
  using assms(2) by (rule exec_tx_cases) (auto dest: respects_seatsD [OF assms(1)])

subsection \<open>The contract of a seat writer\<close>

text \<open>
  \<open>op\<close> is an operation of a service with its arguments fixed: from a world to a result and a
  world. Its only promise is that the committed seats evolve.
\<close>

locale seat_writer =
  fixes op :: "('l, 'p) world \<Rightarrow> 'r \<times> ('l, 'p) world"
  assumes evolves: "op w = (r, w') \<Longrightarrow> seats_evolve (t_seats (w_db w)) (t_seats (w_db w'))"
begin

lemma keeps_wf: "op w = (r, w') \<Longrightarrow> seats_wf (t_seats (w_db w)) \<Longrightarrow> seats_wf (t_seats (w_db w'))"
  by (rule seats_evolve_wf [OF evolves])

lemma keeps_booking:
  "op w = (r, w') \<Longrightarrow> booked_by (t_seats (w_db w)) ev seat b \<Longrightarrow> booked_by (t_seats (w_db w')) ev seat b"
  by (rule booked_by_evolve [OF evolves])

lemma never_rebooks:
  assumes "op w = (r, w')" and "seats_wf (t_seats (w_db w))"
    and "booked_by (t_seats (w_db w)) ev seat b" and "booked_by (t_seats (w_db w')) ev seat b'"
  shows "b' = b"
  using booked_by_unique [OF keeps_wf [OF assms(1,2)] assms(4) keeps_booking [OF assms(1,3)]] .

lemma keeps_ordinals:
  "op w = (r, w') \<Longrightarrow>
   map (\<lambda>r. (seat_key r, es_ordinal r)) (t_seats (w_db w'))
     = map (\<lambda>r. (seat_key r, es_ordinal r)) (t_seats (w_db w))"
  by (rule seats_evolve_ordinals [OF evolves])

end

end
