(* ===== verification/Inventory.thy ===== *)
theory Inventory
  imports SeatLifecycle
begin

section \<open>internal/inventory and internal/events: holds on seats\<close>

text \<open>
  The correctness core of ticket-booking: \<open>AcquireHold\<close>, \<open>ReleaseHold\<close>, \<open>ExtendHold\<close>,
  \<open>ConfirmSeats\<close> of \<open>internal/inventory/inventory.go\<close>, \<open>BestAvailable\<close> of
  \<open>best_available.go\<close>, and the outbox writer \<open>events.Publish\<close>. A handler takes the
  environment, the service and the world and returns its result with the new world; an
  \<open>err != nil\<close> return is an \<open>Inl\<close>. The seat lock is the \<open>Locker\<close> interface of the
  source: a record of its two methods over a state of its own, so that nothing is assumed of
  the lock that is plugged in. Log lines are not modelled.
\<close>

subsection \<open>The service\<close>

record 'l locker =
  lk_acquire :: "fate \<Rightarrow> time \<Rightarrow> int \<Rightarrow> int \<Rightarrow> uuid \<Rightarrow> int \<Rightarrow> 'l \<Rightarrow> (error + bool) \<times> 'l"
  lk_release :: "fate \<Rightarrow> time \<Rightarrow> int \<Rightarrow> int \<Rightarrow> uuid \<Rightarrow> 'l \<Rightarrow> (error + unit) \<times> 'l"

record 'l service =
  sv_lock :: "'l locker"
  sv_hold_ttl :: int \<comment> \<open>\<open>time.Duration\<close>: nanoseconds\<close>
  sv_max_seats :: nat

record held_seat =
  hs_seat :: int
  hs_ordinal :: int
  hs_fence :: int
  hs_price :: int

record hold =
  h_id :: uuid
  h_event :: int
  h_expires :: time
  h_seats :: "held_seat list"

text \<open>\<open>int32(d.Seconds())\<close>: whole seconds, truncated towards zero, kept in 32 bits.\<close>

definition dur_seconds :: "int \<Rightarrow> int" where
  "dur_seconds ns = wrap32 (sgn ns * (\<bar>ns\<bar> div 1000000000))"

definition call_acquire ::
    "env \<Rightarrow> 'l service \<Rightarrow> int \<Rightarrow> int \<Rightarrow> uuid \<Rightarrow> ('l, 'p) world \<Rightarrow> (error + bool) \<times> ('l, 'p) world" where
  "call_acquire E S ev seat h w =
     (case lk_acquire (sv_lock S) (fate_of E (w_calls w)) (now E w) ev seat h (sv_hold_ttl S) (w_lock w) of
        (r, l) \<Rightarrow> (r, (tick w)\<lparr>w_lock := l\<rparr>))"

definition call_release ::
    "env \<Rightarrow> 'l service \<Rightarrow> int \<Rightarrow> int \<Rightarrow> uuid \<Rightarrow> ('l, 'p) world \<Rightarrow> (error + unit) \<times> ('l, 'p) world" where
  "call_release E S ev seat h w =
     (case lk_release (sv_lock S) (fate_of E (w_calls w)) (now E w) ev seat h (w_lock w) of
        (r, l) \<Rightarrow> (r, (tick w)\<lparr>w_lock := l\<rparr>))"

subsection \<open>sortDedup and sortSeatsAndFencesTogether\<close>

text \<open>
  The loop of \<open>sortDedup\<close> over the sorted copy: \<open>prev\<close> is the last id kept (none before the
  first), \<open>had\<close> whether one was skipped.
\<close>

fun dedup_loop :: "int list \<Rightarrow> int option \<Rightarrow> int list \<Rightarrow> bool \<Rightarrow> int list \<times> bool" where
  "dedup_loop [] prev acc had = (acc, had)"
| "dedup_loop (i # ids) prev acc had =
     (if prev = Some i then dedup_loop ids prev acc True
      else dedup_loop ids (Some i) (acc @ [i]) had)"

definition sortDedup :: "int list \<Rightarrow> int list \<times> bool" where
  "sortDedup ids = dedup_loop (sort ids) None [] False"

text \<open>
  The permutation \<open>idx\<close> is sorted by the seat it points to and then applied to both slices.
  For equal seats \<open>sort.Slice\<close> may order the indices either way; the model keeps them in
  their original order.
\<close>

definition sortSeatsAndFencesTogether :: "int list \<Rightarrow> int list \<Rightarrow> int list \<times> int list" where
  "sortSeatsAndFencesTogether seats fences =
     (let idx = sort_key (\<lambda>i. seats ! i) [0..<length seats]
      in (map (\<lambda>j. seats ! j) idx, map (\<lambda>j. fences ! j) idx))"

subsection \<open>events.Publish\<close>

definition SchemaVersion :: int where "SchemaVersion = 1"

definition Publish ::
    "env \<Rightarrow> string \<Rightarrow> event_type \<Rightarrow> payload \<Rightarrow> tx \<Rightarrow> ('l, 'p) world \<Rightarrow> (error + tx) \<times> ('l, 'p) world" where
  "Publish E agg ty pl t w =
     (let (i, w1) = new_uuid E w in
      case exec_tx E (q_InsertDomainEvent i agg ty SchemaVersion pl) t w1 of
        (Inl e, w2) \<Rightarrow> (Inl e, w2)
      | (Inr (_, t'), w2) \<Rightarrow> (Inr t', w2))"

fun publish_all ::
    "env \<Rightarrow> (string \<times> event_type \<times> payload) list \<Rightarrow> tx \<Rightarrow> ('l, 'p) world \<Rightarrow> (error + tx) \<times> ('l, 'p) world" where
  "publish_all E [] t w = (Inr t, w)"
| "publish_all E ((agg, ty, pl) # es) t w =
     (case Publish E agg ty pl t w of
        (Inl e, w') \<Rightarrow> (Inl e, w')
      | (Inr t', w') \<Rightarrow> publish_all E es t' w')"

definition seat_aggregate :: "int \<Rightarrow> int \<Rightarrow> string" where
  "seat_aggregate ev seat = show_int ev @ '':'' @ show_int seat"

subsection \<open>audit, releaseRedisBatch\<close>

definition audit ::
    "env \<Rightarrow> uuid \<Rightarrow> int \<Rightarrow> int \<Rightarrow> string \<Rightarrow> hold_outcome \<Rightarrow> int \<Rightarrow> time option \<Rightarrow> ('l, 'p) world \<Rightarrow> ('l, 'p) world" where
  "audit E h ev seat user outcome fence expires w =
     snd (exec E (q_InsertHoldsAudit
       \<lparr>ha_hold = h, ha_event = ev, ha_seat = seat, ha_user = user, ha_outcome = outcome,
        ha_fence = (if fence \<noteq> 0 then Some fence else None), ha_expires = expires\<rparr>) w)"

fun audit_all ::
    "env \<Rightarrow> uuid \<Rightarrow> int \<Rightarrow> int list \<Rightarrow> string \<Rightarrow> hold_outcome \<Rightarrow> ('l, 'p) world \<Rightarrow> ('l, 'p) world" where
  "audit_all E h ev [] user outcome w = w"
| "audit_all E h ev (s # ss) user outcome w =
     audit_all E h ev ss user outcome (audit E h ev s user outcome 0 None w)"

fun releaseRedisBatch ::
    "env \<Rightarrow> 'l service \<Rightarrow> int \<Rightarrow> int list \<Rightarrow> uuid \<Rightarrow> ('l, 'p) world \<Rightarrow> ('l, 'p) world" where
  "releaseRedisBatch E S ev [] h w = w"
| "releaseRedisBatch E S ev (s # ss) h w =
     releaseRedisBatch E S ev ss h (snd (call_release E S ev s h w))"

subsection \<open>AcquireHold\<close>

text \<open>
  Step 2, the contention filter, seats ascending: the seat another holder has (if any) and the
  keys acquired. A lock error stops the loop without a conflict.
\<close>

fun acquire_locks ::
    "env \<Rightarrow> 'l service \<Rightarrow> int \<Rightarrow> uuid \<Rightarrow> int list \<Rightarrow> int list \<Rightarrow> ('l, 'p) world
     \<Rightarrow> (int option \<times> int list) \<times> ('l, 'p) world" where
  "acquire_locks E S ev h [] acq w = ((None, acq), w)"
| "acquire_locks E S ev h (s # ss) acq w =
     (case call_acquire E S ev s h w of
        (Inl e, w') \<Rightarrow> ((None, acq), w')
      | (Inr False, w') \<Rightarrow> ((Some s, acq), w')
      | (Inr True, w') \<Rightarrow> acquire_locks E S ev h ss (acq @ [s]) w')"

definition held_event :: "int \<Rightarrow> uuid \<Rightarrow> acquired_row \<Rightarrow> string \<times> event_type \<times> payload" where
  "held_event ev h r =
     (seat_aggregate ev (ar_seat r), SeatHeldEvent,
      [(''eventId'', JInt ev), (''seatId'', JInt (ar_seat r)), (''seatOrdinal'', JInt (ar_ordinal r)),
       (''holdId'', JUuid h), (''fenceToken'', JInt (ar_fence r)), (''expiresAt'', JTime (ar_expires r))])"

definition held_seat_of :: "acquired_row \<Rightarrow> held_seat" where
  "held_seat_of r = \<lparr>hs_seat = ar_seat r, hs_ordinal = ar_ordinal r, hs_fence = ar_fence r, hs_price = ar_price r\<rparr>"

text \<open>The zero \<open>time.Time\<close> a \<open>Hold\<close> starts with; the loop leaves the last row's expiry.\<close>

definition zero_time :: time where "zero_time = - 62135596800000000"

definition hold_of :: "int \<Rightarrow> uuid \<Rightarrow> acquired_row list \<Rightarrow> hold" where
  "hold_of ev h rows =
     \<lparr>h_id = h, h_event = ev,
      h_expires = (if rows = [] then zero_time else ar_expires (last rows)),
      h_seats = map held_seat_of rows\<rparr>"

fun audit_acquired ::
    "env \<Rightarrow> hold \<Rightarrow> string \<Rightarrow> held_seat list \<Rightarrow> ('l, 'p) world \<Rightarrow> ('l, 'p) world" where
  "audit_acquired E hl user [] w = w"
| "audit_acquired E hl user (s # ss) w =
     audit_acquired E hl user ss
       (audit E (h_id hl) (h_event hl) (hs_seat s) user ACQUIRED (hs_fence s) (Some (h_expires hl)) w)"

text \<open>
  Step 3, after the filter: the transaction with the compare-and-set, the outbox rows and the
  commit. Every failure releases the keys of this attempt.
\<close>

definition acquire_cas ::
    "env \<Rightarrow> 'l service \<Rightarrow> int \<Rightarrow> int list \<Rightarrow> int list \<Rightarrow> uuid \<Rightarrow> string \<Rightarrow> ('l, 'p) world
     \<Rightarrow> (error + hold) \<times> ('l, 'p) world" where
  "acquire_cas E S ev seats acq h user w =
     (case begin_tx E w of
        (Inl e, w1) \<Rightarrow> (Inl e, releaseRedisBatch E S ev acq h w1)
      | (Inr t, w1) \<Rightarrow>
     (case exec_tx E (q_AcquireHold ev seats h user (dur_seconds (sv_hold_ttl S))) t w1 of
        (Inl e, w2) \<Rightarrow> (Inl e, releaseRedisBatch E S ev acq h w2)
      | (Inr (rows, t2), w2) \<Rightarrow>
     if length rows \<noteq> length seats then
       (let conflicts = filter (\<lambda>i. i \<notin> ar_seat ` set rows) seats in
        (Inl (SeatTaken conflicts),
         audit_all E h ev conflicts user LOST_DB_CAS (releaseRedisBatch E S ev acq h w2)))
     else
     (case publish_all E (map (held_event ev h) rows) t2 w2 of
        (Inl e, w3) \<Rightarrow> (Inl e, releaseRedisBatch E S ev acq h w3)
      | (Inr t3, w3) \<Rightarrow>
     (case commit_tx E t3 w3 of
        (Inl e, w4) \<Rightarrow> (Inl e, releaseRedisBatch E S ev acq h w4)
      | (Inr _, w4) \<Rightarrow>
        (let hl = hold_of ev h rows in (Inr hl, audit_acquired E hl user (h_seats hl) w4))))))"

definition AcquireHold ::
    "env \<Rightarrow> 'l service \<Rightarrow> int \<Rightarrow> int list \<Rightarrow> string \<Rightarrow> ('l, 'p) world \<Rightarrow> (error + hold) \<times> ('l, 'p) world" where
  "AcquireHold E S ev ids user w =
     (let (seats, hadDupes) = sortDedup ids in
      if hadDupes then (Inl DuplicateSeat, w)
      else if seats = [] then (Inl (OtherError ''no seats requested''), w)
      else if length seats > sv_max_seats S then (Inl TooManySeats, w)
      else
        (let (h, w1) = new_uuid E w in
         case acquire_locks E S ev h seats [] w1 of
           ((Some s, acq), w2) \<Rightarrow>
             (Inl (SeatTaken [s]),
              audit E h ev s user LOST_REDIS 0 None (releaseRedisBatch E S ev acq h w2))
         | ((None, acq), w2) \<Rightarrow> acquire_cas E S ev seats acq h user w2))"

subsection \<open>ReleaseHold\<close>

definition released_event :: "int \<Rightarrow> uuid \<Rightarrow> int \<Rightarrow> string \<times> event_type \<times> payload" where
  "released_event ev h s =
     (seat_aggregate ev s, SeatReleasedEvent,
      [(''eventId'', JInt ev), (''seatId'', JInt s), (''holdId'', JUuid h)])"

definition ReleaseHold ::
    "env \<Rightarrow> 'l service \<Rightarrow> int \<Rightarrow> int list \<Rightarrow> uuid \<Rightarrow> string \<Rightarrow> ('l, 'p) world \<Rightarrow> (error + unit) \<times> ('l, 'p) world" where
  "ReleaseHold E S ev ids h user w =
     (let seats = fst (sortDedup ids); w0 = releaseRedisBatch E S ev seats h w in
      case begin_tx E w0 of
        (Inl e, w1) \<Rightarrow> (Inl e, w1)
      | (Inr t, w1) \<Rightarrow>
     (case exec_tx E (q_ReleaseHold ev seats h) t w1 of
        (Inl e, w2) \<Rightarrow> (Inl e, w2)
      | (Inr (n, t2), w2) \<Rightarrow>
     (case (if n > 0 then publish_all E (map (released_event ev h) seats) t2 w2 else (Inr t2, w2)) of
        (Inl e, w3) \<Rightarrow> (Inl e, w3)
      | (Inr t3, w3) \<Rightarrow>
     (case commit_tx E t3 w3 of
        (Inl e, w4) \<Rightarrow> (Inl e, w4)
      | (Inr _, w4) \<Rightarrow> (Inr (), audit_all E h ev seats user RELEASED w4)))))"

subsection \<open>ExtendHold\<close>

text \<open>The Go method also returns the row count beside the error; no caller reads it then.\<close>

definition ExtendHold ::
    "env \<Rightarrow> int \<Rightarrow> int list \<Rightarrow> uuid \<Rightarrow> int \<Rightarrow> ('l, 'p) world \<Rightarrow> (error + nat) \<times> ('l, 'p) world" where
  "ExtendHold E ev ids h d w =
     (let seats = fst (sortDedup ids) in
      case exec E (q_ExtendHold ev seats h (dur_seconds d)) w of
        (Inl e, w') \<Rightarrow> (Inl e, w')
      | (Inr n, w') \<Rightarrow> if n < length seats then (Inl HoldExpired, w') else (Inr n, w'))"

subsection \<open>ConfirmSeats\<close>

definition booked_event :: "int \<Rightarrow> uuid \<Rightarrow> uuid \<Rightarrow> int \<Rightarrow> string \<times> event_type \<times> payload" where
  "booked_event ev h ordr s =
     (seat_aggregate ev s, SeatBookedEvent,
      [(''eventId'', JInt ev), (''seatId'', JInt s), (''orderId'', JUuid ordr), (''holdId'', JUuid h)])"

text \<open>
  The method sorts its two slices in place, so its callers see them sorted afterwards; they
  use \<open>sortSeatsAndFencesTogether\<close> again to read them.
\<close>

definition ConfirmSeats ::
    "env \<Rightarrow> int \<Rightarrow> int list \<Rightarrow> int list \<Rightarrow> uuid \<Rightarrow> uuid \<Rightarrow> ('l, 'p) world \<Rightarrow> (error + unit) \<times> ('l, 'p) world" where
  "ConfirmSeats E ev ids fcs h ordr w =
     (if length ids \<noteq> length fcs then (Inl (OtherError ''length mismatch''), w)
      else
        (let (seats, fences) = sortSeatsAndFencesTogether ids fcs in
         case begin_tx E w of
           (Inl e, w1) \<Rightarrow> (Inl e, w1)
         | (Inr t, w1) \<Rightarrow>
        (case exec_tx E (q_ConfirmSeats ev seats fences h ordr) t w1 of
           (Inl e, w2) \<Rightarrow> (Inl e, w2)
         | (Inr (n, t2), w2) \<Rightarrow>
        if n \<noteq> length seats then
          (Inl HoldExpired, audit_all E h ev seats [] STALE_FENCE_REJECTED w2)
        else
        (case publish_all E (map (booked_event ev h ordr) seats) t2 w2 of
           (Inl e, w3) \<Rightarrow> (Inl e, w3)
         | (Inr t3, w3) \<Rightarrow>
        (case commit_tx E t3 w3 of
           (Inl e, w4) \<Rightarrow> (Inl e, w4)
         | (Inr _, w4) \<Rightarrow> (Inr (), audit_all E h ev seats [] CONFIRMED w4))))))"

subsection \<open>BestAvailable\<close>

definition bestAvailableMaxAttempts :: nat where "bestAvailableMaxAttempts = 3"

text \<open>The inner loop: every neighbour in the window continues the row and the ordinal.\<close>

definition run_at :: "candidate_row list \<Rightarrow> nat \<Rightarrow> nat \<Rightarrow> bool" where
  "run_at cs q start =
     list_all (\<lambda>i. cd_row (cs ! (start + i)) = cd_row (cs ! (start + i - 1))
                 \<and> cd_ordinal (cs ! (start + i)) = wrap32 (cd_ordinal (cs ! (start + i - 1)) + 1)) [1..<q]"

definition findContiguousRuns :: "candidate_row list \<Rightarrow> nat \<Rightarrow> int list list" where
  "findContiguousRuns cs q =
     map (\<lambda>start. map (\<lambda>i. cd_seat (cs ! (start + i))) [0..<q])
         (filter (run_at cs q) [0..<length cs + 1 - q])"

definition is_seat_taken :: "error \<Rightarrow> bool" where
  "is_seat_taken e = (case e of SeatTaken _ \<Rightarrow> True | _ \<Rightarrow> False)"

fun try_runs ::
    "env \<Rightarrow> 'l service \<Rightarrow> int \<Rightarrow> int list list \<Rightarrow> string \<Rightarrow> ('l, 'p) world \<Rightarrow> (error + hold) \<times> ('l, 'p) world" where
  "try_runs E S ev [] user w = (Inl NoContiguousSeats, w)"
| "try_runs E S ev (r # rs) user w =
     (case AcquireHold E S ev r user w of
        (Inr hl, w') \<Rightarrow> (Inr hl, w')
      | (Inl e, w') \<Rightarrow> if is_seat_taken e then try_runs E S ev rs user w' else (Inl e, w'))"

definition BestAvailable ::
    "env \<Rightarrow> 'l service \<Rightarrow> int \<Rightarrow> int \<Rightarrow> int \<Rightarrow> string \<Rightarrow> ('l, 'p) world \<Rightarrow> (error + hold) \<times> ('l, 'p) world" where
  "BestAvailable E S ev quantity maxp user w =
     (if quantity \<le> 0 then (Inl (OtherError ''quantity must be positive''), w)
      else if quantity > int (sv_max_seats S) then (Inl TooManySeats, w)
      else
        (case exec E (q_ListAvailableForBestAvailable ev maxp) w of
           (Inl e, w') \<Rightarrow> (Inl e, w')
         | (Inr candidates, w') \<Rightarrow>
             (let runs = findContiguousRuns candidates (nat quantity) in
              if runs = [] then (Inl NoContiguousSeats, w')
              else try_runs E S ev (take bestAvailableMaxAttempts runs) user w')))"

end
