(* ===== verification/InventoryProofs.thy ===== *)
theory InventoryProofs
  imports Inventory "HOL-Library.Multiset"
begin

section \<open>Lemmas about the inventory operations\<close>

subsection \<open>The sorting helpers\<close>

lemma dedup_loop_fst:
  "fst (dedup_loop ids prev acc had) = acc @ fst (dedup_loop ids prev [] False)"
proof (induction ids arbitrary: prev acc had)
  case Nil
  then show ?case by simp
next
  case (Cons i ids)
  show ?case
    using Cons.IH [of prev acc True] Cons.IH [of prev "[]" True]
      Cons.IH [of "Some i" "acc @ [i]" had] Cons.IH [of "Some i" "[i]" False]
    by auto
qed

lemma dedup_loop_snd:
  "snd (dedup_loop ids prev acc had) \<longleftrightarrow> had \<or> snd (dedup_loop ids prev [] False)"
proof (induction ids arbitrary: prev acc had)
  case Nil
  then show ?case by simp
next
  case (Cons i ids)
  show ?case
    using Cons.IH [of prev acc True] Cons.IH [of prev "[]" True]
      Cons.IH [of "Some i" "acc @ [i]" had] Cons.IH [of "Some i" "[i]" False]
    by auto
qed

lemma dedup_loop_Some:
  "sorted (p # ids) \<Longrightarrow>
   sorted (fst (dedup_loop ids (Some p) [] False)) \<and> distinct (fst (dedup_loop ids (Some p) [] False))
   \<and> set (fst (dedup_loop ids (Some p) [] False)) = set ids - {p}
   \<and> (snd (dedup_loop ids (Some p) [] False) \<longleftrightarrow> \<not> distinct (p # ids))"
proof (induction ids arbitrary: p)
  case Nil
  then show ?case by simp
next
  case (Cons i ids)
  show ?case
  proof (cases "i = p")
    case True
    with Cons.prems Cons.IH [of p] show ?thesis
      using dedup_loop_fst [of ids "Some p" "[]" True] dedup_loop_snd [of ids "Some p" "[]" True] by auto
  next
    case False
    let ?L = "fst (dedup_loop ids (Some i) [] False)"
    have s: "sorted (i # ids)" and pi: "p < i" and pn: "p \<notin> set ids"
      using Cons.prems False by auto
    have ih: "sorted ?L" "distinct ?L" "set ?L = set ids - {i}"
        "snd (dedup_loop ids (Some i) [] False) \<longleftrightarrow> \<not> distinct (i # ids)"
      using Cons.IH [OF s] by auto
    have "fst (dedup_loop (i # ids) (Some p) [] False) = i # ?L"
      using False dedup_loop_fst [of ids "Some i" "[i]" False] by simp
    moreover have "snd (dedup_loop (i # ids) (Some p) [] False) \<longleftrightarrow> \<not> distinct (i # ids)"
      using False dedup_loop_snd [of ids "Some i" "[i]" False] ih(4) by simp
    moreover have "sorted (i # ?L)" using ih(1,3) s by auto
    ultimately show ?thesis using ih pi pn False by auto
  qed
qed

lemma sortDedup_spec:
  "sorted (fst (sortDedup ids)) \<and> distinct (fst (sortDedup ids))
   \<and> set (fst (sortDedup ids)) = set ids \<and> (snd (sortDedup ids) \<longleftrightarrow> \<not> distinct ids)"
proof (cases "sort ids")
  case Nil
  then have "ids = []" by (metis length_0_conv length_sort)
  then show ?thesis by (simp add: sortDedup_def)
next
  case (Cons p xs)
  have s: "sorted (p # xs)" using sorted_sort [of ids] Cons by simp
  have st: "set ids = insert p (set xs)" using set_sort [of "\<lambda>x. x" ids] Cons by simp
  have d: "distinct ids \<longleftrightarrow> distinct (p # xs)" using distinct_sort [of "\<lambda>x. x" ids] Cons by simp
  have f: "fst (sortDedup ids) = p # fst (dedup_loop xs (Some p) [] False)"
    using dedup_loop_fst [of xs "Some p" "[p]" False] by (simp add: sortDedup_def Cons)
  have g: "snd (sortDedup ids) \<longleftrightarrow> snd (dedup_loop xs (Some p) [] False)"
    using dedup_loop_snd [of xs "Some p" "[p]" False] by (simp add: sortDedup_def Cons)
  from dedup_loop_Some [OF s] s show ?thesis unfolding f g st d by auto
qed

lemma sortDedup_set [simp]: "set (fst (sortDedup ids)) = set ids"
  and sortDedup_distinct [simp]: "distinct (fst (sortDedup ids))"
  and sortDedup_sorted [simp]: "sorted (fst (sortDedup ids))"
  and sortDedup_dupes [simp]: "snd (sortDedup ids) \<longleftrightarrow> \<not> distinct ids"
  using sortDedup_spec by blast+

lemma sortDedup_eq: "distinct ids \<Longrightarrow> sortDedup ids = (sort ids, False)"
proof -
  assume d: "distinct ids"
  have "fst (sortDedup ids) = sort ids"
    using d by (intro sorted_distinct_set_unique) auto
  with d show ?thesis by (metis prod.collapse sortDedup_dupes)
qed

lemma sortDedup_length: "distinct ids \<Longrightarrow> length (fst (sortDedup ids)) = length ids"
  by (simp add: sortDedup_eq)

lemma sortTogether_zip:
  assumes "length seats = length fences" and "sortSeatsAndFencesTogether seats fences = (a, b)"
  shows "mset (zip a b) = mset (zip seats fences)" and "sorted a" and "length b = length a"
    and "length a = length seats"
proof -
  let ?idx = "sort_key (\<lambda>i. seats ! i) [0..<length seats]"
  have ab: "a = map (\<lambda>j. seats ! j) ?idx" "b = map (\<lambda>j. fences ! j) ?idx"
    using assms(2) by (auto simp: sortSeatsAndFencesTogether_def Let_def)
  have "zip a b = map (\<lambda>j. (seats ! j, fences ! j)) ?idx"
    by (simp add: ab zip_map_map zip_same_conv_map)
  then have "mset (zip a b) = image_mset (\<lambda>j. (seats ! j, fences ! j)) (mset [0..<length seats])"
    by (simp only: mset_map mset_sort)
  also have "\<dots> = mset (map (\<lambda>j. (seats ! j, fences ! j)) [0..<length seats])"
    by (simp only: mset_map)
  also have "map (\<lambda>j. (seats ! j, fences ! j)) [0..<length seats] = zip seats fences"
    using assms(1) by (auto intro!: nth_equalityI)
  finally show "mset (zip a b) = mset (zip seats fences)" .
  show "sorted a" by (simp add: ab)
  show "length b = length a" and "length a = length seats" by (simp_all add: ab)
qed

lemma sortTogether_set:
  assumes "length seats = length fences" and "sortSeatsAndFencesTogether seats fences = (a, b)"
  shows "set (zip a b) = set (zip seats fences)" and "set a = set seats" and "mset a = mset seats"
proof -
  show "set (zip a b) = set (zip seats fences)"
    using sortTogether_zip(1) [OF assms] by (metis set_mset_mset)
  have "mset (map fst (zip a b)) = mset (map fst (zip seats fences))"
    using sortTogether_zip(1) [OF assms] by (simp only: mset_map)
  then show m: "mset a = mset seats"
    using assms(1) sortTogether_zip(3) [OF assms] by (simp add: map_fst_zip)
  from m show "set a = set seats" by (metis set_mset_mset)
qed

subsection \<open>What a transaction writes\<close>

text \<open>
  The outbox writes of a transaction leave every other table alone and append one unpublished
  row per event, in order; the committed database does not move before the commit.
\<close>

definition outbox_only :: "db \<Rightarrow> db \<Rightarrow> bool" where
  "outbox_only d d' \<longleftrightarrow> (\<exists>out n. d' = d\<lparr>t_outbox := out, t_outbox_seq := n\<rparr>)"

definition event_of :: "domain_event \<Rightarrow> string \<times> event_type \<times> payload" where
  "event_of e = (de_aggregate e, de_type e, de_payload e)"

definition appends_events :: "db \<Rightarrow> (string \<times> event_type \<times> payload) list \<Rightarrow> db \<Rightarrow> bool" where
  "appends_events d es d' \<longleftrightarrow>
     (\<exists>new. t_outbox d' = t_outbox d @ new \<and> map event_of new = es \<and> (\<forall>e \<in> set new. de_published e = None))"

lemma outbox_only_refl [simp, intro]: "outbox_only d d"
  unfolding outbox_only_def by (metis db.surjective db.update_convs(3,4))

lemma outbox_only_trans: "outbox_only d d' \<Longrightarrow> outbox_only d' d'' \<Longrightarrow> outbox_only d d''"
proof -
  assume "outbox_only d d'" "outbox_only d' d''"
  then obtain a m b n where "d' = d\<lparr>t_outbox := a, t_outbox_seq := m\<rparr>"
      "d'' = d'\<lparr>t_outbox := b, t_outbox_seq := n\<rparr>"
    by (auto simp: outbox_only_def)
  then have "d'' = d\<lparr>t_outbox := b, t_outbox_seq := n\<rparr>" by simp
  then show ?thesis unfolding outbox_only_def by blast
qed

lemma outbox_only_seats [frame_simps]: "outbox_only d d' \<Longrightarrow> t_seats d' = t_seats d"
  by (auto simp: outbox_only_def)

lemma appends_events_Nil [simp, intro]: "appends_events d [] d"
  by (simp add: appends_events_def)

lemma appends_events_Cons:
  assumes "appends_events d [e] d1" and "appends_events d1 es d2"
  shows "appends_events d (e # es) d2"
proof -
  obtain n1 where n1: "t_outbox d1 = t_outbox d @ n1" "map event_of n1 = [e]" "\<forall>x \<in> set n1. de_published x = None"
    using assms(1) by (auto simp: appends_events_def)
  obtain n2 where n2: "t_outbox d2 = t_outbox d1 @ n2" "map event_of n2 = es" "\<forall>x \<in> set n2. de_published x = None"
    using assms(2) by (auto simp: appends_events_def)
  have "t_outbox d2 = t_outbox d @ (n1 @ n2)" "map event_of (n1 @ n2) = e # es"
      "\<forall>x \<in> set (n1 @ n2). de_published x = None"
    using n1 n2 by auto
  then show ?thesis unfolding appends_events_def by (intro exI [of _ "n1 @ n2"]) simp
qed

lemma Publish_ok:
  assumes "Publish E agg ty pl t w = (Inr t', w')"
  shows "outbox_only (tx_db t) (tx_db t') \<and> appends_events (tx_db t) [(agg, ty, pl)] (tx_db t')"
proof -
  obtain x where "exec_tx E (q_InsertDomainEvent (uuid_at E (w_calls w)) agg ty SchemaVersion pl) t (tick w)
      = (Inr (x, t'), w')"
    using assms by (auto simp: Publish_def new_uuid_def split: prod.splits sum.splits)
  then show ?thesis
    by (rule exec_tx_cases)
       (auto simp: q_InsertDomainEvent_def outbox_only_def appends_events_def event_of_def split: if_splits)
qed

lemma Publish_frame [frame_simps]:
  "Publish E agg ty pl t w = (r, w') \<Longrightarrow> w_db w' = w_db w \<and> w_lock w' = w_lock w \<and> w_pay w' = w_pay w"
  by (auto simp: Publish_def new_uuid_def split: prod.splits sum.splits dest: call_frames)

lemma publish_all_frame [frame_simps]:
  "publish_all E es t w = (r, w') \<Longrightarrow> w_db w' = w_db w \<and> w_lock w' = w_lock w \<and> w_pay w' = w_pay w"
proof (induction es arbitrary: t w)
  case Nil
  then show ?case by simp
next
  case (Cons e es)
  obtain agg ty pl where e: "e = (agg, ty, pl)" by (cases e)
  obtain r1 w1 where p: "Publish E agg ty pl t w = (r1, w1)" by (meson surj_pair)
  show ?case
    using Cons.prems Cons.IH Publish_frame [OF p] by (cases r1) (auto simp: e p)
qed

lemma publish_all_ok:
  "publish_all E es t w = (Inr t', w') \<Longrightarrow>
   outbox_only (tx_db t) (tx_db t') \<and> appends_events (tx_db t) es (tx_db t')"
proof (induction es arbitrary: t w)
  case Nil
  then show ?case by simp
next
  case (Cons e es)
  obtain agg ty pl where e: "e = (agg, ty, pl)" by (cases e)
  obtain t1 w1 where p: "Publish E agg ty pl t w = (Inr t1, w1)" and rest: "publish_all E es t1 w1 = (Inr t', w')"
    using Cons.prems by (auto simp: e split: prod.splits sum.splits)
  from Publish_ok [OF p] Cons.IH [OF rest] show ?case
    by (auto simp: e intro: outbox_only_trans appends_events_Cons)
qed

subsection \<open>Audits and lock calls touch nothing else\<close>

definition audit_only :: "db \<Rightarrow> db \<Rightarrow> bool" where
  "audit_only d d' \<longleftrightarrow> (\<exists>a. d' = d\<lparr>t_audit := a\<rparr>)"

lemma audit_only_refl [simp, intro]: "audit_only d d"
  unfolding audit_only_def by (metis db.surjective db.update_convs(2))

lemma audit_only_trans: "audit_only d d' \<Longrightarrow> audit_only d' d'' \<Longrightarrow> audit_only d d''"
proof -
  assume "audit_only d d'" "audit_only d' d''"
  then obtain a b where "d' = d\<lparr>t_audit := a\<rparr>" "d'' = d'\<lparr>t_audit := b\<rparr>"
    by (auto simp: audit_only_def)
  then have "d'' = d\<lparr>t_audit := b\<rparr>" by simp
  then show ?thesis unfolding audit_only_def by blast
qed

lemma audit_only_tables [frame_simps]:
  assumes "audit_only d d'"
  shows "t_seats d' = t_seats d" "t_outbox d' = t_outbox d" "t_orders d' = t_orders d"
    "t_payments d' = t_payments d" "t_refunds d' = t_refunds d" "t_steps d' = t_steps d"
    "t_tickets d' = t_tickets d" "t_processed d' = t_processed d" "t_venue_seats d' = t_venue_seats d"
proof -
  obtain a where "d' = d\<lparr>t_audit := a\<rparr>" using assms by (auto simp: audit_only_def)
  then show "t_seats d' = t_seats d" "t_outbox d' = t_outbox d" "t_orders d' = t_orders d"
    "t_payments d' = t_payments d" "t_refunds d' = t_refunds d" "t_steps d' = t_steps d"
    "t_tickets d' = t_tickets d" "t_processed d' = t_processed d" "t_venue_seats d' = t_venue_seats d"
    by simp_all
qed

lemma audit_frame: "audit_only (w_db w) (w_db (audit E h ev s u oc f x w))"
proof -
  obtain r w' where x: "exec E (q_InsertHoldsAudit
       \<lparr>ha_hold = h, ha_event = ev, ha_seat = s, ha_user = u, ha_outcome = oc,
        ha_fence = (if f \<noteq> 0 then Some f else None), ha_expires = x\<rparr>) w = (r, w')"
    by (meson surj_pair)
  have "audit_only (w_db w) (w_db w')"
    using x by (rule exec_cases) (auto simp: q_InsertHoldsAudit_def audit_only_def)
  with x show ?thesis by (simp add: audit_def)
qed

lemma audit_all_frame: "audit_only (w_db w) (w_db (audit_all E h ev ss u oc w))"
  by (induction ss arbitrary: w) (auto intro: audit_only_trans audit_frame)

lemma audit_acquired_frame: "audit_only (w_db w) (w_db (audit_acquired E hl u ss w))"
  by (induction ss arbitrary: w) (auto intro: audit_only_trans audit_frame)

lemma audit_state [simp]:
  "w_lock (audit E h ev s u oc f x w) = w_lock w" "w_pay (audit E h ev s u oc f x w) = w_pay w"
  by (auto simp: audit_def exec_def split: prod.splits fate.splits)

lemma audit_all_state [simp]:
  "w_lock (audit_all E h ev ss u oc w) = w_lock w" "w_pay (audit_all E h ev ss u oc w) = w_pay w"
  by (induction ss arbitrary: w) simp_all

lemma audit_acquired_state [simp]:
  "w_lock (audit_acquired E hl u ss w) = w_lock w" "w_pay (audit_acquired E hl u ss w) = w_pay w"
  by (induction ss arbitrary: w) simp_all

lemma call_acquire_frame [frame_simps]:
  "call_acquire E S ev s h w = (r, w') \<Longrightarrow> w_db w' = w_db w \<and> w_pay w' = w_pay w"
  by (auto simp: call_acquire_def split: prod.splits)

lemma releaseRedisBatch_frame [simp]:
  "w_db (releaseRedisBatch E S ev ss h w) = w_db w" "w_pay (releaseRedisBatch E S ev ss h w) = w_pay w"
  by (induction ss arbitrary: w) (simp_all add: call_release_def split: prod.splits)

lemma acquire_locks_frame [frame_simps]:
  "acquire_locks E S ev h ss acq w = (r, w') \<Longrightarrow> w_db w' = w_db w \<and> w_pay w' = w_pay w"
proof (induction ss arbitrary: acq w)
  case Nil
  then show ?case by simp
next
  case (Cons s ss)
  obtain r1 w1 where c: "call_acquire E S ev s h w = (r1, w1)" by (meson surj_pair)
  show ?case
    using Cons.prems Cons.IH call_acquire_frame [OF c] by (auto simp: c split: sum.splits bool.splits)
qed

subsection \<open>The effect of each operation\<close>

text \<open>
  An operation either takes its whole effect and says so, or reports an error and leaves
  seats and outbox alone, or reports an error because the answer to its commit was lost
  while the effect was taken. The effect of \<open>AcquireHold\<close>: every requested seat was
  acquirable and is now held under the new hold, with one \<open>seat.held\<close> event each.
\<close>

definition hold_effect ::
    "time \<Rightarrow> int \<Rightarrow> int list \<Rightarrow> uuid \<Rightarrow> string \<Rightarrow> int \<Rightarrow> acquired_row list \<Rightarrow> db \<Rightarrow> db \<Rightarrow> bool" where
  "hold_effect t ev seats h user ttl rows d d' \<longleftrightarrow>
     rows = map (acquired_of t ttl) (filter (acquirable t ev seats) (t_seats d))
   \<and> length rows = length seats
   \<and> t_seats d' = update_where (acquirable t ev seats) (set_held t h user ttl) (t_seats d)
   \<and> appends_events d (map (held_event ev h) rows) d'"

lemma appends_events_audit:
  "appends_events d es d' \<Longrightarrow> audit_only d' d'' \<Longrightarrow> appends_events d es d''"
  by (auto simp: appends_events_def audit_only_def)

lemma appends_events_seats [simp]: "appends_events (d\<lparr>t_seats := x\<rparr>) es d' \<longleftrightarrow> appends_events d es d'"
  by (simp add: appends_events_def)

lemma hold_effect_audit:
  "hold_effect t ev seats h user ttl rows d d' \<Longrightarrow> audit_only d' d'' \<Longrightarrow>
   hold_effect t ev seats h user ttl rows d d''"
  by (auto simp: hold_effect_def audit_only_tables intro: appends_events_audit)

lemma acquire_cas_cases:
  assumes "acquire_cas E S ev seats acq h user w = (r, w')"
  obtains (held) t rows where "r = Inr (hold_of ev h rows)"
      "hold_effect t ev seats h user (dur_seconds (sv_hold_ttl S)) rows (w_db w) (w_db w')"
    | (failed) e where "r = Inl e" "audit_only (w_db w) (w_db w')"
    | (unknown) t rows where "r = Inl Unavailable" "\<exists>k. fate_of E k = Ambiguous"
      "hold_effect t ev seats h user (dur_seconds (sv_hold_ttl S)) rows (w_db w) (w_db w')"
proof -
  let ?ttl = "dur_seconds (sv_hold_ttl S)"
  obtain rb w1 where b: "begin_tx E w = (rb, w1)" by (meson surj_pair)
  have d1: "w_db w1 = w_db w" using call_frames(3) [OF b] by simp
  show thesis
  proof (cases rb)
    case (Inl e)
    with assms b d1 show thesis by (auto simp: acquire_cas_def intro!: failed)
  next
    case (Inr t)
    have t: "tx_db t = w_db w" using b Inr by (auto elim: begin_tx_cases)
    obtain rs w2 where x: "exec_tx E (q_AcquireHold ev seats h user ?ttl) t w1 = (rs, w2)" by (meson surj_pair)
    have d2: "w_db w2 = w_db w" using call_frames(4) [OF x] d1 by simp
    show thesis
    proof (cases rs)
      case (Inl e)
      with assms b \<open>rb = Inr t\<close> x d2 show thesis by (auto simp: acquire_cas_def intro!: failed)
    next
      case (Inr p)
      obtain rows t2 where p: "p = (rows, t2)" by (cases p)
      let ?P = "acquirable (tx_now t) ev seats"
      have rows: "rows = map (acquired_of (tx_now t) ?ttl) (filter ?P (t_seats (w_db w)))"
        and t2: "tx_db t2 = (w_db w)\<lparr>t_seats := update_where ?P (set_held (tx_now t) h user ?ttl) (t_seats (w_db w))\<rparr>"
        using x Inr p t by (auto elim!: exec_tx_cases simp: q_AcquireHold_def)
      show thesis
      proof (cases "length rows = length seats")
        case False
        have "audit_only (w_db w) (w_db w')" and "\<exists>e. r = Inl e"
          using assms b \<open>rb = Inr t\<close> x Inr p False d2
            audit_all_frame [of "releaseRedisBatch E S ev acq h w2"]
          by (auto simp: acquire_cas_def Let_def)
        then show thesis using failed by blast
      next
        case len: True
        obtain rp w3 where pa: "publish_all E (map (held_event ev h) rows) t2 w2 = (rp, w3)" by (meson surj_pair)
        have d3: "w_db w3 = w_db w" using publish_all_frame [OF pa] d2 by simp
        show thesis
        proof (cases rp)
          case (Inl e)
          with assms b \<open>rb = Inr t\<close> x \<open>rs = Inr p\<close> p len pa d3 show thesis
            by (auto simp: acquire_cas_def Let_def intro!: failed)
        next
          case (Inr t3)
          have eff: "hold_effect (tx_now t) ev seats h user ?ttl rows (w_db w) (tx_db t3)"
            using publish_all_ok [of E "map (held_event ev h) rows" t2 w2 t3 w3] pa Inr rows len t2
            by (auto simp: hold_effect_def outbox_only_seats)
          obtain rc w4 where c: "commit_tx E t3 w3 = (rc, w4)" by (meson surj_pair)
          have res: "r = (case rc of Inl e \<Rightarrow> Inl e | Inr _ \<Rightarrow> Inr (hold_of ev h rows))"
            and w': "w' = (case rc of Inl e \<Rightarrow> releaseRedisBatch E S ev acq h w4
                | Inr _ \<Rightarrow> audit_acquired E (hold_of ev h rows) user (h_seats (hold_of ev h rows)) w4)"
            using assms b \<open>rb = Inr t\<close> x \<open>rs = Inr p\<close> p len pa Inr c
            by (auto simp: acquire_cas_def Let_def split: sum.splits)
          from c show thesis
          proof (cases rule: commit_tx_cases)
            case committed
            then have a: "audit_only (tx_db t3) (w_db w')" and r: "r = Inr (hold_of ev h rows)"
              using res w' audit_acquired_frame [of w4] by auto
            show thesis by (rule held [OF r hold_effect_audit [OF eff a]])
          next
            case lost
            then show thesis using res w' d3 by (auto intro!: failed)
          next
            case ambiguous
            then have "\<exists>k. fate_of E k = Ambiguous"
              by blast
            then show thesis using ambiguous res w' eff by (auto intro!: unknown)
          qed
        qed
      qed
    qed
  qed
qed

lemma acquirable_sorted [simp]: "acquirable t ev (fst (sortDedup ids)) = acquirable t ev ids"
  by (rule ext) (simp add: acquirable_def)

lemma hold_effect_sorted:
  "distinct ids \<Longrightarrow>
   hold_effect t ev (fst (sortDedup ids)) h u ttl rows d d' = hold_effect t ev ids h u ttl rows d d'"
  by (simp add: hold_effect_def sortDedup_length)

lemma AcquireHold_cases:
  assumes "AcquireHold E S ev ids user w = (r, w')"
  obtains (held) t rows where "r = Inr (hold_of ev (uuid_at E (w_calls w)) rows)"
      "distinct ids" "ids \<noteq> []" "length ids \<le> sv_max_seats S"
      "hold_effect t ev ids (uuid_at E (w_calls w)) user (dur_seconds (sv_hold_ttl S)) rows (w_db w) (w_db w')"
    | (failed) e where "r = Inl e" "audit_only (w_db w) (w_db w')"
    | (unknown) t rows where "r = Inl Unavailable" "\<exists>k. fate_of E k = Ambiguous" "distinct ids"
      "hold_effect t ev ids (uuid_at E (w_calls w)) user (dur_seconds (sv_hold_ttl S)) rows (w_db w) (w_db w')"
proof (cases "distinct ids \<and> ids \<noteq> [] \<and> length ids \<le> sv_max_seats S")
  case False
  obtain s b where sd: "sortDedup ids = (s, b)" by (meson surj_pair)
  have "b \<longleftrightarrow> \<not> distinct ids" and "set s = set ids" and "distinct ids \<Longrightarrow> length s = length ids"
    using sortDedup_dupes [of ids] sortDedup_set [of ids] sortDedup_length [of ids] sd by auto
  then have "\<exists>e. r = Inl e" and "w' = w"
    using assms False by (auto simp: AcquireHold_def sd split: if_splits)
  then show thesis using failed by auto
next
  case True
  let ?h = "uuid_at E (w_calls w)"
  obtain seats where sd: "sortDedup ids = (seats, False)" using True by (metis prod.collapse sortDedup_dupes)
  then have fs: "seats = fst (sortDedup ids)" by simp
  have "length seats = length ids" using True by (simp add: fs sortDedup_length)
  with True have ne: "seats \<noteq> []" and len: "length seats \<le> sv_max_seats S" by auto
  obtain o1 acq w2 where l: "acquire_locks E S ev ?h seats [] (tick w) = ((o1, acq), w2)"
    by (metis surj_pair)
  have d2: "w_db w2 = w_db w" using acquire_locks_frame [OF l] by simp
  show thesis
  proof (cases o1)
    case (Some s)
    then have "r = Inl (SeatTaken [s])"
      and "w' = audit E ?h ev s user LOST_REDIS 0 None (releaseRedisBatch E S ev acq ?h w2)"
      using assms sd ne len l by (auto simp: AcquireHold_def new_uuid_def)
    then show thesis using failed audit_frame [of "releaseRedisBatch E S ev acq ?h w2"] d2 by auto
  next
    case None
    then have c: "acquire_cas E S ev seats acq ?h user w2 = (r, w')"
      using assms sd ne len l by (auto simp: AcquireHold_def new_uuid_def)
    from c show thesis
    proof (cases rule: acquire_cas_cases)
      case (held t rows)
      show thesis by (rule that(1)) (use held True d2 hold_effect_sorted [of ids] fs in auto)
    next
      case (failed e)
      show thesis by (rule that(2)) (use failed d2 in auto)
    next
      case (unknown t rows)
      show thesis by (rule that(3)) (use unknown True d2 hold_effect_sorted [of ids] fs in auto)
    qed
  qed
qed

text \<open>\<open>ConfirmSeats\<close>: every pair of seat and fence matched a live hold, and is now booked.\<close>

definition confirm_effect ::
    "time \<Rightarrow> int \<Rightarrow> int list \<Rightarrow> int list \<Rightarrow> uuid \<Rightarrow> uuid \<Rightarrow> db \<Rightarrow> db \<Rightarrow> bool" where
  "confirm_effect t ev ids fcs h ordr d d' \<longleftrightarrow>
     count_where (confirmable t ev ids fcs h) (t_seats d) = length ids
   \<and> t_seats d' = update_where (confirmable t ev ids fcs h) (set_booked t ordr) (t_seats d)
   \<and> appends_events d (map (booked_event ev h ordr) (fst (sortSeatsAndFencesTogether ids fcs))) d'"

lemma confirm_effect_audit:
  "confirm_effect t ev ids fcs h ordr d d' \<Longrightarrow> audit_only d' d'' \<Longrightarrow> confirm_effect t ev ids fcs h ordr d d''"
  by (auto simp: confirm_effect_def audit_only_tables intro: appends_events_audit)

lemma confirmable_sorted:
  "length ids = length fcs \<Longrightarrow> sortSeatsAndFencesTogether ids fcs = (a, b) \<Longrightarrow>
   confirmable t ev a b h = confirmable t ev ids fcs h"
  by (rule ext) (simp add: confirmable_def sortTogether_set(1))

lemma ConfirmSeats_cases:
  assumes "ConfirmSeats E ev ids fcs h ordr w = (r, w')"
  obtains (booked) t where "r = Inr ()" "length ids = length fcs"
      "confirm_effect t ev ids fcs h ordr (w_db w) (w_db w')"
    | (failed) e where "r = Inl e" "audit_only (w_db w) (w_db w')"
    | (unknown) t where "r = Inl Unavailable" "\<exists>k. fate_of E k = Ambiguous"
      "confirm_effect t ev ids fcs h ordr (w_db w) (w_db w')"
proof (cases "length ids = length fcs")
  case False
  then show thesis using assms by (auto simp: ConfirmSeats_def intro!: failed)
next
  case lens: True
  obtain a f where s: "sortSeatsAndFencesTogether ids fcs = (a, f)" by (meson surj_pair)
  have la: "length a = length ids" using sortTogether_zip(4) [OF lens s] by simp
  obtain rb w1 where b: "begin_tx E w = (rb, w1)" by (meson surj_pair)
  have d1: "w_db w1 = w_db w" using call_frames(3) [OF b] by simp
  show thesis
  proof (cases rb)
    case (Inl e)
    with assms b d1 lens s show thesis by (auto simp: ConfirmSeats_def intro!: failed)
  next
    case (Inr t)
    have t: "tx_db t = w_db w" using b Inr by (auto elim: begin_tx_cases)
    obtain rs w2 where x: "exec_tx E (q_ConfirmSeats ev a f h ordr) t w1 = (rs, w2)" by (meson surj_pair)
    have d2: "w_db w2 = w_db w" using call_frames(4) [OF x] d1 by simp
    show thesis
    proof (cases rs)
      case (Inl e)
      with assms b \<open>rb = Inr t\<close> x d2 lens s show thesis by (auto simp: ConfirmSeats_def intro!: failed)
    next
      case (Inr p)
      obtain n t2 where p: "p = (n, t2)" by (cases p)
      let ?P = "confirmable (tx_now t) ev ids fcs h"
      have n: "n = count_where ?P (t_seats (w_db w))"
        and t2: "tx_db t2 = (w_db w)\<lparr>t_seats := update_where ?P (set_booked (tx_now t) ordr) (t_seats (w_db w))\<rparr>"
        using x Inr p t confirmable_sorted [OF lens s] by (auto elim!: exec_tx_cases simp: q_ConfirmSeats_def)
      show thesis
      proof (cases "n = length a")
        case False
        then have "r = Inl HoldExpired" and "w' = audit_all E h ev a [] STALE_FENCE_REJECTED w2"
          using assms b \<open>rb = Inr t\<close> x Inr p lens s by (auto simp: ConfirmSeats_def)
        then show thesis using failed audit_all_frame [of w2] d2 by auto
      next
        case len: True
        obtain rp w3 where pa: "publish_all E (map (booked_event ev h ordr) a) t2 w2 = (rp, w3)" by (meson surj_pair)
        have d3: "w_db w3 = w_db w" using publish_all_frame [OF pa] d2 by simp
        show thesis
        proof (cases rp)
          case (Inl e)
          with assms b \<open>rb = Inr t\<close> x \<open>rs = Inr p\<close> p len pa d3 lens s show thesis
            by (auto simp: ConfirmSeats_def intro!: failed)
        next
          case (Inr t3)
          have eff: "confirm_effect (tx_now t) ev ids fcs h ordr (w_db w) (tx_db t3)"
            using publish_all_ok [of E "map (booked_event ev h ordr) a" t2 w2 t3 w3] pa Inr n len la t2 s
            by (auto simp: confirm_effect_def outbox_only_seats)
          obtain rc w4 where c: "commit_tx E t3 w3 = (rc, w4)" by (meson surj_pair)
          have res: "r = rc"
            and w': "w' = (case rc of Inl e \<Rightarrow> w4 | Inr _ \<Rightarrow> audit_all E h ev a [] CONFIRMED w4)"
            using assms b \<open>rb = Inr t\<close> x \<open>rs = Inr p\<close> p len pa Inr c lens s
            by (auto simp: ConfirmSeats_def split: sum.splits)
          from c show thesis
          proof (cases rule: commit_tx_cases)
            case committed
            then have a: "audit_only (tx_db t3) (w_db w')" and r: "r = Inr ()"
              using res w' audit_all_frame [of w4] by auto
            show thesis by (rule booked [OF r lens confirm_effect_audit [OF eff a]])
          next
            case lost
            then show thesis using res w' d3 by (auto intro!: failed)
          next
            case ambiguous
            then have "\<exists>k. fate_of E k = Ambiguous"
              by blast
            then show thesis using ambiguous res w' eff by (auto intro!: unknown)
          qed
        qed
      qed
    qed
  qed
qed

text \<open>
  \<open>ReleaseHold\<close>: the seats still held under the hold become free; when at least one did, a
  \<open>seat.released\<close> event is written for every seat of the request.
\<close>

definition release_effect :: "time \<Rightarrow> int \<Rightarrow> int list \<Rightarrow> uuid \<Rightarrow> db \<Rightarrow> db \<Rightarrow> bool" where
  "release_effect t ev ids h d d' \<longleftrightarrow>
     t_seats d' = update_where (held_as ev ids h) (set_free t) (t_seats d)
   \<and> appends_events d (if count_where (held_as ev ids h) (t_seats d) > 0
                        then map (released_event ev h) (fst (sortDedup ids)) else []) d'"

lemma release_effect_audit:
  "release_effect t ev ids h d d' \<Longrightarrow> audit_only d' d'' \<Longrightarrow> release_effect t ev ids h d d''"
  by (auto simp: release_effect_def audit_only_tables intro: appends_events_audit)

lemma held_as_sorted [simp]: "held_as ev (fst (sortDedup ids)) h = held_as ev ids h"
  by (rule ext) (simp add: held_as_def)

lemma live_as_sorted [simp]: "live_as t ev (fst (sortDedup ids)) h = live_as t ev ids h"
  by (rule ext) (simp add: live_as_def)

lemma ReleaseHold_cases:
  assumes "ReleaseHold E S ev ids h user w = (r, w')"
  obtains (released) t where "r = Inr ()" "release_effect t ev ids h (w_db w) (w_db w')"
    | (failed) e where "r = Inl e" "w_db w' = w_db w"
    | (unknown) t where "r = Inl Unavailable" "\<exists>k. fate_of E k = Ambiguous"
      "release_effect t ev ids h (w_db w) (w_db w')"
proof -
  let ?seats = "fst (sortDedup ids)"
  obtain rb w1 where b: "begin_tx E (releaseRedisBatch E S ev ?seats h w) = (rb, w1)" by (meson surj_pair)
  have d1: "w_db w1 = w_db w" using call_frames(3) [OF b] by simp
  show thesis
  proof (cases rb)
    case (Inl e)
    with assms b d1 show thesis by (auto simp: ReleaseHold_def Let_def intro!: failed)
  next
    case (Inr t)
    have t: "tx_db t = w_db w" using b Inr by (auto elim: begin_tx_cases)
    obtain rs w2 where x: "exec_tx E (q_ReleaseHold ev ?seats h) t w1 = (rs, w2)" by (meson surj_pair)
    have d2: "w_db w2 = w_db w" using call_frames(4) [OF x] d1 by simp
    show thesis
    proof (cases rs)
      case (Inl e)
      with assms b \<open>rb = Inr t\<close> x d2 show thesis by (auto simp: ReleaseHold_def Let_def intro!: failed)
    next
      case (Inr p)
      obtain n t2 where p: "p = (n, t2)" by (cases p)
      have n: "n = count_where (held_as ev ids h) (t_seats (w_db w))"
        and t2: "tx_db t2 = (w_db w)\<lparr>t_seats := update_where (held_as ev ids h) (set_free (tx_now t)) (t_seats (w_db w))\<rparr>"
        using x Inr p t by (auto elim!: exec_tx_cases simp: q_ReleaseHold_def)
      let ?es = "if n > 0 then map (released_event ev h) ?seats else []"
      obtain rp w3 where pa: "publish_all E ?es t2 w2 = (rp, w3)" by (meson surj_pair)
      have pub: "(if n > 0 then publish_all E (map (released_event ev h) ?seats) t2 w2 else (Inr t2, w2)) = (rp, w3)"
        using pa by (auto split: if_splits)
      have d3: "w_db w3 = w_db w" using publish_all_frame [OF pa] d2 by simp
      show thesis
      proof (cases rp)
        case (Inl e)
        with assms b \<open>rb = Inr t\<close> x \<open>rs = Inr p\<close> p pub d3 show thesis
          by (auto simp: ReleaseHold_def Let_def intro!: failed)
      next
        case (Inr t3)
        have eff: "release_effect (tx_now t) ev ids h (w_db w) (tx_db t3)"
          using publish_all_ok [of E ?es t2 w2 t3 w3] pa Inr n t2
          by (auto simp: release_effect_def outbox_only_seats)
        obtain rc w4 where c: "commit_tx E t3 w3 = (rc, w4)" by (meson surj_pair)
        have res: "r = rc"
          and w': "w' = (case rc of Inl e \<Rightarrow> w4 | Inr _ \<Rightarrow> audit_all E h ev ?seats user RELEASED w4)"
          using assms b \<open>rb = Inr t\<close> x \<open>rs = Inr p\<close> p pub Inr c
          by (auto simp: ReleaseHold_def Let_def split: sum.splits)
        from c show thesis
        proof (cases rule: commit_tx_cases)
          case committed
          then have a: "audit_only (tx_db t3) (w_db w')" and r: "r = Inr ()"
            using res w' audit_all_frame [of w4] by auto
          show thesis by (rule released [OF r release_effect_audit [OF eff a]])
        next
          case lost
          then show thesis using res w' d3 by (auto intro!: failed)
        next
          case ambiguous
          then have "\<exists>k. fate_of E k = Ambiguous" by blast
          then show thesis using ambiguous res w' eff by (auto intro!: unknown)
        qed
      qed
    qed
  qed
qed

text \<open>\<open>ExtendHold\<close> is one statement: its effect stays even when it reports \<open>HoldExpired\<close>.\<close>

lemma ExtendHold_cases:
  assumes "ExtendHold E ev ids h dur w = (r, w')"
  obtains (run) "r = (if count_where (live_as (now E w) ev ids h) (t_seats (w_db w)) < length (fst (sortDedup ids))
                      then Inl HoldExpired
                      else Inr (count_where (live_as (now E w) ev ids h) (t_seats (w_db w))))"
      "t_seats (w_db w') = update_where (live_as (now E w) ev ids h) (set_extended (now E w) (dur_seconds dur)) (t_seats (w_db w))"
      "w' = (tick w)\<lparr>w_db := (w_db w)\<lparr>t_seats := t_seats (w_db w')\<rparr>\<rparr>"
    | (lost) "r = Inl Unavailable" "w' = tick w"
    | (ambiguous) "r = Inl Unavailable" "\<exists>k. fate_of E k = Ambiguous"
      "t_seats (w_db w') = update_where (live_as (now E w) ev ids h) (set_extended (now E w) (dur_seconds dur)) (t_seats (w_db w))"
      "w' = (tick w)\<lparr>w_db := (w_db w)\<lparr>t_seats := t_seats (w_db w')\<rparr>\<rparr>"
proof -
  obtain rx wx where x: "exec E (q_ExtendHold ev (fst (sortDedup ids)) h (dur_seconds dur)) w = (rx, wx)"
    by (meson surj_pair)
  have w': "w' = wx"
    and r: "r = (case rx of Inl e \<Rightarrow> Inl e | Inr n \<Rightarrow> if n < length (fst (sortDedup ids)) then Inl HoldExpired else Inr n)"
    using assms x by (auto simp: ExtendHold_def Let_def split: sum.splits if_splits)
  from x show thesis
  proof (cases rule: exec_cases)
    case (run d)
    show thesis
      by (rule that(1)) (use run r w' in \<open>auto simp: q_ExtendHold_def\<close>)
  next
    case lost
    show thesis by (rule that(2)) (use lost r w' in auto)
  next
    case (ambiguous r' d)
    show thesis by (rule that(3)) (use ambiguous r w' in \<open>auto simp: q_ExtendHold_def\<close>)
  qed
qed

subsection \<open>Every operation is a seat writer\<close>

lemma hold_effect_evolves:
  "hold_effect t ev ids h u ttl rows d d' \<Longrightarrow> seats_evolve (t_seats d) (t_seats d')"
  by (auto simp: hold_effect_def intro: seats_evolve_update seat_step.hold)

lemma confirm_effect_evolves:
  "confirm_effect t ev ids fcs h b d d' \<Longrightarrow> seats_evolve (t_seats d) (t_seats d')"
  by (auto simp: confirm_effect_def intro: seats_evolve_update seat_step.book)

lemma release_effect_evolves:
  "release_effect t ev ids h d d' \<Longrightarrow> seats_evolve (t_seats d) (t_seats d')"
  by (auto simp: release_effect_def intro: seats_evolve_update seat_step.free)

lemma audit_only_evolves: "audit_only d d' \<Longrightarrow> seats_evolve (t_seats d) (t_seats d')"
  by (simp add: audit_only_tables)

lemma AcquireHold_evolves:
  "AcquireHold E S ev ids user w = (r, w') \<Longrightarrow> seats_evolve (t_seats (w_db w)) (t_seats (w_db w'))"
  by (erule AcquireHold_cases) (blast intro: hold_effect_evolves audit_only_evolves)+

lemma ConfirmSeats_evolves:
  "ConfirmSeats E ev ids fcs h b w = (r, w') \<Longrightarrow> seats_evolve (t_seats (w_db w)) (t_seats (w_db w'))"
  by (erule ConfirmSeats_cases) (blast intro: confirm_effect_evolves audit_only_evolves)+

lemma ReleaseHold_evolves:
  "ReleaseHold E S ev ids h user w = (r, w') \<Longrightarrow> seats_evolve (t_seats (w_db w)) (t_seats (w_db w'))"
  by (erule ReleaseHold_cases) (auto intro: release_effect_evolves)

lemma ExtendHold_evolves:
  "ExtendHold E ev ids h dur w = (r, w') \<Longrightarrow> seats_evolve (t_seats (w_db w)) (t_seats (w_db w'))"
  by (erule ExtendHold_cases) (auto intro!: seats_evolve_update intro: seat_step.extend)

lemma try_runs_evolves:
  "try_runs E S ev rs user w = (r, w') \<Longrightarrow> seats_evolve (t_seats (w_db w)) (t_seats (w_db w'))"
proof (induction rs arbitrary: w)
  case Nil
  then show ?case by simp
next
  case (Cons x rs)
  obtain ra wa where a: "AcquireHold E S ev x user w = (ra, wa)" by (meson surj_pair)
  show ?case
    using Cons AcquireHold_evolves [OF a]
    by (auto simp: a split: sum.splits if_splits intro: seats_evolve_trans)
qed

lemma BestAvailable_evolves:
  assumes "BestAvailable E S ev q maxp user w = (r, w')"
  shows "seats_evolve (t_seats (w_db w)) (t_seats (w_db w'))"
proof -
  obtain rx wx where x: "exec E (q_ListAvailableForBestAvailable ev maxp) w = (rx, wx)" by (meson surj_pair)
  have "seats_evolve (t_seats (w_db w)) (t_seats (w_db wx))"
    by (rule exec_evolves [OF _ x]) simp
  then show ?thesis
    using assms x by (auto simp: BestAvailable_def Let_def split: if_splits sum.splits
        dest!: try_runs_evolves intro: seats_evolve_trans)
qed

interpretation acquire: seat_writer "AcquireHold E S ev ids user" for E S ev ids user
  by unfold_locales (rule AcquireHold_evolves)

interpretation release: seat_writer "ReleaseHold E S ev ids h user" for E S ev ids h user
  by unfold_locales (rule ReleaseHold_evolves)

interpretation extendh: seat_writer "ExtendHold E ev ids h dur" for E ev ids h dur
  by unfold_locales (rule ExtendHold_evolves)

interpretation confirm: seat_writer "ConfirmSeats E ev ids fcs h b" for E ev ids fcs h b
  by unfold_locales (rule ConfirmSeats_evolves)

interpretation best_available: seat_writer "BestAvailable E S ev q maxp user" for E S ev q maxp user
  by unfold_locales (rule BestAvailable_evolves)

end
