(* ===== verification/Samples.thy ===== *)
theory Samples
  imports InventoryProofs
begin

section \<open>Concrete instances\<close>

text \<open>
  A small event used by the witnesses: one row of three seats at 50.00, all free and sellable, an
  environment in which every call succeeds and the clock advances one second per call, and a
  lock that grants everything.
\<close>

definition sample_env :: env where
  "sample_env = \<lparr>fate_of = (\<lambda>_. Done), clock_at = (\<lambda>k. int k * 1000000), uuid_at = (\<lambda>k. 100 + k),
     uuid_text = show_nat, error_text = (\<lambda>e. ''error''), sha256_hex = (\<lambda>s. s)\<rparr>"

definition sample_seat :: "int \<Rightarrow> event_seat" where
  "sample_seat i =
     \<lparr>es_event = 1, es_seat = i, es_ordinal = i - 11, es_status = 0, es_sellable = True, es_hold = None,
      es_held_by = None, es_expires = None, es_booking = None, es_price = 5000, es_hold_price = None,
      es_version = 0, es_fence = 0, es_updated = 0\<rparr>"

definition empty_db :: db where
  "empty_db =
     \<lparr>t_seats = [], t_audit = [], t_outbox = [], t_outbox_seq = 1, t_processed = [], t_orders = [],
      t_steps = [], t_payments = [], t_refunds = [], t_tickets = [], t_reminders = [], t_events = [],
      t_sections = [], t_seat_rows = [], t_venue_seats = [], t_ws = [], t_venues = [], t_tiers = [], t_room_audit = []\<rparr>"

definition sample_db :: db where
  "sample_db = empty_db\<lparr>
     t_seats := [sample_seat 11, sample_seat 12, sample_seat 13],
     t_venue_seats := map (\<lambda>i. \<lparr>st_id = i, st_row = 5, st_label = [], st_x = i, st_y = 0\<rparr>) [11, 12, 13]\<rparr>"

definition sample_world :: "(unit, unit) world" where
  "sample_world = \<lparr>w_db = sample_db, w_lock = (), w_pay = (), w_objects = [], w_bus = [], w_calls = 0\<rparr>"

definition granting_lock :: "unit locker" where
  "granting_lock = \<lparr>lk_acquire = (\<lambda>_ _ _ _ _ _ l. (Inr True, l)), lk_release = (\<lambda>_ _ _ _ _ l. (Inr (), l))\<rparr>"

definition sample_service :: "unit service" where
  "sample_service = \<lparr>sv_lock = granting_lock, sv_hold_ttl = 600000000000, sv_max_seats = 6\<rparr>"

text \<open>The world after a hold on seats 11 and 12, and after that hold has been confirmed.\<close>

definition held_world :: "(unit, unit) world" where
  "held_world = snd (AcquireHold sample_env sample_service 1 [12, 11] ''ann'' sample_world)"

definition booked_world :: "(unit, unit) world" where
  "booked_world = snd (ConfirmSeats sample_env 1 [11, 12] [1, 1] 100 77 held_world)"

lemma sample_seats_wf: "seats_wf (t_seats sample_db)"
  by code_simp

lemma held_world_run:
  "AcquireHold sample_env sample_service 1 [12, 11] ''ann'' sample_world =
     (Inr \<lparr>h_id = 100, h_event = 1, h_expires = 603000000,
           h_seats = [\<lparr>hs_seat = 11, hs_ordinal = 0, hs_fence = 1, hs_price = 5000\<rparr>,
                      \<lparr>hs_seat = 12, hs_ordinal = 1, hs_fence = 1, hs_price = 5000\<rparr>]\<rparr>, held_world)"
proof -
  have "fst (AcquireHold sample_env sample_service 1 [12, 11] ''ann'' sample_world) =
     Inr \<lparr>h_id = 100, h_event = 1, h_expires = 603000000,
           h_seats = [\<lparr>hs_seat = 11, hs_ordinal = 0, hs_fence = 1, hs_price = 5000\<rparr>,
                      \<lparr>hs_seat = 12, hs_ordinal = 1, hs_fence = 1, hs_price = 5000\<rparr>]\<rparr>"
    by code_simp
  then show ?thesis by (simp add: held_world_def prod_eq_iff)
qed

text \<open>The value of the held world, computed once; later evaluations start from it.\<close>

lemma held_world_value [code]:
  "held_world =
   \<lparr>w_db =
       \<lparr>t_seats =
          [\<lparr>es_event = 1, es_seat = 11, es_ordinal = 0, es_status = 1,
              es_sellable = True, es_hold = Some 100,
              es_held_by = Some ''ann'', es_expires = Some 603000000,
              es_booking = None, es_price = 5000, es_hold_price = Some 5000,
              es_version = 1, es_fence = 1, es_updated = 3000000\<rparr>,
           \<lparr>es_event = 1, es_seat = 12, es_ordinal = 1, es_status = 1,
              es_sellable = True, es_hold = Some 100,
              es_held_by = Some ''ann'', es_expires = Some 603000000,
              es_booking = None, es_price = 5000, es_hold_price = Some 5000,
              es_version = 1, es_fence = 1, es_updated = 3000000\<rparr>,
           \<lparr>es_event = 1, es_seat = 13, es_ordinal = 2, es_status = 0,
              es_sellable = True, es_hold = None, es_held_by = None,
              es_expires = None, es_booking = None, es_price = 5000,
              es_hold_price = None, es_version = 0, es_fence = 0,
              es_updated = 0\<rparr>],
          t_audit =
            [\<lparr>ha_hold = 100, ha_event = 1, ha_seat = 11, ha_user = ''ann'',
                ha_outcome = ACQUIRED, ha_fence = Some 1,
                ha_expires = Some 603000000\<rparr>,
             \<lparr>ha_hold = 100, ha_event = 1, ha_seat = 12, ha_user = ''ann'',
                ha_outcome = ACQUIRED, ha_fence = Some 1,
                ha_expires = Some 603000000\<rparr>],
          t_outbox =
            [\<lparr>de_id = 105, de_aggregate = ''1:11'', de_type = SeatHeldEvent,
                de_schema = 1,
                de_payload =
                  [(''eventId'', JInt 1), (''seatId'', JInt 11),
                   (''seatOrdinal'', JInt 0), (''holdId'', JUuid 100),
                   (''fenceToken'', JInt 1), (''expiresAt'', JTime 603000000)],
                de_published = None, de_created = 3000000, de_seq = 1\<rparr>,
             \<lparr>de_id = 107, de_aggregate = ''1:12'', de_type = SeatHeldEvent,
                de_schema = 1,
                de_payload =
                  [(''eventId'', JInt 1), (''seatId'', JInt 12),
                   (''seatOrdinal'', JInt 1), (''holdId'', JUuid 100),
                   (''fenceToken'', JInt 1), (''expiresAt'', JTime 603000000)],
                de_published = None, de_created = 3000000, de_seq = 2\<rparr>],
          t_outbox_seq = 3, t_processed = [], t_orders = [], t_steps = [],
          t_payments = [], t_refunds = [], t_tickets = [], t_reminders = [],
          t_events = [], t_sections = [], t_seat_rows = [],
          t_venue_seats =
            [\<lparr>st_id = 11, st_row = 5, st_label = [], st_x = 11, st_y = 0\<rparr>,
             \<lparr>st_id = 12, st_row = 5, st_label = [], st_x = 12, st_y = 0\<rparr>,
             \<lparr>st_id = 13, st_row = 5, st_label = [], st_x = 13, st_y = 0\<rparr>],
          t_ws = [], t_venues = [], t_tiers = [], t_room_audit = []\<rparr>,
       w_lock = (), w_pay = (), w_objects = [], w_bus = [], w_calls = 12\<rparr>"
  by code_simp

lemma booked_world_run: "ConfirmSeats sample_env 1 [11, 12] [1, 1] 100 77 held_world = (Inr (), booked_world)"
proof -
  have "fst (ConfirmSeats sample_env 1 [11, 12] [1, 1] 100 77 held_world) = Inr ()"
    by code_simp
  then show ?thesis by (simp add: booked_world_def prod_eq_iff)
qed

lemma held_seats_wf: "seats_wf (t_seats (w_db held_world))"
  using acquire.keeps_wf [OF held_world_run] sample_seats_wf by (simp add: sample_world_def)

lemma booked_seats_wf: "seats_wf (t_seats (w_db booked_world))"
  using confirm.keeps_wf [OF booked_world_run held_seats_wf] .

end
