(* ===== verification/CatalogQueries.thy ===== *)
theory CatalogQueries
  imports Queries "HOL-Library.List_Lexorder" "HOL-Library.Char_ord"
begin

section \<open>The SQL statements of the catalogue, the waiting room and the connections\<close>

text \<open>
  The rest of \<open>internal/db/queries.sql.go\<close>: venues and their layout, events and price tiers,
  the browse list with its search pattern, the audit of the waiting room. The value of an
  identity column is drawn by the server from a sequence; it is an argument of the statement.
  Text is ordered by its bytes (the \<open>C\<close> collation).
\<close>

subsection \<open>Venues and their layout\<close>

definition q_CreateVenue :: "int \<Rightarrow> string \<Rightarrow> string \<Rightarrow> venue_row stmt" where
  "q_CreateVenue i name city t d =
     (let r = \<lparr>vn_id = i, vn_name = name, vn_city = city, vn_layout = 1, vn_created = t\<rparr>
      in if i \<in> vn_id ` set (t_venues d) then (Inl (ConstraintViolation ''venues_pkey''), d)
         else (Inr r, d\<lparr>t_venues := t_venues d @ [r]\<rparr>))"

definition q_GetVenue :: "int \<Rightarrow> venue_row stmt" where
  "q_GetVenue i t d =
     (case filter (\<lambda>r. vn_id r = i) (t_venues d) of [] \<Rightarrow> Inl NoRows | r # _ \<Rightarrow> Inr r, d)"

definition q_CreateSection :: "int \<Rightarrow> int \<Rightarrow> string \<Rightarrow> string \<Rightarrow> int \<Rightarrow> bool \<Rightarrow> section_row stmt" where
  "q_CreateSection i venue name tier ord shut t d =
     (let r = \<lparr>sec_id = i, sec_venue = venue, sec_name = name, sec_tier = tier, sec_order = ord, sec_closed = shut\<rparr>
      in if i \<in> sec_id ` set (t_sections d) then (Inl (ConstraintViolation ''sections_pkey''), d)
         else if venue \<notin> vn_id ` set (t_venues d) then (Inl (ConstraintViolation ''sections_venue_id_fkey''), d)
         else (Inr r, d\<lparr>t_sections := t_sections d @ [r]\<rparr>))"

definition q_CreateSeatRow :: "int \<Rightarrow> int \<Rightarrow> string \<Rightarrow> int \<Rightarrow> seat_row stmt" where
  "q_CreateSeatRow i sec label ord t d =
     (let r = \<lparr>sr_id = i, sr_section = sec, sr_label = label, sr_order = ord\<rparr>
      in if i \<in> sr_id ` set (t_seat_rows d) then (Inl (ConstraintViolation ''seat_rows_pkey''), d)
         else if sec \<notin> sec_id ` set (t_sections d) then (Inl (ConstraintViolation ''seat_rows_section_id_fkey''), d)
         else (Inr r, d\<lparr>t_seat_rows := t_seat_rows d @ [r]\<rparr>))"

definition q_CreateSeat :: "int \<Rightarrow> int \<Rightarrow> string \<Rightarrow> int \<Rightarrow> int \<Rightarrow> venue_seat stmt" where
  "q_CreateSeat i row label x y t d =
     (let r = \<lparr>st_id = i, st_row = row, st_label = label, st_x = x, st_y = y\<rparr>
      in if i \<in> st_id ` set (t_venue_seats d) then (Inl (ConstraintViolation ''seats_pkey''), d)
         else if row \<notin> sr_id ` set (t_seat_rows d) then (Inl (ConstraintViolation ''seats_row_id_fkey''), d)
         else if \<exists>s \<in> set (t_venue_seats d). st_row s = row \<and> st_label s = label
         then (Inl (ConstraintViolation ''seats_row_id_seat_label_key''), d)
         else (Inr r, d\<lparr>t_venue_seats := t_venue_seats d @ [r]\<rparr>))"

record ordered_seat =
  os_section :: section_row
  os_row :: seat_row
  os_seat :: venue_seat

text \<open>Three joined tables; the nested stable sorts are \<open>ORDER BY\<close> with three keys.\<close>

definition q_ListVenueSeatsOrdered :: "int \<Rightarrow> ordered_seat list stmt" where
  "q_ListVenueSeatsOrdered venue t d =
     (Inr (sort_key (\<lambda>o'. sec_order (os_section o'))
       (sort_key (\<lambda>o'. sr_order (os_row o'))
         (sort_key (\<lambda>o'. st_label (os_seat o'))
           (concat (map (\<lambda>s. concat (map (\<lambda>r. map (\<lambda>x. \<lparr>os_section = s, os_row = r, os_seat = x\<rparr>)
                (filter (\<lambda>x. st_row x = sr_id r) (t_venue_seats d)))
              (filter (\<lambda>r. sr_section r = sec_id s) (t_seat_rows d))))
            (filter (\<lambda>s. sec_venue s = venue) (t_sections d))))))), d)"

text \<open>The event seats that lie in a section.\<close>

definition section_seats :: "db \<Rightarrow> int \<Rightarrow> int \<Rightarrow> event_seat list" where
  "section_seats d ev sec =
     filter (\<lambda>r. es_event r = ev \<and>
       (\<exists>x \<in> set (t_venue_seats d). st_id x = es_seat r \<and>
          (\<exists>w \<in> set (t_seat_rows d). sr_id w = st_row x \<and> sr_section w = sec))) (t_seats d)"

definition q_ListClosedSectionsForEvent :: "int \<Rightarrow> int list stmt" where
  "q_ListClosedSectionsForEvent ev t d =
     (Inr (map sec_id (sort_key sec_order
       (filter (\<lambda>s. section_seats d ev (sec_id s) \<noteq> []
                  \<and> list_all (\<lambda>r. \<not> es_sellable r) (section_seats d ev (sec_id s))) (t_sections d)))), d)"

subsection \<open>Events and price tiers\<close>

definition q_CreateEvent ::
    "int \<Rightarrow> int \<Rightarrow> string \<Rightarrow> string \<Rightarrow> time \<Rightarrow> time \<Rightarrow> string \<Rightarrow> int \<Rightarrow> event_row stmt" where
  "q_CreateEvent i venue artist title starts onsale region layout t d =
     (let r = \<lparr>ev_id = i, ev_venue = venue, ev_artist = artist, ev_title = title, ev_starts = starts,
               ev_onsale = onsale, ev_region = region, ev_status = ''DRAFT'', ev_layout = layout, ev_created = t\<rparr>
      in if i \<in> ev_id ` set (t_events d) then (Inl (ConstraintViolation ''events_pkey''), d)
         else if venue \<notin> vn_id ` set (t_venues d) then (Inl (ConstraintViolation ''events_venue_id_fkey''), d)
         else (Inr r, d\<lparr>t_events := t_events d @ [r]\<rparr>))"

definition q_CreateEventPriceTier :: "int \<Rightarrow> string \<Rightarrow> int \<Rightarrow> unit stmt" where
  "q_CreateEventPriceTier ev tier price t d =
     (if ev \<notin> ev_id ` set (t_events d) then (Inl (ConstraintViolation ''event_price_tiers_event_id_fkey''), d)
      else if \<exists>r \<in> set (t_tiers d). pt_event r = ev \<and> pt_tier r = tier
      then (Inl (ConstraintViolation ''event_price_tiers_pkey''), d)
      else (Inr (), d\<lparr>t_tiers := t_tiers d @ [\<lparr>pt_event = ev, pt_tier = tier, pt_price = price\<rparr>]\<rparr>))"

definition q_ListEventPriceTiers :: "int \<Rightarrow> price_tier list stmt" where
  "q_ListEventPriceTiers ev t d = (Inr (sort_key pt_tier (filter (\<lambda>r. pt_event r = ev) (t_tiers d))), d)"

text \<open>\<open>min\<close> over no rows is NULL, which does not scan into the \<open>int32\<close> of the result.\<close>

definition q_MinEventPriceCents :: "int \<Rightarrow> int stmt" where
  "q_MinEventPriceCents ev t d =
     (case map pt_price (filter (\<lambda>r. pt_event r = ev) (t_tiers d)) of
        [] \<Rightarrow> Inl (OtherError ''cannot scan NULL into *int32'')
      | p # ps \<Rightarrow> Inr (fold min ps p), d)"

definition q_ListAllEventIDs :: "int list stmt" where
  "q_ListAllEventIDs t d = (Inr (sort (map ev_id (t_events d))), d)"

subsection \<open>The browse list\<close>

text \<open>
  \<open>LIKE\<close>: \<open>%\<close> matches any run, \<open>_\<close> any one character, a backslash takes the next character
  literally. \<open>ILIKE\<close> compares after folding ASCII letters.
\<close>

fun like :: "string \<Rightarrow> string \<Rightarrow> bool" where
  "like [] s \<longleftrightarrow> s = []"
| "like (p # ps) s \<longleftrightarrow>
     (if p = CHR ''%'' then like ps s \<or> (case s of [] \<Rightarrow> False | _ # s' \<Rightarrow> like (p # ps) s')
      else if p = CHR 0x5C then (case ps of [] \<Rightarrow> False | q # qs \<Rightarrow> s \<noteq> [] \<and> hd s = q \<and> like qs (tl s))
      else s \<noteq> [] \<and> (p = CHR ''_'' \<or> hd s = p) \<and> like ps (tl s))"

declare like.simps(2) [simp del]

definition lower_char :: "char \<Rightarrow> char" where
  "lower_char c = (if 65 \<le> (of_char c :: nat) \<and> (of_char c :: nat) \<le> 90 then char_of ((of_char c :: nat) + 32) else c)"

definition lower :: "string \<Rightarrow> string" where "lower = map lower_char"

definition ilike :: "string \<Rightarrow> string \<Rightarrow> bool" where
  "ilike text pat \<longleftrightarrow> like (lower pat) (lower text)"

definition q_ListEvents :: "string \<Rightarrow> int \<Rightarrow> nat \<Rightarrow> event_row list stmt" where
  "q_ListEvents search after' rowlimit t d =
     (Inr (take rowlimit (sort_key ev_id (filter (\<lambda>r.
        (search = [] \<or> ilike (ev_title r) (''%'' @ search @ ''%'') \<or> ilike (ev_artist r) (''%'' @ search @ ''%''))
        \<and> (after' = 0 \<or> after' < ev_id r)) (t_events d)))), d)"

subsection \<open>Saga steps, the waiting room, connections\<close>

definition q_GetSagaStep :: "uuid \<Rightarrow> saga_step_name \<Rightarrow> saga_step stmt" where
  "q_GetSagaStep i s t d =
     (case filter (\<lambda>r. ss_order r = i \<and> ss_step r = s) (t_steps d) of [] \<Rightarrow> Inl NoRows | r # _ \<Rightarrow> Inr r, d)"

definition q_InsertWaitingRoomAudit ::
    "int \<Rightarrow> rat \<Rightarrow> int \<Rightarrow> rat \<Rightarrow> rat \<Rightarrow> rat \<Rightarrow> bool \<Rightarrow> bool \<Rightarrow> bool \<Rightarrow> unit stmt" where
  "q_InsertWaitingRoomAudit ev rate cur p99 util errs rl rp re t d =
     (Inr (), d\<lparr>t_room_audit := t_room_audit d @
        [\<lparr>wr_event = ev, wr_rate = rate, wr_cursor = cur, wr_p99 = p99, wr_pool = util, wr_errors = errs,
          wr_red_latency = rl, wr_red_pool = rp, wr_red_errors = re, wr_created = t\<rparr>]\<rparr>)"

definition q_ListWaitingRoomAudit :: "int \<Rightarrow> room_audit list stmt" where
  "q_ListWaitingRoomAudit ev t d = (Inr (filter (\<lambda>r. wr_event r = ev) (t_room_audit d)), d)"

definition q_UpdateWSConnectionSeq :: "uuid \<Rightarrow> nat \<Rightarrow> unit stmt" where
  "q_UpdateWSConnectionSeq i s t d =
     (Inr (), d\<lparr>t_ws := update_where (\<lambda>r. ws_conn r = i) (\<lambda>r. r\<lparr>ws_seq := s\<rparr>) (t_ws d)\<rparr>)"

subsection \<open>What a search matches\<close>

lemma like_any: "like [CHR ''%''] s"
  by (induction s) (simp_all add: like.simps(2))

lemma like_percent: "like (CHR ''%'' # ps) s \<longleftrightarrow> (\<exists>u v. s = u @ v \<and> like ps v)"
proof (induction s)
  case Nil
  then show ?case by (simp add: like.simps(2))
next
  case (Cons c s)
  have "like (CHR ''%'' # ps) (c # s) \<longleftrightarrow> like ps (c # s) \<or> (\<exists>u v. s = u @ v \<and> like ps v)"
    using Cons by (simp add: like.simps(2))
  also have "\<dots> \<longleftrightarrow> (\<exists>u v. c # s = u @ v \<and> like ps v)"
    by (auto simp: Cons_eq_append_conv) 
  finally show ?case .
qed

definition plain :: "string \<Rightarrow> bool" where
  "plain s \<longleftrightarrow> set s \<inter> {CHR ''%'', CHR ''_'', CHR 0x5C} = {}"

lemma like_plain: "plain p \<Longrightarrow> like (p @ [CHR ''%'']) s \<longleftrightarrow> (\<exists>v. s = p @ v)"
proof (induction p arbitrary: s)
  case Nil
  then show ?case by (simp add: like_any)
next
  case (Cons c p)
  then show ?case by (cases s) (auto simp: plain_def like.simps(2))
qed

lemma like_contains: "plain p \<Longrightarrow> like (''%'' @ p @ ''%'') s \<longleftrightarrow> (\<exists>u v. s = u @ p @ v)"
  by (auto simp: like_percent like_plain)

lemma lower_append [simp]: "lower (a @ b) = lower a @ lower b"
  by (simp add: lower_def)

lemma lower_code: "of_char (lower_char c) = (if 65 \<le> (of_char c :: nat) \<and> (of_char c :: nat) \<le> 90 then of_char c + 32 else (of_char c :: nat))"
  by (simp add: lower_char_def)

lemma lower_wildcard: "c \<in> {CHR ''%'', CHR ''_'', CHR 0x5C} \<longleftrightarrow> lower_char c \<in> {CHR ''%'', CHR ''_'', CHR 0x5C}"
proof -
  have codes: "(37::nat) = of_char (CHR ''%'')" "(95::nat) = of_char (CHR ''_'')" "(92::nat) = of_char (CHR 0x5C)"
    by simp_all
  have mem: "x \<in> {CHR ''%'', CHR ''_'', CHR 0x5C} \<longleftrightarrow> (of_char x :: nat) \<in> {37, 95, 92}" for x
    by (simp only: codes insert_iff empty_iff of_char_eq_iff)
  show ?thesis unfolding mem lower_code by simp
qed

lemma lower_plain: "plain (lower s) = plain s"
proof -
  have "plain s \<longleftrightarrow> (\<forall>c \<in> set s. c \<notin> {CHR ''%'', CHR ''_'', CHR 0x5C})" for s by (auto simp: plain_def)
  then show ?thesis by (simp only: lower_def set_map ball_simps lower_wildcard [symmetric])
qed

text \<open>A search without wildcards lists the events whose title or artist contains it, case aside.\<close>

lemma search_contains:
  assumes "plain search" and "search \<noteq> []" and "q_ListEvents search 0 rowlimit t d = (Inr rows, d')" and "r \<in> set rows"
  shows "\<exists>u v. lower (ev_title r) = u @ lower search @ v \<or> lower (ev_artist r) = u @ lower search @ v"
proof -
  have "r \<in> set (filter (\<lambda>r. (search = [] \<or> ilike (ev_title r) (''%'' @ search @ ''%'') \<or> ilike (ev_artist r) (''%'' @ search @ ''%''))
        \<and> ((0::int) = 0 \<or> 0 < ev_id r)) (t_events d))"
    using assms(3,4) by (auto simp: q_ListEvents_def dest!: in_set_takeD)
  then have "ilike (ev_title r) (''%'' @ search @ ''%'') \<or> ilike (ev_artist r) (''%'' @ search @ ''%'')"
    using assms(2) by simp
  moreover have "lower ''%'' = ''%''" by code_simp
  ultimately show ?thesis using assms(1) by (auto simp: ilike_def like_contains lower_plain simp del: append_Cons)
qed

end
