(* ===== verification/Seatmap.thy ===== *)
theory Seatmap
  imports Prelude
begin

section \<open>internal/seatmap: two bits per seat\<close>

text \<open>
  The packed availability bitset of \<open>internal/seatmap/seatmap.go\<close>: \<open>ByteLen\<close>, \<open>New\<close>, \<open>Get\<close>,
  \<open>Set\<close> and \<open>StateFromDB\<close>. A slice of bytes is a list of 8-bit words; an index out of
  range panics in Go, which is \<open>None\<close> here. \<open>ordinal\<close> is a Go \<open>int\<close>, so \<open>>> 2\<close> and
  \<open>& 3\<close> are the arithmetic shift and the bitwise and of integers. The interface other
  components use is the locale \<open>cell_array\<close>: cells that are read back as last written.
\<close>

unbundle bit_operations_syntax

subsection \<open>States\<close>

type_synonym wire_state = "8 word"

definition StateFree :: wire_state where "StateFree = 0"
definition StateHeld :: wire_state where "StateHeld = 1"
definition StateSold :: wire_state where "StateSold = 2"
definition StateUnavailable :: wire_state where "StateUnavailable = 3"

definition StateFromDB :: "int \<Rightarrow> bool \<Rightarrow> wire_state" where
  "StateFromDB dbStatus sellable =
     (if \<not> sellable then StateUnavailable
      else if dbStatus = 0 then StateFree
      else if dbStatus = 1 \<or> dbStatus = 3 then StateHeld
      else if dbStatus = 2 then StateSold
      else StateUnavailable)"

lemmas state_defs = StateFree_def StateHeld_def StateSold_def StateUnavailable_def

lemma StateFromDB_two_bits [simp]: "StateFromDB n b AND 3 = StateFromDB n b"
  by (simp add: StateFromDB_def state_defs)

subsection \<open>The bitset\<close>

definition ByteLen :: "int \<Rightarrow> int" where
  "ByteLen count = (count + 3) div 4"

definition NewBits :: "int \<Rightarrow> bytes" where
  "NewBits count = replicate (nat (ByteLen count)) 0"

definition byte_of :: "int \<Rightarrow> int" where "byte_of ordinal = drop_bit 2 ordinal"

definition shift_of :: "int \<Rightarrow> nat" where "shift_of ordinal = nat ((ordinal AND 3) * 2)"

definition GetSeat :: "bytes \<Rightarrow> int \<Rightarrow> wire_state option" where
  "GetSeat packed ordinal =
     (let b = byte_of ordinal; shift = shift_of ordinal in
      if 0 \<le> b \<and> b < int (length packed) then Some (drop_bit shift (packed ! nat b) AND 3) else None)"

definition SetSeat :: "bytes \<Rightarrow> int \<Rightarrow> wire_state \<Rightarrow> bytes option" where
  "SetSeat packed ordinal s =
     (let b = byte_of ordinal; shift = shift_of ordinal in
      if 0 \<le> b \<and> b < int (length packed)
      then Some (packed[nat b := (packed ! nat b AND NOT (push_bit shift 3)) OR push_bit shift s])
      else None)"

subsection \<open>Lemmas\<close>

lemma byte_of_div: "byte_of ordinal = ordinal div 4"
  by (simp add: byte_of_def drop_bit_eq_div)

lemma and_three: "(ordinal :: int) AND 3 = ordinal mod 4"
proof -
  have "ordinal AND mask 2 = take_bit 2 ordinal" by (simp only: take_bit_eq_mask)
  then show ?thesis by (simp add: mask_eq_exp_minus_1 take_bit_eq_mod)
qed

lemma shift_of_mod: "shift_of ordinal = 2 * nat (ordinal mod 4)"
  by (simp add: shift_of_def and_three)

lemma shift_of_cases: "shift_of ordinal \<in> {0, 2, 4, 6}"
proof -
  have "ordinal mod 4 \<in> {0, 1, 2, 3}" by (simp, presburger)
  then show ?thesis by (auto simp: shift_of_mod)
qed

lemma in_range: "0 \<le> byte_of ordinal \<and> byte_of ordinal < int n \<longleftrightarrow> 0 \<le> ordinal \<and> ordinal < 4 * int n"
  by (auto simp: byte_of_div)

lemma ByteLen_covers: "0 \<le> count \<Longrightarrow> 0 \<le> ordinal \<Longrightarrow> ordinal < count \<Longrightarrow> byte_of ordinal < ByteLen count"
  by (simp add: ByteLen_def byte_of_div)

lemma three_mask: "(3 :: 8 word) = mask 2"
  by (simp add: mask_eq_exp_minus_1)

lemma two_bits_high: "s AND 3 = s \<Longrightarrow> bit (s :: 8 word) i \<Longrightarrow> i < 2"
  by (metis bit_and_iff bit_mask_iff three_mask)

text \<open>One byte: the field written is read back, the three other fields are not touched.\<close>

lemma field_same:
  assumes "k \<in> {0, 2, 4, 6}" and "s AND 3 = s"
  shows "drop_bit k ((x AND NOT (push_bit k 3)) OR push_bit k s) AND 3 = (s :: 8 word)"
proof (rule bit_word_eqI)
  fix i assume "i < LENGTH(8)"
  then show "bit (drop_bit k ((x AND NOT (push_bit k 3)) OR push_bit k s) AND 3) i = bit s i"
    using assms two_bits_high [OF assms(2), of i]
    by (auto simp: bit_simps three_mask)
qed

lemma field_other:
  assumes "k \<in> {0, 2, 4, 6}" and "l \<in> {0, 2, 4, 6}" and "k \<noteq> l" and "s AND 3 = s"
  shows "drop_bit l ((x AND NOT (push_bit k 3)) OR push_bit k s) AND 3 = drop_bit l (x :: 8 word) AND 3"
proof (rule bit_word_eqI)
  fix i assume "i < LENGTH(8)"
  then show "bit (drop_bit l ((x AND NOT (push_bit k 3)) OR push_bit k s) AND 3) i = bit (drop_bit l x AND 3) i"
    using assms two_bits_high [OF assms(4), of "l + i - k"]
    by (auto simp: bit_simps three_mask)
qed

lemma same_cell: "byte_of i = byte_of j \<Longrightarrow> shift_of i = shift_of j \<Longrightarrow> i = j"
  by (simp add: byte_of_div shift_of_mod) (metis eq_nat_nat_iff mod_div_decomp pos_mod_sign zero_less_numeral)

lemma SetSeat_total: "0 \<le> ordinal \<Longrightarrow> ordinal < 4 * int (length packed) \<Longrightarrow> \<exists>p. SetSeat packed ordinal s = Some p"
  using in_range [of ordinal "length packed"] by (simp add: SetSeat_def Let_def)

lemma SetSeat_length: "SetSeat packed ordinal s = Some p \<Longrightarrow> length p = length packed"
  by (auto simp: SetSeat_def Let_def split: if_splits)

lemma GetSeat_SetSeat:
  assumes "SetSeat packed i s = Some p" and "s AND 3 = s"
  shows "GetSeat p j = (if j = i then Some s else GetSeat packed j)"
proof -
  have r: "0 \<le> byte_of i" "byte_of i < int (length packed)"
    and p: "p = packed[nat (byte_of i) := (packed ! nat (byte_of i) AND NOT (push_bit (shift_of i) 3)) OR push_bit (shift_of i) s]"
    using assms(1) by (auto simp: SetSeat_def Let_def split: if_splits)
  show ?thesis
  proof (cases "byte_of j = byte_of i")
    case False
    then show ?thesis using r p
      by (auto simp: GetSeat_def Let_def nth_list_update eq_nat_nat_iff)
  next
    case True
    show ?thesis
    proof (cases "j = i")
      case True
      then show ?thesis using r p field_same [OF shift_of_cases assms(2)] by (simp add: GetSeat_def Let_def)
    next
      case False
      then have "shift_of i \<noteq> shift_of j" using same_cell \<open>byte_of j = byte_of i\<close> by metis
      then show ?thesis
        using False True r p field_other [OF shift_of_cases shift_of_cases _ assms(2), of i j]
        by (simp add: GetSeat_def Let_def)
    qed
  qed
qed

lemma GetSeat_New: "0 \<le> ordinal \<Longrightarrow> ordinal < count \<Longrightarrow> GetSeat (NewBits count) ordinal = Some StateFree"
  using ByteLen_covers [of count ordinal]
  by (auto simp: GetSeat_def NewBits_def Let_def StateFree_def byte_of_div)

subsection \<open>The interface\<close>

text \<open>
  What the projector needs of the bitset: cells that keep what was last written in them.
  \<open>write_all\<close> is a run of writes that stops at a panic.
\<close>

locale cell_array =
  fixes get :: "'a \<Rightarrow> int \<Rightarrow> 'v option" and put :: "'a \<Rightarrow> int \<Rightarrow> 'v \<Rightarrow> 'a option"
    and valid :: "'v \<Rightarrow> bool" and size_of :: "'a \<Rightarrow> int"
  assumes put_get: "put a i v = Some a' \<Longrightarrow> valid v \<Longrightarrow> get a' j = (if j = i then Some v else get a j)"
    and put_total: "0 \<le> i \<Longrightarrow> i < size_of a \<Longrightarrow> \<exists>a'. put a i v = Some a'"
    and put_size: "put a i v = Some a' \<Longrightarrow> size_of a' = size_of a"
begin

fun write_all :: "(int \<times> 'v) list \<Rightarrow> 'a \<Rightarrow> 'a option" where
  "write_all [] a = Some a"
| "write_all ((i, v) # ws) a = (case put a i v of None \<Rightarrow> None | Some a' \<Rightarrow> write_all ws a')"

lemma write_all_total:
  "\<forall>(i, v) \<in> set ws. 0 \<le> i \<and> i < size_of a \<Longrightarrow> \<exists>a'. write_all ws a = Some a'"
proof (induction ws arbitrary: a)
  case Nil
  then show ?case by simp
next
  case (Cons w ws)
  obtain i v where w: "w = (i, v)" by (cases w)
  with Cons.prems obtain a' where a': "put a i v = Some a'" using put_total by fastforce
  have "\<forall>(i, v) \<in> set ws. 0 \<le> i \<and> i < size_of a'" using Cons.prems put_size [OF a'] by simp
  from Cons.IH [OF this] show ?case by (simp add: w a')
qed

lemma write_all_get:
  "write_all ws a = Some a' \<Longrightarrow> \<forall>(i, v) \<in> set ws. valid v \<Longrightarrow> distinct (map fst ws) \<Longrightarrow>
   get a' j = (case map_of ws j of Some v \<Rightarrow> Some v | None \<Rightarrow> get a j)"
proof (induction ws arbitrary: a)
  case Nil
  then show ?case by simp
next
  case (Cons w ws)
  obtain i v where w: "w = (i, v)" by (cases w)
  obtain a1 where a1: "put a i v = Some a1" "write_all ws a1 = Some a'"
    using Cons.prems(1) by (auto simp: w split: option.splits)
  have "i \<notin> set (map fst ws)" using Cons.prems(3) by (simp add: w)
  then have "map_of ws i = None" by (simp add: map_of_eq_None_iff)
  moreover have "get a' j = (case map_of ws j of Some v \<Rightarrow> Some v | None \<Rightarrow> get a1 j)"
    using Cons.IH [OF a1(2)] Cons.prems(2,3) by (simp add: w)
  moreover have "get a1 j = (if j = i then Some v else get a j)"
    using put_get [OF a1(1)] Cons.prems(2) by (simp add: w)
  ultimately show ?case by (auto simp: w split: option.splits)
qed

lemma write_all_size: "write_all ws a = Some a' \<Longrightarrow> size_of a' = size_of a"
  by (induction ws arbitrary: a) (auto split: option.splits dest: put_size)

end

interpretation seatmap: cell_array GetSeat SetSeat "\<lambda>s. s AND 3 = s" "\<lambda>p. 4 * int (length p)"
  by unfold_locales (auto simp: GetSeat_SetSeat SetSeat_length intro: SetSeat_total)

subsection \<open>Properties\<close>

text \<open>
  a seat's state written with \<open>Set\<close> is read back by \<open>Get\<close>, every other seat keeps its
  state, the length does not change, and both panic exactly outside the bitset: for a bitset
  of \<open>ByteLen count\<close> bytes no ordinal below \<open>count\<close> panics.
\<close>

lemma seat_bits_read_back:
  assumes "0 \<le> i" and "i < count" and "length packed = nat (ByteLen count)" and "s AND 3 = s"
  shows "\<exists>p. SetSeat packed i s = Some p \<and> length p = length packed \<and> GetSeat p i = Some s
    \<and> (\<forall>j. j \<noteq> i \<longrightarrow> GetSeat p j = GetSeat packed j)
    \<and> (\<forall>j. GetSeat p j = None \<longleftrightarrow> j < 0 \<or> 4 * int (length packed) \<le> j)"
proof -
  have "int (length packed) = (count + 3) div 4" using assms by (simp add: ByteLen_def)
  then have "i < 4 * int (length packed)" using assms(2) by linarith
  then obtain p where p: "SetSeat packed i s = Some p" using SetSeat_total assms(1) by metis
  have "GetSeat p j = None \<longleftrightarrow> j < 0 \<or> 4 * int (length packed) \<le> j" for j
    using in_range [of j "length p"] SetSeat_length [OF p] by (auto simp: GetSeat_def Let_def)
  with p GetSeat_SetSeat [OF p assms(4)] SetSeat_length [OF p] show ?thesis by auto
qed

lemma seat_bits_read_back_example:
  "\<exists>p. SetSeat [27, 200] 6 StateSold = Some p \<and> GetSeat p 6 = Some StateSold \<and> GetSeat p 5 = GetSeat [27, 200] 5"
proof -
  have len: "length [27, 200 :: 8 word] = nat (ByteLen 7)" by (simp add: ByteLen_def)
  have two: "StateSold AND 3 = StateSold" by (simp add: StateSold_def)
  obtain p where "SetSeat [27, 200] 6 StateSold = Some p" "GetSeat p 6 = Some StateSold"
      "\<forall>j. j \<noteq> 6 \<longrightarrow> GetSeat p j = GetSeat [27, 200] j"
    using seat_bits_read_back [OF _ _ len two, of 6] by auto
  then show ?thesis by auto
qed

end
