(* ===== verification/Wsproto.thy ===== *)
theory Wsproto
  imports Prelude
begin

section \<open>internal/wsproto: the binary frames\<close>

text \<open>
  The WebSocket wire format of \<open>internal/wsproto/wsproto.go\<close>: \<open>EncodeSnapshot\<close>,
  \<open>EncodeSparse\<close>, \<open>Decode\<close> and the packing of a change in 32 bits, with the
  \<open>encoding/binary\<close> little-endian reads and writes they use. Integers keep their width.
\<close>

unbundle bit_operations_syntax

subsection \<open>encoding/binary, little endian\<close>

text \<open>\<open>AppendUint16\<close>, \<open>AppendUint32\<close> and \<open>AppendUint64\<close> for n = 2, 4, 8.\<close>

fun le_bytes :: "nat \<Rightarrow> 'a::len word \<Rightarrow> bytes" where
  "le_bytes 0 w = []"
| "le_bytes (Suc n) w = ucast w # le_bytes n (drop_bit 8 w)"

fun le_word :: "bytes \<Rightarrow> 'a::len word" where
  "le_word [] = 0"
| "le_word (b # bs) = ucast b OR push_bit 8 (le_word bs)"

lemma length_le_bytes [simp]: "length (le_bytes n w) = n"
  by (induction n arbitrary: w) simp_all

lemma le_word_le_bytes: "le_word (le_bytes n w) = take_bit (8 * n) w"
proof (induction n arbitrary: w)
  case 0
  then show ?case by simp
next
  case (Suc n)
  show ?case
    by (rule bit_word_eqI) (auto simp: Suc bit_simps)
qed

lemma le_word_bytes [simp]:
  "le_word (le_bytes 2 w) = (w :: 16 word)" "le_word (le_bytes 4 x) = (x :: 32 word)"
  "le_word (le_bytes 8 y) = (y :: 64 word)"
  by (simp_all add: le_word_le_bytes take_bit_word_eq_self)

lemma le_bytes_le_word:
  "8 * length bs \<le> LENGTH('a) \<Longrightarrow> le_bytes (length bs) (le_word bs :: 'a::len word) = bs"
proof (induction bs)
  case Nil
  then show ?case by simp
next
  case (Cons b bs)
  let ?w = "le_word bs :: 'a word"
  have fit: "take_bit (8 * length bs) ?w = ?w"
    using le_word_le_bytes [of "length bs" ?w] Cons by simp
  have high: "bit ?w i \<Longrightarrow> i < 8 * length bs" for i
    using fit by (metis bit_take_bit_iff)
  then have room: "bit ?w i \<Longrightarrow> 8 + i < LENGTH('a)" for i using Cons.prems by fastforce
  have "ucast (ucast b OR push_bit 8 ?w) = b"
    by (rule bit_word_eqI) (use Cons.prems in \<open>auto simp: bit_simps\<close>)
  moreover have "drop_bit 8 (ucast b OR push_bit 8 ?w) = ?w"
    by (rule bit_word_eqI) (use Cons.prems room in \<open>auto simp: bit_simps dest: bit_imp_le_length\<close>)
  ultimately show ?case using Cons by simp
qed

subsection \<open>Frames\<close>

definition OpSnapshot :: "8 word" where "OpSnapshot = 1"
definition OpSparse :: "8 word" where "OpSparse = 2"
definition ProtoVersion :: "8 word" where "ProtoVersion = 1"

record change =
  ch_ordinal :: "32 word"
  ch_state :: "8 word"

definition packChange :: "change \<Rightarrow> 32 word" where
  "packChange c = push_bit 30 (ucast (ch_state c)) OR (ch_ordinal c AND 0x3FFFFFFF)"

definition unpackChange :: "32 word \<Rightarrow> change" where
  "unpackChange v = \<lparr>ch_ordinal = v AND 0x3FFFFFFF, ch_state = ucast (drop_bit 30 v)\<rparr>"

definition EncodeSnapshot :: "16 word \<Rightarrow> 32 word \<Rightarrow> 64 word \<Rightarrow> 32 word \<Rightarrow> bytes \<Rightarrow> bytes" where
  "EncodeSnapshot layoutVersion eventIDHash seq seatCount packed =
     [OpSnapshot, ProtoVersion] @ le_bytes 2 layoutVersion @ le_bytes 4 eventIDHash @ le_bytes 8 seq
     @ le_bytes 4 seatCount @ packed"

definition EncodeSparse :: "64 word \<Rightarrow> change list \<Rightarrow> bytes" where
  "EncodeSparse seq changes =
     [OpSparse, ProtoVersion] @ le_bytes 8 seq @ le_bytes 2 (of_nat (length changes) :: 16 word)
     @ concat (map (\<lambda>c. le_bytes 4 (packChange c)) changes)"

record frame =
  fr_op :: "8 word"
  fr_seq :: "64 word"
  fr_changes :: "change list"
  fr_layoutVersion :: "16 word"
  fr_eventIDHash :: "32 word"
  fr_seatCount :: "32 word"
  fr_packed :: bytes

datatype proto_error = errShort | errVersion | errUnknownOp

text \<open>\<open>b[i:j]\<close>\<close>

definition slice :: "nat \<Rightarrow> nat \<Rightarrow> 'a list \<Rightarrow> 'a list" where
  "slice i j b = take (j - i) (drop i b)"

definition Decode :: "bytes \<Rightarrow> proto_error + frame" where
  "Decode b =
     (if length b < 2 then Inl errShort
      else
        (let op = b ! 0; ver = b ! 1 in
         if ver \<noteq> ProtoVersion then Inl errVersion
         else if op = OpSnapshot then
           (if length b < 2 + 2 + 4 + 8 + 4 then Inl errShort
            else Inr \<lparr>fr_op = op, fr_seq = le_word (slice 8 16 b), fr_changes = [],
                      fr_layoutVersion = le_word (slice 2 4 b), fr_eventIDHash = le_word (slice 4 8 b),
                      fr_seatCount = le_word (slice 16 20 b), fr_packed = drop 20 b\<rparr>)
         else if op = OpSparse then
           (if length b < 2 + 8 + 2 then Inl errShort
            else
              (let count = unat (le_word (slice 10 12 b) :: 16 word) in
               if length b < 12 + 4 * count then Inl errShort
               else Inr \<lparr>fr_op = op, fr_seq = le_word (slice 2 10 b),
                         fr_changes = map (\<lambda>i. unpackChange (le_word (slice (12 + 4 * i) (12 + 4 * i + 4) b))) [0..<count],
                         fr_layoutVersion = 0, fr_eventIDHash = 0, fr_seatCount = 0, fr_packed = []\<rparr>))
         else Inl errUnknownOp))"

subsection \<open>Lemmas\<close>

lemma ones30: "(0x3FFFFFFF :: 32 word) = mask 30"
  by (simp add: mask_eq_exp_minus_1)

definition wire_change :: "change \<Rightarrow> bool" where
  "wire_change c \<longleftrightarrow> ch_ordinal c AND 0x3FFFFFFF = ch_ordinal c \<and> ch_state c AND 3 = ch_state c"

lemma state_high: "(s :: 8 word) AND 3 = s \<Longrightarrow> bit s i \<Longrightarrow> i < 2"
proof -
  have m: "(3 :: 8 word) = mask 2" by (simp add: mask_eq_exp_minus_1)
  show "s AND 3 = s \<Longrightarrow> bit s i \<Longrightarrow> i < 2" unfolding m by (metis bit_and_iff bit_mask_iff)
qed

lemma unpack_pack: "wire_change c \<Longrightarrow> unpackChange (packChange c) = c"
proof -
  assume c: "wire_change c"
  then have st: "\<And>i. bit (ch_state c) i \<Longrightarrow> i < 2" and od: "ch_ordinal c AND 0x3FFFFFFF = ch_ordinal c"
    using state_high by (auto simp: wire_change_def)
  have "packChange c AND 0x3FFFFFFF = ch_ordinal c"
  proof -
    have "packChange c AND 0x3FFFFFFF = ch_ordinal c AND 0x3FFFFFFF"
      by (rule bit_word_eqI) (auto simp: packChange_def ones30 bit_simps)
    then show ?thesis using od by simp
  qed
  moreover have "ucast (drop_bit 30 (packChange c)) = ch_state c"
    by (rule bit_word_eqI) (use st in \<open>auto simp: packChange_def ones30 bit_simps\<close>)
  ultimately show ?thesis by (simp add: unpackChange_def)
qed

lemma pack_unpack: "packChange (unpackChange v) = v"
  by (rule bit_word_eqI) (auto simp: packChange_def unpackChange_def ones30 bit_simps dest: bit_imp_le_length)

lemma slice_append: "length a = i \<Longrightarrow> length b = j - i \<Longrightarrow> slice i j (a @ b @ c) = b"
  by (simp add: slice_def)

lemma nth_chunk:
  assumes "\<forall>x \<in> set xs. length (f x) = 4" and "i < length xs"
  shows "take 4 (drop (4 * i) (concat (map f xs) @ ys)) = f (xs ! i)"
  using assms
proof (induction xs arbitrary: i)
  case Nil
  then show ?case by simp
next
  case (Cons x xs)
  show ?case
  proof (cases i)
    case 0
    with Cons.prems show ?thesis by simp
  next
    case (Suc k)
    with Cons.prems Cons.IH [of k] show ?thesis by simp
  qed
qed

lemma concat_chunks:
  "length b = 4 * n \<Longrightarrow> concat (map (\<lambda>i. take 4 (drop (4 * i) b)) [0..<n]) = b"
proof (induction n arbitrary: b)
  case 0
  then show ?case by simp
next
  case (Suc n)
  have "map (\<lambda>i. take 4 (drop (4 * i) b)) [0..<Suc n]
      = take 4 b # map (\<lambda>i. take 4 (drop (4 * i) (drop 4 b))) [0..<n]"
    by (subst upt_conv_Cons, simp) (simp add: map_Suc_upt [symmetric] comp_def add.commute del: upt_Suc map_Suc_upt)
  then show ?case using Suc.IH [of "drop 4 b"] Suc.prems by simp
qed

subsection \<open>Decoding what was encoded, encoding what was decoded\<close>

definition snapshot_frame :: "16 word \<Rightarrow> 32 word \<Rightarrow> 64 word \<Rightarrow> 32 word \<Rightarrow> bytes \<Rightarrow> frame" where
  "snapshot_frame lv h seq n packed =
     \<lparr>fr_op = OpSnapshot, fr_seq = seq, fr_changes = [], fr_layoutVersion = lv, fr_eventIDHash = h,
      fr_seatCount = n, fr_packed = packed\<rparr>"

definition sparse_frame :: "64 word \<Rightarrow> change list \<Rightarrow> frame" where
  "sparse_frame seq cs =
     \<lparr>fr_op = OpSparse, fr_seq = seq, fr_changes = cs, fr_layoutVersion = 0, fr_eventIDHash = 0,
      fr_seatCount = 0, fr_packed = []\<rparr>"

lemma Decode_EncodeSnapshot: "Decode (EncodeSnapshot lv h seq n packed) = Inr (snapshot_frame lv h seq n packed)"
proof -
  let ?b = "EncodeSnapshot lv h seq n packed"
  have s1: "slice 2 4 ?b = le_bytes 2 lv" and s2: "slice 4 8 ?b = le_bytes 4 h"
    and s3: "slice 8 16 ?b = le_bytes 8 seq" and s4: "slice 16 20 ?b = le_bytes 4 n"
    and s5: "drop 20 ?b = packed"
    by (simp_all add: EncodeSnapshot_def slice_def drop_Cons')
  have "length ?b \<ge> 20" "?b ! 0 = OpSnapshot" "?b ! 1 = ProtoVersion"
    by (simp_all add: EncodeSnapshot_def)
  then show ?thesis by (simp add: Decode_def s1 s2 s3 s4 s5 snapshot_frame_def Let_def)
qed

lemma Decode_EncodeSparse:
  assumes "length cs < 2 ^ 16" and "list_all wire_change cs"
  shows "Decode (EncodeSparse seq cs) = Inr (sparse_frame seq cs)"
proof -
  let ?b = "EncodeSparse seq cs" and ?f = "\<lambda>c. le_bytes 4 (packChange c)"
  have s1: "slice 2 10 ?b = le_bytes 8 seq" and s2: "slice 10 12 ?b = le_bytes 2 (of_nat (length cs) :: 16 word)"
    and s3: "drop 12 ?b = concat (map ?f cs)"
    by (simp_all add: EncodeSparse_def slice_def drop_Cons')
  have cnt: "unat (of_nat (length cs) :: 16 word) = length cs" using assms(1) by (simp add: unat_of_nat take_bit_nat_eq_self)
  have len: "length ?b = 12 + 4 * length cs"
    by (simp add: EncodeSparse_def length_concat comp_def sum_list_triv)
  have "unpackChange (le_word (slice (12 + 4 * i) (12 + 4 * i + 4) ?b)) = cs ! i" if i: "i < length cs" for i
  proof -
    have "slice (12 + 4 * i) (12 + 4 * i + 4) ?b = take 4 (drop (4 * i) (drop 12 ?b))"
      by (simp add: slice_def add.commute)
    also have "\<dots> = ?f (cs ! i)" using nth_chunk [of cs ?f i "[]"] i by (simp add: s3)
    finally show ?thesis using unpack_pack [of "cs ! i"] assms(2) i by (simp add: list_all_length)
  qed
  then have "map (\<lambda>i. unpackChange (le_word (slice (12 + 4 * i) (12 + 4 * i + 4) ?b))) [0..<length cs] = cs"
    by (intro nth_equalityI) simp_all
  moreover have "?b ! 0 = OpSparse" "?b ! 1 = ProtoVersion" "OpSparse \<noteq> OpSnapshot"
    by (simp_all add: EncodeSparse_def OpSparse_def OpSnapshot_def)
  ultimately show ?thesis using len by (simp add: Decode_def s1 s2 cnt sparse_frame_def Let_def)
qed

lemma two_prefix: "2 \<le> length b \<Longrightarrow> b = [b ! 0, b ! 1] @ drop 2 b"
  by (cases b rule: remdups_adj.cases) (auto simp: numeral_2_eq_2)

lemma cut: "drop i b = slice i (i + n) b @ drop (i + n) b"
  by (simp add: slice_def add.commute) (metis append_take_drop_id drop_drop add.commute)

lemma le_slice:
  "length (slice i j b) = k \<Longrightarrow> 8 * k \<le> LENGTH('a) \<Longrightarrow> le_bytes k (le_word (slice i j b) :: 'a::len word) = slice i j b"
  using le_bytes_le_word by blast

lemma length_slice: "j \<le> length b \<Longrightarrow> length (slice i j b) = j - i"
  by (simp add: slice_def)

lemma Decode_snapshot_exact:
  assumes "20 \<le> length b" and "b ! 0 = OpSnapshot" and "b ! 1 = ProtoVersion"
  shows "EncodeSnapshot (le_word (slice 2 4 b)) (le_word (slice 4 8 b)) (le_word (slice 8 16 b))
           (le_word (slice 16 20 b)) (drop 20 b) = b"
proof -
  have "b = [b ! 0, b ! 1] @ drop 2 b" by (rule two_prefix) (use assms in simp)
  also have "drop 2 b = slice 2 4 b @ slice 4 8 b @ slice 8 16 b @ slice 16 20 b @ drop 20 b"
    using cut [of 2 b 2] cut [of 4 b 4] cut [of 8 b 8] cut [of 16 b 4] by simp
  finally have b: "b = [OpSnapshot, ProtoVersion] @ slice 2 4 b @ slice 4 8 b @ slice 8 16 b @ slice 16 20 b @ drop 20 b"
    using assms(2,3) by simp
  show ?thesis
    using assms(1) by (subst (6) b) (simp add: EncodeSnapshot_def le_slice length_slice)
qed

lemma Decode_sparse_exact:
  fixes b :: bytes
  defines "count \<equiv> unat (le_word (slice 10 12 b) :: 16 word)"
  assumes "12 + 4 * count \<le> length b" and "b ! 0 = OpSparse" and "b ! 1 = ProtoVersion"
  shows "EncodeSparse (le_word (slice 2 10 b))
           (map (\<lambda>i. unpackChange (le_word (slice (12 + 4 * i) (12 + 4 * i + 4) b))) [0..<count]) = take (12 + 4 * count) b"
proof -
  let ?body = "take (4 * count) (drop 12 b)"
  have chunk: "le_bytes 4 (packChange (unpackChange (le_word (slice (12 + 4 * i) (12 + 4 * i + 4) b)))) = take 4 (drop (4 * i) ?body)"
    if i: "i < count" for i
  proof -
    let ?s = "slice (12 + 4 * i) (12 + 4 * i + 4) b"
    have "length ?s = 4" using i assms(2) by (subst length_slice) auto
    then have "le_bytes 4 (le_word ?s :: 32 word) = ?s" by (rule le_slice) simp
    moreover have "?s = take 4 (drop (4 * i) ?body)"
      using i by (simp add: slice_def drop_take add.commute min_def)
    ultimately show ?thesis by (simp only: pack_unpack)
  qed
  have "length ?body = 4 * count" using assms(2) by simp
  then have body: "concat (map (\<lambda>i. take 4 (drop (4 * i) ?body)) [0..<count]) = ?body" by (rule concat_chunks)
  have "take (12 + 4 * count) b = take 12 b @ ?body" by (simp add: take_add)
  also have "take 12 b = [b ! 0, b ! 1] @ slice 2 10 b @ slice 10 12 b"
  proof -
    have "take 12 b = take 12 ([b ! 0, b ! 1] @ slice 2 10 b @ slice 10 12 b @ drop 12 b)"
      using two_prefix [of b] cut [of 2 b 8] cut [of 10 b 2] assms(2) by simp
    then show ?thesis using assms(2) by (simp add: length_slice take_Cons')
  qed
  finally have "take (12 + 4 * count) b = [OpSparse, ProtoVersion] @ slice 2 10 b @ slice 10 12 b @ ?body"
    using assms(3,4) by simp
  moreover have "of_nat (length [0..<count]) = (le_word (slice 10 12 b) :: 16 word)" by (simp add: count_def)
  moreover have "map (\<lambda>i. le_bytes 4 (packChange (unpackChange (le_word (slice (12 + 4 * i) (12 + 4 * i + 4) b))))) [0..<count]
      = map (\<lambda>i. take 4 (drop (4 * i) ?body)) [0..<count]"
    by (rule map_cong [OF refl], rule chunk) simp
  then have "concat (map (\<lambda>c. le_bytes 4 (packChange c))
      (map (\<lambda>i. unpackChange (le_word (slice (12 + 4 * i) (12 + 4 * i + 4) b))) [0..<count])) = ?body"
    using body by (simp only: map_map comp_def)
  moreover have "length (slice 2 10 b) = 8" "length (slice 10 12 b) = 2" using assms(2) by (simp_all add: length_slice)
  ultimately show ?thesis
    by (simp only: EncodeSparse_def length_map le_slice) (simp add: le_slice)
qed

text \<open>
  C29: \<open>Decode\<close> recovers what the encoders wrote: every snapshot, and every sparse frame of
  fewer than 65,536 changes whose ordinals fit 30 bits and whose states fit two.
\<close>

theorem frames_round_trip:
  assumes "length cs < 2 ^ 16" and "list_all wire_change cs"
  shows "Decode (EncodeSnapshot lv h seq n packed) = Inr (snapshot_frame lv h seq n packed)
       \<and> Decode (EncodeSparse seq cs) = Inr (sparse_frame seq cs)"
  using Decode_EncodeSnapshot Decode_EncodeSparse [OF assms] by blast

theorem frames_round_trip_witness:
  "Decode (EncodeSnapshot 1 7 9 4 [27]) = Inr (snapshot_frame 1 7 9 4 [27])
   \<and> Decode (EncodeSparse 9 [\<lparr>ch_ordinal = 300, ch_state = 2\<rparr>]) = Inr (sparse_frame 9 [\<lparr>ch_ordinal = 300, ch_state = 2\<rparr>])"
  by (rule frames_round_trip) (simp_all add: wire_change_def)


end
