(* ===== verification/Projector.thy ===== *)
theory Projector
  imports Samples CatalogQueries Seatmap Wsproto SeatLifecycle "HOL-Library.Sublist"
begin

section \<open>internal/projector: the read model\<close>

text \<open>
  \<open>internal/projector/projector.go\<close>: the packed availability bitset, the sequence counter and the
  capped delta ring of every event, kept in Redis and fed from the outbox. Redis is not part of
  the repository: the commands the code issues are the fields of \<open>store\<close>, and \<open>store_laws\<close>
  states their documented behaviour. The Redis state of the process is the component \<open>w_lock\<close>
  of the world; the cache of seat ordinals is passed along.
\<close>

subsection \<open>The commands\<close>

record 's store =
  rs_get :: "string \<Rightarrow> 's \<Rightarrow> bytes option"
  rs_int :: "string \<Rightarrow> 's \<Rightarrow> nat option"
  rs_setnx :: "string \<Rightarrow> bytes \<Rightarrow> 's \<Rightarrow> bool \<times> 's"
  rs_getrange :: "string \<Rightarrow> nat \<Rightarrow> nat \<Rightarrow> 's \<Rightarrow> bytes"
  rs_setrange :: "string \<Rightarrow> nat \<Rightarrow> bytes \<Rightarrow> 's \<Rightarrow> 's"
  rs_incr :: "string \<Rightarrow> 's \<Rightarrow> nat \<times> 's"
  rs_lrange :: "string \<Rightarrow> 's \<Rightarrow> bytes list"
  rs_lpush :: "string \<Rightarrow> bytes \<Rightarrow> 's \<Rightarrow> 's"
  rs_ltrim :: "string \<Rightarrow> nat \<Rightarrow> 's \<Rightarrow> 's"
  rs_publish :: "string \<Rightarrow> bytes \<Rightarrow> 's \<Rightarrow> 's"

text \<open>
  GET reads a string (as bytes, or parsed as a counter); SETNX sets an absent key; GETRANGE and
  SETRANGE address bytes, SETRANGE padding with zeros; INCR counts from zero; LRANGE 0 -1 is the
  whole list, LPUSH prepends, LTRIM 0 n-1 keeps n entries; PUBLISH stores nothing. A command
  changes the key it names only.
\<close>

definition law_setnx :: "'s store \<Rightarrow> bool" where
  "law_setnx R \<longleftrightarrow> (\<forall>k v s k'.
     if rs_get R k s = None
     then fst (rs_setnx R k v s)
        \<and> rs_get R k' (snd (rs_setnx R k v s)) = (if k' = k then Some v else rs_get R k' s)
        \<and> (k' \<noteq> k \<longrightarrow> rs_int R k' (snd (rs_setnx R k v s)) = rs_int R k' s)
        \<and> rs_lrange R k' (snd (rs_setnx R k v s)) = rs_lrange R k' s
     else rs_setnx R k v s = (False, s))"

definition law_range :: "'s store \<Rightarrow> bool" where
  "law_range R \<longleftrightarrow> (\<forall>k a b s v. rs_get R k s = Some v \<longrightarrow> rs_getrange R k a b s = take (Suc b - a) (drop a v))"

definition law_setrange :: "'s store \<Rightarrow> bool" where
  "law_setrange R \<longleftrightarrow> (\<forall>k i b s k'.
     rs_get R k' (rs_setrange R k i [b] s)
       = (if k' = k then Some (let v = (case rs_get R k s of None \<Rightarrow> [] | Some v \<Rightarrow> v)
                               in (v @ replicate (Suc i - length v) 0)[i := b])
          else rs_get R k' s)
   \<and> (k' \<noteq> k \<longrightarrow> rs_int R k' (rs_setrange R k i [b] s) = rs_int R k' s)
   \<and> rs_lrange R k' (rs_setrange R k i [b] s) = rs_lrange R k' s)"

definition count_of :: "nat option \<Rightarrow> nat" where "count_of c = (case c of None \<Rightarrow> 0 | Some n \<Rightarrow> n)"

definition law_incr :: "'s store \<Rightarrow> bool" where
  "law_incr R \<longleftrightarrow> (\<forall>k s k'.
     fst (rs_incr R k s) = Suc (count_of (rs_int R k s))
   \<and> rs_int R k' (snd (rs_incr R k s)) = (if k' = k then Some (Suc (count_of (rs_int R k s))) else rs_int R k' s)
   \<and> (k' \<noteq> k \<longrightarrow> rs_get R k' (snd (rs_incr R k s)) = rs_get R k' s)
   \<and> rs_lrange R k' (snd (rs_incr R k s)) = rs_lrange R k' s)"

definition same_values :: "'s store \<Rightarrow> 's \<Rightarrow> 's \<Rightarrow> bool" where
  "same_values R s s' \<longleftrightarrow> (\<forall>k. rs_get R k s' = rs_get R k s \<and> rs_int R k s' = rs_int R k s)"

definition law_lists :: "'s store \<Rightarrow> bool" where
  "law_lists R \<longleftrightarrow> (\<forall>k v n s.
     same_values R s (rs_lpush R k v s) \<and> same_values R s (rs_ltrim R k n s) \<and> same_values R s (rs_publish R k v s)
   \<and> (\<forall>k'. rs_lrange R k' (rs_lpush R k v s) = (if k' = k then v # rs_lrange R k s else rs_lrange R k' s)
        \<and> rs_lrange R k' (rs_ltrim R k n s) = (if k' = k then take n (rs_lrange R k s) else rs_lrange R k' s)
        \<and> rs_lrange R k' (rs_publish R k v s) = rs_lrange R k' s))"

definition store_laws :: "'s store \<Rightarrow> bool" where
  "store_laws R \<longleftrightarrow> law_setnx R \<and> law_range R \<and> law_setrange R \<and> law_incr R \<and> law_lists R"

text \<open>One call to the server, with its fate.\<close>

definition rcall :: "env \<Rightarrow> ('s \<Rightarrow> 'a \<times> 's) \<Rightarrow> ('s, 'p) world \<Rightarrow> (error + 'a) \<times> ('s, 'p) world" where
  "rcall E f w =
     (let (x, s) = f (w_lock w) in
      case fate_of E (w_calls w) of
        Done \<Rightarrow> (Inr x, (tick w)\<lparr>w_lock := s\<rparr>)
      | Lost \<Rightarrow> (Inl Unavailable, tick w)
      | Ambiguous \<Rightarrow> (Inl Unavailable, (tick w)\<lparr>w_lock := s\<rparr>))"

definition ConsumerName :: string where "ConsumerName = ''projector''"
definition ringCap :: nat where "ringCap = 200"

definition event_key :: "int \<Rightarrow> string \<Rightarrow> string" where
  "event_key ev name = ''{event:'' @ show_int ev @ ''}:'' @ name"

definition bitsetKey :: "int \<Rightarrow> string" where "bitsetKey ev = event_key ev ''bitset''"
definition seqKey :: "int \<Rightarrow> string" where "seqKey ev = event_key ev ''seq''"
definition ringKey :: "int \<Rightarrow> string" where "ringKey ev = event_key ev ''deltas''"
definition notifyChan :: "int \<Rightarrow> string" where "notifyChan ev = event_key ev ''notify''"

subsection \<open>The ordinal cache\<close>

text \<open>An event's map is the list of its rows; a later row of the same seat would replace an earlier one.\<close>

type_synonym ordinals = "int \<Rightarrow> (int \<times> int) list option"

definition load_ordinals ::
    "env \<Rightarrow> int \<Rightarrow> ordinals \<Rightarrow> ('s, 'p) world \<Rightarrow> (error + (int \<times> int) list) \<times> ordinals \<times> ('s, 'p) world" where
  "load_ordinals E ev c w =
     (case c ev of
        Some m \<Rightarrow> (Inr m, c, w)
      | None \<Rightarrow>
          (case exec E (q_ListSeatOrdinalsByEvent ev) w of
             (Inl e, w') \<Rightarrow> (Inl e, c, w')
           | (Inr rows, w') \<Rightarrow> (Inr rows, c(ev := Some rows), w')))"

definition ordinalOf ::
    "env \<Rightarrow> int \<Rightarrow> int \<Rightarrow> ordinals \<Rightarrow> ('s, 'p) world \<Rightarrow> (error + int) \<times> ordinals \<times> ('s, 'p) world" where
  "ordinalOf E ev seat c w =
     (case load_ordinals E ev c w of
        (Inl e, c', w') \<Rightarrow> (Inl e, c', w')
      | (Inr m, c', w') \<Rightarrow>
          (case map_of (rev m) seat of
             None \<Rightarrow> (Inl (OtherError ''seat not found''), c', w')
           | Some o' \<Rightarrow> (Inr o', c', w')))"

definition SeatCount ::
    "env \<Rightarrow> int \<Rightarrow> ordinals \<Rightarrow> ('s, 'p) world \<Rightarrow> (error + nat) \<times> ordinals \<times> ('s, 'p) world" where
  "SeatCount E ev c w =
     (case load_ordinals E ev c w of
        (Inl e, c', w') \<Rightarrow> (Inl e, c', w')
      | (Inr m, c', w') \<Rightarrow> (Inr (length (remdups (map fst m))), c', w'))"

subsection \<open>EnsureBitset\<close>

fun seed_bits :: "(int \<times> int \<times> bool) list \<Rightarrow> bytes \<Rightarrow> bytes option" where
  "seed_bits [] packed = Some packed"
| "seed_bits ((ord, st, sellable) # rows) packed =
     (case SetSeat packed ord (StateFromDB st sellable) of
        None \<Rightarrow> None
      | Some packed' \<Rightarrow> seed_bits rows packed')"

text \<open>A missing counter reads as 0.\<close>

definition read_seq :: "env \<Rightarrow> 's store \<Rightarrow> int \<Rightarrow> ('s, 'p) world \<Rightarrow> (error + nat) \<times> ('s, 'p) world" where
  "read_seq E R ev w =
     (case rcall E (\<lambda>s. (rs_int R (seqKey ev) s, s)) w of
        (Inl e, w') \<Rightarrow> (Inl e, w')
      | (Inr None, w') \<Rightarrow> (Inr 0, w')
      | (Inr (Some n), w') \<Rightarrow> (Inr n, w'))"

definition with_seq ::
    "env \<Rightarrow> 's store \<Rightarrow> int \<Rightarrow> bytes \<Rightarrow> ('s, 'p) world \<Rightarrow> (error + bytes \<times> nat) \<times> ('s, 'p) world" where
  "with_seq E R ev packed w =
     (case read_seq E R ev w of
        (Inl e, w') \<Rightarrow> (Inl e, w')
      | (Inr n, w') \<Rightarrow> (Inr (packed, n), w'))"

definition get_bits :: "env \<Rightarrow> 's store \<Rightarrow> int \<Rightarrow> ('s, 'p) world \<Rightarrow> (error + bytes option) \<times> ('s, 'p) world" where
  "get_bits E R ev = rcall E (\<lambda>s. (rs_get R (bitsetKey ev) s, s))"

definition EnsureBitset ::
    "env \<Rightarrow> 's store \<Rightarrow> int \<Rightarrow> ('s, 'p) world \<Rightarrow> (error + bytes \<times> nat) \<times> ('s, 'p) world" where
  "EnsureBitset E R ev w =
     (case get_bits E R ev w of
        (Inl e, w1) \<Rightarrow> (Inl e, w1)
      | (Inr (Some packed), w1) \<Rightarrow> with_seq E R ev packed w1
      | (Inr None, w1) \<Rightarrow>
     (case exec E (q_ListEventSeatsForAvailability ev) w1 of
        (Inl e, w2) \<Rightarrow> (Inl e, w2)
      | (Inr rows, w2) \<Rightarrow>
     (case seed_bits rows (NewBits (int (length rows))) of
        None \<Rightarrow> (Inl (OtherError ''index out of range''), w2)
      | Some packed \<Rightarrow>
     (case rcall E (rs_setnx R (bitsetKey ev) packed) w2 of
        (Inl e, w3) \<Rightarrow> (Inl e, w3)
      | (Inr True, w3) \<Rightarrow> with_seq E R ev packed w3
      | (Inr False, w3) \<Rightarrow>
     (case get_bits E R ev w3 of
        (Inl e, w4) \<Rightarrow> (Inl e, w4)
      | (Inr None, w4) \<Rightarrow> (Inl NoRows, w4)
      | (Inr (Some packed'), w4) \<Rightarrow> with_seq E R ev packed' w4)))))"

subsection \<open>apply\<close>

definition ring_entry :: "nat \<Rightarrow> int \<Rightarrow> wire_state \<Rightarrow> bytes" where
  "ring_entry seq ordinal st = EncodeSparse (of_nat seq) [\<lparr>ch_ordinal = word_of_int ordinal, ch_state = st\<rparr>]"

text \<open>The three commands of the pipeline are sent in one request.\<close>

definition push_delta :: "'s store \<Rightarrow> int \<Rightarrow> bytes \<Rightarrow> 's \<Rightarrow> 's" where
  "push_delta R ev delta s =
     rs_publish R (notifyChan ev) delta (rs_ltrim R (ringKey ev) ringCap (rs_lpush R (ringKey ev) delta s))"

definition apply_seat ::
    "env \<Rightarrow> 's store \<Rightarrow> int \<Rightarrow> int \<Rightarrow> wire_state \<Rightarrow> ('s, 'p) world \<Rightarrow> (error + bool) \<times> ('s, 'p) world" where
  "apply_seat E R ev ordinal newState w =
     (case EnsureBitset E R ev w of
        (Inl e, w1) \<Rightarrow> (Inl e, w1)
      | (Inr _, w1) \<Rightarrow>
     (let byteOff = nat (byte_of ordinal); shift = shift_of ordinal in
      case rcall E (\<lambda>s. (rs_getrange R (bitsetKey ev) byteOff byteOff s, s)) w1 of
        (Inl e, w2) \<Rightarrow> (Inl e, w2)
      | (Inr old, w2) \<Rightarrow>
     (let oldByte = (case old of [b] \<Rightarrow> b | _ \<Rightarrow> 0); oldState = drop_bit shift oldByte AND 3 in
      if oldState = newState then (Inr False, w2)
      else
        (let newByte = (oldByte AND NOT (push_bit shift 3)) OR push_bit shift newState in
         case rcall E (\<lambda>s. ((), rs_setrange R (bitsetKey ev) byteOff [newByte] s)) w2 of
           (Inl e, w3) \<Rightarrow> (Inl e, w3)
         | (Inr _, w3) \<Rightarrow>
        (case rcall E (rs_incr R (seqKey ev)) w3 of
           (Inl e, w4) \<Rightarrow> (Inl e, w4)
         | (Inr seq, w4) \<Rightarrow>
        (case rcall E (\<lambda>s. ((), push_delta R ev (ring_entry seq ordinal newState) s)) w4 of
           (Inl e, w5) \<Rightarrow> (Inl e, w5)
         | (Inr _, w5) \<Rightarrow> (Inr True, w5)))))))"

subsection \<open>RunOnce\<close>

fun stateForEventType :: "event_type \<Rightarrow> wire_state option" where
  "stateForEventType SeatHeldEvent = Some StateHeld"
| "stateForEventType SeatReleasedEvent = Some StateFree"
| "stateForEventType SeatBookedEvent = Some StateSold"
| "stateForEventType OrderCreatedEvent = None"

text \<open>
  Unmarshalling the two fields the projector reads: an absent field is 0, a value of another
  JSON type is an error.
\<close>

definition int_field :: "string \<Rightarrow> payload \<Rightarrow> int option" where
  "int_field k p = (case map_of p k of None \<Rightarrow> Some 0 | Some (JInt n) \<Rightarrow> Some n | Some _ \<Rightarrow> None)"

definition domainEventPayload :: "payload \<Rightarrow> (int \<times> int) option" where
  "domainEventPayload p =
     (case (int_field ''eventId'' p, int_field ''seatId'' p) of
        (Some ev, Some seat) \<Rightarrow> Some (ev, seat) | _ \<Rightarrow> None)"

definition markProcessed :: "env \<Rightarrow> uuid \<Rightarrow> ('s, 'p) world \<Rightarrow> ('s, 'p) world" where
  "markProcessed E i w = snd (exec E (q_MarkEventProcessed i ConsumerName) w)"

fun project_events ::
    "env \<Rightarrow> 's store \<Rightarrow> domain_event list \<Rightarrow> nat \<Rightarrow> ordinals \<Rightarrow> ('s, 'p) world
     \<Rightarrow> (error + nat) \<times> ordinals \<times> ('s, 'p) world" where
  "project_events E R [] applied c w = (Inr applied, c, w)"
| "project_events E R (evt # es) applied c w =
     (case stateForEventType (de_type evt) of
        None \<Rightarrow> project_events E R es applied c (markProcessed E (de_id evt) w)
      | Some newState \<Rightarrow>
     (case domainEventPayload (de_payload evt) of
        None \<Rightarrow> project_events E R es applied c (markProcessed E (de_id evt) w)
      | Some (ev, seat) \<Rightarrow>
     (case ordinalOf E ev seat c w of
        (Inl _, c1, w1) \<Rightarrow> project_events E R es applied c1 (markProcessed E (de_id evt) w1)
      | (Inr ordinal, c1, w1) \<Rightarrow>
     (case apply_seat E R ev ordinal newState w1 of
        (Inl e, w2) \<Rightarrow> (Inl e, c1, w2)
      | (Inr changed, w2) \<Rightarrow>
          project_events E R es (if changed then applied + 1 else applied) c1 (markProcessed E (de_id evt) w2)))))"

definition projector_RunOnce ::
    "env \<Rightarrow> 's store \<Rightarrow> nat \<Rightarrow> ordinals \<Rightarrow> ('s, 'p) world \<Rightarrow> (error + nat \<times> nat) \<times> ordinals \<times> ('s, 'p) world" where
  "projector_RunOnce E R batch c w =
     (case exec E (q_ListUnprocessedDomainEvents ConsumerName batch) w of
        (Inl e, w1) \<Rightarrow> (Inl e, c, w1)
      | (Inr es, w1) \<Rightarrow>
          (case project_events E R es 0 c w1 of
             (Inl e, c', w2) \<Rightarrow> (Inl e, c', w2)
           | (Inr applied, c', w2) \<Rightarrow> (Inr (length es, applied), c', w2)))"

subsection \<open>GapFill\<close>

fun decode_ring :: "bytes list \<Rightarrow> (proto_error + frame list)" where
  "decode_ring [] = Inr []"
| "decode_ring (b # bs) =
     (case Decode b of
        Inl e \<Rightarrow> Inl e
      | Inr f \<Rightarrow> (case decode_ring bs of Inl e \<Rightarrow> Inl e | Inr fs \<Rightarrow> Inr (f # fs)))"

text \<open>The map \<open>byOrdinal\<close> and the slice \<open>order\<close> together: ordinals in the order first seen.\<close>

definition record_change :: "change \<Rightarrow> (32 word \<times> 8 word) list \<Rightarrow> (32 word \<times> 8 word) list" where
  "record_change ch acc =
     (if ch_ordinal ch \<in> fst ` set acc
      then map (\<lambda>(o', s). if o' = ch_ordinal ch then (o', ch_state ch) else (o', s)) acc
      else acc @ [(ch_ordinal ch, ch_state ch)])"

definition coalesce :: "frame list \<Rightarrow> change list" where
  "coalesce wanted =
     map (\<lambda>(o', s). \<lparr>ch_ordinal = o', ch_state = s\<rparr>)
       (fold record_change (concat (map fr_changes (rev wanted))) [])"

definition gap_frame :: "nat \<Rightarrow> nat \<Rightarrow> frame list \<Rightarrow> bytes option \<times> bool" where
  "gap_frame current since frames =
     (let wanted = filter (\<lambda>f. of_nat since < fr_seq f) frames in
      if wanted = [] then (None, False)
      else if fr_seq (last wanted) \<noteq> of_nat since + 1 then (None, False)
      else (Some (EncodeSparse (of_nat current) (coalesce wanted)), True))"

definition GapFill ::
    "env \<Rightarrow> 's store \<Rightarrow> int \<Rightarrow> nat \<Rightarrow> ('s, 'p) world \<Rightarrow> (error + bytes option \<times> bool) \<times> ('s, 'p) world" where
  "GapFill E R ev since w =
     (case read_seq E R ev w of
        (Inl e, w1) \<Rightarrow> (Inl e, w1)
      | (Inr current, w1) \<Rightarrow>
     if since \<ge> current then (Inr (None, True), w1)
     else
       (case rcall E (\<lambda>s. (rs_lrange R (ringKey ev) s, s)) w1 of
          (Inl e, w2) \<Rightarrow> (Inl e, w2)
        | (Inr raw, w2) \<Rightarrow>
            (case decode_ring raw of
               Inl e \<Rightarrow> (Inl (OtherError ''decode ring entry''), w2)
             | Inr frames \<Rightarrow> (Inr (gap_frame current since frames), w2))))"

subsection \<open>Coalescing\<close>

definition apply_changes :: "change list \<Rightarrow> (32 word \<Rightarrow> 8 word) \<Rightarrow> 32 word \<Rightarrow> 8 word" where
  "apply_changes cs f = fold (\<lambda>c f. f(ch_ordinal c := ch_state c)) cs f"

lemma record_change_map:
  "distinct (map fst acc) \<Longrightarrow>
   distinct (map fst (record_change c acc)) \<and> map_of (record_change c acc) = (map_of acc)(ch_ordinal c \<mapsto> ch_state c)"
proof -
  assume d: "distinct (map fst acc)"
  let ?k = "ch_ordinal c" and ?v = "ch_state c"
  have keys: "map fst (map (\<lambda>(o', s). if o' = ?k then (o', ?v) else (o', s)) xs) = map fst xs" for xs :: "(32 word \<times> 8 word) list"
    by (induction xs) auto
  have new: "map_of (xs @ [(?k, ?v)]) = (map_of xs)(?k \<mapsto> ?v)" if "?k \<notin> fst ` set xs" for xs
    using that by (induction xs) (auto simp: fun_eq_iff)
  have upd: "map_of (map (\<lambda>(o', s). if o' = ?k then (o', ?v) else (o', s)) xs) = (map_of xs)(?k \<mapsto> ?v)"
    if "?k \<in> fst ` set xs" "distinct (map fst xs)" for xs
    using that
  proof (induction xs)
    case (Cons x xs)
    obtain a b where x: "x = (a, b)" by (cases x)
    show ?case
    proof (cases "a = ?k")
      case True
      then have "map (\<lambda>(o', s). if o' = ?k then (o', ?v) else (o', s)) xs = xs"
        using Cons.prems(2) x by (intro map_idI) (auto simp: image_iff)
      with True show ?thesis by (intro ext) (simp add: x)
    next
      case False
      with Cons x show ?thesis by (auto simp: fun_eq_iff)
    qed
  qed simp
  show ?thesis
  proof (cases "?k \<in> fst ` set acc")
    case True
    then have "record_change c acc = map (\<lambda>(o', s). if o' = ?k then (o', ?v) else (o', s)) acc"
      by (simp add: record_change_def)
    then show ?thesis by (simp only: keys upd [OF True d] d simp_thms)
  next
    case False
    then show ?thesis using new [OF False] d unfolding record_change_def by simp
  qed
qed

lemma apply_recorded:
  "distinct (map fst acc) \<Longrightarrow>
   apply_changes (map (\<lambda>(o', s). \<lparr>ch_ordinal = o', ch_state = s\<rparr>) acc) f
     = (\<lambda>o'. case map_of acc o' of None \<Rightarrow> f o' | Some s \<Rightarrow> s)"
proof (induction acc arbitrary: f)
  case (Cons p acc)
  obtain o' s where p: "p = (o', s)" by (cases p)
  have "map_of acc o' = None" using Cons.prems p by (simp add: map_of_eq_None_iff)
  with Cons p show ?case by (auto simp: apply_changes_def fun_eq_iff split: option.splits)
qed (simp add: apply_changes_def)

lemma coalesce_apply:
  "apply_changes (coalesce wanted) f = apply_changes (concat (map fr_changes (rev wanted))) f
   \<and> distinct (map ch_ordinal (coalesce wanted))"
proof -
  have fold: "distinct (map fst (fold record_change cs acc))
      \<and> (\<lambda>o'. case map_of (fold record_change cs acc) o' of None \<Rightarrow> f o' | Some s \<Rightarrow> s)
        = apply_changes cs (\<lambda>o'. case map_of acc o' of None \<Rightarrow> f o' | Some s \<Rightarrow> s)"
    if "distinct (map fst acc)" for cs acc
    using that
  proof (induction cs arbitrary: acc)
    case (Cons c cs)
    note r = record_change_map [OF Cons.prems, of c]
    have "(\<lambda>o'. case map_of (record_change c acc) o' of None \<Rightarrow> f o' | Some s \<Rightarrow> s)
        = (\<lambda>o'. case map_of acc o' of None \<Rightarrow> f o' | Some s \<Rightarrow> s)(ch_ordinal c := ch_state c)"
      using r by (auto simp: fun_eq_iff)
    with Cons.IH [of "record_change c acc"] r show ?case by (simp add: apply_changes_def)
  qed (simp add: apply_changes_def)
  let ?acc = "fold record_change (concat (map fr_changes (rev wanted))) []"
  have d: "distinct (map fst ?acc)" using fold [of "[]"] by simp
  have "map ch_ordinal (coalesce wanted) = map fst ?acc" by (simp add: coalesce_def case_prod_beta)
  with d have "distinct (map ch_ordinal (coalesce wanted))" by simp
  moreover have "apply_changes (coalesce wanted) f = apply_changes (concat (map fr_changes (rev wanted))) f"
    using fold [of "[]" "concat (map fr_changes (rev wanted))"] apply_recorded [OF d, of f] by (simp add: coalesce_def)
  ultimately show ?thesis by blast
qed

lemma old_change: "\<lparr>ch_ordinal = ch_ordinal c, ch_state = ch_state c\<rparr> = c"
  by (cases c) simp

lemma record_change_set:
  "set (record_change c acc) \<subseteq> insert (ch_ordinal c, ch_state c) (set acc)
   \<and> length (record_change c acc) \<le> Suc (length acc)"
  by (auto simp: record_change_def split: if_splits prod.splits)

lemma coalesce_subset:
  "set (coalesce wanted) \<subseteq> set (concat (map fr_changes (rev wanted)))
   \<and> length (coalesce wanted) \<le> length (concat (map fr_changes (rev wanted)))"
proof -
  have "set (fold record_change cs acc) \<subseteq> (\<lambda>c. (ch_ordinal c, ch_state c)) ` set cs \<union> set acc
      \<and> length (fold record_change cs acc) \<le> length cs + length acc" for cs acc
  proof (induction cs arbitrary: acc)
    case (Cons c cs)
    from Cons.IH [of "record_change c acc"] record_change_set [of c acc] show ?case by auto
  qed simp
  note sub = this [of "concat (map fr_changes (rev wanted))" "[]"]
  have "set (coalesce wanted) \<subseteq> (\<lambda>(o', s). \<lparr>ch_ordinal = o', ch_state = s\<rparr>) `
      (\<lambda>c. (ch_ordinal c, ch_state c)) ` set (concat (map fr_changes (rev wanted)))"
    unfolding coalesce_def set_map using sub by (intro image_mono) simp
  then have "set (coalesce wanted) \<subseteq> set (concat (map fr_changes (rev wanted)))"
    by (simp add: image_comp comp_def old_change del: set_concat set_map)
  with sub show ?thesis by (simp add: coalesce_def)
qed

subsection \<open>The read model as a history of deltas\<close>

text \<open>
  A history is the list of the ordinal transitions applied so far, newest first. The ring holds
  the frames of its last \<open>ringCap\<close> entries; \<open>replay\<close> is what a client that has seen them all shows.
\<close>

type_synonym history = "(int \<times> wire_state) list"

fun delta_bytes :: "history \<Rightarrow> bytes list" where
  "delta_bytes [] = []"
| "delta_bytes ((ord, st) # h) = ring_entry (Suc (length h)) ord st # delta_bytes h"

definition change_of :: "int \<times> wire_state \<Rightarrow> change" where
  "change_of d = \<lparr>ch_ordinal = word_of_int (fst d), ch_state = snd d\<rparr>"

fun delta_frames :: "history \<Rightarrow> frame list" where
  "delta_frames [] = []"
| "delta_frames (d # h) = sparse_frame (of_nat (Suc (length h))) [change_of d] # delta_frames h"

definition replay :: "history \<Rightarrow> (32 word \<Rightarrow> 8 word) \<Rightarrow> 32 word \<Rightarrow> 8 word" where
  "replay h f = apply_changes (map change_of (rev h)) f"

definition wire_history :: "history \<Rightarrow> bool" where
  "wire_history h \<longleftrightarrow> list_all (\<lambda>d. wire_change (change_of d)) h"

lemma length_delta_frames [simp]: "length (delta_frames h) = length h"
  by (induction h) auto

lemma decode_ring_history:
  "wire_history h \<Longrightarrow> decode_ring (take n (delta_bytes h)) = Inr (take n (delta_frames h))"
proof (induction h arbitrary: n)
  case (Cons d h)
  obtain ord st where d: "d = (ord, st)" by (cases d)
  show ?case
  proof (cases n)
    case (Suc m)
    have "wire_change (change_of d)" "wire_history h" using Cons.prems by (simp_all add: wire_history_def)
    with Cons.IH [of m] show ?thesis
      by (simp add: Suc d ring_entry_def change_of_def Decode_EncodeSparse)
  qed simp
qed simp

lemma of_nat_64_less: "m < 2 ^ 64 \<Longrightarrow> n < 2 ^ 64 \<Longrightarrow> (of_nat m :: 64 word) < of_nat n \<longleftrightarrow> m < n"
  by (simp add: word_of_nat_less_iff take_bit_nat_eq_self)

lemma of_nat_64_eq: "m < 2 ^ 64 \<Longrightarrow> n < 2 ^ 64 \<Longrightarrow> (of_nat m :: 64 word) = of_nat n \<longleftrightarrow> m = n"
  by (simp add: word_of_nat_eq_iff take_bit_nat_eq_self)

lemma frames_after:
  "length h < 2 ^ 64 \<Longrightarrow> since < 2 ^ 64 \<Longrightarrow>
   filter (\<lambda>f. of_nat since < fr_seq f) (take n (delta_frames h)) = take (min n (length h - since)) (delta_frames h)"
proof (induction h arbitrary: n)
  case (Cons d h)
  show ?case
  proof (cases n)
    case (Suc m)
    have "(of_nat since :: 64 word) < of_nat (Suc (length h)) \<longleftrightarrow> since < Suc (length h)"
      using Cons.prems by (intro of_nat_64_less) simp_all
    moreover have "filter (\<lambda>f. of_nat since < fr_seq f) (take m (delta_frames h))
        = take (min m (length h - since)) (delta_frames h)"
      using Cons by simp
    ultimately show ?thesis
      by (cases "since \<le> length h") (auto simp: Suc sparse_frame_def Suc_diff_le simp del: of_nat_Suc)
  qed simp
qed simp

lemma last_frame:
  "0 < k \<Longrightarrow> k \<le> length h \<Longrightarrow> fr_seq (last (take k (delta_frames h))) = of_nat (length h + 1 - k)"
proof (induction h arbitrary: k)
  case (Cons d h)
  obtain m where k: "k = Suc m" using Cons.prems(1) by (cases k) auto
  show ?case
  proof (cases "m = 0")
    case False
    with Cons k have "fr_seq (last (take m (delta_frames h))) = of_nat (length h + 1 - m)" "take m (delta_frames h) \<noteq> []"
      by (auto simp flip: length_0_conv)
    then show ?thesis by (simp add: k)
  qed (simp add: k sparse_frame_def)
qed simp

lemma frame_changes:
  "concat (map fr_changes (rev (take k (delta_frames h)))) = map change_of (rev (take k h))"
proof (induction h arbitrary: k)
  case (Cons d h)
  then show ?case by (cases k) (auto simp: sparse_frame_def)
qed simp

lemma replay_append: "replay (h @ h') f = replay h (replay h' f)"
  by (simp add: replay_def apply_changes_def)

lemma gap_frame_history:
  assumes h: "length h < 2 ^ 64" and s: "since < length h"
  shows "gap_frame (length h) since (take ringCap (delta_frames h)) =
    (if length h - since \<le> ringCap
     then (Some (EncodeSparse (of_nat (length h)) (coalesce (take (length h - since) (delta_frames h)))), True)
     else (None, False))"
proof -
  let ?k = "min ringCap (length h - since)"
  let ?wanted = "take ?k (delta_frames h)"
  have s64: "since < 2 ^ 64" using h s by linarith
  have k: "0 < ?k" "?k \<le> length h" using s by (auto simp: ringCap_def)
  have wanted: "filter (\<lambda>f. of_nat since < fr_seq f) (take ringCap (delta_frames h)) = ?wanted"
    by (rule frames_after [OF h s64])
  have "?wanted \<noteq> []" using k s by (cases h) (auto simp: ringCap_def)
  have "fr_seq (last ?wanted) = of_nat (length h + 1 - ?k)" by (rule last_frame [OF k])
  moreover have "(of_nat (length h + 1 - ?k) :: 64 word) = of_nat since + 1 \<longleftrightarrow> length h + 1 - ?k = since + 1"
  proof -
    have "(of_nat (length h + 1 - ?k) :: 64 word) = of_nat (since + 1) \<longleftrightarrow> length h + 1 - ?k = since + 1"
      using h s k by (intro of_nat_64_eq) auto
    then show ?thesis by simp
  qed
  moreover have "length h + 1 - ?k = since + 1 \<longleftrightarrow> length h - since \<le> ringCap" using k s by linarith
  ultimately show ?thesis using \<open>?wanted \<noteq> []\<close> unfolding gap_frame_def wanted
    by (simp add: Let_def min_def)
qed

subsection \<open>The store's laws, one command at a time\<close>

lemma store_setrange:
  assumes "store_laws R"
  shows "rs_get R k' (rs_setrange R k i [b] s)
      = (if k' = k then Some (let v = (case rs_get R k s of None \<Rightarrow> [] | Some v \<Rightarrow> v)
                              in (v @ replicate (Suc i - length v) 0)[i := b])
         else rs_get R k' s)"
    and "k' \<noteq> k \<Longrightarrow> rs_int R k' (rs_setrange R k i [b] s) = rs_int R k' s"
    and "rs_lrange R k' (rs_setrange R k i [b] s) = rs_lrange R k' s"
proof -
  have "law_setrange R" using assms by (simp add: store_laws_def)
  note l = this [unfolded law_setrange_def, rule_format, of k' k i b s]
  from l show "rs_get R k' (rs_setrange R k i [b] s)
      = (if k' = k then Some (let v = (case rs_get R k s of None \<Rightarrow> [] | Some v \<Rightarrow> v)
                              in (v @ replicate (Suc i - length v) 0)[i := b])
         else rs_get R k' s)" by blast
  from l show "k' \<noteq> k \<Longrightarrow> rs_int R k' (rs_setrange R k i [b] s) = rs_int R k' s"
    and "rs_lrange R k' (rs_setrange R k i [b] s) = rs_lrange R k' s" by blast+
qed

lemma store_getrange: "store_laws R \<Longrightarrow> rs_get R k s = Some v \<Longrightarrow> rs_getrange R k a b s = take (Suc b - a) (drop a v)"
  by (simp add: store_laws_def law_range_def)

lemma store_incr:
  assumes "store_laws R"
  shows "fst (rs_incr R k s) = Suc (count_of (rs_int R k s))"
    and "rs_int R k' (snd (rs_incr R k s)) = (if k' = k then Some (Suc (count_of (rs_int R k s))) else rs_int R k' s)"
    and "k' \<noteq> k \<Longrightarrow> rs_get R k' (snd (rs_incr R k s)) = rs_get R k' s"
    and "rs_lrange R k' (snd (rs_incr R k s)) = rs_lrange R k' s"
  using assms unfolding store_laws_def law_incr_def by simp_all

lemma store_push:
  assumes "store_laws R"
  shows "rs_lrange R k' (push_delta R ev d s)
      = (if k' = ringKey ev then take ringCap (d # rs_lrange R k' s) else rs_lrange R k' s)"
    and "rs_get R k' (push_delta R ev d s) = rs_get R k' s"
    and "rs_int R k' (push_delta R ev d s) = rs_int R k' s"
  using assms unfolding store_laws_def law_lists_def by (simp_all add: push_delta_def same_values_def)

lemma event_key_inj: "event_key e n = event_key e' n' \<longleftrightarrow> e = e' \<and> n = n'"
proof
  assume "event_key e n = event_key e' n'"
  then have "show_int e @ CHR ''}'' # (CHR '':'' # n) = show_int e' @ CHR ''}'' # (CHR '':'' # n')"
    by (simp add: event_key_def)
  from cut_at_separator [OF this show_int_no_brace show_int_no_brace] show "e = e' \<and> n = n'" by simp
qed simp

lemma keys_differ [simp]:
  "bitsetKey e \<noteq> seqKey e'" "bitsetKey e \<noteq> ringKey e'" "seqKey e \<noteq> bitsetKey e'" "seqKey e \<noteq> ringKey e'"
  "ringKey e \<noteq> bitsetKey e'" "ringKey e \<noteq> seqKey e'"
  "bitsetKey e = bitsetKey e' \<longleftrightarrow> e = e'" "seqKey e = seqKey e' \<longleftrightarrow> e = e'" "ringKey e = ringKey e' \<longleftrightarrow> e = e'"
  by (simp_all add: bitsetKey_def seqKey_def ringKey_def event_key_inj)

lemma rcall_Done: "\<forall>n. fate_of E n = Done \<Longrightarrow> rcall E f w = (Inr (fst (f (w_lock w))), (tick w)\<lparr>w_lock := snd (f (w_lock w))\<rparr>)"
  by (simp add: rcall_def split: prod.splits)

subsection \<open>The invariant\<close>

text \<open>
  The read model of an event agrees with a history: the bitset is the seeded one with the deltas
  written into it in order, the counter is their number and the ring holds the last of them.
\<close>

fun bits_after :: "bytes \<Rightarrow> history \<Rightarrow> bytes option" where
  "bits_after seeded [] = Some seeded"
| "bits_after seeded ((ord, st) # h) =
     (case bits_after seeded h of None \<Rightarrow> None | Some b \<Rightarrow> SetSeat b ord st)"

definition read_model :: "'s store \<Rightarrow> int \<Rightarrow> bytes \<Rightarrow> history \<Rightarrow> 's \<Rightarrow> bool" where
  "read_model R ev seeded h s \<longleftrightarrow>
     rs_get R (bitsetKey ev) s \<noteq> None \<and> rs_get R (bitsetKey ev) s = bits_after seeded h
   \<and> count_of (rs_int R (seqKey ev) s) = length h
   \<and> rs_lrange R (ringKey ev) s = take ringCap (delta_bytes h)"

lemma read_seq_Done:
  "\<forall>n. fate_of E n = Done \<Longrightarrow> read_seq E R ev w = (Inr (count_of (rs_int R (seqKey ev) (w_lock w))), tick w)"
  by (simp add: read_seq_def rcall_Done count_of_def tick_def split: option.splits)

lemma EnsureBitset_present:
  assumes "\<forall>n. fate_of E n = Done" and "rs_get R (bitsetKey ev) (w_lock w) = Some bits"
  shows "EnsureBitset E R ev w = (Inr (bits, count_of (rs_int R (seqKey ev) (w_lock w))), tick (tick w))"
  using assms by (simp add: EnsureBitset_def get_bits_def rcall_Done with_seq_def read_seq_Done tick_def)

lemma bits_after_length: "bits_after seeded h = Some b \<Longrightarrow> length b = length seeded"
  by (induction h arbitrary: b) (auto split: option.splits simp: SetSeat_length)

lemma getrange_byte:
  "store_laws R \<Longrightarrow> rs_get R k s = Some b \<Longrightarrow> i < length b \<Longrightarrow> rs_getrange R k i i s = [b ! i]"
  by (simp add: store_getrange Suc_diff_le) (metis Cons_nth_drop_Suc take_Suc_Cons take0)

lemma EnsureBitset_model:
  assumes "\<forall>n. fate_of E n = Done" and "read_model R ev seeded h (w_lock w)"
  obtains bits w1 where "bits_after seeded h = Some bits" and "rs_get R (bitsetKey ev) (w_lock w) = Some bits"
    and "EnsureBitset E R ev w = (Inr (bits, length h), w1)" and "w_lock w1 = w_lock w" and "w_db w1 = w_db w"
  using assms EnsureBitset_present [OF assms(1), of R ev w] by (auto simp: read_model_def tick_def)

lemma apply_seat_model:
  assumes E: "\<forall>n. fate_of E n = Done" and R: "store_laws R" and m: "read_model R ev seeded h (w_lock w)"
    and r: "0 \<le> ord" "ord < 4 * int (length seeded)"
  shows "\<exists>bits w'. bits_after seeded h = Some bits
    \<and> apply_seat E R ev ord st w = (Inr (GetSeat bits ord \<noteq> Some st), w') \<and> w_db w' = w_db w
    \<and> read_model R ev seeded (if GetSeat bits ord = Some st then h else (ord, st) # h) (w_lock w')
    \<and> (\<forall>ev' seeded' h'. ev' \<noteq> ev \<longrightarrow> read_model R ev' seeded' h' (w_lock w) \<longrightarrow> read_model R ev' seeded' h' (w_lock w'))"
proof -
  obtain bits w1 where bits: "bits_after seeded h = Some bits" "rs_get R (bitsetKey ev) (w_lock w) = Some bits"
    and e: "EnsureBitset E R ev w = (Inr (bits, length h), w1)" "w_lock w1 = w_lock w" "w_db w1 = w_db w"
    using EnsureBitset_model [OF E m] by blast
  let ?i = "nat (byte_of ord)" and ?k = "shift_of ord"
  have i: "?i < length bits" "0 \<le> byte_of ord" "byte_of ord < int (length bits)"
    using in_range [of ord "length bits"] r bits_after_length [OF bits(1)] by auto
  have old: "rs_getrange R (bitsetKey ev) ?i ?i (w_lock w) = [bits ! ?i]"
    by (rule getrange_byte [OF R bits(2) i(1)])
  have g: "GetSeat bits ord = Some (drop_bit ?k (bits ! ?i) AND 3)"
    using i by (simp add: GetSeat_def Let_def)
  show ?thesis
  proof (cases "GetSeat bits ord = Some st")
    case True
    with g have "apply_seat E R ev ord st w = (Inr False, (tick w1)\<lparr>w_lock := w_lock w1\<rparr>)"
      by (simp add: apply_seat_def e old rcall_Done [OF E] Let_def)
    with True m e bits show ?thesis by (auto simp: tick_def)
  next
    case False
    let ?new = "(bits ! ?i AND NOT (push_bit ?k 3)) OR push_bit ?k st"
    let ?s1 = "rs_setrange R (bitsetKey ev) ?i [?new] (w_lock w)"
    let ?s2 = "snd (rs_incr R (seqKey ev) ?s1)"
    let ?s3 = "push_delta R ev (ring_entry (Suc (length h)) ord st) ?s2"
    have n: "fst (rs_incr R (seqKey ev) ?s1) = Suc (length h)"
      using m by (simp add: store_incr [OF R] store_setrange [OF R] read_model_def)
    obtain w' where w': "apply_seat E R ev ord st w = (Inr True, w')" "w_lock w' = ?s3" "w_db w' = w_db w"
      using False g e n by (simp add: apply_seat_def old rcall_Done [OF E] Let_def tick_def)
    have set: "SetSeat bits ord st = Some (bits[?i := ?new])" using i by (simp add: SetSeat_def Let_def)
    have "rs_get R (bitsetKey ev) ?s3 = Some (bits[?i := ?new])"
      using i(1) by (simp add: store_push [OF R] store_incr [OF R] store_setrange [OF R] bits)
    moreover have "rs_int R (seqKey ev) ?s3 = Some (Suc (length h))"
      using m by (simp add: store_push [OF R] store_incr [OF R] store_setrange [OF R] read_model_def)
    moreover have "rs_lrange R (ringKey ev) ?s3 = take ringCap (delta_bytes ((ord, st) # h))"
      using m by (simp add: store_push [OF R] store_incr [OF R] store_setrange [OF R] read_model_def ringCap_def)
    ultimately have "read_model R ev seeded ((ord, st) # h) ?s3"
      by (simp add: read_model_def bits set count_of_def)
    moreover have "read_model R ev' seeded' h' ?s3" if "ev' \<noteq> ev" "read_model R ev' seeded' h' (w_lock w)" for ev' seeded' h'
      using that by (auto simp: read_model_def store_push [OF R] store_incr [OF R] store_setrange [OF R])
    ultimately show ?thesis using w' False bits(1) by auto
  qed
qed

subsection \<open>A batch of events\<close>

text \<open>What a domain event says of an ordinal, given the event's cached rows.\<close>

definition says :: "ordinals \<Rightarrow> domain_event \<Rightarrow> (int \<times> int \<times> wire_state) option" where
  "says c evt =
     (case (stateForEventType (de_type evt), domainEventPayload (de_payload evt)) of
        (Some st, Some (ev, seat)) \<Rightarrow>
          (case c ev of None \<Rightarrow> None
           | Some rows \<Rightarrow> (case map_of (rev rows) seat of None \<Rightarrow> None | Some ord \<Rightarrow> Some (ev, ord, st)))
      | _ \<Rightarrow> None)"

fun last_said :: "ordinals \<Rightarrow> domain_event list \<Rightarrow> int \<Rightarrow> int \<Rightarrow> wire_state option" where
  "last_said c [] ev ord = None"
| "last_said c (evt # es) ev ord =
     (case last_said c es ev ord of
        Some st \<Rightarrow> Some st
      | None \<Rightarrow> (case says c evt of Some (ev', ord', st) \<Rightarrow> if ev' = ev \<and> ord' = ord then Some st else None | None \<Rightarrow> None))"

definition cached :: "ordinals \<Rightarrow> int set \<Rightarrow> (int \<Rightarrow> bytes) \<Rightarrow> bool" where
  "cached c A seeded \<longleftrightarrow> (\<forall>ev \<in> A. \<exists>rows. c ev = Some rows
     \<and> (\<forall>(seat, ord) \<in> set rows. 0 \<le> ord \<and> ord < 4 * int (length (seeded ev))))"

definition concerns :: "int set \<Rightarrow> domain_event list \<Rightarrow> bool" where
  "concerns A es \<longleftrightarrow> (\<forall>evt \<in> set es. \<forall>ev seat. domainEventPayload (de_payload evt) = Some (ev, seat) \<longrightarrow> ev \<in> A)"

lemma markProcessed_lock [simp]: "w_lock (markProcessed E i w) = w_lock w"
  by (metis call_frames(1) markProcessed_def prod.collapse)

lemma GetSeat_bits_after:
  assumes "bits_after seeded h = Some bits" and "0 \<le> ord" and "ord < 4 * int (length seeded)" and "st AND 3 = st"
  obtains bits' where "bits_after seeded ((ord, st) # h) = Some bits'"
    and "\<And>j. GetSeat bits' j = (if j = ord then Some st else GetSeat bits j)"
proof -
  obtain bits' where "SetSeat bits ord st = Some bits'"
    using SetSeat_total [of ord bits st] assms bits_after_length by metis
  with that assms GetSeat_SetSeat show thesis by simp
qed

lemma stateForEventType_bits: "stateForEventType t = Some st \<Longrightarrow> st AND 3 = st"
  by (cases t) (auto simp: state_defs)

text \<open>One event: it is applied when it says something, and skipped otherwise.\<close>

lemma project_step:
  assumes E: "\<forall>n. fate_of E n = Done" and R: "store_laws R" and c: "cached c A seeded" and es: "concerns A (evt # es)"
    and m: "\<forall>ev \<in> A. read_model R ev (seeded ev) (H ev) (w_lock w)"
  shows "\<exists>k w' H'. project_events E R (evt # es) n c w = project_events E R es (n + k) c w'
    \<and> (\<forall>ev \<in> A. read_model R ev (seeded ev) (H' ev) (w_lock w') \<and> suffix (H ev) (H' ev))
    \<and> (\<forall>ev \<in> A. \<forall>ord. GetSeat (the (bits_after (seeded ev) (H' ev))) ord
         = (case says c evt of
              Some (ev', ord', st) \<Rightarrow> if ev' = ev \<and> ord' = ord then Some st
                else GetSeat (the (bits_after (seeded ev) (H ev))) ord
            | None \<Rightarrow> GetSeat (the (bits_after (seeded ev) (H ev))) ord))"
proof (cases "says c evt")
  case None
  have "project_events E R (evt # es) n c w = project_events E R es (n + 0) c (markProcessed E (de_id evt) w)"
  proof (cases "stateForEventType (de_type evt)")
    case (Some st)
    show ?thesis
    proof (cases "domainEventPayload (de_payload evt)")
      case (Some p)
      obtain ev seat where p: "p = (ev, seat)" by (cases p)
      with Some es c obtain rows where rows: "c ev = Some rows" by (fastforce simp: concerns_def cached_def)
      with Some p \<open>stateForEventType (de_type evt) = Some st\<close> None have "map_of (rev rows) seat = None"
        by (simp add: says_def split: option.splits)
      with rows Some p \<open>stateForEventType (de_type evt) = Some st\<close> show ?thesis
        by (simp add: ordinalOf_def load_ordinals_def)
    qed (use Some in simp)
  qed simp
  with None m show ?thesis by (intro exI [of _ 0] exI [of _ "markProcessed E (de_id evt) w"] exI [of _ H]) simp
next
  case (Some s)
  obtain ev ord st where s: "s = (ev, ord, st)" by (cases s)
  obtain seat rows where t: "stateForEventType (de_type evt) = Some st" "domainEventPayload (de_payload evt) = Some (ev, seat)"
    and rows: "c ev = Some rows" "map_of (rev rows) seat = Some ord"
    using Some s by (auto simp: says_def split: option.splits)
  have ev: "ev \<in> A" using es t(2) by (simp add: concerns_def)
  have "(seat, ord) \<in> set rows" using rows(2) by (metis map_of_SomeD set_rev)
  then have r: "0 \<le> ord" "ord < 4 * int (length (seeded ev))" using c ev rows(1) unfolding cached_def by fastforce+
  obtain bits w1 where bits: "bits_after (seeded ev) (H ev) = Some bits"
    and a: "apply_seat E R ev ord st w = (Inr (GetSeat bits ord \<noteq> Some st), w1)"
    and m1: "read_model R ev (seeded ev) (if GetSeat bits ord = Some st then H ev else (ord, st) # H ev) (w_lock w1)"
    and frame: "\<And>ev' seeded' h'. ev' \<noteq> ev \<Longrightarrow> read_model R ev' seeded' h' (w_lock w) \<Longrightarrow> read_model R ev' seeded' h' (w_lock w1)"
    using apply_seat_model [OF E R m [rule_format, OF ev] r, of st] by blast
  let ?H = "if GetSeat bits ord = Some st then H else H(ev := (ord, st) # H ev)"
  obtain bits' where bits': "bits_after (seeded ev) ((ord, st) # H ev) = Some bits'"
      "\<And>j. GetSeat bits' j = (if j = ord then Some st else GetSeat bits j)"
    using GetSeat_bits_after [OF bits r stateForEventType_bits [OF t(1)]] by blast
  have "project_events E R (evt # es) n c w
      = project_events E R es (n + (if GetSeat bits ord = Some st then 0 else 1)) c (markProcessed E (de_id evt) w1)"
    using t rows a by (simp add: ordinalOf_def load_ordinals_def)
  moreover have "\<forall>e \<in> A. read_model R e (seeded e) (?H e) (w_lock (markProcessed E (de_id evt) w1)) \<and> suffix (H e) (?H e)"
    using m1 m frame by (smt (verit) fun_upd_apply markProcessed_lock suffix_ConsI suffix_order.refl)
  moreover have "\<forall>e \<in> A. \<forall>j. GetSeat (the (bits_after (seeded e) (?H e))) j
         = (if ev = e \<and> ord = j then Some st else GetSeat (the (bits_after (seeded e) (H e))) j)"
    using bits bits' by auto
  ultimately show ?thesis using Some s
    by (intro exI [of _ "if GetSeat bits ord = Some st then 0 else 1"] exI [of _ "markProcessed E (de_id evt) w1"] exI [of _ ?H]) simp
qed

lemma project_events_model:
  assumes E: "\<forall>n. fate_of E n = Done" and R: "store_laws R" and c: "cached c A seeded"
  shows "concerns A es \<Longrightarrow> \<forall>ev \<in> A. read_model R ev (seeded ev) (H ev) (w_lock w) \<Longrightarrow>
    \<exists>k w' H'. project_events E R es n c w = (Inr k, c, w')
      \<and> (\<forall>ev \<in> A. read_model R ev (seeded ev) (H' ev) (w_lock w') \<and> suffix (H ev) (H' ev)
          \<and> (\<forall>ord. GetSeat (the (bits_after (seeded ev) (H' ev))) ord
              = (case last_said c es ev ord of Some st \<Rightarrow> Some st
                 | None \<Rightarrow> GetSeat (the (bits_after (seeded ev) (H ev))) ord)))"
proof (induction es arbitrary: n w H)
  case Nil
  then show ?case by auto
next
  case (Cons evt es)
  have es: "concerns A es" using Cons.prems(1) by (simp add: concerns_def)
  obtain k w1 H1 where 1: "project_events E R (evt # es) n c w = project_events E R es (n + k) c w1"
    and m1: "\<forall>ev \<in> A. read_model R ev (seeded ev) (H1 ev) (w_lock w1) \<and> suffix (H ev) (H1 ev)"
    and g1: "\<forall>ev \<in> A. \<forall>ord. GetSeat (the (bits_after (seeded ev) (H1 ev))) ord
         = (case says c evt of
              Some (ev', ord', st) \<Rightarrow> if ev' = ev \<and> ord' = ord then Some st
                else GetSeat (the (bits_after (seeded ev) (H ev))) ord
            | None \<Rightarrow> GetSeat (the (bits_after (seeded ev) (H ev))) ord)"
    using project_step [OF E R c Cons.prems, of n] by blast
  obtain k' w' H' where 2: "project_events E R es (n + k) c w1 = (Inr k', c, w')"
    and m2: "\<forall>ev \<in> A. read_model R ev (seeded ev) (H' ev) (w_lock w') \<and> suffix (H1 ev) (H' ev)
          \<and> (\<forall>ord. GetSeat (the (bits_after (seeded ev) (H' ev))) ord
              = (case last_said c es ev ord of Some st \<Rightarrow> Some st
                 | None \<Rightarrow> GetSeat (the (bits_after (seeded ev) (H1 ev))) ord))"
    using Cons.IH [OF es, of H1 w1 "n + k"] m1 by blast
  have "GetSeat (the (bits_after (seeded ev) (H' ev))) ord
      = (case last_said c (evt # es) ev ord of Some st \<Rightarrow> Some st
         | None \<Rightarrow> GetSeat (the (bits_after (seeded ev) (H ev))) ord)" if "ev \<in> A" for ev ord
    using m2 [rule_format, OF that] g1 [rule_format, OF that, of ord] by (auto split: option.splits prod.splits)
  moreover have "read_model R ev (seeded ev) (H' ev) (w_lock w') \<and> suffix (H ev) (H' ev)" if "ev \<in> A" for ev
    using m1 m2 that suffix_order.trans by blast
  ultimately show ?case using 1 2
    by (intro exI [of _ k'] exI [of _ w'] exI [of _ H']) simp
qed

subsection \<open>Properties\<close>


text \<open>A store that satisfies the laws: strings, counters and lists, each by key.\<close>

type_synonym mem = "(string \<Rightarrow> bytes option) \<times> (string \<Rightarrow> nat option) \<times> (string \<Rightarrow> bytes list)"

definition mem_store :: "mem store" where
  "mem_store =
     \<lparr>rs_get = (\<lambda>k (g, i, l). g k), rs_int = (\<lambda>k (g, i, l). i k),
      rs_setnx = (\<lambda>k v (g, i, l). if g k = None then (True, g(k \<mapsto> v), i, l) else (False, g, i, l)),
      rs_getrange = (\<lambda>k a b (g, i, l). take (Suc b - a) (drop a (case g k of None \<Rightarrow> [] | Some v \<Rightarrow> v))),
      rs_setrange = (\<lambda>k a bs (g, i, l).
        (g(k \<mapsto> (let v = (case g k of None \<Rightarrow> [] | Some v \<Rightarrow> v) in (v @ replicate (Suc a - length v) 0)[a := bs ! 0])), i, l)),
      rs_incr = (\<lambda>k (g, i, l). let n = Suc (count_of (i k)) in (n, g, i(k \<mapsto> n), l)),
      rs_lrange = (\<lambda>k (g, i, l). l k), rs_lpush = (\<lambda>k v (g, i, l). (g, i, l(k := v # l k))),
      rs_ltrim = (\<lambda>k n (g, i, l). (g, i, l(k := take n (l k)))), rs_publish = (\<lambda>k v s. s)\<rparr>"

lemma mem_store_laws: "store_laws mem_store"
  by (simp add: store_laws_def law_setnx_def law_range_def law_setrange_def law_incr_def law_lists_def same_values_def
      mem_store_def Let_def)

definition fresh_mem :: mem where
  "fresh_mem = ((\<lambda>_. None)(bitsetKey 1 \<mapsto> [0]), \<lambda>_. None, \<lambda>_. [])"

definition sample_ordinals :: ordinals where "sample_ordinals = (\<lambda>_. None)(1 \<mapsto> [(11, 0), (12, 1), (13, 2)])"


text \<open>What a gap fill answers; shared with the connections that ask for it.\<close>

lemma GapFill_answer:
  assumes "\<forall>n. fate_of E n = Done" and "read_model R ev seeded h (w_lock w)"
    and "length h < 2 ^ 64" and "wire_history h" and "since < 2 ^ 64"
  shows "w_lock (snd (GapFill E R ev since w)) = w_lock w
    \<and> (if length h \<le> since then fst (GapFill E R ev since w) = Inr (None, True)
       else if length h \<le> since + ringCap
       then \<exists>b cs. fst (GapFill E R ev since w) = Inr (Some b, True)
          \<and> Decode b = Inr (sparse_frame (of_nat (length h)) cs) \<and> distinct (map ch_ordinal cs)
          \<and> (\<forall>base. apply_changes cs (replay (drop (length h - since) h) base) = replay h base)
       else fst (GapFill E R ev since w) = Inr (None, False))"
proof -
  let ?s = "w_lock w" and ?k = "length h - since"
  have n: "count_of (rs_int R (seqKey ev) ?s) = length h" and ring: "rs_lrange R (ringKey ev) ?s = take ringCap (delta_bytes h)"
    using assms(2) by (simp_all add: read_model_def)
  have run: "GapFill E R ev since w =
     (if length h \<le> since then (Inr (None, True), tick w)
      else (Inr (gap_frame (length h) since (take ringCap (delta_frames h))), tick (tick w)))"
    by (simp add: GapFill_def read_seq_Done [OF assms(1)] n rcall_Done [OF assms(1)] ring
        decode_ring_history [OF assms(4)] tick_def)
  let ?cs = "coalesce (take ?k (delta_frames h))"
  have few: "\<exists>b cs. fst (GapFill E R ev since w) = Inr (Some b, True)
          \<and> Decode b = Inr (sparse_frame (of_nat (length h)) cs) \<and> distinct (map ch_ordinal cs)
          \<and> (\<forall>base. apply_changes cs (replay (drop ?k h) base) = replay h base)"
    if "since < length h" "length h \<le> since + ringCap"
  proof -
    have b: "gap_frame (length h) since (take ringCap (delta_frames h)) = (Some (EncodeSparse (of_nat (length h)) ?cs), True)"
      using gap_frame_history [OF assms(3) that(1)] that by simp
    have cs: "distinct (map ch_ordinal ?cs)" "set ?cs \<subseteq> set (map change_of (take ?k h))" "length ?cs \<le> ?k"
      using coalesce_apply coalesce_subset [of "take ?k (delta_frames h)"] by (simp_all add: frame_changes)
    have "list_all wire_change ?cs"
      using cs(2) assms(4) by (auto simp: list_all_iff wire_history_def dest: in_set_takeD)
    then have "Decode (EncodeSparse (of_nat (length h)) ?cs) = Inr (sparse_frame (of_nat (length h)) ?cs)"
      using cs(3) that by (intro Decode_EncodeSparse) (auto simp: ringCap_def)
    moreover have "apply_changes ?cs (replay (drop ?k h) base) = replay h base" for base
      using replay_append [of "take ?k h" "drop ?k h" base] coalesce_apply [of "take ?k (delta_frames h)"]
      by (simp add: frame_changes replay_def)
    ultimately show ?thesis using cs(1) that run b by auto
  qed
  show ?thesis using few run gap_frame_history [OF assms(3), of since] by (auto simp: tick_def)
qed


definition gap_mem :: mem where
  "gap_mem = ((\<lambda>_. None)(bitsetKey 1 \<mapsto> [9]), (\<lambda>_. None)(seqKey 1 \<mapsto> 3),
     (\<lambda>_. [])(ringKey 1 := delta_bytes [(1, 2), (1, 1), (0, 1)]))"


end
