(* ===== verification/Ticketing.thy ===== *)
theory Ticketing
  imports SeatLifecycle Base64
begin

section \<open>internal/ticketing and internal/storage: QR tickets\<close>

text \<open>
  Issuing tickets (\<open>encodeQR\<close> of \<open>payload.go\<close>, \<open>IssueTicketsForOrder\<close> and \<open>PresignQR\<close> of
  \<open>service.go\<close>, \<open>HMACSigner\<close> of \<open>signer.go\<close>) and the object store they upload to
  (\<open>PutObject\<close> of \<open>internal/storage/s3.go\<close>). HMAC-SHA256, the QR renderer and the presigner
  are parameters. \<open>json.Marshal\<close> of the payload struct is written out: its strings are
  UUID texts, which need no escaping.
\<close>

subsection \<open>Signers\<close>

record signer =
  sn_sign :: "bytes \<Rightarrow> bytes"
  sn_verify :: "bytes \<Rightarrow> bytes \<Rightarrow> bool"

definition HMACSigner :: "(bytes \<Rightarrow> bytes \<Rightarrow> bytes) \<Rightarrow> string \<Rightarrow> signer" where
  "HMACSigner hmac k =
     \<lparr>sn_sign = (\<lambda>p. hmac (bytes_of k) p), sn_verify = (\<lambda>p s. s = hmac (bytes_of k) p)\<rparr>"

text \<open>What the token code needs of a signer: it accepts its own signatures and no other.\<close>

locale token_signer =
  fixes sg :: signer
  assumes accepts: "sn_verify sg p (sn_sign sg p)"
    and exact: "sn_verify sg p s \<Longrightarrow> s = sn_sign sg p"
begin

lemma verify_iff: "sn_verify sg p s \<longleftrightarrow> s = sn_sign sg p"
  using accepts exact by blast

end

interpretation hmac_signer: token_signer "HMACSigner hmac k" for hmac k
  by unfold_locales (simp_all add: HMACSigner_def)

subsection \<open>The token\<close>

record qr_payload =
  TicketID :: uuid
  OrderID :: uuid
  EventID :: int
  SeatID :: int

definition quoted :: "string \<Rightarrow> string" where
  "quoted s = CHR ''\"'' # s @ [CHR ''\"'']"

definition qr_json :: "env \<Rightarrow> qr_payload \<Rightarrow> string" where
  "qr_json E p =
     ''{'' @ quoted ''tid'' @ '':'' @ quoted (uuid_text E (TicketID p))
     @ '','' @ quoted ''oid'' @ '':'' @ quoted (uuid_text E (OrderID p))
     @ '','' @ quoted ''eid'' @ '':'' @ show_int (EventID p)
     @ '','' @ quoted ''sid'' @ '':'' @ show_int (SeatID p) @ ''}''"

definition encodeQR :: "env \<Rightarrow> signer \<Rightarrow> qr_payload \<Rightarrow> string" where
  "encodeQR E sg p =
     (let b64body = EncodeToString (bytes_of (qr_json E p));
          sig = sn_sign sg (bytes_of b64body)
      in ''v1.'' @ b64body @ ''.'' @ EncodeToString sig)"

subsection \<open>The object store\<close>

definition PutObject :: "env \<Rightarrow> string \<Rightarrow> string \<Rightarrow> bytes \<Rightarrow> ('l, 'p) world \<Rightarrow> (error + unit) \<times> ('l, 'p) world" where
  "PutObject E bucket k body w =
     (let stored = (tick w)\<lparr>w_objects := w_objects w @ [((bucket, k), body)]\<rparr> in
      case fate_of E (w_calls w) of
        Done \<Rightarrow> (Inr (), stored)
      | Lost \<Rightarrow> (Inl Unavailable, tick w)
      | Ambiguous \<Rightarrow> (Inl Unavailable, stored))"

lemma PutObject_frame [frame_simps]:
  "PutObject E b k body w = (r, w') \<Longrightarrow> w_db w' = w_db w \<and> w_lock w' = w_lock w \<and> w_pay w' = w_pay w"
  by (auto simp: PutObject_def Let_def split: fate.splits)

subsection \<open>IssueTicketsForOrder\<close>

record ticketing =
  tg_signer :: signer
  tg_bucket :: string
  tg_render :: "string \<Rightarrow> error + bytes"
  tg_presign :: "string \<Rightarrow> string \<Rightarrow> error + string"

definition ticket_key :: "env \<Rightarrow> uuid \<Rightarrow> string" where
  "ticket_key E i = ''tickets/'' @ uuid_text E i @ ''.png''"

fun issue_seats ::
    "env \<Rightarrow> ticketing \<Rightarrow> int \<Rightarrow> uuid \<Rightarrow> int list \<Rightarrow> ticket_row list \<Rightarrow> ('l, 'p) world
     \<Rightarrow> (error + ticket_row list) \<times> ('l, 'p) world" where
  "issue_seats E T ev ordr [] tickets w = (Inr tickets, w)"
| "issue_seats E T ev ordr (seat # seats) tickets w =
     (let (i, w1) = new_uuid E w;
          token = encodeQR E (tg_signer T) \<lparr>TicketID = i, OrderID = ordr, EventID = ev, SeatID = seat\<rparr>
      in case tg_render T token of
           Inl e \<Rightarrow> (Inl e, w1)
         | Inr png \<Rightarrow>
        (case PutObject E (tg_bucket T) (ticket_key E i) png w1 of
           (Inl e, w2) \<Rightarrow> (Inl e, w2)
         | (Inr _, w2) \<Rightarrow>
        (case exec E (q_InsertTicket i ordr ev seat (ticket_key E i)) w2 of
           (Inl e, w3) \<Rightarrow> (Inl e, w3)
         | (Inr tk, w3) \<Rightarrow> issue_seats E T ev ordr seats (tickets @ [tk]) w3)))"

definition IssueTicketsForOrder ::
    "env \<Rightarrow> ticketing \<Rightarrow> int \<Rightarrow> uuid \<Rightarrow> ('l, 'p) world \<Rightarrow> (error + ticket_row list) \<times> ('l, 'p) world" where
  "IssueTicketsForOrder E T ev ordr w =
     (case exec E (q_ListSeatIDsForOrder ev ordr) w of
        (Inl e, w') \<Rightarrow> (Inl e, w')
      | (Inr seats, w') \<Rightarrow> issue_seats E T ev ordr seats [] w')"

subsection \<open>PresignQR\<close>

definition PresignTTL :: time where "PresignTTL = 60 * 1000000"

definition PresignQR ::
    "env \<Rightarrow> ticketing \<Rightarrow> uuid \<Rightarrow> ('l, 'p) world \<Rightarrow> (error + string \<times> time) \<times> ('l, 'p) world" where
  "PresignQR E T i w =
     (case exec E (q_GetTicket i) w of
        (Inl e, w') \<Rightarrow> (Inl TicketNotFound, w')
      | (Inr tk, w') \<Rightarrow>
          (case tg_presign T (tg_bucket T) (tk_key tk) of
             Inl e \<Rightarrow> (Inl e, w')
           | Inr url \<Rightarrow> (Inr (url, now E w' + PresignTTL), tick w')))"

subsection \<open>What issuing does to the database\<close>

lemma issue_seats_keeps:
  "issue_seats E T ev ordr seats tks w = (r, w') \<Longrightarrow> t_seats (w_db w') = t_seats (w_db w)"
proof (induction seats arbitrary: tks w)
  case Nil
  then show ?case by simp
next
  case (Cons s ss)
  let ?i = "uuid_at E (w_calls w)"
  let ?tok = "encodeQR E (tg_signer T) \<lparr>TicketID = ?i, OrderID = ordr, EventID = ev, SeatID = s\<rparr>"
  show ?case
  proof (cases "tg_render T ?tok")
    case (Inl e)
    with Cons.prems show ?thesis by (auto simp: new_uuid_def Let_def)
  next
    case (Inr png)
    obtain rp w2 where p: "PutObject E (tg_bucket T) (ticket_key E ?i) png (tick w) = (rp, w2)" by (meson surj_pair)
    obtain rt w3 where t: "exec E (q_InsertTicket ?i ordr ev s (ticket_key E ?i)) w2 = (rt, w3)" by (meson surj_pair)
    have "t_seats (w_db w2) = t_seats (w_db w)" using PutObject_frame [OF p] by simp
    moreover have "t_seats (w_db w3) = t_seats (w_db w2)" by (rule exec_keeps [OF _ t]) simp
    ultimately show ?thesis
      using Cons.prems Cons.IH [of _ w3] Inr p t
      by (auto simp: new_uuid_def Let_def split: sum.splits)
  qed
qed

lemma IssueTickets_keeps:
  assumes "IssueTicketsForOrder E T ev ordr w = (r, w')"
  shows "t_seats (w_db w') = t_seats (w_db w)"
proof -
  obtain rx wx where x: "exec E (q_ListSeatIDsForOrder ev ordr) w = (rx, wx)" by (meson surj_pair)
  have "t_seats (w_db wx) = t_seats (w_db w)" by (rule exec_keeps [OF _ x]) simp
  with assms x show ?thesis
    by (auto simp: IssueTicketsForOrder_def split: sum.splits dest: issue_seats_keeps)
qed

end
