(* ===== verification/Redeem.thy ===== *)
theory Redeem
  imports Ticketing Json Samples
begin

section \<open>internal/ticketing: decodeQR and Redeem\<close>

text \<open>
  Reading a scanned token back and redeeming its ticket. The parser of the UUID library is the
  parameter \<open>parse\<close>; what the properties need of it is \<open>uuid_codec\<close>: a rendered identifier is
  ASCII and is parsed to itself.
\<close>

definition uuid_codec :: "env \<Rightarrow> (string \<Rightarrow> uuid option) \<Rightarrow> bool" where
  "uuid_codec E parse \<longleftrightarrow> (\<forall>i. ascii (uuid_text E i) \<and> parse (uuid_text E i) = Some i)"

definition qr_fields :: "string list" where "qr_fields = [''tid'', ''oid'', ''eid'', ''sid'']"

definition unmarshal_qr :: "(string \<Rightarrow> uuid option) \<Rightarrow> string \<Rightarrow> qr_payload option" where
  "unmarshal_qr parse s =
     (case Unmarshal s of None \<Rightarrow> None | Some v \<Rightarrow>
     (case members_of v of None \<Rightarrow> None | Some ms \<Rightarrow>
        (let (tid, ok1) = assign_all (text_into parse) nil_uuid (assigned qr_fields ''tid'' ms);
             (oid, ok2) = assign_all (text_into parse) nil_uuid (assigned qr_fields ''oid'' ms);
             (eid, ok3) = assign_all (int_into 64) 0 (assigned qr_fields ''eid'' ms);
             (sid, ok4) = assign_all (int_into 64) 0 (assigned qr_fields ''sid'' ms)
         in if ok1 \<and> ok2 \<and> ok3 \<and> ok4
            then Some \<lparr>TicketID = tid, OrderID = oid, EventID = eid, SeatID = sid\<rparr> else None)))"

definition decodeQR :: "(string \<Rightarrow> uuid option) \<Rightarrow> signer \<Rightarrow> string \<Rightarrow> error + qr_payload" where
  "decodeQR parse sg token =
     (case split_on (CHR ''.'') token of
        [v, body, sig] \<Rightarrow>
          if v \<noteq> ''v1'' then Inl Malformed
          else
            (case DecodeString sig of
               None \<Rightarrow> Inl Malformed
             | Some sg_bytes \<Rightarrow>
                 if \<not> sn_verify sg (bytes_of body) sg_bytes then Inl BadSignature
                 else
                   (case DecodeString body of
                      None \<Rightarrow> Inl Malformed
                    | Some bs \<Rightarrow> (case unmarshal_qr parse (string_of bs) of None \<Rightarrow> Inl Malformed | Some p \<Rightarrow> Inr p)))
      | _ \<Rightarrow> Inl Malformed)"

definition Redeem ::
    "env \<Rightarrow> (string \<Rightarrow> uuid option) \<Rightarrow> ticketing \<Rightarrow> string \<Rightarrow> ('l, 'p) world \<Rightarrow> (error + unit) \<times> ('l, 'p) world" where
  "Redeem E parse T token w =
     (case decodeQR parse (tg_signer T) token of
        Inl e \<Rightarrow> (Inl e, w)
      | Inr p \<Rightarrow>
          (case exec E (q_RedeemTicket (TicketID p)) w of
             (Inl e, w') \<Rightarrow> (Inl e, w')
           | (Inr n, w') \<Rightarrow> if n = 0 then (Inl AlreadyRedeemed, w') else (Inr (), w')))"

subsection \<open>Tokens\<close>

definition qr_value :: "env \<Rightarrow> qr_payload \<Rightarrow> json" where
  "qr_value E p = JObject
     [(''tid'', JString (uuid_text E (TicketID p))), (''oid'', JString (uuid_text E (OrderID p))),
      (''eid'', JNumber (show_int (EventID p))), (''sid'', JNumber (show_int (SeatID p)))]"

definition int64 :: "int \<Rightarrow> bool" where "int64 n \<longleftrightarrow> - (2 ^ 63) \<le> n \<and> n < 2 ^ 63"

lemma unmarshal_qr_value:
  assumes "uuid_codec E parse" and "int64 (EventID p)" and "int64 (SeatID p)"
  shows "unmarshal_qr parse (render (qr_value E p)) = Some p"
proof -
  have "plain_json (qr_value E p)"
    using assms(1) by (simp add: qr_value_def uuid_codec_def ascii_def number_show_int show_int_word)
  then have "Unmarshal (render (qr_value E p)) = Some (qr_value E p)" by (rule Unmarshal_render)
  moreover have "parse_int 64 (show_int (EventID p)) = Some (EventID p)" "parse_int 64 (show_int (SeatID p)) = Some (SeatID p)"
    using assms(2,3) by (simp_all add: parse_show_int int64_def)
  ultimately show ?thesis using assms(1)
    by (simp add: unmarshal_qr_def qr_value_def members_of_def assigned_def names_field_def qr_fields_def uuid_codec_def)
qed

text \<open>Identifiers need no escaping, so the hand-written payload is the marshalled value.\<close>

definition unescaped :: "string \<Rightarrow> bool" where
  "unescaped s \<longleftrightarrow> list_all (\<lambda>c. is_digit c \<or> c \<in> set ''abcdefghijklmnopqrstuvwxyz-'') s"

lemma esc_plain_char: "is_digit c \<or> c \<in> set ''abcdefghijklmnopqrstuvwxyz-'' \<Longrightarrow> esc_char c = [c] \<and> of_char c < (128 :: nat)"
  by (auto simp: esc_char_def is_digit_def Let_def)

lemma quote_plain: "unescaped s \<Longrightarrow> json_quote s = quoted s"
proof -
  assume s: "unescaped s"
  then have "ascii s" using esc_plain_char by (simp add: unescaped_def ascii_def list_all_iff)
  moreover from s have "concat (map esc_char s) = s"
    by (induction s) (use esc_plain_char in \<open>auto simp: unescaped_def\<close>)
  ultimately show ?thesis by (simp add: json_quote_def quoted_def esc_ascii byte_quote)
qed

lemma qr_json_render:
  assumes "\<forall>i. unescaped (uuid_text E i)"
  shows "qr_json E p = render (qr_value E p)"
proof -
  have "json_quote ''tid'' = quoted ''tid''" "json_quote ''oid'' = quoted ''oid''"
    "json_quote ''eid'' = quoted ''eid''" "json_quote ''sid'' = quoted ''sid''"
    by (simp_all add: quote_plain unescaped_def)
  then show ?thesis using assms by (simp add: qr_json_def qr_value_def quote_plain)
qed

lemma version_no_dot: "CHR ''.'' \<notin> set ''v1''"
  by simp

lemma encoded_no_dot: "CHR ''.'' \<notin> set (EncodeToString bs)"
  using EncodeToString_chars no_dot by blast

lemma split_token: "split_on (CHR ''.'') (''v1.'' @ EncodeToString a @ ''.'' @ EncodeToString b) = [''v1'', EncodeToString a, EncodeToString b]"
  using split_on_append [OF version_no_dot, of "EncodeToString a @ ''.'' @ EncodeToString b"]
    split_on_append [OF encoded_no_dot, of a "EncodeToString b"] split_on_plain [OF encoded_no_dot, of b]
  by simp

lemma decode_encode:
  assumes "uuid_codec E parse" and "\<forall>i. unescaped (uuid_text E i)" and "int64 (EventID p)" and "int64 (SeatID p)"
  shows "decodeQR parse (HMACSigner hmac k) (encodeQR E (HMACSigner hmac k) p) = Inr p"
proof -
  let ?sg = "HMACSigner hmac k"
  let ?body = "EncodeToString (bytes_of (qr_json E p))"
  have "unmarshal_qr parse (qr_json E p) = Some p"
    using unmarshal_qr_value assms qr_json_render by simp
  then show ?thesis
    using split_token [of "bytes_of (qr_json E p)" "sn_sign ?sg (bytes_of ?body)"] hmac_signer.accepts [of hmac k]
    by (simp add: decodeQR_def encodeQR_def Let_def)
qed

subsection \<open>Properties\<close>

text \<open>
  C35: a QR token carries its payload and nobody else can write one. Decoding what \<open>encodeQR\<close> wrote
  with the same key gives the payload back; and any token that decodes at all has three parts, the
  version \<open>v1\<close>, a body and the signature that the key gives for exactly that body.
\<close>

theorem qr_token_read_back:
  assumes "uuid_codec E parse" and "\<forall>i. unescaped (uuid_text E i)" and "int64 (EventID p)" and "int64 (SeatID p)"
  shows "decodeQR parse (HMACSigner hmac k) (encodeQR E (HMACSigner hmac k) p) = Inr p
    \<and> (\<forall>token p'. decodeQR parse (HMACSigner hmac k) token = Inr p' \<longrightarrow>
         (\<exists>body sig. split_on (CHR ''.'') token = [''v1'', body, sig]
            \<and> DecodeString sig = Some (hmac (bytes_of k) (bytes_of body))))"
proof (intro conjI allI impI)
  show "decodeQR parse (HMACSigner hmac k) (encodeQR E (HMACSigner hmac k) p) = Inr p"
    by (rule decode_encode [OF assms])
next
  fix token p' assume "decodeQR parse (HMACSigner hmac k) token = Inr p'"
  then show "\<exists>body sig. split_on (CHR ''.'') token = [''v1'', body, sig]
      \<and> DecodeString sig = Some (hmac (bytes_of k) (bytes_of body))"
    using hmac_signer.exact [of hmac k]
    by (auto simp: decodeQR_def HMACSigner_def split: list.splits option.splits if_splits)
qed

text \<open>Identifiers rendered in decimal, for the concrete instances.\<close>

definition parse_decimal :: "string \<Rightarrow> uuid option" where
  "parse_decimal s = (if s \<noteq> [] \<and> list_all is_digit s then Some (read_nat s) else None)"

lemma decimal_codec: "uuid_text E = show_nat \<Longrightarrow> uuid_codec E parse_decimal \<and> (\<forall>i. unescaped (uuid_text E i))"
proof -
  have small: "is_digit c \<Longrightarrow> of_char c < (128 :: nat)" for c by (simp add: is_digit_def)
  have "ascii (show_nat i) \<and> unescaped (show_nat i)" for i
    unfolding ascii_def unescaped_def list_all_iff using show_nat_digits [of _ i] small by blast
  moreover have "parse_decimal (show_nat i) = Some i" for i
    using show_nat_word by (simp add: parse_decimal_def)
  ultimately show "uuid_text E = show_nat \<Longrightarrow> ?thesis" by (simp add: uuid_codec_def)
qed

lemma sample_codec: "uuid_codec sample_env parse_decimal \<and> (\<forall>i. unescaped (uuid_text sample_env i))"
  by (rule decimal_codec) (simp add: sample_env_def)

theorem qr_token_read_back_witness:
  "decodeQR parse_decimal (HMACSigner (\<lambda>k m. k @ m) ''secret'')
     (encodeQR sample_env (HMACSigner (\<lambda>k m. k @ m) ''secret'')
        \<lparr>TicketID = 7, OrderID = 8, EventID = 1, SeatID = 12\<rparr>)
   = Inr \<lparr>TicketID = 7, OrderID = 8, EventID = 1, SeatID = 12\<rparr>"
  using qr_token_read_back [of sample_env parse_decimal] sample_codec by (simp add: int64_def)

lemma redeem_update:
  assumes "distinct (map tk_id ts)" and "count_where (redeemable i) ts \<noteq> 0"
  shows "\<exists>r \<in> set ts. redeemable i r \<and> count_where (redeemable i) (update_where (redeemable i) (\<lambda>r. r\<lparr>tk_redeemed := Some t\<rparr>) ts) = 0"
proof -
  have "\<exists>r \<in> set ts. redeemable i r"
    using assms(2) by (auto simp: count_where_def filter_empty_conv)
  moreover have "count_where (redeemable i) (update_where (redeemable i) (\<lambda>r. r\<lparr>tk_redeemed := Some t\<rparr>) ts) = 0"
    by (simp add: count_where_def filter_empty_conv update_where_def redeemable_def)
  ultimately show ?thesis by blast
qed

text \<open>
  C34: a ticket is redeemed once. When \<open>Redeem\<close> succeeds, the token decoded to a ticket that was
  neither redeemed nor revoked, that ticket is now marked redeemed at the time of the call and no
  other row changed; and a later scan of any token for the same ticket, with the ticket rows left as
  they are, is refused.
\<close>

theorem ticket_redeemed_once:
  fixes w w1 :: "('l, 'p) world"
  assumes "Redeem E parse T token w = (Inr (), w1)" and "distinct (map tk_id (t_tickets (w_db w)))"
  shows "\<exists>p. decodeQR parse (tg_signer T) token = Inr p
    \<and> (\<exists>r \<in> set (t_tickets (w_db w)). tk_id r = TicketID p \<and> tk_redeemed r = None \<and> tk_revoked r = None)
    \<and> w_db w1 = (w_db w)\<lparr>t_tickets := update_where (\<lambda>r. tk_id r = TicketID p)
         (\<lambda>r. r\<lparr>tk_redeemed := Some (now E w)\<rparr>) (t_tickets (w_db w))\<rparr>
    \<and> (\<forall>token' p' (w2 :: ('l, 'p) world). decodeQR parse (tg_signer T) token' = Inr p' \<longrightarrow> TicketID p' = TicketID p
         \<longrightarrow> t_tickets (w_db w2) = t_tickets (w_db w1)
         \<longrightarrow> fst (Redeem E parse T token' w2) \<in> {Inl AlreadyRedeemed, Inl Unavailable})"
proof -
  let ?ts = "t_tickets (w_db w)"
  obtain p where p: "decodeQR parse (tg_signer T) token = Inr p"
    using assms(1) by (auto simp: Redeem_def split: sum.splits)
  obtain n where x: "exec E (q_RedeemTicket (TicketID p)) w = (Inr n, w1)" "n \<noteq> 0"
    using assms(1) p by (auto simp: Redeem_def split: sum.splits prod.splits if_splits)
  let ?upd = "update_where (redeemable (TicketID p)) (\<lambda>r. r\<lparr>tk_redeemed := Some (now E w)\<rparr>) ?ts"
  have db: "w_db w1 = (w_db w)\<lparr>t_tickets := ?upd\<rparr>" and n: "n = count_where (redeemable (TicketID p)) ?ts"
    using x(1) by (auto simp: exec_def q_RedeemTicket_def split: fate.splits)
  obtain r where r: "r \<in> set ?ts" "redeemable (TicketID p) r" and none: "count_where (redeemable (TicketID p)) ?upd = 0"
    using redeem_update [OF assms(2), of "TicketID p" "now E w"] x(2) n by auto
  have inj: "inj_on tk_id (set ?ts)" using assms(2) by (simp add: distinct_map)
  have "redeemable (TicketID p) r' \<longleftrightarrow> tk_id r' = TicketID p" if "r' \<in> set ?ts" for r'
    using r that inj_onD [OF inj, of r' r] by (auto simp: redeemable_def)
  then have "?upd = update_where (\<lambda>r. tk_id r = TicketID p) (\<lambda>r. r\<lparr>tk_redeemed := Some (now E w)\<rparr>) ?ts"
    by (simp add: update_where_def)
  moreover have "fst (Redeem E parse T token' w2) \<in> {Inl AlreadyRedeemed, Inl Unavailable}"
    if "decodeQR parse (tg_signer T) token' = Inr p'" "TicketID p' = TicketID p"
      "t_tickets (w_db w2) = t_tickets (w_db w1)" for token' p' and w2 :: "('l, 'p) world"
    using that none db by (auto simp: Redeem_def exec_def q_RedeemTicket_def split: fate.splits)
  ultimately show ?thesis using p r db by (auto simp: redeemable_def)
qed

definition sample_ticket :: ticket_row where
  "sample_ticket = \<lparr>tk_id = 7, tk_order = 8, tk_event = 1, tk_seat = 12, tk_key = [], tk_redeemed = None, tk_revoked = None\<rparr>"

definition sample_ticketing :: ticketing where
  "sample_ticketing = \<lparr>tg_signer = HMACSigner (\<lambda>k m. k @ m) ''secret'', tg_bucket = ''tickets'',
     tg_render = (\<lambda>s. Inr (bytes_of s)), tg_presign = (\<lambda>b k. Inr k)\<rparr>"

definition gate_world :: "(unit, unit) world" where
  "gate_world = sample_world\<lparr>w_db := (w_db sample_world)\<lparr>t_tickets := [sample_ticket]\<rparr>\<rparr>"

definition gate_token :: string where
  "gate_token = encodeQR sample_env (tg_signer sample_ticketing) \<lparr>TicketID = 7, OrderID = 8, EventID = 1, SeatID = 12\<rparr>"

text \<open>The ticket is scanned twice.\<close>

theorem ticket_redeemed_once_witness:
  "fst (Redeem sample_env parse_decimal sample_ticketing gate_token gate_world) = Inr ()
   \<and> fst (Redeem sample_env parse_decimal sample_ticketing gate_token
        (snd (Redeem sample_env parse_decimal sample_ticketing gate_token gate_world)))
      \<in> {Inl AlreadyRedeemed, Inl Unavailable}"
proof -
  let ?r = "Redeem sample_env parse_decimal sample_ticketing gate_token"
  have d: "decodeQR parse_decimal (tg_signer sample_ticketing) gate_token
      = Inr \<lparr>TicketID = 7, OrderID = 8, EventID = 1, SeatID = 12\<rparr>"
    using decode_encode [of sample_env parse_decimal] sample_codec
    by (simp add: gate_token_def sample_ticketing_def int64_def)
  have ok: "fst (?r gate_world) = Inr ()"
    by (simp add: Redeem_def d gate_world_def sample_world_def sample_env_def exec_def q_RedeemTicket_def
        redeemable_def sample_ticket_def count_where_def)
  then have run: "?r gate_world = (Inr (), snd (?r gate_world))" by (simp add: prod_eq_iff)
  have "distinct (map tk_id (t_tickets (w_db gate_world)))" by (simp add: gate_world_def)
  from ticket_redeemed_once [OF run this] obtain p where p: "decodeQR parse_decimal (tg_signer sample_ticketing) gate_token = Inr p"
    and later: "\<forall>token' p' (w2 :: (unit, unit) world). decodeQR parse_decimal (tg_signer sample_ticketing) token' = Inr p' \<longrightarrow> TicketID p' = TicketID p
      \<longrightarrow> t_tickets (w_db w2) = t_tickets (w_db (snd (?r gate_world))) \<longrightarrow> fst (Redeem sample_env parse_decimal sample_ticketing token' w2) \<in> {Inl AlreadyRedeemed, Inl Unavailable}"
    by blast
  from later [rule_format, OF p refl refl] have "fst (?r (snd (?r gate_world))) \<in> {Inl AlreadyRedeemed, Inl Unavailable}" .
  with ok show ?thesis by simp
qed

end
