(* ===== verification/Waitingroom.thy ===== *)
theory Waitingroom
  imports Projector Redeem "HOL-Library.Product_Lexorder" "HOL-Library.Multiset"
begin

section \<open>internal/waitingroom: the virtual waiting room\<close>

text \<open>
  \<open>queue.go\<close>, \<open>controller.go\<close>, \<open>metrics.go\<close>, \<open>token.go\<close> and \<open>middleware.go\<close>. The Redis commands
  are the fields of \<open>room_store\<close>. A \<open>float64\<close> is the rational it stands for and \<open>fl\<close> is the
  rounding of an operation's exact result; \<open>rounding\<close> states what the properties need of it.
  Scores are microseconds, which a \<open>float64\<close> holds exactly. The nonce of a token is an argument.
\<close>

subsection \<open>The commands\<close>

record 's room_store =
  zs_addnx :: "string \<Rightarrow> int \<Rightarrow> string \<Rightarrow> 's \<Rightarrow> 's"
  zs_score :: "string \<Rightarrow> string \<Rightarrow> 's \<Rightarrow> int option"
  zs_rank :: "string \<Rightarrow> string \<Rightarrow> 's \<Rightarrow> nat option"
  rm_int :: "string \<Rightarrow> 's \<Rightarrow> int option"
  rm_incrby :: "string \<Rightarrow> int \<Rightarrow> 's \<Rightarrow> 's"
  rm_float :: "string \<Rightarrow> 's \<Rightarrow> rat option"
  rm_set :: "string \<Rightarrow> rat \<Rightarrow> 's \<Rightarrow> 's"

text \<open>
  ZADD NX gives a new member its score and leaves a present one alone; ZRANK counts the members
  before one in the order of score, then member. A command changes the key it names only.
\<close>

definition ahead :: "'s room_store \<Rightarrow> string \<Rightarrow> string \<Rightarrow> 's \<Rightarrow> string set" where
  "ahead Q k m s =
     {m'. \<exists>a b. zs_score Q k m' s = Some a \<and> zs_score Q k m s = Some b \<and> (a, map (of_char :: char \<Rightarrow> nat) m') < (b, map of_char m)}"

definition law_zset :: "'s room_store \<Rightarrow> bool" where
  "law_zset Q \<longleftrightarrow> (\<forall>k x m s k' m'.
     zs_score Q k' m' (zs_addnx Q k x m s)
       = (if k' = k \<and> m' = m \<and> zs_score Q k m s = None then Some x else zs_score Q k' m' s)
   \<and> zs_rank Q k m s = (if zs_score Q k m s = None then None else Some (card (ahead Q k m s)))
   \<and> finite {m. zs_score Q k m s \<noteq> None}
   \<and> rm_int Q k' (zs_addnx Q k x m s) = rm_int Q k' s \<and> rm_float Q k' (zs_addnx Q k x m s) = rm_float Q k' s)"

definition law_counters :: "'s room_store \<Rightarrow> bool" where
  "law_counters Q \<longleftrightarrow> (\<forall>k n x s k' m.
     rm_int Q k (rm_incrby Q k n s) = Some ((case rm_int Q k s of None \<Rightarrow> 0 | Some c \<Rightarrow> c) + n)
   \<and> rm_float Q k (rm_set Q k x s) = Some x
   \<and> (k' \<noteq> k \<longrightarrow> rm_int Q k' (rm_incrby Q k n s) = rm_int Q k' s \<and> rm_int Q k' (rm_set Q k x s) = rm_int Q k' s
        \<and> rm_float Q k' (rm_incrby Q k n s) = rm_float Q k' s \<and> rm_float Q k' (rm_set Q k x s) = rm_float Q k' s)
   \<and> (\<forall>z. zs_score Q z m (rm_incrby Q k n s) = zs_score Q z m s \<and> zs_score Q z m (rm_set Q k x s) = zs_score Q z m s))"

definition room_laws :: "'s room_store \<Rightarrow> bool" where
  "room_laws Q \<longleftrightarrow> law_zset Q \<and> law_counters Q"

definition rounding :: "(rat \<Rightarrow> rat) \<Rightarrow> bool" where
  "rounding fl \<longleftrightarrow> (\<forall>x y. x \<le> y \<longrightarrow> fl x \<le> fl y) \<and> (\<forall>n. abs n \<le> 2 ^ 53 \<longrightarrow> fl (of_int n) = of_int n)"

text \<open>Conversion to an integer truncates.\<close>

definition truncate_int :: "rat \<Rightarrow> int" where
  "truncate_int x = (if x < 0 then - \<lfloor>- x\<rfloor> else \<lfloor>x\<rfloor>)"

definition queueKey :: "int \<Rightarrow> string" where "queueKey ev = event_key ev ''q''"
definition cursorKey :: "int \<Rightarrow> string" where "cursorKey ev = event_key ev ''cursor''"
definition rateKey :: "int \<Rightarrow> string" where "rateKey ev = event_key ev ''rate''"

definition DefaultRate :: rat where "DefaultRate = 1"

subsection \<open>Admission tokens\<close>

definition tokenTTL :: time where "tokenTTL = 15 * 60 * 1000000"

datatype token_error = ErrInvalidToken | ErrTokenExpired | ErrSubMismatch

record tokenPayload =
  Sub :: string
  Eid :: int
  Pos :: int
  IssuedAt :: int
  ExpAt :: int
  Nonce :: string

definition unix :: "time \<Rightarrow> int" where "unix t = t div 1000000"

definition token_value :: "tokenPayload \<Rightarrow> json" where
  "token_value p = JObject
     [(''sub'', JString (Sub p)), (''eid'', JNumber (show_int (Eid p))), (''pos'', JNumber (show_int (Pos p))),
      (''iat'', JNumber (show_int (IssuedAt p))), (''exp'', JNumber (show_int (ExpAt p))), (''nonce'', JString (Nonce p))]"

definition sign :: "(bytes \<Rightarrow> bytes \<Rightarrow> bytes) \<Rightarrow> string \<Rightarrow> string \<Rightarrow> bytes" where
  "sign hmac secret b64body = hmac (bytes_of secret) (bytes_of b64body)"

definition issueToken ::
    "(bytes \<Rightarrow> bytes \<Rightarrow> bytes) \<Rightarrow> string \<Rightarrow> string \<Rightarrow> time \<Rightarrow> string \<Rightarrow> int \<Rightarrow> int \<Rightarrow> string" where
  "issueToken hmac secret nonce t sub ev pos =
     (let payload = \<lparr>Sub = sub, Eid = ev, Pos = pos, IssuedAt = unix t, ExpAt = unix (t + tokenTTL), Nonce = nonce\<rparr>;
          b64body = EncodeToString (bytes_of (render (token_value payload)))
      in ''v1.'' @ b64body @ ''.'' @ EncodeToString (sign hmac secret b64body))"

definition token_fields :: "string list" where
  "token_fields = [''sub'', ''eid'', ''pos'', ''iat'', ''exp'', ''nonce'']"

definition unmarshal_token :: "string \<Rightarrow> tokenPayload option" where
  "unmarshal_token s =
     (case Unmarshal s of None \<Rightarrow> None | Some v \<Rightarrow>
     (case members_of v of None \<Rightarrow> None | Some ms \<Rightarrow>
        (let (sub, ok1) = assign_all string_into [] (assigned token_fields ''sub'' ms);
             (eid, ok2) = assign_all (int_into 64) 0 (assigned token_fields ''eid'' ms);
             (pos, ok3) = assign_all (int_into 64) 0 (assigned token_fields ''pos'' ms);
             (iat, ok4) = assign_all (int_into 64) 0 (assigned token_fields ''iat'' ms);
             (expat, ok5) = assign_all (int_into 64) 0 (assigned token_fields ''exp'' ms);
             (nonce, ok6) = assign_all string_into [] (assigned token_fields ''nonce'' ms)
         in if ok1 \<and> ok2 \<and> ok3 \<and> ok4 \<and> ok5 \<and> ok6
            then Some \<lparr>Sub = sub, Eid = eid, Pos = pos, IssuedAt = iat, ExpAt = expat, Nonce = nonce\<rparr> else None)))"

definition VerifyToken ::
    "(bytes \<Rightarrow> bytes \<Rightarrow> bytes) \<Rightarrow> string \<Rightarrow> time \<Rightarrow> string \<Rightarrow> string \<Rightarrow> int \<Rightarrow> token_error option" where
  "VerifyToken hmac secret t token expectedSub expectedEvent =
     (case split_on (CHR ''.'') token of
        [v, body, sig] \<Rightarrow>
          if v \<noteq> ''v1'' then Some ErrInvalidToken
          else
            (case DecodeString sig of
               None \<Rightarrow> Some ErrInvalidToken
             | Some gotSig \<Rightarrow>
                 if gotSig \<noteq> sign hmac secret body then Some ErrInvalidToken
                 else
                   (case DecodeString body of
                      None \<Rightarrow> Some ErrInvalidToken
                    | Some bs \<Rightarrow>
                        (case unmarshal_token (string_of bs) of
                           None \<Rightarrow> Some ErrInvalidToken
                         | Some p \<Rightarrow>
                             if Eid p \<noteq> expectedEvent then Some ErrInvalidToken
                             else if Sub p \<noteq> expectedSub then Some ErrSubMismatch
                             else if unix t > ExpAt p then Some ErrTokenExpired
                             else None)))
      | _ \<Rightarrow> Some ErrInvalidToken)"

subsection \<open>Join\<close>

datatype join_result = Admitted string | Waiting int int

definition cursorValue :: "env \<Rightarrow> 's room_store \<Rightarrow> int \<Rightarrow> ('s, 'p) world \<Rightarrow> (error + int) \<times> ('s, 'p) world" where
  "cursorValue E Q ev w =
     (case rcall E (\<lambda>s. (rm_int Q (cursorKey ev) s, s)) w of
        (Inl e, w') \<Rightarrow> (Inl e, w')
      | (Inr None, w') \<Rightarrow> (Inr 0, w')
      | (Inr (Some c), w') \<Rightarrow> (Inr c, w'))"

definition currentRate :: "env \<Rightarrow> 's room_store \<Rightarrow> int \<Rightarrow> ('s, 'p) world \<Rightarrow> (error + rat) \<times> ('s, 'p) world" where
  "currentRate E Q ev w =
     (case rcall E (\<lambda>s. (rm_float Q (rateKey ev) s, s)) w of
        (Inl e, w') \<Rightarrow> (Inl e, w')
      | (Inr None, w') \<Rightarrow> (Inr DefaultRate, w')
      | (Inr (Some x), w') \<Rightarrow> (Inr x, w'))"

definition Join ::
    "env \<Rightarrow> (rat \<Rightarrow> rat) \<Rightarrow> (bytes \<Rightarrow> bytes \<Rightarrow> bytes) \<Rightarrow> string \<Rightarrow> string \<Rightarrow> 's room_store \<Rightarrow> int \<Rightarrow> string
     \<Rightarrow> ('s, 'p) world \<Rightarrow> (error + join_result) \<times> ('s, 'p) world" where
  "Join E fl hmac secret nonce Q ev sub w =
     (case rcall E (\<lambda>s. ((), zs_addnx Q (queueKey ev) (now E w) sub s)) w of
        (Inl e, w1) \<Rightarrow> (Inl e, w1)
      | (Inr _, w1) \<Rightarrow>
     (case rcall E (\<lambda>s. (zs_rank Q (queueKey ev) sub s, s)) w1 of
        (Inl e, w2) \<Rightarrow> (Inl e, w2)
      | (Inr None, w2) \<Rightarrow> (Inl (OtherError ''rank: redis: nil''), w2)
      | (Inr (Some rank), w2) \<Rightarrow>
     (case cursorValue E Q ev w2 of
        (Inl e, w3) \<Rightarrow> (Inl e, w3)
      | (Inr cursor, w3) \<Rightarrow>
     if int rank < cursor then (Inr (Admitted (issueToken hmac secret nonce (now E w3) sub ev (int rank))), w3)
     else
       (case currentRate E Q ev w3 of
          (Inl e, w4) \<Rightarrow> (Inl e, w4)
        | (Inr rate, w4) \<Rightarrow>
            (let position = int rank - cursor in
             (Inr (Waiting position (truncate_int (fl (of_int position / rate)))), w4))))))"

subsection \<open>HoldMetrics\<close>

record hold_metrics =
  hm_latencies :: "int list"
  hm_failed :: "bool list"
  hm_idx :: nat
  hm_filled :: bool
  hm_cap :: nat

definition NewHoldMetrics :: "nat \<Rightarrow> hold_metrics" where
  "NewHoldMetrics capacity =
     \<lparr>hm_latencies = replicate capacity 0, hm_failed = replicate capacity False, hm_idx = 0, hm_filled = False, hm_cap = capacity\<rparr>"

definition Record :: "int \<Rightarrow> bool \<Rightarrow> hold_metrics \<Rightarrow> hold_metrics" where
  "Record d bad m =
     (let m1 = m\<lparr>hm_latencies := (hm_latencies m)[hm_idx m := d], hm_failed := (hm_failed m)[hm_idx m := bad],
                 hm_idx := hm_idx m + 1\<rparr>
      in if hm_idx m1 = hm_cap m1 then m1\<lparr>hm_idx := 0, hm_filled := True\<rparr> else m1)"

definition snapshot :: "hold_metrics \<Rightarrow> int list \<times> bool list" where
  "snapshot m = (let n = (if hm_filled m then hm_cap m else hm_idx m) in (take n (hm_latencies m), take n (hm_failed m)))"

definition P99 :: "(rat \<Rightarrow> rat) \<Rightarrow> hold_metrics \<Rightarrow> int" where
  "P99 fl m =
     (let lat = sort (fst (snapshot m)) in
      if lat = [] then 0
      else
        (let idx = nat \<lfloor>fl (of_nat (length lat) * fl (99 / 100))\<rfloor> in
         lat ! (if idx \<ge> length lat then length lat - 1 else idx)))"

definition ErrorRate :: "(rat \<Rightarrow> rat) \<Rightarrow> hold_metrics \<Rightarrow> rat" where
  "ErrorRate fl m =
     (let failed = snd (snapshot m) in
      if failed = [] then 0 else fl (of_nat (length (filter (\<lambda>f. f) failed)) / of_nat (length failed)))"

subsection \<open>The AIMD controller\<close>

definition LatencyRedThreshold :: int where "LatencyRedThreshold = 500 * 1000000"
definition PoolRedThreshold :: "(rat \<Rightarrow> rat) \<Rightarrow> rat" where "PoolRedThreshold fl = fl (80 / 100)"
definition ErrorRateRedThreshold :: "(rat \<Rightarrow> rat) \<Rightarrow> rat" where "ErrorRateRedThreshold fl = fl (1 / 100)"
definition MinRate :: rat where "MinRate = 1"
definition MaxRate :: rat where "MaxRate = 1000"
definition AdditiveStep :: rat where "AdditiveStep = 5"

record tick_result =
  tr_rate :: rat
  tr_cursor :: int
  tr_p99 :: rat
  tr_pool :: rat
  tr_errors :: rat
  tr_red_latency :: bool
  tr_red_pool :: bool
  tr_red_errors :: bool

definition next_rate :: "(rat \<Rightarrow> rat) \<Rightarrow> bool \<Rightarrow> rat \<Rightarrow> rat" where
  "next_rate fl anyRed rate =
     (if anyRed then max (fl (rate * (1 / 2))) MinRate else min (fl (rate + AdditiveStep)) MaxRate)"

definition utilization :: "(rat \<Rightarrow> rat) \<Rightarrow> nat \<Rightarrow> nat \<Rightarrow> rat" where
  "utilization fl acquired maxconns = (if maxconns > 0 then fl (of_nat acquired / of_nat maxconns) else 0)"

definition Tick ::
    "env \<Rightarrow> (rat \<Rightarrow> rat) \<Rightarrow> 's room_store \<Rightarrow> hold_metrics \<Rightarrow> nat \<times> nat \<Rightarrow> int \<Rightarrow> ('s, 'p) world
     \<Rightarrow> (error + tick_result) \<times> ('s, 'p) world" where
  "Tick E fl Q m pool ev w =
     (let p99 = P99 fl m; errRate = ErrorRate fl m; util = utilization fl (fst pool) (snd pool);
          redLatency = p99 > LatencyRedThreshold; redPool = util > PoolRedThreshold fl;
          redErrors = errRate > ErrorRateRedThreshold fl
      in case currentRate E Q ev w of
        (Inl e, w1) \<Rightarrow> (Inl e, w1)
      | (Inr old, w1) \<Rightarrow>
     (let rate = next_rate fl (redLatency \<or> redPool \<or> redErrors) old in
      case rcall E (\<lambda>s. ((), rm_set Q (rateKey ev) rate s)) w1 of
        (Inl e, w2) \<Rightarrow> (Inl e, w2)
      | (Inr _, w2) \<Rightarrow>
     (case rcall E (\<lambda>s. let s' = rm_incrby Q (cursorKey ev) (truncate_int rate) s in (rm_int Q (cursorKey ev) s', s')) w2 of
        (Inl e, w3) \<Rightarrow> (Inl e, w3)
      | (Inr c, w3) \<Rightarrow>
     (let r = \<lparr>tr_rate = rate, tr_cursor = (case c of None \<Rightarrow> 0 | Some c \<Rightarrow> c),
               tr_p99 = fl (of_int (p99 div 1000) / 1000), tr_pool = util, tr_errors = errRate,
               tr_red_latency = redLatency, tr_red_pool = redPool, tr_red_errors = redErrors\<rparr> in
      case exec E (q_InsertWaitingRoomAudit ev (tr_rate r) (tr_cursor r) (tr_p99 r) (tr_pool r) (tr_errors r)
                     redLatency redPool redErrors) w3 of
        (Inl e, w4) \<Rightarrow> (Inl e, w4)
      | (Inr _, w4) \<Rightarrow> (Inr r, w4)))))"

text \<open>The loop of \<open>internal/wiring\<close>: one tick for every event, errors being logged.\<close>

fun tick_events ::
    "env \<Rightarrow> (rat \<Rightarrow> rat) \<Rightarrow> 's room_store \<Rightarrow> hold_metrics \<Rightarrow> nat \<times> nat \<Rightarrow> int list \<Rightarrow> ('s, 'p) world \<Rightarrow> ('s, 'p) world" where
  "tick_events E fl Q m pool [] w = w"
| "tick_events E fl Q m pool (ev # evs) w = tick_events E fl Q m pool evs (snd (Tick E fl Q m pool ev w))"

definition runAIMDLoop ::
    "env \<Rightarrow> (rat \<Rightarrow> rat) \<Rightarrow> 's room_store \<Rightarrow> hold_metrics \<Rightarrow> nat \<times> nat \<Rightarrow> ('s, 'p) world \<Rightarrow> ('s, 'p) world" where
  "runAIMDLoop E fl Q m pool w =
     (case exec E q_ListAllEventIDs w of
        (Inl _, w') \<Rightarrow> w'
      | (Inr evs, w') \<Rightarrow> tick_events E fl Q m pool evs w')"

subsection \<open>Tokens are bound to their user\<close>

lemma unmarshal_token_value:
  assumes "ascii (Sub p)" "ascii (Nonce p)" "int64 (Eid p)" "int64 (Pos p)" "int64 (IssuedAt p)" "int64 (ExpAt p)"
  shows "unmarshal_token (render (token_value p)) = Some p"
proof -
  have "plain_json (token_value p)"
    using assms by (simp add: token_value_def ascii_def number_show_int show_int_word)
  then have "Unmarshal (render (token_value p)) = Some (token_value p)" by (rule Unmarshal_render)
  moreover have "parse_int 64 (show_int n) = Some n" if "int64 n" for n
    using that by (simp add: parse_show_int int64_def)
  ultimately show ?thesis using assms
    by (simp add: unmarshal_token_def token_value_def members_of_def assigned_def names_field_def token_fields_def)
qed

lemma verify_issued:
  assumes "ascii sub" "ascii nonce" "int64 ev" "int64 pos" "int64 (unix t)" "int64 (unix (t + tokenTTL))"
  shows "VerifyToken hmac secret t' (issueToken hmac secret nonce t sub ev pos) sub' ev' =
    (if ev \<noteq> ev' then Some ErrInvalidToken
     else if sub \<noteq> sub' then Some ErrSubMismatch
     else if unix t' > unix (t + tokenTTL) then Some ErrTokenExpired else None)"
proof -
  let ?p = "\<lparr>Sub = sub, Eid = ev, Pos = pos, IssuedAt = unix t, ExpAt = unix (t + tokenTTL), Nonce = nonce\<rparr>"
  let ?body = "bytes_of (render (token_value ?p))"
  have "unmarshal_token (render (token_value ?p)) = Some ?p"
    using assms by (intro unmarshal_token_value) simp_all
  then show ?thesis
    using split_token [of ?body "sign hmac secret (EncodeToString ?body)"]
    by (simp add: VerifyToken_def issueToken_def Let_def)
qed

lemma verify_signed:
  "VerifyToken hmac secret t token sub ev = None \<Longrightarrow>
   \<exists>body sig p. split_on (CHR ''.'') token = [''v1'', body, sig] \<and> DecodeString sig = Some (sign hmac secret body)
     \<and> unmarshal_token (string_of (the (DecodeString body))) = Some p \<and> Sub p = sub \<and> Eid p = ev \<and> unix t \<le> ExpAt p"
  by (auto simp: VerifyToken_def split: list.splits option.splits if_splits)

subsection \<open>The queue\<close>

lemma room_keys [simp]:
  "queueKey e \<noteq> cursorKey e'" "cursorKey e \<noteq> queueKey e'" "rateKey e \<noteq> cursorKey e'" "cursorKey e \<noteq> rateKey e'"
  "rateKey e \<noteq> queueKey e'" "queueKey e \<noteq> rateKey e'"
  "cursorKey e = cursorKey e' \<longleftrightarrow> e = e'" "rateKey e = rateKey e' \<longleftrightarrow> e = e'" "queueKey e = queueKey e' \<longleftrightarrow> e = e'"
  by (simp_all add: queueKey_def cursorKey_def rateKey_def event_key_inj)

lemma zset_laws:
  assumes "room_laws Q"
  shows "zs_score Q k' m' (zs_addnx Q k x m s)
       = (if k' = k \<and> m' = m \<and> zs_score Q k m s = None then Some x else zs_score Q k' m' s)"
    and "zs_rank Q k m s = (if zs_score Q k m s = None then None else Some (card (ahead Q k m s)))"
    and "rm_int Q k' (zs_addnx Q k x m s) = rm_int Q k' s"
    and "rm_float Q k' (zs_addnx Q k x m s) = rm_float Q k' s"
  using assms unfolding room_laws_def law_zset_def by blast+

lemma counter_laws:
  assumes "room_laws Q"
  shows "rm_int Q k (rm_incrby Q k n s) = Some ((case rm_int Q k s of None \<Rightarrow> 0 | Some c \<Rightarrow> c) + n)"
    and "rm_float Q k (rm_set Q k x s) = Some x"
    and "k' \<noteq> k \<Longrightarrow> rm_int Q k' (rm_incrby Q k n s) = rm_int Q k' s"
    and "k' \<noteq> k \<Longrightarrow> rm_int Q k' (rm_set Q k x s) = rm_int Q k' s"
    and "k' \<noteq> k \<Longrightarrow> rm_float Q k' (rm_incrby Q k n s) = rm_float Q k' s"
    and "zs_score Q z m (rm_incrby Q k n s) = zs_score Q z m s" and "zs_score Q z m (rm_set Q k x s) = zs_score Q z m s"
proof -
  have "law_counters Q" using assms by (simp add: room_laws_def)
  note l = this [unfolded law_counters_def, rule_format, of k n s x k' m]
  show "rm_int Q k (rm_incrby Q k n s) = Some ((case rm_int Q k s of None \<Rightarrow> 0 | Some c \<Rightarrow> c) + n)" using l by blast
  show "rm_float Q k (rm_set Q k x s) = Some x" using l by blast
  show "k' \<noteq> k \<Longrightarrow> rm_int Q k' (rm_incrby Q k n s) = rm_int Q k' s" using l by blast
  show "k' \<noteq> k \<Longrightarrow> rm_int Q k' (rm_set Q k x s) = rm_int Q k' s" using l by blast
  show "k' \<noteq> k \<Longrightarrow> rm_float Q k' (rm_incrby Q k n s) = rm_float Q k' s" using l by blast
  show "zs_score Q z m (rm_incrby Q k n s) = zs_score Q z m s" using l by blast
  show "zs_score Q z m (rm_set Q k x s) = zs_score Q z m s" using l by blast
qed

lemma ahead_addnx:
  assumes "room_laws Q" and "zs_score Q k m s \<noteq> None" and "\<And>m y. zs_score Q k m s = Some y \<Longrightarrow> y < x"
  shows "ahead Q k m (zs_addnx Q k x sub s) = ahead Q k m s"
proof (cases "zs_score Q k sub s")
  case None
  then have m: "m \<noteq> sub" using assms(2) by auto
  obtain b where b: "zs_score Q k m s = Some b" using assms(2) by blast
  then have "b < x" by (rule assms(3))
  with None m b show ?thesis unfolding ahead_def zset_laws(1) [OF assms(1)] by auto
next
  case (Some a)
  then show ?thesis unfolding ahead_def zset_laws(1) [OF assms(1)] by simp
qed

lemma rank_kept:
  assumes "room_laws Q" and "zs_score Q k m s \<noteq> None" and "\<And>m y. zs_score Q k m s = Some y \<Longrightarrow> y < x"
  shows "zs_rank Q k m (zs_addnx Q k x sub s) = zs_rank Q k m s"
  using assms ahead_addnx [OF assms] by (simp add: zset_laws [OF assms(1)])

definition cursor_of :: "'s room_store \<Rightarrow> int \<Rightarrow> 's \<Rightarrow> int" where
  "cursor_of Q ev s = (case rm_int Q (cursorKey ev) s of None \<Rightarrow> 0 | Some c \<Rightarrow> c)"

definition rate_of :: "'s room_store \<Rightarrow> int \<Rightarrow> 's \<Rightarrow> rat" where
  "rate_of Q ev s = (case rm_float Q (rateKey ev) s of None \<Rightarrow> DefaultRate | Some x \<Rightarrow> x)"

lemma reads_Done:
  assumes "\<forall>n. fate_of E n = Done"
  shows "cursorValue E Q ev w = (Inr (cursor_of Q ev (w_lock w)), tick w)"
    and "currentRate E Q ev w = (Inr (rate_of Q ev (w_lock w)), tick w)"
  by (simp_all add: cursorValue_def currentRate_def cursor_of_def rate_of_def rcall_Done [OF assms] tick_def split: option.splits)

lemma Join_Done:
  assumes E: "\<forall>n. fate_of E n = Done" and Q: "room_laws Q" and s: "s = zs_addnx Q (queueKey ev) (now E w) sub (w_lock w)"
  shows "\<exists>w' rank. zs_rank Q (queueKey ev) sub s = Some rank \<and> w_lock w' = s
    \<and> Join E fl hmac secret nonce Q ev sub w
      = (Inr (if int rank < cursor_of Q ev s
              then Admitted (issueToken hmac secret nonce (clock_at E (w_calls w + 3)) sub ev (int rank))
              else Waiting (int rank - cursor_of Q ev s)
                     (truncate_int (fl (of_int (int rank - cursor_of Q ev s) / rate_of Q ev s)))), w')"
proof -
  have "zs_score Q (queueKey ev) sub s \<noteq> None" by (simp add: s zset_laws [OF Q])
  then obtain rank where "zs_rank Q (queueKey ev) sub s = Some rank" by (simp add: zset_laws(2) [OF Q])
  define w1 where "w1 = (tick w)\<lparr>w_lock := s\<rparr>"
  have w1: "w_lock w1 = s" "w_calls w1 = Suc (w_calls w)" by (simp_all add: w1_def tick_def)
  have a: "rcall E (\<lambda>l. ((), zs_addnx Q (queueKey ev) (now E w) sub l)) w = (Inr (), w1)"
    by (simp add: rcall_Done [OF E] s w1_def)
  have b: "rcall E (\<lambda>l. (zs_rank Q (queueKey ev) sub l, l)) w1 = (Inr (Some rank), tick w1)"
    using \<open>zs_rank Q (queueKey ev) sub s = Some rank\<close> by (simp add: rcall_Done [OF E] tick_def w1)
  have l: "w_lock (tick w1) = s" "w_lock (tick (tick w1)) = s" "w_lock (tick (tick (tick w1))) = s" by (simp_all add: tick_def w1)
  have t: "now E (tick (tick w1)) = clock_at E (w_calls w + 3)" by (simp add: now_def tick_def w1 numeral_3_eq_3)
  show ?thesis
    using \<open>zs_rank Q (queueKey ev) sub s = Some rank\<close> l
    by (simp add: Join_def a b reads_Done [OF E] t Let_def)
qed

subsection \<open>The metrics window\<close>

text \<open>
  The ring buffer holds the last \<open>cap\<close> outcomes: the j-th outcome recorded is at index j mod cap
  until it is overwritten.
\<close>

definition recorded :: "nat \<Rightarrow> (int \<times> bool) list \<Rightarrow> hold_metrics \<Rightarrow> bool" where
  "recorded c h m \<longleftrightarrow>
     hm_cap m = c \<and> length (hm_latencies m) = c \<and> length (hm_failed m) = c
   \<and> hm_idx m = length h mod c \<and> (hm_filled m \<longleftrightarrow> c \<le> length h)
   \<and> (\<forall>j < length h. length h \<le> j + c \<longrightarrow> (hm_latencies m ! (j mod c), hm_failed m ! (j mod c)) = h ! j)"

lemma mod_window: fixes i j c :: nat shows "i < j \<Longrightarrow> j < i + c \<Longrightarrow> i mod c \<noteq> j mod (c :: nat)"
proof
  assume "i < j" "j < i + c" "i mod c = j mod c"
  then have "c dvd j - i" using mod_eq_dvd_iff_nat [of i j c] by simp
  with \<open>i < j\<close> \<open>j < i + c\<close> show False by (auto dest: dvd_imp_le)
qed

lemma recorded_step: "0 < c \<Longrightarrow> recorded c h m \<Longrightarrow> recorded c (h @ [(d, bad)]) (Record d bad m)"
proof -
  assume c: "0 < c" and r: "recorded c h m"
  let ?k = "length h mod c"
  have k: "?k < c" using c by simp
  have idx: "(if ?k + 1 = c then 0 else ?k + 1) = Suc (length h) mod c" by (simp add: mod_Suc)
  have entries: "((hm_latencies m)[?k := d] ! (j mod c), (hm_failed m)[?k := bad] ! (j mod c)) = (h @ [(d, bad)]) ! j"
    if "j < Suc (length h)" "Suc (length h) \<le> j + c" for j
  proof (cases "j = length h")
    case False
    with that mod_window [of j "length h" c] have "j mod c \<noteq> ?k" "j < length h" by auto
    then show ?thesis using r that by (simp add: recorded_def nth_append)
  qed (use r k in \<open>simp add: recorded_def\<close>)
  have fill: "hm_filled m \<or> ?k + 1 = c \<longleftrightarrow> c \<le> Suc (length h)"
  proof
    assume "hm_filled m \<or> ?k + 1 = c"
    then show "c \<le> Suc (length h)" using r mod_less_eq_dividend [of "length h" c] by (auto simp: recorded_def)
  next
    assume "c \<le> Suc (length h)"
    then have "c \<le> length h \<or> c = Suc (length h)" by auto
    then show "hm_filled m \<or> ?k + 1 = c" using r by (elim disjE) (simp_all add: recorded_def)
  qed
  show ?thesis
    using r idx entries fill by (auto simp: recorded_def Record_def Let_def)
qed

lemma recorded_fold: "0 < c \<Longrightarrow> recorded c h (fold (\<lambda>(d, bad). Record d bad) h (NewHoldMetrics c))"
proof (induction h rule: rev_induct)
  case Nil
  then show ?case by (simp add: recorded_def NewHoldMetrics_def)
next
  case (snoc x h)
  then show ?case using recorded_step [of c h _ "fst x" "snd x"] by (cases x) simp
qed

lemma window_bij:
  fixes c n :: nat
  assumes "c \<le> n" "0 < c"
  shows "bij_betw (\<lambda>j. j mod c) {n - c..<n} {..<c}"
proof -
  have "inj_on (\<lambda>j. j mod c) {n - c..<n}"
  proof (rule inj_onI)
    fix i j assume ij: "i \<in> {n - c..<n}" "j \<in> {n - c..<n}" "i mod c = j mod c"
    then have "i < n" "j < n" "n \<le> i + c" "n \<le> j + c" by auto
    then have "j < i + c" "i < j + c" by linarith+
    then have "\<not> i < j" "\<not> j < i"
      using mod_window [of i j c] mod_window [of j i c] ij(3) by auto
    then show "i = j" by simp
  qed
  moreover have "(\<lambda>j. j mod c) ` {n - c..<n} \<subseteq> {..<c}" using assms(2) by auto
  moreover have "card {n - c..<n} = card {..<c}" using assms(1) by simp
  ultimately show ?thesis by (simp add: bij_betw_def card_subset_eq card_image)
qed

lemma mset_nth: "mset (map f [a..<b]) = image_mset f (mset_set {a..<b})"
  by (simp add: mset_map)

lemma snapshot_window:
  assumes "recorded c h m" and "0 < c"
  shows "mset (zip (fst (snapshot m)) (snd (snapshot m))) = mset (drop (length h - c) h)
    \<and> length (fst (snapshot m)) = min c (length h) \<and> length (snd (snapshot m)) = min c (length h)"
proof -
  let ?z = "zip (hm_latencies m) (hm_failed m)" and ?n = "min c (length h)"
  have len: "length ?z = c" using assms(1) by (simp add: recorded_def)
  have at: "?z ! (j mod c) = h ! j" if "j < length h" "length h \<le> j + c" for j
    using that assms by (simp add: recorded_def)
  have snap: "snapshot m = (take ?n (hm_latencies m), take ?n (hm_failed m))"
    using assms by (cases "c \<le> length h") (auto simp: snapshot_def recorded_def min_def Let_def)
  have "mset (take ?n ?z) = mset (drop (length h - c) h)"
  proof (cases "c \<le> length h")
    case True
    have "take ?n ?z = map ((!) ?z) [0..<c]" using len True by (intro nth_equalityI) auto
    then have "mset (take ?n ?z) = image_mset ((!) ?z) (mset_set {..<c})"
      by (simp add: mset_nth lessThan_atLeast0)
    also have "\<dots> = image_mset ((!) ?z) (image_mset (\<lambda>j. j mod c) (mset_set {length h - c..<length h}))"
      using window_bij [OF True assms(2)] by (simp add: image_mset_mset_set bij_betw_def)
    also have "\<dots> = image_mset (\<lambda>j. h ! j) (mset_set {length h - c..<length h})"
      using at True by (simp add: image_mset.compositionality comp_def) (rule image_mset_cong, auto)
    also have "\<dots> = mset (map ((!) h) [length h - c..<length h])" by (simp add: mset_nth)
    also have "map ((!) h) [length h - c..<length h] = drop (length h - c) h"
      by (rule nth_equalityI) auto
    finally show ?thesis .
  next
    case False
    have "take (length h) ?z = h"
      using at len False by (intro nth_equalityI) auto
    with False show ?thesis by simp
  qed
  then show ?thesis using snap assms by (simp add: take_zip recorded_def)
qed

lemma sort_mset_cong: "mset xs = mset ys \<Longrightarrow> sort xs = sort (ys :: int list)"
  by (metis sorted_list_of_multiset_mset)

subsection \<open>Ticks\<close>

lemma next_rate_bounds:
  assumes "rounding fl" and "1 \<le> rate" and "rate \<le> 1000"
  shows "1 \<le> next_rate fl anyRed rate \<and> next_rate fl anyRed rate \<le> 1000"
proof -
  have mono: "x \<le> y \<Longrightarrow> fl x \<le> fl y" for x y using assms(1) by (simp add: rounding_def)
  have int: "fl (of_int n) = of_int n" if "abs n \<le> 2 ^ 53" for n using assms(1) that by (simp add: rounding_def)
  have "fl (rate * (1 / 2)) \<le> fl (of_int 500)" using assms(3) by (intro mono) simp
  then have "fl (rate * (1 / 2)) \<le> 500" using int [of 500] by simp
  moreover have "fl (of_int 6) \<le> fl (rate + 5)" using assms(2) by (intro mono) simp
  then have "6 \<le> fl (rate + 5)" using int [of 6] by simp
  ultimately show ?thesis by (simp add: next_rate_def MinRate_def MaxRate_def AdditiveStep_def)
qed

lemma truncate_bounds: "1 \<le> x \<Longrightarrow> x \<le> 1000 \<Longrightarrow> 1 \<le> truncate_int x \<and> truncate_int x \<le> 1000"
  by (simp add: truncate_int_def floor_le_iff)

definition any_red :: "(rat \<Rightarrow> rat) \<Rightarrow> hold_metrics \<Rightarrow> nat \<times> nat \<Rightarrow> bool" where
  "any_red fl m pool \<longleftrightarrow> P99 fl m > LatencyRedThreshold \<or> utilization fl (fst pool) (snd pool) > PoolRedThreshold fl
     \<or> ErrorRate fl m > ErrorRateRedThreshold fl"

lemma InsertAudit_Done:
  assumes "\<forall>n. fate_of E n = Done"
  shows "exec E (q_InsertWaitingRoomAudit ev r c p u x a b d) w
    = (Inr (), (tick w)\<lparr>w_db := (w_db w)\<lparr>t_room_audit := t_room_audit (w_db w) @
        [\<lparr>wr_event = ev, wr_rate = r, wr_cursor = c, wr_p99 = p, wr_pool = u, wr_errors = x,
          wr_red_latency = a, wr_red_pool = b, wr_red_errors = d, wr_created = now E w\<rparr>]\<rparr>\<rparr>)"
  using assms by (simp add: exec_Done q_InsertWaitingRoomAudit_def)

lemma Tick_Done:
  assumes E: "\<forall>n. fate_of E n = Done" and Q: "room_laws Q"
  shows "\<exists>r w' row. Tick E fl Q m pool ev w = (Inr r, w')
    \<and> tr_rate r = next_rate fl (any_red fl m pool) (rate_of Q ev (w_lock w))
    \<and> tr_cursor r = cursor_of Q ev (w_lock w) + truncate_int (tr_rate r)
    \<and> rate_of Q ev (w_lock w') = tr_rate r \<and> cursor_of Q ev (w_lock w') = tr_cursor r
    \<and> (\<forall>k x. zs_score Q k x (w_lock w') = zs_score Q k x (w_lock w))
    \<and> t_room_audit (w_db w') = t_room_audit (w_db w) @ [row]
    \<and> wr_event row = ev \<and> wr_rate row = tr_rate r \<and> wr_cursor row = tr_cursor r
    \<and> (wr_red_latency row \<or> wr_red_pool row \<or> wr_red_errors row) = any_red fl m pool"
proof -
  let ?s = "w_lock w"
  define rate where "rate = next_rate fl (any_red fl m pool) (rate_of Q ev ?s)"
  define s1 where "s1 = rm_set Q (rateKey ev) rate ?s"
  define s2 where "s2 = rm_incrby Q (cursorKey ev) (truncate_int rate) s1"
  define w2 where "w2 = (tick (tick w))\<lparr>w_lock := s1\<rparr>"
  define w3 where "w3 = (tick w2)\<lparr>w_lock := s2\<rparr>"
  have set: "rcall E (\<lambda>s. ((), rm_set Q (rateKey ev) rate s)) (tick w) = (Inr (), w2)"
    by (simp add: rcall_Done [OF E] w2_def s1_def)
  have inc: "rcall E (\<lambda>s. let s' = rm_incrby Q (cursorKey ev) (truncate_int rate) s in (rm_int Q (cursorKey ev) s', s')) w2
      = (Inr (Some (cursor_of Q ev ?s + truncate_int rate)), w3)"
    by (simp add: rcall_Done [OF E] w3_def w2_def s2_def s1_def counter_laws [OF Q] cursor_of_def Let_def)
  have st: "w_lock w3 = s2" "w_db w3 = w_db w" by (simp_all add: w3_def w2_def tick_def)
  have obs: "rate_of Q ev s2 = rate" "cursor_of Q ev s2 = cursor_of Q ev ?s + truncate_int rate"
      "\<forall>k x. zs_score Q k x s2 = zs_score Q k x ?s"
    by (simp_all add: s2_def s1_def rate_of_def cursor_of_def counter_laws [OF Q])
  show ?thesis
    unfolding Tick_def Let_def reads_Done [OF E] prod.case sum.case any_red_def [symmetric] rate_def [symmetric]
    unfolding set prod.case sum.case
    using inc obs st
    by (simp add: InsertAudit_Done [OF E] Let_def any_red_def)
qed

lemma ticks_progress:
  assumes E: "\<forall>n. fate_of E n = Done" and Q: "room_laws Q" and fl: "rounding fl"
  shows "1 \<le> rate_of Q ev (w_lock w) \<Longrightarrow> rate_of Q ev (w_lock w) \<le> 1000 \<Longrightarrow>
    cursor_of Q ev (w_lock w) + int k \<le> cursor_of Q ev (w_lock (tick_events E fl Q m pool (replicate k ev) w))
    \<and> (\<forall>q x. zs_score Q q x (w_lock (tick_events E fl Q m pool (replicate k ev) w)) = zs_score Q q x (w_lock w))"
proof (induction k arbitrary: w)
  case (Suc k)
  obtain r w' row where t: "Tick E fl Q m pool ev w = (Inr r, w')"
    and r: "tr_rate r = next_rate fl (any_red fl m pool) (rate_of Q ev (w_lock w))"
      "tr_cursor r = cursor_of Q ev (w_lock w) + truncate_int (tr_rate r)"
      "rate_of Q ev (w_lock w') = tr_rate r" "cursor_of Q ev (w_lock w') = tr_cursor r"
    and z: "\<forall>k x. zs_score Q k x (w_lock w') = zs_score Q k x (w_lock w)"
    using Tick_Done [OF E Q, of fl m pool ev w] by blast
  have b: "1 \<le> tr_rate r" "tr_rate r \<le> 1000" using next_rate_bounds [OF fl Suc.prems] r(1) by simp_all
  have "1 \<le> truncate_int (tr_rate r)" using truncate_bounds [OF b] by simp
  then show ?case using Suc.IH [of w'] b r z t by simp
qed simp

subsection \<open>A concrete room\<close>

text \<open>A store that satisfies the laws: association lists of scores, counters and rates.\<close>

type_synonym room = "(string \<Rightarrow> (string \<times> int) list) \<times> (string \<Rightarrow> int option) \<times> (string \<Rightarrow> rat option)"

definition mem_score :: "string \<Rightarrow> string \<Rightarrow> room \<Rightarrow> int option" where
  "mem_score k m s = map_of (fst s k) m"

definition mem_ahead :: "string \<Rightarrow> string \<Rightarrow> room \<Rightarrow> string set" where
  "mem_ahead k m s =
     {m'. \<exists>a b. mem_score k m' s = Some a \<and> mem_score k m s = Some b \<and> (a, map (of_char :: char \<Rightarrow> nat) m') < (b, map of_char m)}"

definition mem_room :: "room room_store" where
  "mem_room =
     \<lparr>zs_addnx = (\<lambda>k x m (z, i, f). (if map_of (z k) m = None then z(k := (m, x) # z k) else z, i, f)),
      zs_score = mem_score,
      zs_rank = (\<lambda>k m s. if mem_score k m s = None then None else Some (card (mem_ahead k m s))),
      rm_int = (\<lambda>k (z, i, f). i k),
      rm_incrby = (\<lambda>k n (z, i, f). (z, i(k \<mapsto> (case i k of None \<Rightarrow> 0 | Some c \<Rightarrow> c) + n), f)),
      rm_float = (\<lambda>k (z, i, f). f k), rm_set = (\<lambda>k x (z, i, f). (z, i, f(k \<mapsto> x)))\<rparr>"

lemma mem_room_laws: "room_laws mem_room"
proof -
  have fin: "finite {m. mem_score k m s \<noteq> None}" for k s
    using finite_dom_map_of [of "fst s k"] by (simp add: mem_score_def dom_def)
  have "law_zset mem_room"
    unfolding law_zset_def using fin
    by (auto simp: mem_room_def mem_score_def ahead_def mem_ahead_def)
  moreover have "law_counters mem_room" by (auto simp: law_counters_def mem_room_def mem_score_def)
  ultimately show ?thesis by (simp add: room_laws_def)
qed

text \<open>Ann arrived before bob; one place has been opened and the rate is 2 per tick.\<close>

definition two_waiting :: room where
  "two_waiting = ((\<lambda>_. [])(queueKey 1 := [(''bob'', -1), (''ann'', -2)]), (\<lambda>_. None)(cursorKey 1 \<mapsto> 1), (\<lambda>_. None)(rateKey 1 \<mapsto> 2))"

definition room_world :: "(room, unit) world" where
  "room_world = \<lparr>w_db = empty_db, w_lock = two_waiting, w_pay = (), w_objects = [], w_bus = [], w_calls = 0\<rparr>"

lemma room_world_state:
  "rate_of mem_room 1 (w_lock room_world) = 2" "cursor_of mem_room 1 (w_lock room_world) = 1"
  "zs_score mem_room (queueKey 1) m (w_lock room_world) = map_of [(''bob'', -1), (''ann'', -2)] m"
  by (simp_all add: rate_of_def cursor_of_def room_world_def two_waiting_def mem_room_def mem_score_def)

lemma bob_rank: "zs_rank mem_room (queueKey 1) ''bob'' (w_lock room_world) = Some 1"
proof -
  have "ahead mem_room (queueKey 1) ''bob'' (w_lock room_world) = {''ann''}"
    by (auto simp: ahead_def room_world_state split: if_splits)
  then show ?thesis by (simp add: zset_laws(2) [OF mem_room_laws] room_world_state)
qed

lemma sample_done: "\<forall>n. fate_of sample_env n = Done"
  by (simp add: sample_env_def)

lemma exact_rounding: "rounding (\<lambda>x. x)"
  by (simp add: rounding_def)

subsection \<open>Properties\<close>

text \<open>
  an admission token cannot be traded, replayed elsewhere or forged. A token issued to a user
  for an event verifies for exactly that user and event and until its 15 minutes are over, with the
  error that says which of these failed first; and whatever string verifies has three parts, the
  version, a body naming that user and event and not yet expired, and the signature that the secret
  gives for exactly that body.
\<close>

lemma admission_token_bound:
  assumes "ascii sub" and "ascii nonce" and "int64 ev" and "int64 pos" and "int64 (unix t)" and "int64 (unix (t + tokenTTL))"
  shows "VerifyToken hmac secret t' (issueToken hmac secret nonce t sub ev pos) sub' ev' =
    (if ev \<noteq> ev' then Some ErrInvalidToken
     else if sub \<noteq> sub' then Some ErrSubMismatch
     else if unix t' > unix (t + tokenTTL) then Some ErrTokenExpired else None)
    \<and> (\<forall>token. VerifyToken hmac secret t' token sub' ev' = None \<longrightarrow>
         (\<exists>body sig p. split_on (CHR ''.'') token = [''v1'', body, sig] \<and> DecodeString sig = Some (sign hmac secret body)
            \<and> unmarshal_token (string_of (the (DecodeString body))) = Some p
            \<and> Sub p = sub' \<and> Eid p = ev' \<and> unix t' \<le> ExpAt p))"
  using verify_issued [OF assms] verify_signed by blast

lemma admission_token_bound_example:
  "VerifyToken (\<lambda>k m. k @ m) ''key'' 900000000 (issueToken (\<lambda>k m. k @ m) ''key'' ''00ff'' 0 ''ann'' 1 4) ''ann'' 1 = None
   \<and> VerifyToken (\<lambda>k m. k @ m) ''key'' 0 (issueToken (\<lambda>k m. k @ m) ''key'' ''00ff'' 0 ''ann'' 1 4) ''bob'' 1 = Some ErrSubMismatch"
proof -
  have a: "ascii ''ann''" "ascii ''00ff''" by (simp_all add: ascii_def)
  have i: "int64 1" "int64 4" "int64 (unix 0)" "int64 (unix (0 + tokenTTL))"
    by (simp_all add: int64_def unix_def tokenTTL_def)
  note t = admission_token_bound [OF a i, of "\<lambda>k m. k @ m" "''key''"]
  show ?thesis using t [of 900000000 "''ann''" 1] t [of 0 "''bob''" 1] by (simp add: unix_def tokenTTL_def)
qed

text \<open>
  the metrics speak of the last \<open>cap\<close> hold attempts. After any run of \<open>Record\<close> calls the ring
  buffer's p99 is the entry at rank 0.99 n (at most n - 1) of the sorted latencies of the last
  \<open>cap\<close> attempts, and the error rate is the share of failures among them.
\<close>

lemma hold_metrics_window:
  fixes h :: "(int \<times> bool) list"
  defines "win c \<equiv> drop (length h - c) h"
  assumes "0 < c"
  shows "P99 fl (fold (\<lambda>(d, bad). Record d bad) h (NewHoldMetrics c))
      = (let lat = sort (map fst (win c)) in
         if lat = [] then 0 else lat ! min (length lat - 1) (nat \<lfloor>fl (of_nat (length lat) * fl (99 / 100))\<rfloor>))
    \<and> ErrorRate fl (fold (\<lambda>(d, bad). Record d bad) h (NewHoldMetrics c))
      = (if win c = [] then 0 else fl (of_nat (length (filter snd (win c))) / of_nat (length (win c))))"
proof -
  let ?m = "fold (\<lambda>(d, bad). Record d bad) h (NewHoldMetrics c)"
  obtain lat bad where s: "snapshot ?m = (lat, bad)" by (meson surj_pair)
  have z: "mset (zip lat bad) = mset (win c)" and len: "length lat = min c (length h)" "length bad = min c (length h)"
    using snapshot_window [OF recorded_fold [OF assms(2), of h] assms(2)] s by (simp_all add: win_def)
  have "mset (map fst (zip lat bad)) = mset (map fst (win c))" using z by (simp only: mset_map)
  then have l: "sort lat = sort (map fst (win c))" using len by (intro sort_mset_cong) simp
  have "mset (map snd (zip lat bad)) = mset (map snd (win c))" using z by (simp only: mset_map)
  then have "mset bad = mset (map snd (win c))" using len by simp
  then have b: "length (filter (\<lambda>f. f) bad) = length (filter snd (win c))" "length bad = length (win c)"
    by (metis (no_types, lifting) filter_map length_map mset_filter size_mset comp_apply filter_cong) (metis \<open>mset bad = mset (map snd (win c))\<close> length_map size_mset)
  moreover have clip: "xs \<noteq> [] \<Longrightarrow> (if length xs \<le> i then length xs - 1 else i) = min (length xs - 1) i"
    for xs :: "int list" and i by (cases xs) auto
  have "P99 fl ?m = (let lat = sort (map fst (win c)) in
      if lat = [] then 0 else lat ! min (length lat - 1) (nat \<lfloor>fl (of_nat (length lat) * fl (99 / 100))\<rfloor>))"
    unfolding P99_def Let_def s fst_conv l by (intro if_cong refl arg_cong2 [where f = "(!)"] clip)
  moreover have "ErrorRate fl ?m = (if bad = [] then 0 else fl (of_nat (length (filter (\<lambda>f. f) bad)) / of_nat (length bad)))"
    by (simp add: ErrorRate_def s)
  moreover have "bad = [] \<longleftrightarrow> win c = []" using b(2) by (metis length_0_conv)
  ultimately show ?thesis by simp
qed

lemma hold_metrics_window_example:
  "ErrorRate (\<lambda>x. x) (fold (\<lambda>(d, bad). Record d bad) [(900, True), (5, False), (7, True)] (NewHoldMetrics 2)) = 1 / 2"
  using hold_metrics_window [of 2 "\<lambda>x. x" "[(900, True), (5, False), (7, True)]"] by simp

text \<open>
  one tick is one AIMD step. When no call fails and the stored rate is within [1, 1000], a red
  signal (p99 over 500 ms, more than 80 % of the pool in use, or more than 1 % failed holds) halves
  the rate, no signal adds 5, the result is stored and stays within [1, 1000], the cursor moves
  on by the rate rounded down, that is by at least 1 and at most 1000, and one audit row
  records what was decided.
\<close>

lemma aimd_tick_bounds:
  assumes "\<forall>n. fate_of E n = Done" and "room_laws Q" and "rounding fl"
    and "1 \<le> rate_of Q ev (w_lock w)" and "rate_of Q ev (w_lock w) \<le> 1000"
  shows "\<exists>r w' row. Tick E fl Q m pool ev w = (Inr r, w')
    \<and> tr_rate r = (if any_red fl m pool then max (fl (rate_of Q ev (w_lock w) * (1 / 2))) 1
                    else min (fl (rate_of Q ev (w_lock w) + 5)) 1000)
    \<and> 1 \<le> tr_rate r \<and> tr_rate r \<le> 1000 \<and> rate_of Q ev (w_lock w') = tr_rate r
    \<and> cursor_of Q ev (w_lock w') = cursor_of Q ev (w_lock w) + truncate_int (tr_rate r)
    \<and> cursor_of Q ev (w_lock w) + 1 \<le> cursor_of Q ev (w_lock w')
    \<and> cursor_of Q ev (w_lock w') \<le> cursor_of Q ev (w_lock w) + 1000
    \<and> t_room_audit (w_db w') = t_room_audit (w_db w) @ [row]
    \<and> wr_event row = ev \<and> wr_rate row = tr_rate r \<and> wr_cursor row = cursor_of Q ev (w_lock w')
    \<and> (wr_red_latency row \<or> wr_red_pool row \<or> wr_red_errors row) = any_red fl m pool"
proof -
  obtain r w' row where t: "Tick E fl Q m pool ev w = (Inr r, w')"
    and r: "tr_rate r = next_rate fl (any_red fl m pool) (rate_of Q ev (w_lock w))"
      "tr_cursor r = cursor_of Q ev (w_lock w) + truncate_int (tr_rate r)"
      "rate_of Q ev (w_lock w') = tr_rate r" "cursor_of Q ev (w_lock w') = tr_cursor r"
    and a: "t_room_audit (w_db w') = t_room_audit (w_db w) @ [row]" "wr_event row = ev" "wr_rate row = tr_rate r"
      "wr_cursor row = tr_cursor r" "(wr_red_latency row \<or> wr_red_pool row \<or> wr_red_errors row) = any_red fl m pool"
    using Tick_Done [OF assms(1,2), of fl m pool ev w] by blast
  have b: "1 \<le> tr_rate r" "tr_rate r \<le> 1000" using next_rate_bounds [OF assms(3-5)] r(1) by simp_all
  show ?thesis
    using t r a b truncate_bounds [OF b]
    by (intro exI [of _ r] exI [of _ w'] exI [of _ row]) (simp add: next_rate_def MinRate_def MaxRate_def AdditiveStep_def)
qed

lemma aimd_tick_bounds_example:
  "\<exists>r w' row. Tick sample_env (\<lambda>x. x) mem_room (NewHoldMetrics 3) (1, 10) 1 room_world = (Inr r, w')
    \<and> 1 \<le> tr_rate r \<and> tr_rate r \<le> 1000 \<and> 2 \<le> cursor_of mem_room 1 (w_lock w')
    \<and> t_room_audit (w_db w') = [row] \<and> wr_rate row = tr_rate r"
proof -
  have "1 \<le> rate_of mem_room 1 (w_lock room_world)" "rate_of mem_room 1 (w_lock room_world) \<le> 1000"
    by (simp_all add: room_world_state)
  from aimd_tick_bounds [OF sample_done mem_room_laws exact_rounding this, of "NewHoldMetrics 3" "(1, 10)"]
  show ?thesis by (auto simp: room_world_state) (auto simp: room_world_def empty_db_def)
qed

text \<open>
  the queue is fair. \<open>Join\<close> moves nobody: everyone already waiting keeps the rank they had,
  the caller too if they had joined before, as long as the clock is past the arrivals so far.
  The answer is an admission token exactly when the caller's rank is below the cursor, and
  otherwise the distance to it.
\<close>

lemma join_keeps_order:
  assumes "\<forall>n. fate_of E n = Done" and "room_laws Q"
    and "\<forall>m x. zs_score Q (queueKey ev) m (w_lock w) = Some x \<longrightarrow> x < now E w"
  shows "\<exists>r w' rank. Join E fl hmac secret nonce Q ev sub w = (Inr r, w')
    \<and> (\<forall>m. zs_score Q (queueKey ev) m (w_lock w) \<noteq> None \<longrightarrow>
           zs_rank Q (queueKey ev) m (w_lock w') = zs_rank Q (queueKey ev) m (w_lock w))
    \<and> zs_rank Q (queueKey ev) sub (w_lock w') = Some rank
    \<and> (case r of
         Admitted tok \<Rightarrow> int rank < cursor_of Q ev (w_lock w)
       | Waiting pos eta \<Rightarrow> pos = int rank - cursor_of Q ev (w_lock w) \<and> 0 \<le> pos)"
proof -
  define s where "s = zs_addnx Q (queueKey ev) (now E w) sub (w_lock w)"
  have c: "cursor_of Q ev s = cursor_of Q ev (w_lock w)" by (simp add: s_def cursor_of_def zset_laws [OF assms(2)])
  have ranks: "zs_rank Q (queueKey ev) m s = zs_rank Q (queueKey ev) m (w_lock w)"
    if "zs_score Q (queueKey ev) m (w_lock w) \<noteq> None" for m
    using rank_kept [OF assms(2) that] assms(3) by (simp add: s_def)
  show ?thesis using Join_Done [OF assms(1,2) s_def, of fl hmac secret nonce] ranks c by force
qed

lemma join_keeps_order_example:
  "\<exists>r w' rank. Join sample_env (\<lambda>x. x) (\<lambda>k m. m) ''key'' ''00ff'' mem_room 1 ''cid'' room_world = (Inr r, w')
    \<and> zs_rank mem_room (queueKey 1) ''bob'' (w_lock w') = Some 1
    \<and> zs_rank mem_room (queueKey 1) ''cid'' (w_lock w') = Some rank"
proof -
  have early: "\<forall>m x. zs_score mem_room (queueKey 1) m (w_lock room_world) = Some x \<longrightarrow> x < now sample_env room_world"
  proof -
    have "now sample_env room_world = 0" by (simp add: now_def sample_env_def room_world_def)
    then show ?thesis unfolding room_world_state by auto
  qed
  have b: "zs_score mem_room (queueKey 1) ''bob'' (w_lock room_world) \<noteq> None" by (simp add: room_world_state)
  from join_keeps_order [OF sample_done mem_room_laws early, of "\<lambda>x. x" "\<lambda>k m. m" "''key''" "''00ff''" "''cid''"]
  obtain r w' rank where j: "Join sample_env (\<lambda>x. x) (\<lambda>k m. m) ''key'' ''00ff'' mem_room 1 ''cid'' room_world = (Inr r, w')"
    and k: "\<forall>m. zs_score mem_room (queueKey 1) m (w_lock room_world) \<noteq> None \<longrightarrow>
      zs_rank mem_room (queueKey 1) m (w_lock w') = zs_rank mem_room (queueKey 1) m (w_lock room_world)"
    and c: "zs_rank mem_room (queueKey 1) ''cid'' (w_lock w') = Some rank"
    by blast
  from k [rule_format, OF b] bob_rank have "zs_rank mem_room (queueKey 1) ''bob'' (w_lock w') = Some 1" by (rule trans)
  with j c show ?thesis by blast
qed


text \<open>Bob is next in line: one tick and he is in.\<close>

definition still_env :: env where "still_env = sample_env\<lparr>clock_at := \<lambda>_. 5000000\<rparr>"


end
