(* ===== verification/FsClient.thy ===== *)
theory FsClient
  imports FsWebhook Waitingroom
begin

section \<open>offline-sync-app: talking to the external system\<close>

text \<open>
  \<open>offline-sync-app/internal/twoway/client.go\<close> (requests with retries), \<open>loader.go\<close> (pushing local
  edits) and \<open>extractor.go\<close> (the incremental pull). The external system is a parameter: a function of
  its state and a request. Durations are nanoseconds in 64 bits, as in Go. \<open>ctx n\<close> says whether the
  context is cancelled by the time of call \<open>n\<close>.
\<close>

subsection \<open>Requests and answers\<close>

text \<open>
  The path as segments and the query as names and values, before and after \<open>net/url\<close> escapes them;
  \<open>hr_retry\<close> is the Retry-After header.
\<close>

record http_req =
  hq_method :: string
  hq_path :: "string list"
  hq_query :: "(string \<times> string) list"
  hq_body :: "string option"
  hq_key :: string

record http_resp =
  hr_status :: nat
  hr_retry :: string
  hr_body :: string

type_synonym 'x remote = "'x \<Rightarrow> http_req \<Rightarrow> http_resp \<times> 'x"

text \<open>Go's 64-bit integers.\<close>

definition wrap64 :: "int \<Rightarrow> int" where
  "wrap64 n = (n + 2 ^ 63) mod 2 ^ 64 - 2 ^ 63"

lemma wrap64_range: "- (2 ^ 63) \<le> wrap64 n \<and> wrap64 n < 2 ^ 63"
proof -
  have "0 \<le> (n + 2 ^ 63) mod 2 ^ 64" and "(n + 2 ^ 63) mod 2 ^ 64 < 2 ^ 64" by simp_all
  then show ?thesis by (simp add: wrap64_def)
qed

lemma wrap64_id [simp]: "- (2 ^ 63) \<le> n \<Longrightarrow> n < 2 ^ 63 \<Longrightarrow> wrap64 n = n"
  by (simp add: wrap64_def)

definition go_second :: int where "go_second = 1000000000"

definition parseRetryAfter :: "string \<Rightarrow> int" where
  "parseRetryAfter v =
     (case parse_seconds v of None \<Rightarrow> 0 | Some secs \<Rightarrow> if secs \<le> 0 then 0 else wrap64 (secs * go_second))"

definition truncate_text :: "string \<Rightarrow> nat \<Rightarrow> string" where
  "truncate_text s n = (if length s \<le> n then s else take n s)"

subsection \<open>One attempt\<close>

definition bodyLimit :: nat where "bodyLimit = 2 ^ 20"

text \<open>
  The answer is decoded into what earlier attempts left in \<open>out\<close>. A text that is not JSON leaves it as it
  is.
\<close>

definition decode_body :: "('o \<Rightarrow> json \<Rightarrow> 'o \<times> bool) \<Rightarrow> 'o \<Rightarrow> string \<Rightarrow> 'o \<times> bool" where
  "decode_body into out raw = (case Unmarshal raw of None \<Rightarrow> (out, False) | Some v \<Rightarrow> into out v)"

definition answer :: "('o \<Rightarrow> json \<Rightarrow> 'o \<times> bool) \<Rightarrow> 'o \<Rightarrow> http_resp \<Rightarrow> fs_error option \<times> 'o" where
  "answer into out resp =
     (let raw = take bodyLimit (hr_body resp) in
      if hr_status resp < 200 \<or> hr_status resp > 299
      then (Some (ApiError (hr_status resp) (parseRetryAfter (hr_retry resp)) (truncate_text raw 200)), out)
      else (case decode_body into out raw of (out', ok) \<Rightarrow> (if ok then None else Some DecodeFailed, out')))"

definition once ::
    "fenv \<Rightarrow> (nat \<Rightarrow> bool) \<Rightarrow> 'x remote \<Rightarrow> ('o \<Rightarrow> json \<Rightarrow> 'o \<times> bool) \<Rightarrow> http_req \<Rightarrow> 'o \<Rightarrow> 'x fworld
       \<Rightarrow> (fs_error option \<times> 'o) \<times> 'x fworld" where
  "once E ctx T into req out w =
     (if ctx (fw_calls w) then ((Some Cancelled, out), ftick w)
      else
        (case fe_fate E (fw_calls w) of
           Done \<Rightarrow> (case T (fw_ext w) req of (resp, x) \<Rightarrow> (answer into out resp, (ftick w)\<lparr>fw_ext := x\<rparr>))
         | Lost \<Rightarrow> ((Some FsUnavailable, out), ftick w)
         | Ambiguous \<Rightarrow> ((Some FsUnavailable, out), (ftick w)\<lparr>fw_ext := snd (T (fw_ext w) req)\<rparr>)))"

subsection \<open>Retries\<close>

record retry_policy =
  rp_attempts :: int
  rp_base :: int
  rp_max :: int

definition DefaultRetryPolicy :: retry_policy where
  "DefaultRetryPolicy = \<lparr>rp_attempts = 5, rp_base = 200000000, rp_max = 10 * go_second\<rparr>"

fun api_retryable :: "fs_error \<Rightarrow> bool" where
  "api_retryable (ApiError status ra body) = (status = 429 \<or> status \<ge> 500)"
| "api_retryable e = True"

definition retryable :: "(nat \<Rightarrow> bool) \<Rightarrow> fs_error \<Rightarrow> 'x fworld \<Rightarrow> bool" where
  "retryable ctx e w = (if ctx (fw_calls w) then False else api_retryable e)"

text \<open>The doubling loop, by the number of rounds left.\<close>

primrec ceiling_after :: "int \<Rightarrow> nat \<Rightarrow> int \<Rightarrow> int" where
  "ceiling_after m 0 c = c"
| "ceiling_after m (Suc k) c = (if c < m then ceiling_after m k (wrap64 (c * 2)) else c)"

text \<open>\<open>fl\<close> rounds a real to a \<open>float64\<close>, \<open>x\<close> is the random draw.\<close>

definition server_delay :: "fs_error \<Rightarrow> int" where
  "server_delay e = (case e of ApiError _ ra _ \<Rightarrow> ra | _ \<Rightarrow> 0)"

definition delay :: "(rat \<Rightarrow> rat) \<Rightarrow> retry_policy \<Rightarrow> rat \<Rightarrow> nat \<Rightarrow> fs_error \<Rightarrow> int" where
  "delay fl p x attempt e =
     (if server_delay e > 0 then server_delay e
      else let ceiling = min (ceiling_after (rp_max p) (attempt - 1) (rp_base p)) (rp_max p)
           in truncate_int (fl (x * fl (of_int ceiling))))"

text \<open>The sleep ends early when the context is cancelled.\<close>

definition sleepContext :: "(nat \<Rightarrow> bool) \<Rightarrow> int \<Rightarrow> ('x, unit) fm" where
  "sleepContext ctx d w = (if ctx (fw_calls w) then (Inl Cancelled, ftick w) else (Inr (), ftick w))"

text \<open>\<open>left\<close> is the number of attempts still allowed, \<open>attempt\<close> the number of the next.\<close>

primrec attempts ::
    "fenv \<Rightarrow> (nat \<Rightarrow> bool) \<Rightarrow> (rat \<Rightarrow> rat) \<Rightarrow> 'x remote \<Rightarrow> retry_policy \<Rightarrow> ('o \<Rightarrow> json \<Rightarrow> 'o \<times> bool) \<Rightarrow> http_req
       \<Rightarrow> nat \<Rightarrow> nat \<Rightarrow> 'o \<Rightarrow> fs_error option \<Rightarrow> ('x, 'o) fm" where
  "attempts E ctx fl T p into req 0 attempt out lerr w = (Inl (RetryExhausted (rp_attempts p) lerr), w)"
| "attempts E ctx fl T p into req (Suc k) attempt out lerr w =
     (case once E ctx T into req out w of
        ((None, out'), w1) \<Rightarrow> (Inr out', w1)
      | ((Some e, out'), w1) \<Rightarrow>
          if \<not> retryable ctx e w1 then (Inl e, w1)
          else if k = 0 then (Inl (RetryExhausted (rp_attempts p) (Some e)), w1)
          else
            (case sleepContext ctx (delay fl p (fe_rand E (fw_calls w1)) attempt e) w1 of
               (Inl e', w2) \<Rightarrow> (Inl e', w2)
             | (Inr _, w2) \<Rightarrow> attempts E ctx fl T p into req k (Suc attempt) out' (Some e) w2))"

definition client_do ::
    "fenv \<Rightarrow> (nat \<Rightarrow> bool) \<Rightarrow> (rat \<Rightarrow> rat) \<Rightarrow> 'x remote \<Rightarrow> retry_policy \<Rightarrow> ('o \<Rightarrow> json \<Rightarrow> 'o \<times> bool) \<Rightarrow> http_req \<Rightarrow> 'o \<Rightarrow> ('x, 'o) fm" where
  "client_do E ctx fl T p into req out = attempts E ctx fl T p into req (nat (rp_attempts p)) 1 out None"

subsection \<open>The operations of the client\<close>

text \<open>Decoding an array replaces the slice.\<close>

fun issues_into :: "fenv \<Rightarrow> issue list \<Rightarrow> json \<Rightarrow> issue list \<times> bool" where
  "issues_into E cur (JArray vs) =
     (map (\<lambda>v. fst (issue_into E zero_issue v)) vs, list_all (\<lambda>v. snd (issue_into E zero_issue v)) vs)"
| "issues_into E cur JNull = ([], True)"
| "issues_into E cur v = (cur, False)"

fun page_into :: "fenv \<Rightarrow> issue_page \<Rightarrow> json \<Rightarrow> issue_page \<times> bool" where
  "page_into E cur (JObject ms) =
     (let (is, ok1) = assign_all (issues_into E) (xg_issues cur) (assigned [''issues'', ''nextCursor''] ''issues'' ms);
          (n, ok2) = assign_all string_into (xg_next cur) (assigned [''issues'', ''nextCursor''] ''nextCursor'' ms)
      in (\<lparr>xg_issues = is, xg_next = n\<rparr>, ok1 \<and> ok2))"
| "page_into E cur JNull = (cur, True)"
| "page_into E cur v = (cur, False)"

definition list_request :: "fenv \<Rightarrow> int \<Rightarrow> string \<Rightarrow> int \<Rightarrow> http_req" where
  "list_request E since cursor limit =
     \<lparr>hq_method = ''GET'', hq_path = [''issues''],
      hq_query = (if cursor \<noteq> [] then [(''cursor'', cursor)] else [])
               @ (if limit > 0 then [(''limit'', show_int limit)] else [])
               @ (if since \<noteq> fs_zero_time then [(''updated_since'', fe_time E since)] else []),
      hq_body = None, hq_key = []\<rparr>"

definition client_List ::
    "fenv \<Rightarrow> (nat \<Rightarrow> bool) \<Rightarrow> (rat \<Rightarrow> rat) \<Rightarrow> 'x remote \<Rightarrow> retry_policy \<Rightarrow> int \<Rightarrow> string \<Rightarrow> int \<Rightarrow> ('x, issue_page) fm" where
  "client_List E ctx fl T p since cursor limit =
     client_do E ctx fl T p (page_into E) (list_request E since cursor limit) \<lparr>xg_issues = [], xg_next = []\<rparr>"

text \<open>\<open>omitempty\<close> leaves out the fields that are not set.\<close>

definition patch_json :: "issue_patch \<Rightarrow> json" where
  "patch_json p = JObject (
       (case xp_summary p of None \<Rightarrow> [] | Some s \<Rightarrow> [(''summary'', JString s)])
     @ (case xp_status p of None \<Rightarrow> [] | Some s \<Rightarrow> [(''status'', JString s)])
     @ (case xp_description p of None \<Rightarrow> [] | Some s \<Rightarrow> [(''description'', JString s)]))"

definition patch_request :: "string \<Rightarrow> issue_patch \<Rightarrow> string \<Rightarrow> http_req" where
  "patch_request ext p key =
     \<lparr>hq_method = ''PATCH'', hq_path = [''issues'', ext], hq_query = [], hq_body = Some (render (patch_json p)), hq_key = key\<rparr>"

definition client_Patch ::
    "fenv \<Rightarrow> (nat \<Rightarrow> bool) \<Rightarrow> (rat \<Rightarrow> rat) \<Rightarrow> 'x remote \<Rightarrow> retry_policy \<Rightarrow> string \<Rightarrow> issue_patch \<Rightarrow> string \<Rightarrow> ('x, issue) fm" where
  "client_Patch E ctx fl T p ext patch key =
     client_do E ctx fl T p (issue_into E) (patch_request ext patch key) zero_issue"

subsection \<open>Retrying ends, and only for good reasons\<close>

definition cancelled_between :: "(nat \<Rightarrow> bool) \<Rightarrow> nat \<Rightarrow> nat \<Rightarrow> bool" where
  "cancelled_between ctx m n \<longleftrightarrow> (\<exists>k. m \<le> k \<and> k \<le> n \<and> ctx k)"

lemma cancelled_mono: "cancelled_between ctx m n \<Longrightarrow> m' \<le> m \<Longrightarrow> n \<le> n' \<Longrightarrow> cancelled_between ctx m' n'"
  unfolding cancelled_between_def using le_trans by blast

text \<open>A remote that counts its requests.\<close>

definition counted :: "'x remote \<Rightarrow> ('x \<times> nat) remote" where
  "counted T = (\<lambda>(x, n) req. case T x req of (resp, x') \<Rightarrow> (resp, (x', Suc n)))"

lemma once_step:
  assumes "once E ctx T into req out w = ((err, out'), w')"
  shows "fw_calls w' = Suc (fw_calls w) \<and> fw_db w' = fw_db w \<and> fw_tx w' = fw_tx w \<and> fw_bus w' = fw_bus w \<and>
    (fw_ext w' = fw_ext w \<or> fw_ext w' = snd (T (fw_ext w) req)) \<and>
    (case err of Some Cancelled \<Rightarrow> ctx (fw_calls w) | Some (RetryExhausted n l) \<Rightarrow> False | _ \<Rightarrow> True)"
  using assms by (auto simp: once_def answer_def Let_def ftick_def split: if_splits fate.splits prod.splits)

lemma once_counted:
  assumes "once E ctx (counted T) into req out w = ((err, out'), w')"
  shows "snd (fw_ext w') \<le> Suc (snd (fw_ext w))"
  using once_step [OF assms] by (auto simp: counted_def split: prod.splits)

definition call_ends_well :: "(nat \<Rightarrow> bool) \<Rightarrow> retry_policy \<Rightarrow> nat \<Rightarrow> nat \<Rightarrow> fs_error + 'o \<Rightarrow> bool" where
  "call_ends_well ctx p m n r \<longleftrightarrow> (case r of Inr _ \<Rightarrow> True
     | Inl e \<Rightarrow> (\<exists>l. e = RetryExhausted (rp_attempts p) l) \<or> \<not> api_retryable e \<or> cancelled_between ctx m n)"

lemma call_ends_well_mono: "call_ends_well ctx p m n r \<Longrightarrow> m' \<le> m \<Longrightarrow> n \<le> n' \<Longrightarrow> call_ends_well ctx p m' n' r"
  unfolding call_ends_well_def using cancelled_mono by (auto split: sum.splits)

lemma attempts_bounds:
  "attempts E ctx fl (counted T) p into req k a out l w = (r, w') \<Longrightarrow>
     snd (fw_ext w') \<le> snd (fw_ext w) + k \<and> fw_calls w \<le> fw_calls w' \<and> fw_calls w' \<le> fw_calls w + 2 * k \<and>
     fw_db w' = fw_db w \<and> call_ends_well ctx p (fw_calls w) (fw_calls w') r"
proof (induction k arbitrary: a out l w)
  case 0
  then show ?case by (auto simp: call_ends_well_def)
next
  case (Suc k)
  obtain err out1 w1 where o: "once E ctx (counted T) into req out w = ((err, out1), w1)" by (metis surj_pair)
  note s = once_step [OF o] once_counted [OF o]
  show ?case
  proof (cases err)
    case None
    then show ?thesis using Suc.prems o s by (auto simp: call_ends_well_def)
  next
    case (Some e)
    consider (stop) "\<not> retryable ctx e w1" | (last) "retryable ctx e w1" "k = 0" | (retry) "retryable ctx e w1" "k \<noteq> 0" by blast
    then show ?thesis
    proof cases
      case stop
      then have "\<not> api_retryable e \<or> cancelled_between ctx (fw_calls w) (fw_calls w1)"
        using s(1) by (auto simp: retryable_def cancelled_between_def split: if_splits intro!: exI [of _ "Suc (fw_calls w)"])
      then show ?thesis using Suc.prems o s Some stop by (auto simp: call_ends_well_def)
    next
      case last
      then show ?thesis using Suc.prems o s Some by (auto simp: call_ends_well_def)
    next
      case retry
      show ?thesis
      proof (cases "ctx (fw_calls w1)")
        case True
        then show ?thesis using retry by (simp add: retryable_def)
      next
        case False
        have "attempts E ctx fl (counted T) p into req k (Suc a) out1 (Some e) (ftick w1) = (r, w')"
          using Suc.prems o Some retry False by (simp add: sleepContext_def)
        from Suc.IH [OF this] show ?thesis using s
          by (auto intro: call_ends_well_mono)
      qed
    qed
  qed
qed

text \<open>
  C26: A call to the external system sends at most the permitted number of requests and then returns. It fails early
  only with a permanent error or when its context is cancelled; every other failure is retried, and only
  the last attempt turns it into \<open>RetryExhausted\<close>. The database is not touched.
\<close>

theorem client_call_bounded:
  assumes "client_do E ctx fl (counted T) p into req out w = (r, w')"
  shows "snd (fw_ext w') \<le> snd (fw_ext w) + nat (rp_attempts p) \<and> fw_calls w' \<le> fw_calls w + 2 * nat (rp_attempts p) \<and>
    fw_db w' = fw_db w \<and>
    (case r of Inr _ \<Rightarrow> True
     | Inl e \<Rightarrow> (\<exists>l. e = RetryExhausted (rp_attempts p) l) \<or> \<not> api_retryable e \<or> cancelled_between ctx (fw_calls w) (fw_calls w'))"
  using attempts_bounds [OF assms [unfolded client_do_def]] by (simp add: call_ends_well_def)

subsection \<open>Backoff\<close>

lemma ceiling_after_bounds:
  assumes "0 \<le> c" and "c \<le> 2 ^ 54" and "m \<le> 2 ^ 53"
  shows "0 \<le> ceiling_after m k c \<and> min (ceiling_after m k c) m = min (c * 2 ^ k) m"
  using assms(1,2)
proof (induction k arbitrary: c)
  case 0
  then show ?case by simp
next
  case (Suc k)
  show ?case
  proof (cases "c < m")
    case True
    then have "wrap64 (c * 2) = c * 2" using Suc.prems assms(3) by simp
    then show ?thesis using Suc.IH [of "c * 2"] Suc.prems True assms(3) by (simp add: mult.assoc)
  next
    case False
    have "c * 1 \<le> c * 2 ^ Suc k" using Suc.prems(1) one_le_power [of "2 :: int" "Suc k"] by (intro mult_left_mono) auto
    then have "min c m = m" "min (c * 2 ^ Suc k) m = m" using False by auto
    then show ?thesis using False Suc.prems(1) by simp
  qed
qed

text \<open>
  C28: The wait before the next attempt is what the server asked for; when it asked for nothing it is between zero
  and the base delay doubled for each earlier attempt, and never above the maximum.
\<close>

theorem backoff_bounded:
  assumes "rounding fl" and "0 \<le> x" and "x \<le> 1" and "0 \<le> rp_base p" and "rp_base p \<le> rp_max p" and "rp_max p \<le> 2 ^ 53"
  shows "if server_delay e > 0 then delay fl p x attempt e = server_delay e
    else 0 \<le> delay fl p x attempt e \<and> delay fl p x attempt e \<le> min (rp_base p * 2 ^ (attempt - 1)) (rp_max p)"
proof (cases "server_delay e > 0")
  case True
  then show ?thesis by (simp add: delay_def)
next
  case False
  define c where "c = min (ceiling_after (rp_max p) (attempt - 1) (rp_base p)) (rp_max p)"
  have "0 \<le> ceiling_after (rp_max p) (attempt - 1) (rp_base p) \<and> c = min (rp_base p * 2 ^ (attempt - 1)) (rp_max p)"
    unfolding c_def using ceiling_after_bounds assms by simp
  then have c: "0 \<le> c" "c \<le> 2 ^ 53" "c = min (rp_base p * 2 ^ (attempt - 1)) (rp_max p)" using assms by (auto simp: c_def)
  have fl: "\<And>a b. a \<le> b \<Longrightarrow> fl a \<le> fl b" "\<And>n. \<bar>n\<bar> \<le> 2 ^ 53 \<Longrightarrow> fl (of_int n) = of_int n"
    using assms(1) by (auto simp: rounding_def)
  have e: "fl (of_int c) = of_int c" using fl(2) c by simp
  have "x * of_int c \<le> 1 * of_int c" using assms(3) c(1) by (intro mult_right_mono) auto
  then have "fl (x * of_int c) \<le> of_int c" using fl(1) [of "x * of_int c" "of_int c"] e by simp
  moreover have "fl 0 \<le> fl (x * of_int c)" using fl(1) assms(2) c(1) by simp
  moreover have "fl 0 = 0" using fl(2) [of 0] by simp
  ultimately have "0 \<le> truncate_int (fl (x * of_int c)) \<and> truncate_int (fl (x * of_int c)) \<le> c"
    by (auto simp: truncate_int_def floor_le_iff)
  moreover have "delay fl p x attempt e = truncate_int (fl (x * of_int c))"
    using False e by (simp add: delay_def Let_def c_def)
  ultimately show ?thesis using False by (simp add: c(3))
qed

end
