(* ===== verification/FsPull.thy ===== *)
theory FsPull
  imports FsClient
begin

section \<open>offline-sync-app: pushing edits and pulling issues\<close>

text \<open>
  \<open>offline-sync-app/internal/twoway/loader.go\<close> and \<open>extractor.go\<close>. The pusher and the lister are arguments, as
  they are interfaces in the code; \<open>client_Patch\<close> and \<open>client_List\<close> are what they are at run time.
\<close>

subsection \<open>The loader\<close>

definition ConsumerName :: "string \<Rightarrow> string" where "ConsumerName system = ''twoway-loader-'' @ system"

definition EventTypes :: "string list" where "EventTypes = [EventWorkItemUpdated]"

definition payload_fields :: "string list" where
  "payload_fields = [''id'', ''title'', ''status'', ''notes'', ''deleted'']"

fun payload_into :: "fenv \<Rightarrow> uuid \<times> content \<times> bool \<Rightarrow> json \<Rightarrow> (uuid \<times> content \<times> bool) \<times> bool" where
  "payload_into E (i, c, del) (JObject ms) =
     (let (i', ok1) = assign_all (text_into (fe_uuid_parse E)) i (assigned payload_fields ''id'' ms);
          (t, ok2) = assign_all string_into (ct_title c) (assigned payload_fields ''title'' ms);
          (s, ok3) = assign_all string_into (ct_status c) (assigned payload_fields ''status'' ms);
          (n, ok4) = assign_all string_into (ct_notes c) (assigned payload_fields ''notes'' ms);
          (d, ok5) = assign_all bool_into del (assigned payload_fields ''deleted'' ms)
      in ((i', \<lparr>ct_title = t, ct_status = s, ct_notes = n\<rparr>, d), ok1 \<and> ok2 \<and> ok3 \<and> ok4 \<and> ok5))"
| "payload_into E cur JNull = (cur, True)"
| "payload_into E cur v = (cur, False)"

text \<open>\<open>zero\<close> is the zero UUID, \<open>jb\<close> the text of a \<open>jsonb\<close> column.\<close>

record loader =
  ld_system :: string
  ld_own :: ownership
  ld_zero :: uuid
  ld_jsonb :: "json \<Rightarrow> string"

type_synonym 'x pusher = "string \<Rightarrow> issue_patch \<Rightarrow> string \<Rightarrow> ('x, issue) fm"

definition deadLetter :: "fenv \<Rightarrow> loader \<Rightarrow> fs_event \<Rightarrow> int \<Rightarrow> fs_error \<Rightarrow> ('x, unit) fm" where
  "deadLetter E L evt n cause =
     fexec E (fq_InsertDeadLetter ''loader'' (ld_system L) (fe_uuid_text E (fv_id evt)) (ld_jsonb L (fv_payload evt))
       (fe_text E cause) (wrap32 n))"

text \<open>An \<open>APIError\<close> inside \<open>RetryExhausted\<close> is caught by the first case.\<close>

definition onPushError :: "fenv \<Rightarrow> loader \<Rightarrow> fs_event \<Rightarrow> fs_error \<Rightarrow> ('x, unit) fm" where
  "onPushError E L evt e =
     (case e of
        RetryExhausted n _ \<Rightarrow> deadLetter E L evt n e
      | ApiError status ra body \<Rightarrow> if \<not> api_retryable e then deadLetter E L evt 1 e else fthrow e
      | _ \<Rightarrow> fthrow e)"

definition Loader_Handle :: "fenv \<Rightarrow> loader \<Rightarrow> 'x pusher \<Rightarrow> fs_event \<Rightarrow> ('x, unit) fm" where
  "Loader_Handle E L push evt =
     (if fv_actor evt = OriginActor (ld_system L) then fret ()
      else
        (case payload_into E (ld_zero L, \<lparr>ct_title = [], ct_status = [], ct_notes = []\<rparr>, False) (fv_payload evt) of
           ((_, c, _), ok) \<Rightarrow>
             if \<not> ok then deadLetter E L evt 1 DecodeFailed
             else fhandle (fexec E (fq_GetExternalLinkByInternal (ld_system L) (fv_aggregate_id evt))) (\<lambda>r.
               case r of
                 Inl e \<Rightarrow> if e = FsNoRows then fret () else fthrow e
               | Inr link \<Rightarrow>
                   let patch = PatchFor (ld_own L) c in
                   if patch_empty patch then fret ()
                   else fhandle (push (lk_external link) patch (fe_uuid_text E (fv_id evt))) (\<lambda>r.
                     case r of
                       Inl e \<Rightarrow> onPushError E L evt e
                     | Inr i \<Rightarrow> fexec E (fq_UpsertSyncPushed (ld_system L) (fv_aggregate_id evt) (xi_version i) (content_hash E (ContentOf i)))))))"

subsection \<open>The extractor\<close>

record extractor =
  ex_applier :: applier
  ex_budget :: int
  ex_overlap :: int
  ex_page :: int

record ex_result =
  er_pages :: nat
  er_issues :: nat
  er_done :: bool

type_synonym 'x lister = "int \<Rightarrow> string \<Rightarrow> int \<Rightarrow> ('x, issue_page) fm"

text \<open>Times of the run are nanoseconds, columns are microseconds; a column that is null gives the zero time.\<close>

definition ns_of :: "time \<Rightarrow> int" where "ns_of t = t * 1000"

definition checkpoint :: "sync_state \<Rightarrow> int \<Rightarrow> string \<Rightarrow> int option \<Rightarrow> string \<Rightarrow> unit fstmt" where
  "checkpoint prior since next runMax system =
     (if next = [] then fq_UpsertSyncState system (map_option toTimestamptz runMax) None [] None
      else fq_UpsertSyncState system (sy_watermark prior) (Some (toTimestamptz since)) next (map_option toTimestamptz runMax))"

definition run_max :: "int option \<Rightarrow> issue list \<Rightarrow> int option" where
  "run_max m is = foldl (\<lambda>m i. case m of None \<Rightarrow> Some (xi_updated i) | Some t \<Rightarrow> if xi_updated i > t then Some (xi_updated i) else m) m is"

definition zero_state :: sync_state where
  "zero_state = \<lparr>sy_system = [], sy_watermark = None, sy_since = None, sy_cursor = [], sy_max = None, sy_updated = fs_zero_time div 1000\<rparr>"

text \<open>Where a run starts: \<open>since\<close>, the cursor and the greatest time seen.\<close>

definition run_start :: "int \<Rightarrow> sync_state \<Rightarrow> int \<times> string \<times> int option" where
  "run_start overlap st =
     (if sy_cursor st = []
      then (case sy_watermark st of None \<Rightarrow> fs_zero_time | Some t \<Rightarrow> ns_of t - overlap, [], map_option ns_of (sy_watermark st))
      else (case sy_since st of None \<Rightarrow> fs_zero_time | Some t \<Rightarrow> ns_of t, sy_cursor st, map_option ns_of (sy_max st)))"

text \<open>The transaction of a page.\<close>

definition apply_page :: "fenv \<Rightarrow> extractor \<Rightarrow> sync_state \<Rightarrow> int \<Rightarrow> issue_page \<Rightarrow> int option \<Rightarrow> ('x, unit) fm" where
  "apply_page E X prior since page runMax = InTx E
     (fbind (feach (Apply E (ex_applier X) SourcePoll) (xg_issues page)) (\<lambda>_.
      fexec E (checkpoint prior since (xg_next page) runMax (ap_system (ex_applier X)))))"

text \<open>
  The loop over pages with a bound on their number; \<open>None\<close> says that the bound was reached. The result
  is the error, if any, and what was done.
\<close>

fun run_pages ::
    "fenv \<Rightarrow> extractor \<Rightarrow> 'x lister \<Rightarrow> int \<Rightarrow> sync_state \<Rightarrow> int \<Rightarrow> nat \<Rightarrow> string \<Rightarrow> int option \<Rightarrow> int \<Rightarrow> ex_result \<Rightarrow> 'x fworld
       \<Rightarrow> ((fs_error option \<times> ex_result) \<times> 'x fworld) option" where
  "run_pages E X ls deadline prior since 0 cursor runMax slowest res w = None"
| "run_pages E X ls deadline prior since (Suc k) cursor runMax slowest res w =
     (let remaining = deadline - ns_of (fnow E w) in
      if remaining \<le> 0 \<or> remaining < slowest then Some ((None, res), ftick w)
      else
        (let started = ns_of (fnow E (ftick w)) in
         case ls since cursor (ex_page X) (ftick (ftick w)) of
           (Inl e, w1) \<Rightarrow> Some ((Some e, res), w1)
         | (Inr page, w1) \<Rightarrow>
             (let m = run_max runMax (xg_issues page) in
              case apply_page E X prior since page m w1 of
                (Inl e, w2) \<Rightarrow> Some ((Some e, res), w2)
              | (Inr _, w2) \<Rightarrow>
                  (let res' = \<lparr>er_pages = er_pages res + 1, er_issues = er_issues res + length (xg_issues page), er_done = er_done res\<rparr> in
                   if xg_next page = [] then Some ((None, res'\<lparr>er_done := True\<rparr>), w2)
                   else run_pages E X ls deadline prior since k (xg_next page) m
                          (max slowest (ns_of (fnow E w2) - started)) res' (ftick w2)))))"

definition Extractor_Run ::
    "fenv \<Rightarrow> extractor \<Rightarrow> 'x lister \<Rightarrow> nat \<Rightarrow> 'x fworld \<Rightarrow> ((fs_error option \<times> ex_result) \<times> 'x fworld) option" where
  "Extractor_Run E X ls pages w =
     (let deadline = ns_of (fnow E w) + ex_budget X;
          nothing = \<lparr>er_pages = 0, er_issues = 0, er_done = False\<rparr> in
      case fexec E (fq_GetSyncState (ap_system (ex_applier X))) (ftick w) of
        (r, w1) \<Rightarrow>
          (case (case r of Inl e \<Rightarrow> if e = FsNoRows then Inr zero_state else Inl e | Inr st \<Rightarrow> Inr st) of
             Inl e \<Rightarrow> Some ((Some e, nothing), w1)
           | Inr st \<Rightarrow>
               (case run_start (ex_overlap X) st of (since, cursor, m) \<Rightarrow>
                  run_pages E X ls deadline st since pages cursor m 0 nothing w1)))"

end
