(* ===== verification/FsMockjira.thy ===== *)
theory FsMockjira
  imports FsClient Base64 "HOL-Library.List_Lexorder" "HOL-Library.Char_ord" "HOL-Library.Product_Lexorder"
begin

section \<open>offline-sync-app: the stand-in for the issue tracker\<close>

text \<open>
  \<open>offline-sync-app/internal/mockjira\<close>: an issue tracker in memory with versions, tombstones, keyset pages,
  idempotent patches, injected faults and signed webhooks. Issues and patches are those of \<open>FsTwoway\<close>, as
  the wire format is the same. The map of issues is a list in order of creation; every read of the clock
  has its number. The receiver of the webhooks is a parameter: it answers with a status, or not at all.
\<close>

subsection \<open>State\<close>

record mj_options =
  mo_now :: "nat \<Rightarrow> int"
  mo_secret :: string

datatype flush_mode = FlushInOrder | FlushDuplicated | FlushReversed | FlushDropped

type_synonym delivery = "string \<times> string"
type_synonym mj_fault = "nat \<times> int"

record mockjira =
  mj_issues :: "issue list"
  mj_nextIssue :: nat
  mj_nextDelivery :: nat
  mj_idem :: "string \<rightharpoonup> issue"
  mj_pending :: "delivery list"
  mj_faults :: "mj_fault list"
  mj_patches :: nat
  mj_reads :: nat

definition mj_New :: mockjira where
  "mj_New = \<lparr>mj_issues = [], mj_nextIssue = 0, mj_nextDelivery = 0, mj_idem = Map.empty, mj_pending = [], mj_faults = [],
     mj_patches = 0, mj_reads = 0\<rparr>"

subsection \<open>Issues\<close>

definition issue_json :: "fenv \<Rightarrow> issue \<Rightarrow> json" where
  "issue_json E i = JObject
     [(''id'', JString (xi_id i)), (''summary'', JString (xi_summary i)), (''status'', JString (xi_status i)),
      (''description'', JString (xi_description i)), (''version'', JNumber (show_int (xi_version i))),
      (''deleted'', JBool (xi_deleted i)), (''updatedAt'', JString (fe_time E (xi_updated i)))]"

definition mj_enqueue :: "fenv \<Rightarrow> string \<Rightarrow> issue \<Rightarrow> mockjira \<Rightarrow> mockjira" where
  "mj_enqueue E event i s =
     s\<lparr>mj_nextDelivery := Suc (mj_nextDelivery s),
       mj_pending := mj_pending s @ [(''dlv-'' @ show_nat (Suc (mj_nextDelivery s)),
         render (JObject [(''event'', JString event), (''issue'', issue_json E i)]))]\<rparr>"

definition mj_Create :: "fenv \<Rightarrow> mj_options \<Rightarrow> string \<Rightarrow> string \<Rightarrow> string \<Rightarrow> mockjira \<Rightarrow> issue \<times> mockjira" where
  "mj_Create E J summary status description s =
     (let i = \<lparr>xi_id = ''MJ-'' @ show_nat (Suc (mj_nextIssue s)), xi_summary = summary, xi_status = status,
               xi_description = description, xi_version = 1, xi_deleted = False, xi_updated = mo_now J (mj_reads s)\<rparr>
      in (i, mj_enqueue E ''issue.created'' i
            (s\<lparr>mj_nextIssue := Suc (mj_nextIssue s), mj_issues := mj_issues s @ [i], mj_reads := Suc (mj_reads s)\<rparr>)))"

definition mj_Get :: "string \<Rightarrow> mockjira \<Rightarrow> issue option" where
  "mj_Get ident s = find (\<lambda>i. xi_id i = ident) (mj_issues s)"

definition patched :: "issue_patch \<Rightarrow> issue \<Rightarrow> issue" where
  "patched p i = i\<lparr>xi_summary := (case xp_summary p of None \<Rightarrow> xi_summary i | Some x \<Rightarrow> x),
     xi_status := (case xp_status p of None \<Rightarrow> xi_status i | Some x \<Rightarrow> x),
     xi_description := (case xp_description p of None \<Rightarrow> xi_description i | Some x \<Rightarrow> x)\<rparr>"

text \<open>Putting a changed issue in its place, with the next version and the time.\<close>

definition mj_put :: "fenv \<Rightarrow> mj_options \<Rightarrow> string \<Rightarrow> issue \<Rightarrow> mockjira \<Rightarrow> issue \<times> mockjira" where
  "mj_put E J event i s =
     (let i' = i\<lparr>xi_version := wrap64 (xi_version i + 1), xi_updated := mo_now J (mj_reads s)\<rparr>
      in (i', mj_enqueue E event i'
            (s\<lparr>mj_issues := update_where (\<lambda>x. xi_id x = xi_id i) (\<lambda>_. i') (mj_issues s), mj_reads := Suc (mj_reads s)\<rparr>)))"

definition mj_update :: "fenv \<Rightarrow> mj_options \<Rightarrow> string \<Rightarrow> issue_patch \<Rightarrow> mockjira \<Rightarrow> issue option \<times> mockjira" where
  "mj_update E J ident p s =
     (case mj_Get ident s of
        None \<Rightarrow> (None, s)
      | Some i \<Rightarrow> (case mj_put E J ''issue.updated'' (patched p i) s of (i', s') \<Rightarrow> (Some i', s')))"

definition mj_Delete :: "fenv \<Rightarrow> mj_options \<Rightarrow> string \<Rightarrow> mockjira \<Rightarrow> issue option \<times> mockjira" where
  "mj_Delete E J ident s =
     (case mj_Get ident s of
        None \<Rightarrow> (None, s)
      | Some i \<Rightarrow> (case mj_put E J ''issue.deleted'' (i\<lparr>xi_deleted := True\<rparr>) s of (i', s') \<Rightarrow> (Some i', s')))"

text \<open>A repeated key gives the stored answer.\<close>

definition mj_patch :: "fenv \<Rightarrow> mj_options \<Rightarrow> string \<Rightarrow> issue_patch \<Rightarrow> string \<Rightarrow> mockjira \<Rightarrow> issue option \<times> mockjira" where
  "mj_patch E J ident p key s =
     (let s1 = s\<lparr>mj_patches := Suc (mj_patches s)\<rparr> in
      if key \<noteq> [] \<and> mj_idem s1 key \<noteq> None then (mj_idem s1 key, s1)
      else
        (case mj_update E J ident p s1 of
           (None, s2) \<Rightarrow> (None, s2)
         | (Some i, s2) \<Rightarrow> (Some i, if key \<noteq> [] then s2\<lparr>mj_idem := (mj_idem s2)(key \<mapsto> i)\<rparr> else s2)))"

subsection \<open>Pages\<close>

text \<open>Issues are ordered by time and identifier; a cursor is the position of the last one given.\<close>

definition position :: "issue \<Rightarrow> int \<times> string" where
  "position i = (xi_updated i, xi_id i)"

definition encodeCursor :: "issue \<Rightarrow> string" where
  "encodeCursor i = EncodeToString (bytes_of (render (JObject
     [(''t'', JNumber (show_int (wrap64 (xi_updated i)))), (''id'', JString (xi_id i))])))"

definition decodeCursor :: "string \<Rightarrow> (int \<times> string) option" where
  "decodeCursor cursor =
     (if cursor = [] then Some (0, [])
      else
        (case DecodeString cursor of None \<Rightarrow> None | Some raw \<Rightarrow>
        (case Unmarshal (string_of raw) of None \<Rightarrow> None | Some v \<Rightarrow>
        (case members_of v of None \<Rightarrow> None | Some ms \<Rightarrow>
           (let (t, ok1) = assign_all (int_into 64) 0 (assigned [''t'', ''id''] ''t'' ms);
                (i, ok2) = assign_all string_into [] (assigned [''t'', ''id''] ''id'' ms)
            in if ok1 \<and> ok2 then Some (t, i) else None)))))"

definition mj_List :: "int \<Rightarrow> string \<Rightarrow> int \<Rightarrow> mockjira \<Rightarrow> issue_page option" where
  "mj_List since cursor limit s =
     (case decodeCursor cursor of
        None \<Rightarrow> None
      | Some start \<Rightarrow>
          (let matching = sort_key position (filter (\<lambda>i. \<not> xi_updated i < since \<and> (cursor \<noteq> [] \<longrightarrow> start < position i)) (mj_issues s)) in
           Some (if limit > 0 \<and> int (length matching) > limit
                 then \<lparr>xg_issues = take (nat limit) matching, xg_next = encodeCursor (matching ! (nat limit - 1))\<rparr>
                 else \<lparr>xg_issues = matching, xg_next = []\<rparr>)))"

subsection \<open>Webhooks\<close>

type_synonym 'r receiver = "'r \<Rightarrow> webhook_request \<Rightarrow> nat option \<times> 'r"

definition mj_sign :: "fenv \<Rightarrow> string \<Rightarrow> string \<Rightarrow> string \<Rightarrow> string \<Rightarrow> string" where
  "mj_sign E secret ts deliveryID body = hex_encode (fe_hmac E secret (ts @ ''.'' @ deliveryID @ ''.'' @ body))"

definition Deliver :: "fenv \<Rightarrow> mj_options \<Rightarrow> 'r receiver \<Rightarrow> delivery \<Rightarrow> int \<Rightarrow> 'r \<Rightarrow> nat option \<times> 'r" where
  "Deliver E J R d signedAt r =
     (let ts = show_int (signedAt div go_second) in
      R r \<lparr>wq_delivery = fst d, wq_timestamp = ts, wq_signature = ''sha256='' @ mj_sign E (mo_secret J) ts (fst d) (snd d),
           wq_body = Some (snd d)\<rparr>)"

text \<open>The posts of a flush, one after the other, up to the first failure.\<close>

primrec flush_posts ::
    "fenv \<Rightarrow> mj_options \<Rightarrow> 'r receiver \<Rightarrow> delivery list \<Rightarrow> nat \<Rightarrow> mockjira \<times> 'r \<Rightarrow> (nat \<times> fs_error option) \<times> mockjira \<times> 'r" where
  "flush_posts E J R [] n sr = ((n, None), sr)"
| "flush_posts E J R (d # ds) n sr =
     (case Deliver E J R d (mo_now J (mj_reads (fst sr))) (snd sr) of
        (res, r') \<Rightarrow>
          (let s' = (fst sr)\<lparr>mj_reads := Suc (mj_reads (fst sr))\<rparr> in
           case res of
             None \<Rightarrow> ((n + 1, Some FsUnavailable), (s', r'))
           | Some status \<Rightarrow>
               if status < 200 \<or> status > 299
               then ((n + 1, Some (FsOther (''delivery '' @ fst d @ '': receiver answered '' @ show_nat status))), (s', r'))
               else flush_posts E J R ds (n + 1) (s', r')))"

definition Flush ::
    "fenv \<Rightarrow> mj_options \<Rightarrow> 'r receiver \<Rightarrow> flush_mode \<Rightarrow> mockjira \<times> 'r \<Rightarrow> (nat \<times> fs_error option) \<times> mockjira \<times> 'r" where
  "Flush E J R mode sr =
     (let batch = mj_pending (fst sr); sr' = ((fst sr)\<lparr>mj_pending := []\<rparr>, snd sr) in
      case mode of
        FlushDropped \<Rightarrow> ((0, None), sr')
      | FlushReversed \<Rightarrow> flush_posts E J R (rev batch) 0 sr'
      | FlushDuplicated \<Rightarrow> flush_posts E J R (concat (map (replicate 2) batch)) 0 sr'
      | FlushInOrder \<Rightarrow> flush_posts E J R batch 0 sr')"

subsection \<open>The REST interface\<close>

definition http_text :: "nat \<Rightarrow> string \<Rightarrow> http_resp" where
  "http_text status msg = \<lparr>hr_status = status, hr_retry = [], hr_body = msg @ [byte 10]\<rparr>"

definition http_json :: "nat \<Rightarrow> json \<Rightarrow> http_resp" where
  "http_json status v = \<lparr>hr_status = status, hr_retry = [], hr_body = render v @ [byte 10]\<rparr>"

definition query_get :: "string \<Rightarrow> http_req \<Rightarrow> string" where
  "query_get k q = (case find (\<lambda>(a, b). a = k) (hq_query q) of None \<Rightarrow> [] | Some (a, v) \<Rightarrow> v)"

text \<open>The value \<open>strconv.Atoi\<close> returns beside its error: 0, or the nearest 64-bit integer.\<close>

definition atoi_value :: "string \<Rightarrow> int" where
  "atoi_value s =
     (case parse_seconds s of
        Some n \<Rightarrow> n
      | None \<Rightarrow>
          (let ds = (case s of c # r \<Rightarrow> if c = CHR ''+'' \<or> c = CHR ''-'' then r else s | [] \<Rightarrow> s) in
           if ds \<noteq> [] \<and> list_all is_digit ds then (if hd s = CHR ''-'' then - (2 ^ 63) else 2 ^ 63 - 1) else 0))"

definition page_json :: "fenv \<Rightarrow> issue_page \<Rightarrow> json" where
  "page_json E p = JObject [(''issues'', JArray (map (issue_json E) (xg_issues p))), (''nextCursor'', JString (xg_next p))]"

definition handleList :: "fenv \<Rightarrow> http_req \<Rightarrow> mockjira \<Rightarrow> http_resp" where
  "handleList E q s =
     (let raw = query_get ''updated_since'' q in
      case (if raw \<noteq> [] then fe_parse_time E raw else Some fs_zero_time) of
        None \<Rightarrow> http_text 400 ''invalid updated_since''
      | Some since \<Rightarrow>
          (case mj_List since (query_get ''cursor'' q) (atoi_value (query_get ''limit'' q)) s of
             None \<Rightarrow> http_text 400 ''invalid cursor''
           | Some page \<Rightarrow> http_json 200 (page_json E page)))"

definition body_of :: "http_req \<Rightarrow> string" where
  "body_of q = (case hq_body q of None \<Rightarrow> [] | Some b \<Rightarrow> b)"

definition handleCreate :: "fenv \<Rightarrow> mj_options \<Rightarrow> http_req \<Rightarrow> mockjira \<Rightarrow> http_resp \<times> mockjira" where
  "handleCreate E J q s =
     (let names = [''summary'', ''status'', ''description''] in
      case (case Decode_json (body_of q) of None \<Rightarrow> None | Some v \<Rightarrow> members_of v) of
        None \<Rightarrow> (http_text 400 ''invalid body'', s)
      | Some ms \<Rightarrow>
          (let (a, ok1) = assign_all string_into [] (assigned names ''summary'' ms);
               (b, ok2) = assign_all string_into [] (assigned names ''status'' ms);
               (c, ok3) = assign_all string_into [] (assigned names ''description'' ms)
           in if ok1 \<and> ok2 \<and> ok3
              then (case mj_Create E J a b c s of (i, s') \<Rightarrow> (http_json 201 (issue_json E i), s'))
              else (http_text 400 ''invalid body'', s)))"

text \<open>A field that points to a string.\<close>

fun pointer_into :: "string option \<Rightarrow> json \<Rightarrow> string option \<times> bool" where
  "pointer_into cur (JString s) = (Some s, True)"
| "pointer_into cur JNull = (None, True)"
| "pointer_into cur v = (cur, False)"

definition decode_patch :: "string \<Rightarrow> issue_patch option" where
  "decode_patch body =
     (let names = [''summary'', ''status'', ''description''] in
      case (case Decode_json body of None \<Rightarrow> None | Some v \<Rightarrow> members_of v) of
        None \<Rightarrow> None
      | Some ms \<Rightarrow>
          (let (a, ok1) = assign_all pointer_into None (assigned names ''summary'' ms);
               (b, ok2) = assign_all pointer_into None (assigned names ''status'' ms);
               (c, ok3) = assign_all pointer_into None (assigned names ''description'' ms)
           in if ok1 \<and> ok2 \<and> ok3 then Some \<lparr>xp_summary = a, xp_status = b, xp_description = c\<rparr> else None))"

definition issue_reply :: "fenv \<Rightarrow> issue option \<Rightarrow> http_resp" where
  "issue_reply E r = (case r of None \<Rightarrow> http_text 404 ''issue not found'' | Some i \<Rightarrow> http_json 200 (issue_json E i))"

definition handlePatch :: "fenv \<Rightarrow> mj_options \<Rightarrow> string \<Rightarrow> http_req \<Rightarrow> mockjira \<Rightarrow> http_resp \<times> mockjira" where
  "handlePatch E J ident q s =
     (case decode_patch (body_of q) of
        None \<Rightarrow> (http_text 400 ''invalid body'', s)
      | Some p \<Rightarrow> (case mj_patch E J ident p (hq_key q) s of (r, s') \<Rightarrow> (issue_reply E r, s')))"

definition handleDelete :: "fenv \<Rightarrow> mj_options \<Rightarrow> string \<Rightarrow> mockjira \<Rightarrow> http_resp \<times> mockjira" where
  "handleDelete E J ident s = (case mj_Delete E J ident s of (r, s') \<Rightarrow> (issue_reply E r, s'))"

text \<open>An injected fault answers before the handler runs.\<close>

definition mj_rest :: "(mockjira \<Rightarrow> http_resp \<times> mockjira) \<Rightarrow> mockjira \<Rightarrow> http_resp \<times> mockjira" where
  "mj_rest handler s =
     (case mj_faults s of
        [] \<Rightarrow> handler s
      | (status, ra) # fs \<Rightarrow>
          ((http_text status ''injected fault'')\<lparr>hr_retry := (if ra > 0 then show_int (ra div go_second) else [])\<rparr>,
           s\<lparr>mj_faults := fs\<rparr>))"

definition FailNext :: "int \<Rightarrow> nat \<Rightarrow> int \<Rightarrow> mockjira \<Rightarrow> mockjira" where
  "FailNext n status ra s = s\<lparr>mj_faults := mj_faults s @ replicate (nat n) (status, ra)\<rparr>"

definition handleAdminFail :: "http_req \<Rightarrow> mockjira \<Rightarrow> http_resp \<times> mockjira" where
  "handleAdminFail q s =
     (let n = atoi_value (query_get ''n'' q); status = atoi_value (query_get ''status'' q);
          ra = atoi_value (query_get ''retry_after'' q) in
      if n \<le> 0 \<or> status < 400 then (http_text 400 ''n must be > 0 and status >= 400'', s)
      else (\<lparr>hr_status = 204, hr_retry = [], hr_body = []\<rparr>, FailNext n (nat status) (wrap64 (ra * go_second)) s))"

definition flush_mode_of :: "string \<Rightarrow> flush_mode option" where
  "flush_mode_of m = map_of [([], FlushInOrder), (''in_order'', FlushInOrder), (''duplicate'', FlushDuplicated),
     (''reverse'', FlushReversed), (''drop'', FlushDropped)] m"

definition handleAdminFlush ::
    "fenv \<Rightarrow> mj_options \<Rightarrow> 'r receiver \<Rightarrow> http_req \<Rightarrow> mockjira \<times> 'r \<Rightarrow> http_resp \<times> mockjira \<times> 'r" where
  "handleAdminFlush E J R q sr =
     (case flush_mode_of (query_get ''mode'' q) of
        None \<Rightarrow> (http_text 400 ''mode must be in_order, duplicate, reverse or drop'', sr)
      | Some mode \<Rightarrow>
          (case Flush E J R mode sr of
             ((posts, Some e), sr') \<Rightarrow> (http_text 502 (fe_text E e), sr')
           | ((posts, None), sr') \<Rightarrow> (http_json 200 (JObject [(''posts'', JNumber (show_nat posts))]), sr')))"

text \<open>The routes; a \<open>GET\<close> route serves \<open>HEAD\<close> without the body.\<close>

definition on_issues :: "fenv \<Rightarrow> mj_options \<Rightarrow> string \<Rightarrow> http_req \<Rightarrow> mockjira \<Rightarrow> http_resp \<times> mockjira" where
  "on_issues E J meth q =
     (if meth = ''GET'' then mj_rest (\<lambda>s. (handleList E q s, s))
      else if meth = ''POST'' then mj_rest (handleCreate E J q)
      else (\<lambda>s. (http_text 405 ''Method Not Allowed'', s)))"

definition on_issue :: "fenv \<Rightarrow> mj_options \<Rightarrow> string \<Rightarrow> string \<Rightarrow> http_req \<Rightarrow> mockjira \<Rightarrow> http_resp \<times> mockjira" where
  "on_issue E J meth ident q =
     (if meth = ''GET'' then mj_rest (\<lambda>s. (issue_reply E (mj_Get ident s), s))
      else if meth = ''PATCH'' then mj_rest (handlePatch E J ident q)
      else if meth = ''DELETE'' then mj_rest (handleDelete E J ident)
      else (\<lambda>s. (http_text 405 ''Method Not Allowed'', s)))"

definition mj_Handler :: "fenv \<Rightarrow> mj_options \<Rightarrow> 'r receiver \<Rightarrow> (mockjira \<times> 'r) remote" where
  "mj_Handler E J R sr q =
     (let meth = (if hq_method q = ''HEAD'' then ''GET'' else hq_method q);
          rest = (\<lambda>h. case h (fst sr) of (resp, s') \<Rightarrow> (resp, (s', snd sr)));
          (resp, sr') =
            (case hq_path q of
               [a] \<Rightarrow> if a = ''issues'' then rest (on_issues E J meth q) else (http_text 404 ''404 page not found'', sr)
             | [a, b] \<Rightarrow>
                 if a = ''issues'' \<and> b \<noteq> [] then rest (on_issue E J meth b q)
                 else if a = ''_admin'' \<and> b = ''fail''
                 then (if meth = ''POST'' then rest (handleAdminFail q) else (http_text 405 ''Method Not Allowed'', sr))
                 else if a = ''_admin'' \<and> b = ''flush''
                 then (if meth = ''POST'' then handleAdminFlush E J R q sr else (http_text 405 ''Method Not Allowed'', sr))
                 else (http_text 404 ''404 page not found'', sr)
             | _ \<Rightarrow> (http_text 404 ''404 page not found'', sr))
      in (if hq_method q = ''HEAD'' then resp\<lparr>hr_body := []\<rparr> else resp, sr'))"

end
