(* ===== verification/FsSyncClaims.thy ===== *)
theory FsSyncClaims
  imports FsSync
begin

section \<open>offline-sync-app: what syncing guarantees\<close>

text \<open>
  The tables stay well formed, no batch loses or rewinds a record, a committed batch publishes exactly
  what it applied, replaying a batch changes nothing, and servers that saw the same edits in any order
  and any number of times agree.
\<close>

subsection \<open>Well-formed tables\<close>

definition fdb_ok :: "fdb \<Rightarrow> bool" where
  "fdb_ok d \<longleftrightarrow>
     distinct (map lc_id (f_locations d)) \<and> distinct (map sa_id (f_sites d)) \<and> distinct (map ph_id (f_photos d)) \<and>
     distinct (map fv_id (f_events d)) \<and>
     (\<forall>s \<in> set (f_sites d). sa_location s \<in> lc_id ` set (f_locations d)) \<and>
     (\<forall>p \<in> set (f_photos d). ph_site p \<in> sa_id ` set (f_sites d) \<and> ph_condition p \<in> conditions \<and> site_photos (ph_site p) d \<le> 10)"

text \<open>Every record is still there, with its origin, and no older than it was.\<close>

definition fdb_advances :: "fdb \<Rightarrow> fdb \<Rightarrow> bool" where
  "fdb_advances d d' \<longleftrightarrow>
     advances lc_id lc_updated (\<lambda>r. (lc_created r, lc_by r)) (f_locations d) (f_locations d') \<and>
     advances sa_id sa_updated (\<lambda>r. (sa_location r, sa_created r, sa_by r)) (f_sites d) (f_sites d') \<and>
     advances ph_id ph_updated (\<lambda>r. (ph_site r, ph_created r, ph_by r)) (f_photos d) (f_photos d')"

lemma fdb_advances_refl: "fdb_advances d d"
  by (simp add: fdb_advances_def lc.advances_refl sa.advances_refl ph.advances_refl)

lemma fdb_advances_trans: "fdb_advances a b \<Longrightarrow> fdb_advances b c \<Longrightarrow> fdb_advances a c"
  unfolding fdb_advances_def by (blast intro: lc.advances_trans sa.advances_trans ph.advances_trans)

lemma location_step_ok:
  assumes "location_step actor i d y d'" and "fdb_ok d" shows "fdb_ok d' \<and> fdb_advances d d'"
proof -
  have d': "d' = put_location (location_of actor i) d" using assms(1) by (simp add: location_step_def)
  have "distinct (map lc_id (f_locations d))" using assms(2) by (simp add: fdb_ok_def)
  then show ?thesis using assms(2) unfolding d'
    by (auto simp: fdb_ok_def fdb_advances_def site_photos_def lc.ids_put lc.put_advances sa.advances_refl ph.advances_refl
        intro!: lc.distinct_put)
qed

lemma site_step_ok:
  assumes "site_step actor i d y d'" and "fdb_ok d" shows "fdb_ok d' \<and> fdb_advances d d'"
proof -
  let ?n = "site_of actor i"
  have d': "d' = put_site ?n d" and p: "site_placed i d" using assms(1) by (simp_all add: site_step_def)
  have u: "distinct (map sa_id (f_sites d))" using assms(2) by (simp add: fdb_ok_def)
  have fk: "\<forall>s \<in> set (f_sites d'). sa_location s \<in> lc_id ` set (f_locations d)"
  proof
    fix s assume "s \<in> set (f_sites d')"
    then show "sa_location s \<in> lc_id ` set (f_locations d)"
    proof (simp add: d', elim sa.row_put)
      assume "\<forall>r \<in> set (f_sites d). sa_id r \<noteq> sa_id ?n" "s = ?n"
      then show ?thesis using p by (simp add: site_placed_def)
    next
      fix r assume "r \<in> set (f_sites d)" "s = set_site ?n r"
      then show ?thesis using assms(2) by (auto simp: fdb_ok_def set_site_def)
    qed (use assms(2) in \<open>auto simp: fdb_ok_def\<close>)
  qed
  show ?thesis using assms(2) u fk unfolding d'
    by (auto simp: fdb_ok_def fdb_advances_def site_photos_def sa.ids_put sa.put_advances lc.advances_refl ph.advances_refl
        intro!: sa.distinct_put)
qed

lemma site_photos_put:
  "count_where (\<lambda>r. ph_site r = s) (lww_put ph_id ph_updated set_photo n rows) =
     count_where (\<lambda>r. ph_site r = s) rows + (if (\<forall>r \<in> set rows. ph_id r \<noteq> ph_id n) \<and> ph_site n = s then 1 else 0)"
proof (rule ph.put_cases [of rows n])
  fix r assume r: "r \<in> set rows" "ph_id r = ph_id n"
    and p: "lww_put ph_id ph_updated set_photo n rows = update_where (\<lambda>x. ph_id x = ph_id n) (set_photo n) rows"
  have "count_where (\<lambda>r. ph_site r = s) (update_where Q (set_photo n) rows) = count_where (\<lambda>r. ph_site r = s) rows" for Q
    by (induction rows) (auto simp: count_where_def set_photo_def)
  then show ?thesis using r by (auto simp: p)
qed (auto simp: count_where_def)

lemma photo_step_ok:
  assumes "photo_step actor i d y d'" and "fdb_ok d" shows "fdb_ok d' \<and> fdb_advances d d'"
proof (cases "turned_away (photo_of actor i) d")
  case True then show ?thesis using assms by (simp add: photo_step_def put_photo_def fdb_advances_refl)
next
  case False
  let ?n = "photo_of actor i" and ?rows = "lww_put ph_id ph_updated set_photo (photo_of actor i) (f_photos d)"
  have d': "d' = d\<lparr>f_photos := ?rows\<rparr>" and p: "photo_placed i d"
    using assms(1) False by (simp_all add: photo_step_def put_photo_def)
  have u: "distinct (map ph_id (f_photos d))" using assms(2) by (simp add: fdb_ok_def)
  have cap: "site_photos (ph_site x) d' \<le> 10" for x
    
  proof -
    have "site_photos (ph_site x) d' = site_photos (ph_site x) d +
        (if (\<forall>r \<in> set (f_photos d). ph_id r \<noteq> ph_id ?n) \<and> ph_site ?n = ph_site x then 1 else 0)"
      unfolding d' site_photos_def by (simp add: site_photos_put)
    moreover have "site_photos (ph_site x) d \<le> 10 \<or> site_photos (ph_site x) d = 0"
    proof (cases "\<exists>r \<in> set (f_photos d). ph_site r = ph_site x")
      case True
      then obtain r where "r \<in> set (f_photos d)" "ph_site r = ph_site x" by blast
      then show ?thesis using assms(2) by (auto simp: fdb_ok_def)
    next
      case False then show ?thesis by (auto simp: site_photos_def count_where_zero)
    qed
    ultimately show ?thesis using False by (auto simp: turned_away_def)
  qed
  have "ph_site x \<in> sa_id ` set (f_sites d) \<and> ph_condition x \<in> conditions \<and> site_photos (ph_site x) d' \<le> 10"
    if "x \<in> set ?rows" for x
    using that
  proof (rule ph.row_put)
    assume "\<forall>r \<in> set (f_photos d). ph_id r \<noteq> ph_id ?n" "x = ?n"
    then show ?thesis using p cap [of x] by (simp add: photo_placed_def)
  next
    assume "x \<in> set (f_photos d)"
    then show ?thesis using assms(2) cap [of x] by (auto simp: fdb_ok_def)
  next
    fix r assume r: "r \<in> set (f_photos d)" "x = set_photo ?n r"
    then have "ph_site x = ph_site r" "ph_condition x = pi_condition i" by (simp_all add: set_photo_def)
    then show ?thesis using assms(2) r p cap [of x] by (auto simp: fdb_ok_def photo_placed_def)
  qed
  then show ?thesis using assms(2) u unfolding d'
    by (auto simp: fdb_ok_def fdb_advances_def ph.put_advances lc.advances_refl sa.advances_refl intro!: ph.distinct_put)
qed

lemma location_steps_ok:
  assumes "steps (location_step actor) xs d ys d'" and "fdb_ok d"
  shows "fdb_ok d' \<and> fdb_advances d d' \<and>
    (\<forall>i \<in> set xs. \<exists>r \<in> set (f_locations d'). lc_id r = li_id i \<and> toTimestamptz (li_updated i) \<le> lc_updated r)"
proof (rule steps_seen [where I = fdb_ok and A = fdb_advances, OF _ _ fdb_advances_refl fdb_advances_trans assms])
  fix x d y d' assume s: "location_step actor x d y d'" "fdb_ok d"
  then have "d' = put_location (location_of actor x) d" by (simp add: location_step_def)
  then show "fdb_ok d' \<and> fdb_advances d d' \<and>
      (\<exists>r \<in> set (f_locations d'). lc_id r = li_id x \<and> toTimestamptz (li_updated x) \<le> lc_updated r)"
    using location_step_ok [OF s] lc.seen_put [of "location_of actor x" "f_locations d"] by (simp add: location_of_def)
qed (auto simp: fdb_advances_def intro: lc.seen_advances)

lemma site_steps_ok:
  assumes "steps (site_step actor) xs d ys d'" and "fdb_ok d"
  shows "fdb_ok d' \<and> fdb_advances d d' \<and>
    (\<forall>i \<in> set xs. \<exists>r \<in> set (f_sites d'). sa_id r = si_id i \<and> toTimestamptz (si_updated i) \<le> sa_updated r)"
proof (rule steps_seen [where I = fdb_ok and A = fdb_advances, OF _ _ fdb_advances_refl fdb_advances_trans assms])
  fix x d y d' assume s: "site_step actor x d y d'" "fdb_ok d"
  then have "d' = put_site (site_of actor x) d" by (simp add: site_step_def)
  then show "fdb_ok d' \<and> fdb_advances d d' \<and>
      (\<exists>r \<in> set (f_sites d'). sa_id r = si_id x \<and> toTimestamptz (si_updated x) \<le> sa_updated r)"
    using site_step_ok [OF s] sa.seen_put [of "site_of actor x" "f_sites d"] by (simp add: site_of_def)
qed (auto simp: fdb_advances_def intro: sa.seen_advances)

lemma photo_steps_ok:
  assumes "steps (\<lambda>x d y d'. photo_step actor x d y d' \<and> Q y) xs d ys d'" and "fdb_ok d"
  shows "fdb_ok d' \<and> fdb_advances d d' \<and> ((\<forall>y. Q y \<longrightarrow> snd y \<noteq> OutcomeLimitExceeded) \<longrightarrow>
    (\<forall>i \<in> set xs. \<exists>r \<in> set (f_photos d'). ph_id r = pi_id i \<and> toTimestamptz (pi_updated i) \<le> ph_updated r))"
proof -
  let ?S = "\<lambda>x d'. (\<forall>y. Q y \<longrightarrow> snd y \<noteq> OutcomeLimitExceeded) \<longrightarrow>
      (\<exists>r \<in> set (f_photos d'). ph_id r = pi_id x \<and> toTimestamptz (pi_updated x) \<le> ph_updated r)"
  have "fdb_ok d' \<and> fdb_advances d d' \<and> (\<forall>i \<in> set xs. ?S i d')"
  proof (rule steps_seen [where I = fdb_ok and A = fdb_advances, OF _ _ fdb_advances_refl fdb_advances_trans assms])
    fix x d y d' assume s: "photo_step actor x d y d' \<and> Q y" and d: "fdb_ok d"
    have "?S x d'"
    proof
      assume "\<forall>y. Q y \<longrightarrow> snd y \<noteq> OutcomeLimitExceeded"
      then have "\<not> turned_away (photo_of actor x) d" using s by (cases y) (auto simp: photo_step_def)
      then have "f_photos d' = lww_put ph_id ph_updated set_photo (photo_of actor x) (f_photos d)"
        using s by (simp add: photo_step_def put_photo_def)
      then show "\<exists>r \<in> set (f_photos d'). ph_id r = pi_id x \<and> toTimestamptz (pi_updated x) \<le> ph_updated r"
        using ph.seen_put [of "photo_of actor x" "f_photos d"] by (simp add: photo_of_def)
    qed
    then show "fdb_ok d' \<and> fdb_advances d d' \<and> ?S x d'" using photo_step_ok d s by blast
  next
    fix x and a b :: fdb assume "?S x a" "fdb_advances a b"
    then show "?S x b" unfolding fdb_advances_def by (blast intro: ph.seen_advances)
  qed
  then show ?thesis by blast
qed

text \<open>Every record of a batch has been seen by the tables it left.\<close>

definition batch_seen :: "sync_request \<Rightarrow> fdb \<Rightarrow> bool" where
  "batch_seen req d \<longleftrightarrow>
     (\<forall>i \<in> set (rq_locations req). \<exists>r \<in> set (f_locations d). lc_id r = li_id i \<and> toTimestamptz (li_updated i) \<le> lc_updated r) \<and>
     (\<forall>i \<in> set (rq_sites req). \<exists>r \<in> set (f_sites d). sa_id r = si_id i \<and> toTimestamptz (si_updated i) \<le> sa_updated r) \<and>
     (\<forall>i \<in> set (rq_photos req). \<exists>r \<in> set (f_photos d). ph_id r = pi_id i \<and> toTimestamptz (pi_updated i) \<le> ph_updated r)"

lemma batch_seen_advances: "batch_seen req d \<Longrightarrow> fdb_advances d d' \<Longrightarrow> batch_seen req d'"
  unfolding batch_seen_def fdb_advances_def by (blast intro: lc.seen_advances sa.seen_advances ph.seen_advances)

lemma batch_effect_ok:
  assumes "batch_effect E actor req resp d d'" and "fdb_ok d"
  shows "fdb_ok d'" and "fdb_advances d d'"
    and "\<forall>y \<in> set (rs_photos resp). snd y \<noteq> OutcomeLimitExceeded \<Longrightarrow> batch_seen req d'"
proof -
  obtain d1 d2 d3 where s: "steps (location_step actor) (rq_locations req) d (rs_locations resp) d1"
     "steps (site_step actor) (rq_sites req) d1 (rs_sites resp) d2"
     "steps (photo_step actor) (rq_photos req) d2 (rs_photos resp) d3"
     "fs_appends (events_of E actor req resp) d3 d'"
    using assms(1) unfolding batch_effect_def by blast
  note 1 = location_steps_ok [OF s(1) assms(2)]
  note 2 = site_steps_ok [OF s(2) conjunct1 [OF 1]]
  have 3: "fdb_ok d3 \<and> fdb_advances d2 d3 \<and> ((\<forall>y. Q y \<longrightarrow> snd y \<noteq> OutcomeLimitExceeded) \<longrightarrow>
    (\<forall>i \<in> set (rq_photos req). \<exists>r \<in> set (f_photos d3). ph_id r = pi_id i \<and> toTimestamptz (pi_updated i) \<le> ph_updated r))"
    if "\<forall>y \<in> set (rs_photos resp). Q y" for Q
    using photo_steps_ok [OF steps_where [OF s(3) that] conjunct1 [OF 2]] .
  have e: "fdb_ok d' \<and> fdb_advances d3 d'" using 3 [of "\<lambda>_. True"] s(4)
    by (auto simp: fs_appends_def fdb_ok_def fdb_advances_def site_photos_def lc.advances_refl sa.advances_refl ph.advances_refl)
  show "fdb_ok d'" "fdb_advances d d'" using e 1 2 3 [of "\<lambda>_. True"] by (blast intro: fdb_advances_trans)+
  show "batch_seen req d'" if "\<forall>y \<in> set (rs_photos resp). snd y \<noteq> OutcomeLimitExceeded"
  proof -
    have a: "fdb_advances d1 d3" "fdb_advances d2 d3" using 2 3 [of "\<lambda>_. True"] by (blast intro: fdb_advances_trans)+
    have "batch_seen req d3" unfolding batch_seen_def
    proof (intro conjI)
      show "\<forall>i \<in> set (rq_locations req). \<exists>r \<in> set (f_locations d3). lc_id r = li_id i \<and> toTimestamptz (li_updated i) \<le> lc_updated r"
        using 1 a(1) unfolding fdb_advances_def by (blast intro: lc.seen_advances)
      show "\<forall>i \<in> set (rq_sites req). \<exists>r \<in> set (f_sites d3). sa_id r = si_id i \<and> toTimestamptz (si_updated i) \<le> sa_updated r"
        using 2 a(2) unfolding fdb_advances_def by (blast intro: sa.seen_advances)
      show "\<forall>i \<in> set (rq_photos req). \<exists>r \<in> set (f_photos d3). ph_id r = pi_id i \<and> toTimestamptz (pi_updated i) \<le> ph_updated r"
        using 3 [OF that] by blast
    qed
    then show ?thesis using e batch_seen_advances by blast
  qed
qed

lemma TxRunner_Sync_ok:
  assumes "TxRunner_Sync E actor req w = (r, w')" and "fdb_ok (fw_db w)"
  shows "fdb_ok (fw_db w') \<and> fdb_advances (fw_db w) (fw_db w')"
  by (rule TxRunner_Sync_commits [OF assms(1)]) (use assms(2) batch_effect_ok fdb_advances_refl in auto)

lemma run_syncs_ok:
  "run_syncs E batches w = (rs, w') \<Longrightarrow> fdb_ok (fw_db w) \<Longrightarrow> fdb_ok (fw_db w') \<and> fdb_advances (fw_db w) (fw_db w')"
proof (induction batches arbitrary: w rs)
  case Nil then show ?case by (simp add: fdb_advances_refl)
next
  case (Cons b batches)
  obtain r w1 where t: "TxRunner_Sync E (fst b) (snd b) w = (r, w1)" by fastforce
  obtain rs1 where u: "run_syncs E batches w1 = (rs1, w')" using Cons.prems(1) t by (auto simp: Let_def split: prod.splits)
  show ?case using Cons.IH [OF u] TxRunner_Sync_ok [OF t Cons.prems(2)] by (blast intro: fdb_advances_trans)
qed

subsection \<open>Replicas\<close>

definition location_updates :: "uuid \<Rightarrow> (string \<times> sync_request) list \<Rightarrow> (time \<times> string \<times> rat \<times> rat) list" where
  "location_updates i batches =
     concat (map (\<lambda>(_, req). map (\<lambda>x. (toTimestamptz (li_updated x), li_name x, li_lat x, li_lon x))
       (filter (\<lambda>x. li_id x = i) (rq_locations req))) batches)"

definition location_shown :: "uuid \<Rightarrow> fdb \<Rightarrow> (time \<times> string \<times> rat \<times> rat) option" where
  "location_shown i d = row_shown lc_id lc_updated location_content i (f_locations d)"

lemma newest_append: "newest (xs @ ys) u = newest ys (newest xs u)"
  by (induction xs arbitrary: u) auto

lemma newest_spec: "case newest xs u of
    None \<Rightarrow> xs = [] \<and> u = None
  | Some y \<Rightarrow> (y \<in> set xs \<or> u = Some y) \<and> (\<forall>x \<in> set xs. fst x \<le> fst y) \<and> (\<forall>x. u = Some x \<longrightarrow> fst x \<le> fst y)"
proof (induction xs arbitrary: u)
  case Nil then show ?case by (cases u) auto
next
  case (Cons x xs)
  show ?case using Cons.IH [of "case u of None \<Rightarrow> Some x | Some y \<Rightarrow> if fst x > fst y then Some x else Some y"]
    by (cases x) (auto split: option.splits if_splits)
qed

lemma location_steps_shown:
  "steps (location_step actor) xs d ys d' \<Longrightarrow> distinct (map lc_id (f_locations d)) \<Longrightarrow>
    location_shown i d' = newest (map (\<lambda>x. (toTimestamptz (li_updated x), li_name x, li_lat x, li_lon x)) (filter (\<lambda>x. li_id x = i) xs))
      (location_shown i d)"
proof (induction xs arbitrary: d ys)
  case (Cons x xs)
  then obtain y d1 ys1 where s: "location_step actor x d y d1" "steps (location_step actor) xs d1 ys1 d'" by auto
  then have d1: "f_locations d1 = lww_put lc_id lc_updated set_location (location_of actor x) (f_locations d)"
    by (simp add: location_step_def)
  then have "distinct (map lc_id (f_locations d1))" using Cons.prems(2) by (simp add: lc.distinct_put)
  then show ?case using Cons.IH [OF s(2)] d1 Cons.prems(2)
    by (auto simp: location_shown_def lc.shown_put location_content_def location_of_def)
qed simp

lemma batch_effect_shown:
  assumes "batch_effect E actor req resp d d'" and "fdb_ok d"
  shows "location_shown i d' = newest (location_updates i [(actor, req)]) (location_shown i d)"
proof -
  obtain d1 d2 d3 where s: "steps (location_step actor) (rq_locations req) d (rs_locations resp) d1"
     "steps (site_step actor) (rq_sites req) d1 (rs_sites resp) d2"
     "steps (photo_step actor) (rq_photos req) d2 (rs_photos resp) d3"
     "fs_appends (events_of E actor req resp) d3 d'"
    using assms(1) unfolding batch_effect_def by blast
  have "f_locations d2 = f_locations d1"
    by (rule steps_keep [OF _ s(2), of "\<lambda>d. f_locations d = f_locations d1"]) (auto simp: site_step_def)
  moreover have "f_locations d3 = f_locations d2"
    by (rule steps_keep [OF _ s(3), of "\<lambda>d. f_locations d = f_locations d2"]) (auto simp: photo_step_def put_photo_def)
  moreover have "f_locations d' = f_locations d3" using s(4) by (auto simp: fs_appends_def)
  ultimately show ?thesis using location_steps_shown [OF s(1)] assms(2)
    by (simp add: location_shown_def location_updates_def fdb_ok_def)
qed

lemma run_syncs_shown:
  "run_syncs E batches w = (rs, w') \<Longrightarrow> fdb_ok (fw_db w) \<Longrightarrow> \<forall>r \<in> set rs. \<exists>x. r = Inr x \<Longrightarrow>
    location_shown i (fw_db w') = newest (location_updates i batches) (location_shown i (fw_db w))"
proof (induction batches arbitrary: w rs)
  case Nil then show ?case by (simp add: location_updates_def)
next
  case (Cons b batches)
  obtain r w1 where t: "TxRunner_Sync E (fst b) (snd b) w = (r, w1)" by fastforce
  obtain rs1 where u: "run_syncs E batches w1 = (rs1, w')" "rs = r # rs1"
    using Cons.prems(1) t by (auto simp: Let_def split: prod.splits)
  obtain resp where e: "batch_effect E (fst b) (snd b) resp (fw_db w) (fw_db w1)"
    by (rule TxRunner_Sync_commits [OF t]) (use Cons.prems(3) u(2) in auto)
  have "location_shown i (fw_db w1) = newest (location_updates i [b]) (location_shown i (fw_db w))"
    using batch_effect_shown [OF e Cons.prems(2)] by simp
  moreover have "location_shown i (fw_db w') = newest (location_updates i batches) (location_shown i (fw_db w1))"
    using Cons.IH [OF u(1)] batch_effect_ok(1) [OF e Cons.prems(2)] Cons.prems(3) u(2) by simp
  moreover have "location_updates i (b # batches) = location_updates i [b] @ location_updates i batches"
    by (simp add: location_updates_def)
  ultimately show ?case by (simp add: newest_append)
qed

subsection \<open>A concrete server\<close>

definition fs_env :: "(nat \<Rightarrow> fate) \<Rightarrow> fenv" where
  "fs_env f = \<lparr>fe_fate = f, fe_clock = int, fe_uuid = (\<lambda>n. 1000 + n), fe_uuid_text = show_nat,
     fe_uuid_parse = (\<lambda>s. if s = [] then None else Some (read_nat s)), fe_text = (\<lambda>_. ''error''),
     fe_float = (\<lambda>_. ''0''), fe_time = show_int, fe_parse_time = (\<lambda>s. if s = [] then None else Some (int (read_nat s))),
     fe_rand = (\<lambda>_. 0), fe_sha = (\<lambda>s. s), fe_hmac = (\<lambda>k m. k @ m), fe_rank = (\<lambda>s. rat_of_nat (length s))\<rparr>"

definition empty_fdb :: fdb where
  "empty_fdb = \<lparr>f_locations = [], f_sites = [], f_photos = [], f_events = [], f_processed = [], f_stats = [], f_conns = [],
     f_items = [], f_links = [], f_pushed = [], f_sync = [], f_inbox = [], f_dead = []\<rparr>"

definition fs_start :: "unit fworld" where
  "fs_start = \<lparr>fw_db = empty_fdb, fw_tx = None, fw_ext = (), fw_bus = [], fw_calls = 0\<rparr>"

definition bridge :: "string \<Rightarrow> int \<Rightarrow> location_input" where
  "bridge name t = \<lparr>li_id = 1, li_name = name, li_lat = 1, li_lon = 2, li_created = 5000, li_updated = t\<rparr>"

definition pylon :: site_input where
  "pylon = \<lparr>si_id = 2, si_location = 1, si_name = ''pylon'', si_notes = [], si_created = 6000, si_updated = 6000\<rparr>"

definition crack :: photo_input where
  "crack = \<lparr>pi_id = 3, pi_site = 2, pi_key = ''k'', pi_lat = 0, pi_lon = 0, pi_condition = ''bad'', pi_created = 7000, pi_updated = 7000\<rparr>"

definition locations_only :: "location_input list \<Rightarrow> sync_request" where
  "locations_only ls = \<lparr>rq_locations = ls, rq_sites = [], rq_photos = []\<rparr>"

definition survey :: sync_request where
  "survey = \<lparr>rq_locations = [bridge ''a'' 8000], rq_sites = [pylon], rq_photos = [crack]\<rparr>"

lemma fs_env_simps [simp]: "fe_fate (fs_env f) = f" "fe_clock (fs_env f) = int" "fe_uuid (fs_env f) n = 1000 + n"
  "fe_uuid_text (fs_env f) = show_nat" "fe_time (fs_env f) = show_int" "fe_sha (fs_env f) s = s"
  by (simp_all add: fs_env_def)

lemmas fs_model = empty_fdb_def fs_start_def bridge_def pylon_def crack_def survey_def locations_only_def
  TxRunner_Sync_def InTx_def Sync_def applyLocation_def applySiteAssessment_def applyPhoto_def fexec_def publish_applied_def fs_Publish_def location_of_def site_of_def photo_of_def
  fq_UpsertLocation_def fq_GetLocation_def fq_UpsertSiteAssessment_def fq_GetSiteAssessment_def fq_UpsertPhoto_def fq_GetPhoto_def
  fq_InsertDomainEvent_def one_row_def set_location_def set_site_def set_photo_def toTimestamptz_def classifyBlocked_def
  conditions_def site_photos_def count_where_def

lemma fdb_ok_start: "fdb_ok (fw_db fs_start)"
  by (simp add: fdb_ok_def fs_start_def empty_fdb_def)

lemma survey_run: "fst (TxRunner_Sync (fs_env (\<lambda>_. Done)) ''u'' survey fs_start) =
    Inr \<lparr>rs_locations = [(1, OutcomeApplied)], rs_sites = [(2, OutcomeApplied)], rs_photos = [(3, OutcomeApplied)]\<rparr>"
  by (simp add: fs_model fs_run Let_def cong: bind_k_cong handle_k_cong fbind_cong fhandle_cong)

subsection \<open>Properties\<close>



text \<open>
  C22: No batch loses a record, changes its origin (creation time, author, parent) or takes it back in time,
  and none changes a record without giving it a later \<open>updated_at\<close>.
\<close>

theorem sync_never_rewinds:
  assumes "fdb_ok (fw_db w)" shows "fdb_advances (fw_db w) (fw_db (snd (run_syncs E batches w)))"
  using run_syncs_ok [OF prod.collapse [symmetric] assms] by blast

theorem sync_never_rewinds_witness:
  "fdb_advances (fw_db fs_start) (fw_db (snd (run_syncs (fs_env (\<lambda>_. Done)) [(''u'', survey), (''v'', survey)] fs_start)))"
  by (rule sync_never_rewinds [OF fdb_ok_start])

lemma photos_fold: "f_photos d = f_photos d' \<Longrightarrow> f_photos (fold put_photo ns d) = f_photos (fold put_photo ns d')"
proof (induction ns arbitrary: d d')
  case (Cons n ns)
  have "f_photos (put_photo n d) = f_photos (put_photo n d')"
    unfolding put_photo_def turned_away_def site_photos_def using Cons.prems by (simp split: if_split)
  from Cons.IH [OF this] show ?case by simp
qed simp

lemma fold_frame: "(\<And>n d. g (f n d) = g d) \<Longrightarrow> g (fold f ns d) = g d"
  by (induction ns arbitrary: d) simp_all

lemma fold_field: "(\<And>n d. g (f n d) = h n (g d)) \<Longrightarrow> g (fold f ns d) = fold h ns (g d)"
  by (induction ns arbitrary: d) simp_all

lemma batch_effect_tables:
  assumes "batch_effect E actor req resp d d'"
  shows "f_locations d' = fold (lww_put lc_id lc_updated set_location) (map (location_of actor) (rq_locations req)) (f_locations d)"
    and "f_sites d' = fold (lww_put sa_id sa_updated set_site) (map (site_of actor) (rq_sites req)) (f_sites d)"
    and "f_photos d' = f_photos (fold put_photo (map (photo_of actor) (rq_photos req)) d)"
    and "\<exists>new. f_events d' = f_events d @ new \<and> map event_facts new = events_of E actor req resp"
    and "map fst (rs_locations resp) = map li_id (rq_locations req)"
    and "map fst (rs_sites resp) = map si_id (rq_sites req)" and "map fst (rs_photos resp) = map pi_id (rq_photos req)"
proof -
  obtain d1 d2 d3 where s: "steps (location_step actor) (rq_locations req) d (rs_locations resp) d1"
     "steps (site_step actor) (rq_sites req) d1 (rs_sites resp) d2"
     "steps (photo_step actor) (rq_photos req) d2 (rs_photos resp) d3"
     "fs_appends (events_of E actor req resp) d3 d'"
    using assms unfolding batch_effect_def by blast
  have 1: "d1 = fold (\<lambda>i. put_location (location_of actor i)) (rq_locations req) d"
    by (rule steps_fold [OF _ s(1)]) (simp add: location_step_def)
  have 2: "d2 = fold (\<lambda>i. put_site (site_of actor i)) (rq_sites req) d1"
    by (rule steps_fold [OF _ s(2)]) (simp add: site_step_def)
  have 3: "d3 = fold (\<lambda>i. put_photo (photo_of actor i)) (rq_photos req) d2"
    by (rule steps_fold [OF _ s(3)]) (simp add: photo_step_def)
  have l: "f_locations d1 = fold (\<lambda>i. lww_put lc_id lc_updated set_location (location_of actor i)) (rq_locations req) (f_locations d)"
    unfolding 1 by (rule fold_field) simp
  have t: "f_sites d2 = fold (\<lambda>i. lww_put sa_id sa_updated set_site (site_of actor i)) (rq_sites req) (f_sites d1)"
    unfolding 2 by (rule fold_field) simp
  have f1: "f_sites d1 = f_sites d" "f_photos d1 = f_photos d" "f_events d1 = f_events d" unfolding 1 by (rule fold_frame, simp)+
  have f2: "f_locations d2 = f_locations d1" "f_photos d2 = f_photos d1" "f_events d2 = f_events d1" unfolding 2 by (rule fold_frame, simp)+
  have f3: "f_locations d3 = f_locations d2" "f_sites d3 = f_sites d2" "f_events d3 = f_events d2"
    unfolding 3 by (rule fold_frame, simp add: put_photo_def)+
  have p: "f_photos d3 = f_photos (fold put_photo (map (photo_of actor) (rq_photos req)) d)"
    using photos_fold [of d2 d "map (photo_of actor) (rq_photos req)"] f1 f2 unfolding 3 by (simp add: fold_map comp_def)
  show "f_locations d' = fold (lww_put lc_id lc_updated set_location) (map (location_of actor) (rq_locations req)) (f_locations d)"
    "f_sites d' = fold (lww_put sa_id sa_updated set_site) (map (site_of actor) (rq_sites req)) (f_sites d)"
    "f_photos d' = f_photos (fold put_photo (map (photo_of actor) (rq_photos req)) d)"
    "\<exists>new. f_events d' = f_events d @ new \<and> map event_facts new = events_of E actor req resp"
    using s(4) l t p f1 f2 f3 by (auto simp: fs_appends_def fold_map comp_def)
  show "map fst (rs_locations resp) = map li_id (rq_locations req)"
    by (rule steps_results [OF _ s(1)]) (simp add: location_step_def)
  show "map fst (rs_sites resp) = map si_id (rq_sites req)"
    by (rule steps_results [OF _ s(2)]) (simp add: site_step_def)
  show "map fst (rs_photos resp) = map pi_id (rq_photos req)"
    by (rule steps_results [OF _ s(3)]) (simp add: photo_step_def)
qed



text \<open>A batch the tables have seen leaves them alone.\<close>

lemma fold_fixed: "(\<And>n. n \<in> set ns \<Longrightarrow> f n x = x) \<Longrightarrow> fold f ns x = x"
  by (induction ns) simp_all

lemma seen_batch_leaves:
  assumes "batch_effect E actor req resp d d'" and "batch_seen req d" and "fdb_ok d"
  shows "f_locations d' = f_locations d \<and> f_sites d' = f_sites d \<and> f_photos d' = f_photos d"
proof (intro conjI)
  have u: "distinct (map lc_id (f_locations d))" "distinct (map sa_id (f_sites d))" "distinct (map ph_id (f_photos d))"
    using assms(3) by (simp_all add: fdb_ok_def)
  have "lww_put lc_id lc_updated set_location n (f_locations d) = f_locations d"
    if n: "n \<in> set (map (location_of actor) (rq_locations req))" for n
  proof -
    obtain r where "r \<in> set (f_locations d)" "lc_id r = lc_id n" "lc_updated n \<le> lc_updated r"
      using n assms(2) by (auto simp: batch_seen_def location_of_def)
    then show ?thesis by (rule lc.put_seen [OF u(1)])
  qed
  then show "f_locations d' = f_locations d" unfolding batch_effect_tables(1) [OF assms(1)] by (rule fold_fixed)
  have "lww_put sa_id sa_updated set_site n (f_sites d) = f_sites d"
    if n: "n \<in> set (map (site_of actor) (rq_sites req))" for n
  proof -
    obtain r where "r \<in> set (f_sites d)" "sa_id r = sa_id n" "sa_updated n \<le> sa_updated r"
      using n assms(2) by (auto simp: batch_seen_def site_of_def)
    then show ?thesis by (rule sa.put_seen [OF u(2)])
  qed
  then show "f_sites d' = f_sites d" unfolding batch_effect_tables(2) [OF assms(1)] by (rule fold_fixed)
  have "put_photo n d = d" if n: "n \<in> set (map (photo_of actor) (rq_photos req))" for n
  proof -
    obtain r where "r \<in> set (f_photos d)" "ph_id r = ph_id n" "ph_updated n \<le> ph_updated r"
      using n assms(2) by (auto simp: batch_seen_def photo_of_def)
    then show ?thesis using ph.put_seen [OF u(3)] by (simp add: put_photo_def)
  qed
  then have "fold put_photo (map (photo_of actor) (rq_photos req)) d = d" by (rule fold_fixed)
  then show "f_photos d' = f_photos d" unfolding batch_effect_tables(3) [OF assms(1)] by simp
qed

text \<open>
  C10: A batch that was accepted can be delivered again, at any later time, after any other batches and
  with any calls failing: the tables stay as they are. This is what lets a client retry a batch whose
  answer it never saw.
\<close>

theorem sync_replay_changes_nothing:
  assumes "fdb_ok (fw_db w)" and "TxRunner_Sync E actor req w = (Inr resp, w1)"
    and "\<forall>y \<in> set (rs_photos resp). snd y \<noteq> OutcomeLimitExceeded"
    and "run_syncs E' others w1 = (rs, w2)" and "TxRunner_Sync E'' actor' req w2 = (r, w3)"
  shows "f_locations (fw_db w3) = f_locations (fw_db w2) \<and> f_sites (fw_db w3) = f_sites (fw_db w2) \<and>
    f_photos (fw_db w3) = f_photos (fw_db w2)"
proof -
  obtain resp' where e: "batch_effect E actor req resp' (fw_db w) (fw_db w1)" "resp' = resp"
    by (rule TxRunner_Sync_commits [OF assms(2)]) auto
  have "fdb_ok (fw_db w1)" and "batch_seen req (fw_db w1)"
    using batch_effect_ok(1,3) [OF e(1) assms(1)] e(2) assms(3) by auto
  then have ok: "fdb_ok (fw_db w2)" and seen: "batch_seen req (fw_db w2)"
    using run_syncs_ok [OF assms(4)] batch_seen_advances by blast+
  show ?thesis
    by (rule TxRunner_Sync_commits [OF assms(5)]) (use seen_batch_leaves ok seen in auto)
qed

theorem sync_replay_changes_nothing_witness:
  "let E = fs_env (\<lambda>_. Done); w1 = snd (TxRunner_Sync E ''u'' survey fs_start); w2 = snd (run_syncs E [(''v'', locations_only [bridge ''b'' 9000])] w1);
       w3 = snd (TxRunner_Sync E ''u'' survey w2)
   in f_locations (fw_db w3) = f_locations (fw_db w2) \<and> f_photos (fw_db w3) = f_photos (fw_db w2)"
proof -
  let ?E = "fs_env (\<lambda>_. Done)"
  let ?resp = "\<lparr>rs_locations = [(1, OutcomeApplied)], rs_sites = [(2, OutcomeApplied)], rs_photos = [(3, OutcomeApplied)]\<rparr>"
  let ?w1 = "snd (TxRunner_Sync ?E ''u'' survey fs_start)"
  let ?w2 = "snd (run_syncs ?E [(''v'', locations_only [bridge ''b'' 9000])] ?w1)"
  have r: "TxRunner_Sync ?E ''u'' survey fs_start = (Inr ?resp, ?w1)" using survey_run by (simp add: prod_eq_iff)
  have "f_locations (fw_db (snd (TxRunner_Sync ?E ''u'' survey ?w2))) = f_locations (fw_db ?w2) \<and>
      f_sites (fw_db (snd (TxRunner_Sync ?E ''u'' survey ?w2))) = f_sites (fw_db ?w2) \<and>
      f_photos (fw_db (snd (TxRunner_Sync ?E ''u'' survey ?w2))) = f_photos (fw_db ?w2)"
    by (rule sync_replay_changes_nothing [OF fdb_ok_start r _ prod.collapse [symmetric] prod.collapse [symmetric]]) simp
  then show ?thesis by (simp only: Let_def)
qed



subsection \<open>Two records the labels are wrong about\<close>

text \<open>
  Two edits within one microsecond: the second loses (the column keeps microseconds), but its nanoseconds
  compare as later, so it is reported as applied and published although it was not stored.
\<close>

lemma applied_but_not_stored:
  "let E = fs_env (\<lambda>_. Done); w1 = snd (TxRunner_Sync E ''u'' (locations_only [bridge ''a'' 8000]) fs_start);
       (r, w2) = TxRunner_Sync E ''v'' (locations_only [bridge ''b'' 8500]) w1
   in r = Inr \<lparr>rs_locations = [(1, OutcomeApplied)], rs_sites = [], rs_photos = []\<rparr> \<and>
      map lc_name (f_locations (fw_db w2)) = [''a''] \<and> map fv_actor (f_events (fw_db w2)) = [''u'', ''v'']"
  by (simp add: fs_model fs_run Let_def cong: bind_k_cong handle_k_cong fbind_cong fhandle_cong)

text \<open>A retried batch changes no table and publishes its events again.\<close>

lemma retry_publishes_again:
  "let E = fs_env (\<lambda>_. Done); w1 = snd (TxRunner_Sync E ''u'' (locations_only [bridge ''a'' 8000]) fs_start);
       w2 = snd (TxRunner_Sync E ''u'' (locations_only [bridge ''a'' 8000]) w1)
   in f_locations (fw_db w2) = f_locations (fw_db w1) \<and> length (f_events (fw_db w2)) = 2"
  by (simp add: fs_model fs_run Let_def cong: bind_k_cong handle_k_cong fbind_cong fhandle_cong)

end
