(* ===== verification/FsTwowayClaims.thy ===== *)
theory FsTwowayClaims
  imports FsTwowayProofs FsSyncClaims
begin

section \<open>offline-sync-app: what two-way sync guarantees\<close>

text \<open>
  Whatever the order, the duplicates and the failures: fields we own stay ours, an issue that has been
  applied is not applied again, and the fields the external system owns end up as its newest version
  has them.
\<close>

primrec run_applies :: "fenv \<Rightarrow> applier \<Rightarrow> (source \<times> issue) list \<Rightarrow> 'x fworld \<Rightarrow> (fs_error + outcome) list \<times> 'x fworld" where
  "run_applies E A [] w = ([], w)"
| "run_applies E A (op # ops) w =
     (let (r, w1) = InTx E (Apply E A (fst op) (snd op)) w; (rs, w2) = run_applies E A ops w1 in (r # rs, w2))"

lemma Apply_commits:
  assumes "InTx E (Apply E A src issue) w = (r, w')"
  obtains (unchanged) e where "r = Inl e" and "fw_db w' = fw_db w"
  | (committed) out where "applies E A src issue (fnow E w) (fw_db w) out (fw_db w')" and "r = Inr out \<or> r = Inl FsUnavailable"
  using ok_tx_InTx [OF Apply_ok assms] by blast

text \<open>What every step of a run keeps, every run keeps.\<close>

lemma run_applies_keep:
  assumes step: "\<And>src issue n d out d'. applies E A src issue n d out d' \<Longrightarrow> tw_ok d \<Longrightarrow> R d d'"
    and refl: "\<And>d. R d d" and trans: "\<And>a b c. R a b \<Longrightarrow> R b c \<Longrightarrow> R a c"
  shows "run_applies E A ops w = (rs, w') \<Longrightarrow> tw_ok (fw_db w) \<Longrightarrow> tw_ok (fw_db w') \<and> R (fw_db w) (fw_db w')"
proof (induction ops arbitrary: w rs)
  case Nil then show ?case by (simp add: refl)
next
  case (Cons op ops)
  obtain r w1 where t: "InTx E (Apply E A (fst op) (snd op)) w = (r, w1)" by fastforce
  obtain rs1 where u: "run_applies E A ops w1 = (rs1, w')" using Cons.prems(1) t by (auto simp: Let_def split: prod.splits)
  have "tw_ok (fw_db w1) \<and> R (fw_db w) (fw_db w1)"
    by (rule Apply_commits [OF t]) (use Cons.prems(2) refl step applies_tw_ok in auto)
  then show ?case using Cons.IH [OF u] trans by blast
qed

subsection \<open>Ownership\<close>

definition field_of :: "fs_field \<Rightarrow> content \<Rightarrow> string" where
  "field_of f c = (case f of FieldTitle \<Rightarrow> ct_title c | FieldStatus \<Rightarrow> ct_status c | FieldNotes \<Rightarrow> ct_notes c)"

definition ours_kept :: "ownership \<Rightarrow> fdb \<Rightarrow> fdb \<Rightarrow> bool" where
  "ours_kept own d d' \<longleftrightarrow> (\<forall>r \<in> set (f_items d). \<exists>r' \<in> set (f_items d'). wi_id r' = wi_id r \<and> wi_created r' = wi_created r \<and>
     (\<forall>f \<in> {FieldTitle, FieldStatus, FieldNotes}. \<not> externalOwns own f \<longrightarrow>
        field_of f (contentOfRow r') = field_of f (contentOfRow r)))"

lemma Merge_field: "field_of f (fst (Merge own cur inc)) = (if externalOwns own f then field_of f inc else field_of f cur)"
  by (cases f) (auto simp: Merge_def pick_def field_of_def Let_def split: prod.splits)

lemma written_created: "wi_created (written t i c del (Some r)) = wi_created r" "wi_id (written t i c del (Some r)) = wi_id r"
  by (simp_all add: written_def set_item_def)

lemma applies_ours_kept:
  assumes "applies E A src issue n d out d'" and "tw_ok d" shows "ours_kept (ap_own A) d d'"
proof (rule applies_cases [OF assms])
  have same: "ours_kept (ap_own A) d d1" if "resolves (ap_system A) (xi_id issue) d i d1" for i d1
    using that by (auto simp: resolves_def ours_kept_def)
  then show "resolves (ap_system A) (xi_id issue) d i d1 \<Longrightarrow> d' = d1 \<Longrightarrow> ours_kept (ap_own A) d d'" for i d1 by simp
  then show "resolves (ap_system A) (xi_id issue) d i d1 \<Longrightarrow> d' = d1 \<Longrightarrow> ours_kept (ap_own A) d d'" for i d1 by simp
  fix d1 i l merged rejected
  assume r: "resolves (ap_system A) (xi_id issue) d i d1" and m: "merged_with A issue (item_at i d1) = (merged, rejected)"
    and a: "fs_appends (item_facts E A issue i (item_at i d1))
          (put_item n i merged (xi_deleted issue) (advance (ap_system A) (xi_id issue) (xi_version issue) d1)) d'"
  let ?d2 = "put_item n i merged (xi_deleted issue) (advance (ap_system A) (xi_id issue) (xi_version issue) d1)"
  have ok1: "tw_ok d1" using resolves_tw_ok [OF r assms(2)] .
  have items: "f_items d1 = f_items d" using r by (auto simp: resolves_def)
  have it: "f_items d' = f_items ?d2" using fs_appends_tables [OF a] by simp
  show "ours_kept (ap_own A) d d'" unfolding ours_kept_def
  proof
    fix x assume x: "x \<in> set (f_items d)"
    then have at: "item_at (wi_id x) d1 = Some x" using item_at_the [OF ok1] items by simp
    define y where yx: "y = (if wi_id x = i then written n i merged (xi_deleted issue) (Some x) else x)"
    have y: "item_at (wi_id x) ?d2 = Some y" using at by (cases "wi_id x = i") (simp_all add: put_item_tables yx)
    have "y \<in> set (f_items d')" using item_at_in [OF y] it by simp
    moreover have "wi_id x = i \<Longrightarrow> merged = fst (Merge (ap_own A) (contentOfRow x) (ContentOf issue))"
      using m at by (simp add: merged_with_def prod_eq_iff)
    ultimately show "\<exists>r' \<in> set (f_items d'). wi_id r' = wi_id x \<and> wi_created r' = wi_created x \<and>
     (\<forall>f \<in> {FieldTitle, FieldStatus, FieldNotes}. \<not> externalOwns (ap_own A) f \<longrightarrow>
        field_of f (contentOfRow r') = field_of f (contentOfRow x))"
      using yx by (intro bexI [of _ y]) (auto simp: written_created Merge_field simp del: insert_iff)
  qed
qed

lemma ours_kept_refl: "ours_kept own d d"
  unfolding ours_kept_def by blast

lemma ours_kept_trans: "ours_kept own a b \<Longrightarrow> ours_kept own b c \<Longrightarrow> ours_kept own a c"
  unfolding ours_kept_def by (metis (no_types, lifting))

text \<open>
  C19: The external system never overwrites what is ours: after any sequence of webhook deliveries and polled
  issues, with any calls failing, every work item is still there, created when it was, and the fields
  that are not owned by the external system are as they were.
\<close>

theorem external_never_overwrites:
  assumes "tw_ok (fw_db w)" shows "ours_kept (ap_own A) (fw_db w) (fw_db (snd (run_applies E A ops w)))"
proof -
  have "tw_ok (fw_db (snd (run_applies E A ops w))) \<and> ours_kept (ap_own A) (fw_db w) (fw_db (snd (run_applies E A ops w)))"
    by (rule run_applies_keep [OF _ ours_kept_refl _ prod.collapse [symmetric] assms])
      (erule (1) applies_ours_kept, erule (1) ours_kept_trans)
  then show ?thesis ..
qed

subsection \<open>Versions\<close>

definition versions_rise :: "fdb \<Rightarrow> fdb \<Rightarrow> bool" where
  "versions_rise d d' \<longleftrightarrow> (\<forall>s e l. link_at s e d = Some l \<longrightarrow>
     (\<exists>l'. link_at s e d' = Some l' \<and> lk_internal l' = lk_internal l \<and> lk_version l \<le> lk_version l'))"

lemma versions_rise_refl: "versions_rise d d"
  by (simp add: versions_rise_def)

lemma versions_rise_trans: "versions_rise a b \<Longrightarrow> versions_rise b c \<Longrightarrow> versions_rise a c"
  unfolding versions_rise_def
proof (intro allI impI)
  fix s e l
  assume ab: "\<forall>s e l. link_at s e a = Some l \<longrightarrow> (\<exists>l'. link_at s e b = Some l' \<and> lk_internal l' = lk_internal l \<and> lk_version l \<le> lk_version l')"
    and bc: "\<forall>s e l. link_at s e b = Some l \<longrightarrow> (\<exists>l'. link_at s e c = Some l' \<and> lk_internal l' = lk_internal l \<and> lk_version l \<le> lk_version l')"
    and l: "link_at s e a = Some l"
  obtain l1 where 1: "link_at s e b = Some l1" "lk_internal l1 = lk_internal l" "lk_version l \<le> lk_version l1" using ab l by blast
  obtain l2 where "link_at s e c = Some l2" "lk_internal l2 = lk_internal l1" "lk_version l1 \<le> lk_version l2" using bc 1(1) by blast
  then show "\<exists>l'. link_at s e c = Some l' \<and> lk_internal l' = lk_internal l \<and> lk_version l \<le> lk_version l'"
    using 1 by (intro exI [of _ l2]) simp
qed

lemma resolves_rise: "resolves s e d i d' \<Longrightarrow> versions_rise d d'"
  by (auto simp: resolves_def versions_rise_def link_at_def find_append)

lemma applies_versions:
  assumes "applies E A src issue n d out d'" and "tw_ok d"
  shows "versions_rise d d' \<and> (out \<noteq> OutcomeEcho \<longrightarrow>
    (\<exists>l. link_at (ap_system A) (xi_id issue) d' = Some l \<and> xi_version issue \<le> lk_version l))"
proof (rule applies_cases [OF assms])
  fix d1 i l merged rejected
  assume r: "resolves (ap_system A) (xi_id issue) d i d1" and l: "link_at (ap_system A) (xi_id issue) d1 = Some l"
    and v: "lk_version l < xi_version issue"
    and a: "fs_appends (item_facts E A issue i (item_at i d1))
          (put_item n i merged (xi_deleted issue) (advance (ap_system A) (xi_id issue) (xi_version issue) d1)) d'"
  have at: "link_at s e d' = map_option (\<lambda>l. if link_key (ap_system A) (xi_id issue) l \<and> lk_version l < xi_version issue
      then l\<lparr>lk_version := xi_version issue\<rparr> else l) (link_at s e d1)" for s e
    using fs_appends_tables [OF a] by (simp add: link_at_def put_item_tables) (simp add: link_at_def [symmetric])
  then have "versions_rise d1 d'" by (auto simp: versions_rise_def)
  moreover have "link_key (ap_system A) (xi_id issue) l" using link_at_in [OF l] by (simp add: link_key_def)
  ultimately show ?thesis using versions_rise_trans [OF resolves_rise [OF r]] at l v by simp
qed (use resolves_rise in auto)

text \<open>An issue at or below the version of its link is not applied.\<close>

lemma gated_unchanged:
  assumes "applies E A src issue n d out d'" and "tw_ok d"
    and "link_at (ap_system A) (xi_id issue) d = Some l" and "xi_version issue \<le> lk_version l"
  shows "d' = d \<and> out \<in> {OutcomeEcho, OutcomeIgnoredStale}"
proof -
  have same: "d1 = d" if "resolves (ap_system A) (xi_id issue) d i d1" for i d1
    by (rule resolves_ok [OF that assms(2)]) (use assms(3) in auto)
  show ?thesis by (rule applies_cases [OF assms(1,2)]) (use same assms(3,4) in fastforce)+
qed

text \<open>
  C20: An issue that has been applied once, or found stale, is never applied again: delivered later, by webhook or by
  poll, after any other issues and with any calls failing, it changes nothing.
\<close>

theorem replayed_issue_changes_nothing:
  assumes "tw_ok (fw_db w)" and "InTx E (Apply E A src issue) w = (Inr out, w1)" and "out \<noteq> OutcomeEcho"
    and "run_applies E' A' ops w1 = (rs, w2)"
    and "InTx E'' (Apply E'' A'' src' issue) w2 = (r, w3)" and "ap_system A'' = ap_system A"
  shows "fw_db w3 = fw_db w2 \<and> (case r of Inr out' \<Rightarrow> out' \<in> {OutcomeEcho, OutcomeIgnoredStale} | Inl _ \<Rightarrow> True)"
proof -
  obtain out' where a: "applies E A src issue (fnow E w) (fw_db w) out' (fw_db w1)" and "out' = out"
    by (rule Apply_commits [OF assms(2)]) auto
  then obtain l where l: "link_at (ap_system A) (xi_id issue) (fw_db w1) = Some l" "xi_version issue \<le> lk_version l"
    using applies_versions [OF a assms(1)] assms(3) by blast
  have "tw_ok (fw_db w2) \<and> versions_rise (fw_db w1) (fw_db w2)"
    by (rule run_applies_keep [OF _ versions_rise_refl _ assms(4) applies_tw_ok [OF a assms(1)]])
      (use applies_versions versions_rise_trans in blast)+
  then obtain l' where l': "tw_ok (fw_db w2)" "link_at (ap_system A'') (xi_id issue) (fw_db w2) = Some l'" "xi_version issue \<le> lk_version l'"
    using l assms(6) unfolding versions_rise_def by (metis order_trans)
  show ?thesis
  proof (rule Apply_commits [OF assms(5)])
    fix o' assume "applies E'' A'' src' issue (fnow E'' w2) (fw_db w2) o' (fw_db w3)" and r: "r = Inr o' \<or> r = Inl FsUnavailable"
    from gated_unchanged [OF this(1) l'] r show ?thesis by (cases r) auto
  qed simp
qed

subsection \<open>The newest version wins\<close>

definition owned :: "ownership \<Rightarrow> content \<Rightarrow> string option \<times> string option \<times> string option" where
  "owned own c =
     ((if externalOwns own FieldTitle then Some (ct_title c) else None),
      (if externalOwns own FieldStatus then Some (ct_status c) else None),
      (if externalOwns own FieldNotes then Some (ct_notes c) else None))"

type_synonym ext_view = "int \<times> (string option \<times> string option \<times> string option) \<times> bool"

text \<open>What the tables show of an external issue: its version, the fields the external system owns, whether it is deleted.\<close>

definition ext_shown :: "applier \<Rightarrow> string \<Rightarrow> fdb \<Rightarrow> ext_view option" where
  "ext_shown A ext d =
     (case link_at (ap_system A) ext d of
        None \<Rightarrow> None
      | Some l \<Rightarrow> map_option (\<lambda>r. (lk_version l, owned (ap_own A) (contentOfRow r), wi_deleted r \<noteq> None)) (item_at (lk_internal l) d))"

definition issue_view :: "applier \<Rightarrow> issue \<Rightarrow> ext_view" where
  "issue_view A i = (xi_version i, owned (ap_own A) (ContentOf i), xi_deleted i)"

definition issue_views :: "applier \<Rightarrow> string \<Rightarrow> (source \<times> issue) list \<Rightarrow> ext_view list" where
  "issue_views A ext ops = map (\<lambda>(_, i). issue_view A i) (filter (\<lambda>(_, i). xi_id i = ext) ops)"

lemma owned_Merge: "owned own (fst (Merge own cur inc)) = owned own inc"
  by (auto simp: owned_def Merge_def pick_def Let_def split: prod.splits)

lemma owned_merged: "merged_with A issue current = (merged, rejected) \<Longrightarrow> owned (ap_own A) merged = owned (ap_own A) (ContentOf issue)"
  using owned_Merge [of "ap_own A"] by (auto simp: merged_with_def split: option.splits) (metis fst_conv)

lemma ext_shown_at: "link_at (ap_system A) ext d = Some l \<Longrightarrow> ext_shown A ext d =
    map_option (\<lambda>r. (lk_version l, owned (ap_own A) (contentOfRow r), wi_deleted r \<noteq> None)) (item_at (lk_internal l) d)"
  by (simp add: ext_shown_def)

lemma ext_shown_version: "link_at (ap_system A) ext d = None \<or> link_at (ap_system A) ext d = Some l \<Longrightarrow>
    ext_shown A ext d = None \<or> (\<exists>y. ext_shown A ext d = Some (lk_version l, y))"
  by (cases "item_at (lk_internal l) d") (auto simp: ext_shown_def simp del: split_paired_Ex)

definition unpushed :: "string \<Rightarrow> fdb \<Rightarrow> bool" where
  "unpushed system d \<longleftrightarrow> (\<forall>p \<in> set (f_pushed d). pu_system p \<noteq> system)"

lemma applies_shown:
  assumes a: "applies E A src issue n d out d'" and ok: "tw_ok d" and p: "unpushed (ap_system A) d" and v0: "0 < xi_version issue"
  shows "unpushed (ap_system A) d' \<and>
    ext_shown A ext d' = (if xi_id issue = ext then newest [issue_view A issue] (ext_shown A ext d) else ext_shown A ext d)"
proof (rule applies_cases [OF a ok])
  have pushed: "f_pushed d1 = f_pushed d" if "resolves (ap_system A) (xi_id issue) d i d1" for i d1
    using that by (auto simp: resolves_def)
  fix d1 i q assume "resolves (ap_system A) (xi_id issue) d i d1" "q \<in> set (f_pushed d1)" "pu_system q = ap_system A"
  then show ?thesis using p pushed by (auto simp: unpushed_def)
next
  fix d1 i l assume r: "resolves (ap_system A) (xi_id issue) d i d1" and d': "d' = d1"
    and l: "link_at (ap_system A) (xi_id issue) d1 = Some l" "xi_version issue \<le> lk_version l"
  have "d1 = d"
    by (rule resolves_ok [OF r ok]) (use l v0 in \<open>auto simp: link_at_def find_append new_link_def link_key_def\<close>)
  moreover have "lk_internal l \<in> wi_id ` set (f_items d)"
    using link_at_in [OF l(1)] l(2) v0 ok \<open>d1 = d\<close> by (auto simp: tw_ok_def)
  then obtain x where "item_at (lk_internal l) d = Some x" using item_at_none by (cases "item_at (lk_internal l) d") auto
  ultimately show ?thesis using d' l p by (auto simp: ext_shown_at issue_view_def)
next
  fix d1 i l merged rejected
  assume r: "resolves (ap_system A) (xi_id issue) d i d1" and l: "link_at (ap_system A) (xi_id issue) d1 = Some l"
    and v: "lk_version l < xi_version issue" and li: "lk_internal l = i"
    and m: "merged_with A issue (item_at i d1) = (merged, rejected)"
    and app: "fs_appends (item_facts E A issue i (item_at i d1))
          (put_item n i merged (xi_deleted issue) (advance (ap_system A) (xi_id issue) (xi_version issue) d1)) d'"
  let ?l = "\<lambda>l. if link_key (ap_system A) (xi_id issue) l \<and> lk_version l < xi_version issue then l\<lparr>lk_version := xi_version issue\<rparr> else l"
  have links: "link_at s e d' = map_option ?l (link_at s e d1)" for s e
    using fs_appends_tables [OF app] by (simp add: link_at_def put_item_tables) (simp add: link_at_def [symmetric])
  have items: "item_at j d' = (if j = i then Some (written n i merged (xi_deleted issue) (item_at i d1)) else item_at j d1)" for j
  proof -
    have "item_at j d' = item_at j (put_item n i merged (xi_deleted issue) (advance (ap_system A) (xi_id issue) (xi_version issue) d1))"
      using fs_appends_tables [OF app] by (simp add: item_at_def)
    then show ?thesis by (simp add: put_item_tables(3))
  qed
  have pushed: "f_pushed d' = f_pushed d" using r app
    by (auto simp: resolves_def fs_appends_def put_item_def fq_UpsertWorkItem_def advance_def Let_def split: list.splits)
  have ok1: "tw_ok d1" using resolves_tw_ok [OF r ok] .
  have key: "link_key (ap_system A) (xi_id issue) l" using link_at_in [OF l] by (simp add: link_key_def)
  have "ext_shown A (xi_id issue) d' = Some (issue_view A issue)"
    using links [of "ap_system A" "xi_id issue"] l v key li items [of i] owned_merged [OF m]
    by (simp add: ext_shown_def issue_view_def)
  moreover have "ext_shown A (xi_id issue) d = None \<or> (\<exists>y. ext_shown A (xi_id issue) d = Some (lk_version l, y))"
    by (rule ext_shown_version, rule resolves_ok [OF r ok]) (use l in simp_all)
  moreover have "ext_shown A ext d' = ext_shown A ext d" if ne: "xi_id issue \<noteq> ext"
  proof -
    have same: "link_at (ap_system A) ext d' = link_at (ap_system A) ext d1"
      unfolding links using link_at_in ne by (cases "link_at (ap_system A) ext d1") (auto simp: link_key_def)
    have "lk_internal l' \<noteq> i" if l': "link_at (ap_system A) ext d1 = Some l'" for l'
    proof
      assume "lk_internal l' = i"
      moreover have "l \<in> set (f_links d1)" "l' \<in> set (f_links d1)" "lk_system l = lk_system l'" "lk_external l' \<noteq> lk_external l"
        using link_at_in [OF l] link_at_in [OF l'] ne by auto
      ultimately show False using ok1 li unique_key_row [of "\<lambda>l. (lk_system l, lk_internal l)" "f_links d1" l l'] by (auto simp: tw_ok_def)
    qed
    then have "ext_shown A ext d' = ext_shown A ext d1"
      using same items by (auto simp: ext_shown_def split: option.split)
    moreover have "ext_shown A ext d1 = ext_shown A ext d"
      using r ne by (auto simp: resolves_def ext_shown_def link_at_def find_append new_link_def link_key_def item_at_def split: option.split)
    ultimately show ?thesis by simp
  qed
  ultimately show ?thesis using pushed p v by (auto simp: unpushed_def issue_view_def)
qed

lemma run_applies_shown:
  "run_applies E A ops w = (rs, w') \<Longrightarrow> tw_ok (fw_db w) \<Longrightarrow> unpushed (ap_system A) (fw_db w) \<Longrightarrow>
    \<forall>r \<in> set rs. \<exists>x. r = Inr x \<Longrightarrow> \<forall>(_, i) \<in> set ops. 0 < xi_version i \<Longrightarrow>
    ext_shown A ext (fw_db w') = newest (issue_views A ext ops) (ext_shown A ext (fw_db w))"
proof (induction ops arbitrary: w rs)
  case Nil then show ?case by (simp add: issue_views_def)
next
  case (Cons op ops)
  obtain r w1 where t: "InTx E (Apply E A (fst op) (snd op)) w = (r, w1)" by fastforce
  obtain rs1 where u: "run_applies E A ops w1 = (rs1, w')" "rs = r # rs1"
    using Cons.prems(1) t by (auto simp: Let_def split: prod.splits)
  obtain out where a: "applies E A (fst op) (snd op) (fnow E w) (fw_db w) out (fw_db w1)"
    by (rule Apply_commits [OF t]) (use Cons.prems(4) u(2) in auto)
  have v: "0 < xi_version (snd op)" using Cons.prems(5) by (cases op) auto
  note s = applies_shown [OF a Cons.prems(2,3) v]
  have "ext_shown A ext (fw_db w') = newest (issue_views A ext ops) (ext_shown A ext (fw_db w1))"
    using Cons.IH [OF u(1) applies_tw_ok [OF a Cons.prems(2)]] s Cons.prems(4,5) u(2) by auto
  then show ?case using s [of ext] by (cases op) (auto simp: issue_views_def)
qed


subsection \<open>A concrete history\<close>

definition jira :: applier where "jira = \<lparr>ap_system = ''jira'', ap_own = DefaultOwnership\<rparr>"

definition leak :: "int \<Rightarrow> string \<Rightarrow> string \<Rightarrow> issue" where
  "leak v title notes = \<lparr>xi_id = ''MJ-1'', xi_summary = title, xi_status = ''open'', xi_description = notes, xi_version = v,
     xi_deleted = False, xi_updated = v * 1000\<rparr>"

definition item_world :: "unit fworld" where
  "item_world = fs_start\<lparr>fw_db := empty_fdb\<lparr>
     f_items := [\<lparr>wi_id = 7, wi_title = ''leak'', wi_status = ''open'', wi_notes = ''mine'', wi_deleted = None, wi_created = 0, wi_updated = 0\<rparr>],
     f_links := [\<lparr>lk_system = ''jira'', lk_external = ''MJ-1'', lk_internal = 7, lk_version = 1\<rparr>]\<rparr>\<rparr>"

lemmas tw_model = jira_def leak_def item_world_def fs_start_def empty_fdb_def Apply_def ResolveInternalID_def isEcho_def apply_item_def
  publish_item_def fs_Publish_def InTx_def fexec_def fq_InsertExternalLink_def fq_GetExternalLink_def fq_GetSyncPushed_def
  fq_AdvanceLinkVersion_def fq_GetWorkItemForUpdate_def fq_UpsertWorkItem_def fq_InsertDomainEvent_def one_row_def link_key_def
  set_item_def Merge_def pick_def externalOwns_def DefaultOwnership_def ContentOf_def contentOfRow_def Let_def fs_run

lemmas tw_cong = bind_k_cong handle_k_cong fbind_cong fhandle_cong

lemma item_world_ok: "tw_ok (fw_db item_world)"
  by (simp add: tw_ok_def item_world_def empty_fdb_def)

theorem external_never_overwrites_witness:
  "ours_kept DefaultOwnership (fw_db item_world)
     (fw_db (snd (run_applies (fs_env (\<lambda>_. Done)) jira [(SourceWebhook, leak 3 ''big leak'' ''theirs'')] item_world)))"
  using external_never_overwrites [OF item_world_ok, of jira "fs_env (\<lambda>_. Done)" "[(SourceWebhook, leak 3 ''big leak'' ''theirs'')]"]
  by (simp add: jira_def)

text \<open>There the title follows, the notes stay, and the answer says so.\<close>

lemma conflict_example:
  "let (r, w) = InTx (fs_env (\<lambda>_. Done)) (Apply (fs_env (\<lambda>_. Done)) jira SourceWebhook (leak 3 ''big leak'' ''theirs'')) item_world
   in r = Inr OutcomeConflict \<and> map (\<lambda>r. (wi_title r, wi_notes r)) (f_items (fw_db w)) = [(''big leak'', ''mine'')]"
  by (simp add: tw_model cong: tw_cong)

theorem replayed_issue_changes_nothing_witness:
  "let E = fs_env (\<lambda>_. Done); w1 = snd (InTx E (Apply E jira SourceWebhook (leak 3 ''big leak'' ''theirs'')) item_world);
       w3 = snd (InTx E (Apply E jira SourcePoll (leak 3 ''big leak'' ''theirs'')) w1)
   in fw_db w3 = fw_db w1"
proof -
  let ?E = "fs_env (\<lambda>_. Done)" and ?i = "leak 3 ''big leak'' ''theirs''"
  let ?t = "InTx ?E (Apply ?E jira SourceWebhook ?i) item_world"
  have r: "?t = (Inr OutcomeConflict, snd ?t)" using conflict_example by (auto simp: Let_def prod_eq_iff split: prod.splits)
  have n: "run_applies ?E jira [] (snd ?t) = ([], snd ?t)" by simp
  show ?thesis unfolding Let_def
    using replayed_issue_changes_nothing [where A'' = jira and src' = SourcePoll and E'' = ?E, OF item_world_ok r _ n prod.collapse [symmetric]]
    by simp
qed


end
