(* ===== verification/FsWebhookClaims.thy ===== *)
theory FsWebhookClaims
  imports FsWebhook FsTwowayClaims
begin

section \<open>offline-sync-app: what the webhook path guarantees\<close>

text \<open>
  Only deliveries signed by the sender are stored, each is applied at most once and together with its
  mark, and none is lost or retried for ever.
\<close>

subsection \<open>Authentication\<close>

definition properly_signed :: "fenv \<Rightarrow> webhook_verifier \<Rightarrow> time \<Rightarrow> webhook_request \<Rightarrow> string \<Rightarrow> bool" where
  "properly_signed E v t q body \<longleftrightarrow>
     wq_delivery q \<noteq> [] \<and> CHR ''.'' \<notin> set (wq_delivery q) \<and>
     (\<exists>h secs. wq_signature q = signaturePrefix @ h \<and>
        hex_decode h = Some (fe_hmac E (vf_secret v) (mac_input (wq_timestamp q) (wq_delivery q) body)) \<and>
        parse_seconds (wq_timestamp q) = Some secs \<and> \<bar>t * 1000 - secs * 1000000000\<bar> \<le> vf_tolerance v)"

definition new_inbox_row :: "string \<Rightarrow> string \<Rightarrow> string \<Rightarrow> time \<Rightarrow> inbox_row" where
  "new_inbox_row system deliveryID body t = \<lparr>ib_system = system, ib_delivery = deliveryID, ib_body = body, ib_received = t,
     ib_attempts = 0, ib_error = [], ib_outcome = [], ib_processed = None, ib_dead = None\<rparr>"

lemma cut_prefix_Some: "cut_prefix p s = Some h \<Longrightarrow> s = p @ h"
  by (auto simp: cut_prefix_def split: if_splits) (metis append_take_drop_id)

lemma Verify_None:
  assumes "Verify E v t (wq_timestamp q) (wq_delivery q) (wq_signature q) body = None" and "wq_delivery q \<noteq> []"
  shows "properly_signed E v t q body"
  using assms by (auto simp: Verify_def properly_signed_def Let_def split: option.splits if_splits dest!: cut_prefix_Some)

lemma InsertWebhookInbox_tables:
  "fq_InsertWebhookInbox system i body t d = (r, d') \<Longrightarrow>
    (\<exists>row \<in> set (f_inbox d). inbox_key system i row) \<and> r = Inr 0 \<and> d' = d \<or>
    r = Inr 1 \<and> d' = d\<lparr>f_inbox := f_inbox d @ [new_inbox_row system i body t]\<rparr>"
  by (auto simp: fq_InsertWebhookInbox_def new_inbox_row_def split: if_splits)

lemma DBInbox_Insert_tables:
  assumes "DBInbox_Insert E system i body w = (r, w')" and "fw_tx w = None"
  shows "fw_db w' = fw_db w \<and> (\<forall>b. r = Inr b \<longrightarrow> (\<exists>row \<in> set (f_inbox (fw_db w)). inbox_key system i row)) \<or>
    fw_db w' = (fw_db w)\<lparr>f_inbox := f_inbox (fw_db w) @ [new_inbox_row system i body (fnow E w)]\<rparr>"
proof -
  obtain rs d where s: "fq_InsertWebhookInbox system i body (fnow E w) (fw_db w) = (rs, d)" by fastforce
  show ?thesis using assms InsertWebhookInbox_tables [OF s] s
    by (auto simp: DBInbox_Insert_def fbind_def fexec_def fret_def split: fate.splits)
qed

text \<open>
  C23: Only signed deliveries get in. If the inbox changed at all, the request was signed with our secret over
  exactly its timestamp, delivery id and body, the timestamp was within the tolerance, and one pending
  row with that body was added; and a 202 means the delivery is stored.
\<close>

theorem webhook_admits_only_signed:
  assumes "NewHandler E system v maxBodyBytes q w = (resp, w')" and "fw_tx w = None"
  shows "(fw_db w' = fw_db w \<or>
     (\<exists>body. wq_body q = Some body \<and> length body \<le> maxBodyBytes \<and> properly_signed E v (fnow E w) q body \<and>
        fw_db w' = (fw_db w)\<lparr>f_inbox := f_inbox (fw_db w) @ [new_inbox_row system (wq_delivery q) body (fnow E w)]\<rparr>)) \<and>
   (fst resp = 202 \<longrightarrow> (\<exists>row \<in> set (f_inbox (fw_db w')). inbox_key system (wq_delivery q) row))"
proof -
  consider (reject) "w' = w" "fst resp \<noteq> 202"
    | (insert) body r where "wq_body q = Some body" "length body \<le> maxBodyBytes" "properly_signed E v (fnow E w) q body"
        "DBInbox_Insert E system (wq_delivery q) body w = (r, w')" "fst resp = 202 \<longrightarrow> (\<exists>b. r = Inr b)"
    using assms(1) Verify_None [of E v "fnow E w" q]
    by (auto simp: NewHandler_def webhook_reply_def split: option.splits if_splits prod.splits sum.splits)
  then show ?thesis
  proof cases
    case reject then show ?thesis by simp
  next
    case insert
    from DBInbox_Insert_tables [OF insert(4) assms(2)] show ?thesis
    proof
      assume "fw_db w' = fw_db w \<and> (\<forall>b. r = Inr b \<longrightarrow> (\<exists>row \<in> set (f_inbox (fw_db w)). inbox_key system (wq_delivery q) row))"
      then show ?thesis using insert(5) by auto
    next
      assume d: "fw_db w' = (fw_db w)\<lparr>f_inbox := f_inbox (fw_db w) @ [new_inbox_row system (wq_delivery q) body (fnow E w)]\<rparr>"
      then have "\<exists>row \<in> set (f_inbox (fw_db w')). inbox_key system (wq_delivery q) row"
        by (auto simp: new_inbox_row_def inbox_key_def)
      then show ?thesis using insert(1-3) d by blast
    qed
  qed
qed

text \<open>
  What is signed is unambiguous: two accepted requests whose signed text is the same have the same
  timestamp, delivery id and body, so a captured signature cannot be moved to another request.
\<close>

lemma signed_text_unambiguous:
  assumes "Verify E v t ts i sig body = None" and "Verify E' v' t' ts' i' sig' body' = None"
    and "mac_input ts i body = mac_input ts' i' body'"
  shows "ts = ts' \<and> i = i' \<and> body = body'"
proof -
  have dot: "CHR ''.'' \<notin> set s" if "parse_seconds s = Some n" for s n
  proof -
    have "\<not> is_digit (CHR ''.'')" by (simp add: is_digit_def)
    then show ?thesis using that
      by (auto simp: parse_seconds_def parse_int_def Let_def list_all_iff split: list.splits if_splits)
  qed
  have p: "CHR ''.'' \<notin> set ts" "CHR ''.'' \<notin> set ts'" "CHR ''.'' \<notin> set i" "CHR ''.'' \<notin> set i'"
    using assms(1,2) dot by (auto simp: Verify_def Let_def split: option.splits if_splits)
  have 1: "ts @ CHR ''.'' # (i @ CHR ''.'' # body) = ts' @ CHR ''.'' # (i' @ CHR ''.'' # body')"
    using assms(3) by (simp add: mac_input_def)
  have "ts = ts' \<and> i @ CHR ''.'' # body = i' @ CHR ''.'' # body'" using cut_at_separator [OF 1 p(1,2)] by blast
  then show ?thesis using cut_at_separator [OF _ p(3,4)] by blast
qed

subsection \<open>The worker\<close>

text \<open>
  C16: A delivery is applied at most once, together with its mark. An attempt either leaves the tables alone
  (and does not report success), or the row was pending, its issue was applied, and in the same commit
  the row was marked, so that no later attempt finds it pending.
\<close>

theorem delivery_applied_with_its_mark:
  assumes "processOne E busy A i w = (r, w')"
  shows "fw_db w' = fw_db w \<and> r \<noteq> Inr True \<or>
    (\<exists>row \<in> set (f_inbox (fw_db w)). inbox_key (ap_system A) i row \<and> pending row) \<and>
    delivers E A i (fnow E w) (fw_db w) (fw_db w') \<and> (r = Inr True \<or> r = Inl FsUnavailable) \<and>
    \<not> (\<exists>row \<in> set (f_inbox (fw_db w')). inbox_key (ap_system A) i row \<and> pending row)"
proof (rule processOne_cases [OF assms])
  assume d: "delivers E A i (fnow E w) (fw_db w) (fw_db w')" and r: "r = Inr True \<or> r = Inl FsUnavailable"
  have "\<not> (\<exists>row \<in> set (f_inbox (fw_db w')). inbox_key (ap_system A) i row \<and> pending row)"
    using d by (auto simp: delivers_def marked_def fq_MarkInboxProcessed_def update_inbox_def set_update_where inbox_key_def pending_def)
  then show ?thesis using d r by (auto simp: delivers_def)
qed simp

text \<open>
  Accounting: a pending row has attempts left, a dead one has a dead letter with its body.
\<close>

definition has_letter :: "inbox_row \<Rightarrow> fdb \<Rightarrow> bool" where
  "has_letter r d \<longleftrightarrow> (\<exists>l \<in> set (f_dead d). dl_source l = ''inbox'' \<and> dl_system l = ib_system r \<and> dl_ref l = ib_delivery r \<and>
     dl_payload l = ib_body r)"

definition inbox_ok :: "int \<Rightarrow> fdb \<Rightarrow> bool" where
  "inbox_ok maxAttempts d \<longleftrightarrow> distinct (map (\<lambda>r. (ib_system r, ib_delivery r)) (f_inbox d)) \<and>
     (\<forall>r \<in> set (f_inbox d). (pending r \<longrightarrow> ib_attempts r < maxAttempts) \<and> (ib_dead r \<noteq> None \<longrightarrow> has_letter r d))"

text \<open>Every row stays, with its body; what has been processed stays processed with the same outcome, what is dead stays dead.\<close>

definition inbox_kept :: "fdb \<Rightarrow> fdb \<Rightarrow> bool" where
  "inbox_kept d d' \<longleftrightarrow> (\<forall>r \<in> set (f_inbox d). \<exists>r' \<in> set (f_inbox d').
     ib_system r' = ib_system r \<and> ib_delivery r' = ib_delivery r \<and> ib_body r' = ib_body r \<and> ib_received r' = ib_received r \<and>
     ib_attempts r \<le> ib_attempts r' \<and>
     (ib_processed r \<noteq> None \<longrightarrow> ib_processed r' = ib_processed r \<and> ib_outcome r' = ib_outcome r) \<and>
     (ib_dead r \<noteq> None \<longrightarrow> ib_dead r' \<noteq> None))"

lemma inbox_kept_refl: "inbox_kept d d"
  unfolding inbox_kept_def by blast

lemma inbox_kept_trans:
  assumes "inbox_kept a b" and "inbox_kept b c" shows "inbox_kept a c"
  unfolding inbox_kept_def
proof
  fix r assume "r \<in> set (f_inbox a)"
  then obtain r1 where 1: "r1 \<in> set (f_inbox b)" "ib_system r1 = ib_system r" "ib_delivery r1 = ib_delivery r" "ib_body r1 = ib_body r"
    "ib_received r1 = ib_received r" "ib_attempts r \<le> ib_attempts r1"
    "ib_processed r \<noteq> None \<longrightarrow> ib_processed r1 = ib_processed r \<and> ib_outcome r1 = ib_outcome r" "ib_dead r \<noteq> None \<longrightarrow> ib_dead r1 \<noteq> None"
    using assms(1) unfolding inbox_kept_def by blast
  then obtain r2 where "r2 \<in> set (f_inbox c)" "ib_system r2 = ib_system r1" "ib_delivery r2 = ib_delivery r1" "ib_body r2 = ib_body r1"
    "ib_received r2 = ib_received r1" "ib_attempts r1 \<le> ib_attempts r2"
    "ib_processed r1 \<noteq> None \<longrightarrow> ib_processed r2 = ib_processed r1 \<and> ib_outcome r2 = ib_outcome r1" "ib_dead r1 \<noteq> None \<longrightarrow> ib_dead r2 \<noteq> None"
    using assms(2) unfolding inbox_kept_def by blast
  then show "\<exists>r' \<in> set (f_inbox c). ib_system r' = ib_system r \<and> ib_delivery r' = ib_delivery r \<and> ib_body r' = ib_body r \<and>
     ib_received r' = ib_received r \<and> ib_attempts r \<le> ib_attempts r' \<and>
     (ib_processed r \<noteq> None \<longrightarrow> ib_processed r' = ib_processed r \<and> ib_outcome r' = ib_outcome r) \<and>
     (ib_dead r \<noteq> None \<longrightarrow> ib_dead r' \<noteq> None)"
    using 1 by (intro bexI [of _ r2]) auto
qed

lemma applies_inbox:
  assumes "applies E A src issue n d out d'" shows "f_inbox d' = f_inbox d \<and> f_dead d' = f_dead d \<and> f_sync d' = f_sync d"
proof -
  obtain i d1 where r: "resolves (ap_system A) (xi_id issue) d i d1"
    and c: "d' = d1 \<or> (\<exists>facts c. fs_appends facts (put_item n i c (xi_deleted issue) (advance (ap_system A) (xi_id issue) (xi_version issue) d1)) d')"
  proof -
    obtain i d1 where r: "resolves (ap_system A) (xi_id issue) d i d1" and
      c: "d' = d1 \<or> (let (merged, rejected) = merged_with A issue (item_at i d1) in fs_appends (item_facts E A issue i (item_at i d1))
          (put_item n i merged (xi_deleted issue) (advance (ap_system A) (xi_id issue) (xi_version issue) d1)) d')"
      using assms unfolding applies_def Let_def case_prod_unfold by blast
    obtain m rj where "merged_with A issue (item_at i d1) = (m, rj)" by fastforce
    then show thesis using that [OF r] c by auto
  qed
  have "f_inbox (put_item t i c del (advance s e v d1)) = f_inbox d1 \<and> f_dead (put_item t i c del (advance s e v d1)) = f_dead d1 \<and>
    f_sync (put_item t i c del (advance s e v d1)) = f_sync d1" for t c del s e v
    by (auto simp: put_item_def fq_UpsertWorkItem_def advance_def Let_def split: list.split)
  then have "f_inbox d' = f_inbox d1 \<and> f_dead d' = f_dead d1 \<and> f_sync d' = f_sync d1" using c by (auto simp: fs_appends_def)
  moreover have "f_inbox d1 = f_inbox d \<and> f_dead d1 = f_dead d \<and> f_sync d1 = f_sync d" using r by (auto simp: resolves_def)
  ultimately show ?thesis by simp
qed

text \<open>An update of the row under a key.\<close>

lemma update_inbox_kept:
  assumes "\<And>r. r \<in> set (f_inbox d) \<Longrightarrow> inbox_key s i r \<Longrightarrow> ib_system (f r) = ib_system r \<and> ib_delivery (f r) = ib_delivery r \<and>
      ib_body (f r) = ib_body r \<and> ib_received (f r) = ib_received r \<and> ib_attempts r \<le> ib_attempts (f r) \<and>
      (ib_processed r \<noteq> None \<longrightarrow> ib_processed (f r) = ib_processed r \<and> ib_outcome (f r) = ib_outcome r) \<and>
      (ib_dead r \<noteq> None \<longrightarrow> ib_dead (f r) \<noteq> None)"
  shows "inbox_kept d (update_inbox s i f d)"
  unfolding inbox_kept_def
proof
  fix r assume r: "r \<in> set (f_inbox d)"
  let ?r = "if inbox_key s i r then f r else r"
  have "?r \<in> set (f_inbox (update_inbox s i f d))" using r by (simp add: update_inbox_def set_update_where)
  then show "\<exists>r' \<in> set (f_inbox (update_inbox s i f d)). ib_system r' = ib_system r \<and> ib_delivery r' = ib_delivery r \<and>
      ib_body r' = ib_body r \<and> ib_received r' = ib_received r \<and> ib_attempts r \<le> ib_attempts r' \<and>
     (ib_processed r \<noteq> None \<longrightarrow> ib_processed r' = ib_processed r \<and> ib_outcome r' = ib_outcome r) \<and>
     (ib_dead r \<noteq> None \<longrightarrow> ib_dead r' \<noteq> None)"
    using assms [OF r] by (intro bexI [of _ ?r]) auto
qed

lemma update_inbox_keys:
  "(\<And>r. ib_system (f r) = ib_system r \<and> ib_delivery (f r) = ib_delivery r) \<Longrightarrow>
    map (\<lambda>r. (ib_system r, ib_delivery r)) (f_inbox (update_inbox s i f d)) = map (\<lambda>r. (ib_system r, ib_delivery r)) (f_inbox d)"
  by (simp add: update_inbox_def map_update_where)

lemma in_update_inbox: "r' \<in> set (f_inbox (update_inbox s i f d)) \<Longrightarrow>
    \<exists>r \<in> set (f_inbox d). r' = (if inbox_key s i r then f r else r)"
  by (auto simp: update_inbox_def set_update_where)

lemma the_inbox_row:
  "inbox_ok m d \<Longrightarrow> r \<in> set (f_inbox d) \<Longrightarrow> r' \<in> set (f_inbox d) \<Longrightarrow> inbox_key s i r \<Longrightarrow> inbox_key s i r' \<Longrightarrow> r = r'"
  using unique_key_row [of "\<lambda>r. (ib_system r, ib_delivery r)" "f_inbox d" r r'] by (auto simp: inbox_ok_def inbox_key_def)

lemma delivers_ok:
  assumes "delivers E A i n d d'" and "inbox_ok m d"
  shows "inbox_ok m d' \<and> inbox_kept d d'"
proof -
  obtain row issue out d1 where row: "row \<in> set (f_inbox d)" "inbox_key (ap_system A) i row" "pending row"
    and a: "applies E A SourceWebhook issue n d out d1" and d': "d' = marked (ap_system A) i (outcome_text out) n d1"
    using assms(1) unfolding delivers_def by blast
  let ?f = "\<lambda>r. r\<lparr>ib_processed := Some n, ib_outcome := outcome_text out\<rparr>"
  have 1: "f_inbox d1 = f_inbox d" "f_dead d1 = f_dead d" using applies_inbox [OF a] by auto
  have d2: "d' = update_inbox (ap_system A) i ?f d1" by (simp add: d' marked_def fq_MarkInboxProcessed_def)
  have ok1: "inbox_ok m d1" using assms(2) 1 by (simp add: inbox_ok_def has_letter_def)
  have "inbox_kept d1 d'" unfolding d2
  proof (rule update_inbox_kept)
    fix r assume "r \<in> set (f_inbox d1)" "inbox_key (ap_system A) i r"
    then have "r = row" using the_inbox_row [OF ok1 _ _ _ row(2)] row(1) 1 by simp
    then show "ib_system (?f r) = ib_system r \<and> ib_delivery (?f r) = ib_delivery r \<and>
      ib_body (?f r) = ib_body r \<and> ib_received (?f r) = ib_received r \<and> ib_attempts r \<le> ib_attempts (?f r) \<and>
      (ib_processed r \<noteq> None \<longrightarrow> ib_processed (?f r) = ib_processed r \<and> ib_outcome (?f r) = ib_outcome r) \<and>
      (ib_dead r \<noteq> None \<longrightarrow> ib_dead (?f r) \<noteq> None)"
      using row(3) by (simp add: pending_def)
  qed
  moreover have "inbox_kept d d1" using 1 by (simp add: inbox_kept_def) blast
  moreover have "inbox_ok m d'"
  proof -
    have f: "f_dead d' = f_dead d1" by (simp add: d2 update_inbox_def)
    have "distinct (map (\<lambda>r. (ib_system r, ib_delivery r)) (f_inbox d'))"
      using update_inbox_keys [of ?f "ap_system A" i d1] ok1 by (simp add: d2 inbox_ok_def)
    then show ?thesis using ok1 f
      by (auto simp: inbox_ok_def d2 has_letter_def pending_def update_inbox_def set_update_where split: if_splits)
  qed
  ultimately show ?thesis using inbox_kept_trans by blast
qed

lemma fails_ok:
  assumes "fails s m i err n d d'" and "inbox_ok m d"
  shows "inbox_ok m d' \<and> inbox_kept d d'"
proof -
  obtain row where row: "row \<in> set (f_inbox d)" "inbox_key s i row"
    and e: "if ib_attempts row + 1 \<ge> m
      then d' = (update_inbox s i (\<lambda>r. r\<lparr>ib_dead := Some n\<rparr>) (update_inbox s i (failed_row err) d))\<lparr>f_dead := f_dead d @
             [\<lparr>dl_source = ''inbox'', dl_system = s, dl_ref = i, dl_payload = ib_body row, dl_reason = err,
               dl_attempts = ib_attempts row + 1, dl_created = n\<rparr>]\<rparr>
      else d' = update_inbox s i (failed_row err) d"
    using assms(1) unfolding fails_def Let_def by (auto simp: failed_row_def)
  let ?dead = "ib_attempts row + 1 \<ge> m"
  let ?f = "\<lambda>r. if ?dead then (failed_row err r)\<lparr>ib_dead := Some n\<rparr> else failed_row err r"
  let ?letter = "\<lparr>dl_source = ''inbox'', dl_system = s, dl_ref = i, dl_payload = ib_body row, dl_reason = err,
               dl_attempts = ib_attempts row + 1, dl_created = n\<rparr>"
  have keys: "inbox_key s i (failed_row err r) = inbox_key s i r" for r by (simp add: inbox_key_def failed_row_def)
  have inb: "f_inbox d' = f_inbox (update_inbox s i ?f d)"
    using e by (auto simp: update_inbox_def update_where_def keys split: if_splits)
  have dead: "f_dead d' = (if ?dead then f_dead d @ [?letter] else f_dead d)"
    using e by (auto simp: update_inbox_def split: if_splits)
  have "inbox_kept d (update_inbox s i ?f d)"
    by (rule update_inbox_kept) (auto simp: failed_row_def)
  then have kept: "inbox_kept d d'" using inb by (simp add: inbox_kept_def)
  have "distinct (map (\<lambda>r. (ib_system r, ib_delivery r)) (f_inbox d'))"
    unfolding inb using update_inbox_keys [of ?f s i d] assms(2) by (simp add: inbox_ok_def failed_row_def)
  moreover have "(pending r' \<longrightarrow> ib_attempts r' < m) \<and> (ib_dead r' \<noteq> None \<longrightarrow> has_letter r' d')" if r': "r' \<in> set (f_inbox d')" for r'
  proof -
    obtain r where r: "r \<in> set (f_inbox d)" "r' = (if inbox_key s i r then ?f r else r)"
      using in_update_inbox [OF r' [unfolded inb]] by blast
    have old: "(pending r \<longrightarrow> ib_attempts r < m) \<and> (ib_dead r \<noteq> None \<longrightarrow> has_letter r d)" using assms(2) r(1) by (simp add: inbox_ok_def)
    have letter: "has_letter r d \<Longrightarrow> has_letter r' d'" using r(2) dead by (auto simp: has_letter_def failed_row_def)
    show ?thesis
    proof (cases "inbox_key s i r")
      case True
      then have rr: "r = row" using the_inbox_row [OF assms(2) r(1) row(1) True row(2)] by simp
      then show ?thesis using True r(2) old letter dead row(2)
        by (cases ?dead) (auto simp: failed_row_def pending_def has_letter_def inbox_key_def)
    next
      case False then show ?thesis using r(2) old letter by auto
    qed
  qed
  ultimately show ?thesis using kept by (simp add: inbox_ok_def)
qed

lemma worker_loop_ok:
  "worker_loop E busy A m ids k w = (r, w') \<Longrightarrow> inbox_ok m (fw_db w) \<Longrightarrow> inbox_ok m (fw_db w') \<and> inbox_kept (fw_db w) (fw_db w')"
proof (induction ids arbitrary: k w)
  case Nil then show ?case by (simp add: inbox_kept_refl)
next
  case (Cons i ids)
  obtain r1 w1 where p: "processOne E busy A i w = (r1, w1)" by fastforce
  have 1: "inbox_ok m (fw_db w1) \<and> inbox_kept (fw_db w) (fw_db w1)"
    by (rule processOne_cases [OF p]) (use Cons.prems(2) delivers_ok inbox_kept_refl in auto)
  show ?case
  proof (cases r1)
    case (Inr d)
    then show ?thesis using Cons.IH Cons.prems(1) p 1 inbox_kept_trans by (auto split: if_splits)
  next
    case (Inl e)
    obtain r2 w2 where f: "recordFailure E (ap_system A) m i e w1 = (r2, w2)" by fastforce
    have 2: "inbox_ok m (fw_db w2) \<and> inbox_kept (fw_db w1) (fw_db w2)"
      by (rule recordFailure_cases [OF f]) (use 1 fails_ok inbox_kept_refl in auto)
    show ?thesis using Cons.IH Cons.prems(1) p f Inl 1 2 inbox_kept_trans by (cases r2) auto
  qed
qed

text \<open>
  C15: No delivery is lost and none is retried for ever. A run of the worker, with any calls failing and any rows
  held by other workers, keeps every row with its body, never undoes a processed or dead mark, leaves
  every pending row fewer than the permitted attempts, and every dead row has a dead letter with its body.
\<close>

theorem worker_never_loses_a_delivery:
  assumes "inbox_ok maxAttempts (fw_db w)" and "fw_tx w = None" and "worker_RunOnce E busy A maxAttempts w = (r, w')"
  shows "inbox_ok maxAttempts (fw_db w') \<and> inbox_kept (fw_db w) (fw_db w')"
proof -
  obtain r1 w1 where l: "fexec E (fq_ListPendingInbox (fe_rank E) (ap_system A) inbox_batchSize) w = (r1, w1)" by fastforce
  then have "fw_db w1 = fw_db w" using assms(2) by (auto simp: fexec_def fq_ListPendingInbox_def split: fate.splits)
  then show ?thesis using assms(1,3) l worker_loop_ok [of E busy A maxAttempts _ 0 w1]
    by (auto simp: worker_RunOnce_def inbox_kept_refl split: sum.splits)
qed

subsection \<open>A concrete delivery\<close>

definition leak_body :: "int \<Rightarrow> string \<Rightarrow> string" where
  "leak_body v title = render (JObject [(''event'', JString ''issue.updated''), (''issue'', JObject
     [(''id'', JString ''MJ-1''), (''summary'', JString title), (''status'', JString ''open''), (''description'', JString ''n''),
      (''version'', JNumber (show_int v)), (''deleted'', JBool False), (''updatedAt'', JString ''5'')])])"

definition inbox_world :: "string \<Rightarrow> unit fworld" where
  "inbox_world body = fs_start\<lparr>fw_db := empty_fdb\<lparr>f_inbox := [new_inbox_row ''jira'' ''d1'' body 0]\<rparr>\<rparr>"

definition hook :: webhook_verifier where "hook = \<lparr>vf_secret = ''k'', vf_tolerance = 1000000000\<rparr>"

definition signed_request :: webhook_request where
  "signed_request = \<lparr>wq_delivery = ''d'', wq_timestamp = ''0'', wq_signature = ''sha256='' @ hex_encode (''k'' @ ''0.d.b''), wq_body = Some ''b''\<rparr>"

lemma signed_request_verified: "Verify (fs_env (\<lambda>_. Done)) hook 0 ''0'' ''d'' (''sha256='' @ hex_encode (''k'' @ ''0.d.b'')) ''b'' = None"
  by code_simp

theorem webhook_admits_only_signed_witness:
  "\<exists>row \<in> set (f_inbox (fw_db (snd (NewHandler (fs_env (\<lambda>_. Done)) ''jira'' hook 100 signed_request (fs_start :: unit fworld))))). inbox_key ''jira'' ''d'' row"
proof -
  let ?h = "NewHandler (fs_env (\<lambda>_. Done)) ''jira'' hook 100 signed_request (fs_start :: unit fworld)"
  have "fst ?h = (202, JObject [(''status'', JString ''accepted'')])"
    using signed_request_verified
    by (simp add: NewHandler_def signed_request_def fs_start_def empty_fdb_def fnow_def DBInbox_Insert_def fexec_def
        fq_InsertWebhookInbox_def webhook_reply_def fs_run Let_def cong: tw_cong)
  moreover have "?h = (fst ?h, snd ?h)" "fw_tx (fs_start :: unit fworld) = None" by (simp_all add: fs_start_def)
  note webhook_admits_only_signed [OF this]
  ultimately have "\<exists>row \<in> set (f_inbox (fw_db (snd ?h))). inbox_key ''jira'' (wq_delivery signed_request) row"
    by simp
  then show ?thesis by (simp add: signed_request_def)
qed

lemma signed_text_unambiguous_example:
  "Verify (fs_env (\<lambda>_. Done)) hook 0 ''0'' ''d'' (''sha256='' @ hex_encode (''k'' @ ''0.d.b'')) ''b'' = None \<and>
   (let (ts, i, body) = (''0'', ''d'', ''b'') in ts = ''0'' \<and> i = ''d'' \<and> body = ''b'')"
  using signed_text_unambiguous [OF signed_request_verified signed_request_verified refl] signed_request_verified by simp

lemma decode_leak: "0 < v \<Longrightarrow> v < 2 ^ 63 \<Longrightarrow> decode_webhook (fs_env f) (leak_body v ''x'') = Some (leak v ''x'' ''n''\<lparr>xi_updated := 5\<rparr>)"
proof -
  assume v: "0 < v" "v < 2 ^ 63"
  let ?j = "JObject [(''event'', JString ''issue.updated''), (''issue'', JObject
     [(''id'', JString ''MJ-1''), (''summary'', JString ''x''), (''status'', JString ''open''), (''description'', JString ''n''),
      (''version'', JNumber (show_int v)), (''deleted'', JBool False), (''updatedAt'', JString ''5'')])]"
  have "plain_json ?j" by (simp add: ascii_def number_show_int show_int_word)
  then have u: "Unmarshal (leak_body v ''x'') = Some ?j" unfolding leak_body_def by (rule Unmarshal_render)
  have p: "parse_int 64 (show_int v) = Some v" using v by (simp add: parse_show_int)
  have five: "read_nat ''5'' = 5" by code_simp
  show "decode_webhook (fs_env f) (leak_body v ''x'') = Some (leak v ''x'' ''n''\<lparr>xi_updated := 5\<rparr>)"
    by (simp add: decode_webhook_def u members_of_def assigned_def names_field_def issue_fields_def fold_letter_def byte_def p five
        zero_issue_def leak_def fs_env_def Let_def)
qed

theorem delivery_applied_with_its_mark_witness:
  "(let w' = snd (processOne (fs_env (\<lambda>_. Done)) (\<lambda>_. False) jira ''d1'' (inbox_world (leak_body 1 ''x''))) in
     map ib_processed (f_inbox (fw_db w')) = [Some 0] \<and> map ib_outcome (f_inbox (fw_db w')) = [''applied''] \<and>
     delivers (fs_env (\<lambda>_. Done)) jira ''d1'' 0 (fw_db (inbox_world (leak_body 1 ''x''))) (fw_db w'))"
proof -
  let ?E = "fs_env (\<lambda>_. Done)" and ?w = "inbox_world (leak_body 1 ''x'')"
  let ?p = "processOne ?E (\<lambda>_. False) jira ''d1'' ?w"
  have run: "map ib_processed (f_inbox (fw_db (snd ?p))) = [Some 0] \<and> map ib_outcome (f_inbox (fw_db (snd ?p))) = [''applied'']"
    by (simp add: tw_model processOne_def claim_and_process_def process_claimed_def fq_ClaimInboxRow_def fq_MarkInboxProcessed_def
        update_inbox_def update_where_def ProcessWebhook_def decode_leak new_inbox_row_def inbox_world_def pending_def inbox_key_def outcome_text_def
        cong: tw_cong)
  then have "fw_db (snd ?p) \<noteq> fw_db ?w" by (auto simp: inbox_world_def new_inbox_row_def)
  moreover have "fnow ?E ?w = 0" by (simp add: fnow_def fs_env_def inbox_world_def fs_start_def)
  ultimately have "delivers ?E jira ''d1'' 0 (fw_db ?w) (fw_db (snd ?p))"
    using delivery_applied_with_its_mark [of ?E "\<lambda>_. False" jira "''d1''" ?w "fst ?p" "snd ?p"] by auto
  then show ?thesis using run by (simp add: Let_def)
qed

theorem worker_never_loses_a_delivery_witness:
  "let w = inbox_world ''junk'' in
     inbox_ok 1 (fw_db w) \<and>
     inbox_kept (fw_db w) (fw_db (snd (worker_RunOnce (fs_env (\<lambda>_. Done)) (\<lambda>_. False) jira 1 w)))"
proof -
  let ?w = "inbox_world ''junk''"
  let ?r = "worker_RunOnce (fs_env (\<lambda>_. Done)) (\<lambda>_. False) jira 1 ?w"
  have "inbox_ok 1 (fw_db ?w)" by (simp add: inbox_ok_def inbox_world_def new_inbox_row_def)
  moreover have "fw_tx ?w = None" by (simp add: inbox_world_def fs_start_def)
  ultimately show ?thesis
    using worker_never_loses_a_delivery [of 1 ?w "fs_env (\<lambda>_. Done)" "\<lambda>_. False" jira "fst ?r" "snd ?r"]
    unfolding Let_def by simp
qed

end
