(* ===== verification/FsMockjiraProofs.thy ===== *)
theory FsMockjiraProofs
  imports FsMockjira FsWebhookClaims
begin

section \<open>offline-sync-app: properties of the issue tracker\<close>

subsection \<open>Cursors and pages\<close>

definition fits :: "issue \<Rightarrow> bool" where
  "fits i \<longleftrightarrow> ascii (xi_id i) \<and> - (2 ^ 63) \<le> xi_updated i \<and> xi_updated i < 2 ^ 63"

lemma encodeCursor_nonempty: "encodeCursor i \<noteq> []"
proof -
  obtain c s where "render (JObject [(''t'', JNumber (show_int (wrap64 (xi_updated i)))), (''id'', JString (xi_id i))]) = c # s"
    by (simp add: render.simps)
  then show ?thesis
    by (cases "bytes_of s" rule: sextets.cases) (auto simp: encodeCursor_def EncodeToString_def bytes_of_def elim: sextets.elims)
qed

lemma decode_encodeCursor: "fits i \<Longrightarrow> decodeCursor (encodeCursor i) = Some (position i)"
proof -
  assume f: "fits i"
  let ?v = "JObject [(''t'', JNumber (show_int (xi_updated i))), (''id'', JString (xi_id i))]"
  have w: "wrap64 (xi_updated i) = xi_updated i" using f by (simp add: fits_def)
  have "plain_json ?v" using f by (simp add: ascii_def number_show_int show_int_word fits_def)
  then have u: "Unmarshal (render ?v) = Some ?v" by (rule Unmarshal_render)
  have p: "parse_int 64 (show_int (xi_updated i)) = Some (xi_updated i)" using f by (simp add: fits_def parse_show_int)
  show ?thesis using encodeCursor_nonempty [of i]
    by (simp add: decodeCursor_def encodeCursor_def w u members_of_def assigned_def names_field_def fold_letter_def byte_def p position_def del: render.simps)
qed

definition mj_ok :: "mockjira \<Rightarrow> bool" where
  "mj_ok s \<longleftrightarrow> distinct (map xi_id (mj_issues s)) \<and> (\<forall>i \<in> set (mj_issues s). fits i)"

definition wanted :: "int \<Rightarrow> mockjira \<Rightarrow> issue list" where
  "wanted since s = sort_key position (filter (\<lambda>i. \<not> xi_updated i < since) (mj_issues s))"

lemma position_inj: "mj_ok s \<Longrightarrow> inj_on position (set (mj_issues s))"
  by (auto simp: mj_ok_def inj_on_def position_def distinct_map)

lemma strict_wanted:
  assumes "mj_ok s" shows "sorted_wrt (<) (map position (wanted since s))"
proof -
  have "distinct (map position (wanted since s))"
    using assms position_inj [OF assms] by (auto simp: wanted_def distinct_map mj_ok_def intro: inj_on_subset)
  then show ?thesis by (simp add: strict_sorted_iff wanted_def)
qed

text \<open>The issues after a position are the rest of the sorted list.\<close>

lemma filter_after:
  "sorted_wrt (<) (map f xs) \<Longrightarrow> n < length xs \<Longrightarrow> filter (\<lambda>x. f (xs ! n) < f x) xs = drop (Suc n) xs"
  for f :: "'a \<Rightarrow> 'b :: linorder"
proof (induction xs arbitrary: n)
  case Nil then show ?case by simp
next
  case (Cons x xs)
  show ?case
  proof (cases n)
    case 0
    have "\<forall>y \<in> set xs. f x < f y" using Cons.prems(1) by simp
    then show ?thesis using 0 by (simp add: filter_id_conv)
  next
    case (Suc m)
    have "f x < f (xs ! m)" using Cons.prems Suc by simp
    then have "\<not> f (xs ! m) < f x" by simp
    then show ?thesis using Cons.IH [of m] Cons.prems Suc by auto
  qed
qed

lemma matching_after:
  assumes "mj_ok s" and "n < length (wanted since s)"
  shows "sort_key position (filter (\<lambda>i. \<not> xi_updated i < since \<and> position (wanted since s ! n) < position i) (mj_issues s))
    = drop (Suc n) (wanted since s)"
proof -
  have "filter (\<lambda>x. position (wanted since s ! n) < position x) (wanted since s) =
      sort_key position (filter (\<lambda>i. position (wanted since s ! n) < position i) (filter (\<lambda>i. \<not> xi_updated i < since) (mj_issues s)))"
    by (subst (2) wanted_def) (rule filter_sort)
  moreover have "filter (\<lambda>i. position (wanted since s ! n) < position i) (filter (\<lambda>i. \<not> xi_updated i < since) (mj_issues s)) =
      filter (\<lambda>i. \<not> xi_updated i < since \<and> position (wanted since s ! n) < position i) (mj_issues s)"
    by (simp add: conj_commute)
  ultimately show ?thesis using filter_after [OF strict_wanted [OF assms(1)] assms(2)] by simp
qed

text \<open>The cursor after the first \<open>n\<close> issues, and the page it gives.\<close>

definition cursor_after :: "int \<Rightarrow> mockjira \<Rightarrow> nat \<Rightarrow> string" where
  "cursor_after since s n = (if n = 0 then [] else encodeCursor (wanted since s ! (n - 1)))"

lemma wanted_fits: "mj_ok s \<Longrightarrow> n < length (wanted since s) \<Longrightarrow> fits (wanted since s ! n)"
  using nth_mem [of n "wanted since s"] by (auto simp: mj_ok_def wanted_def)

lemma mj_List_page:
  assumes "mj_ok s" and "n \<le> length (wanted since s)" and "0 < limit"
  shows "mj_List since (cursor_after since s n) limit s =
    (if n + nat limit < length (wanted since s)
     then Some \<lparr>xg_issues = take (nat limit) (drop n (wanted since s)), xg_next = cursor_after since s (n + nat limit)\<rparr>
     else Some \<lparr>xg_issues = drop n (wanted since s), xg_next = []\<rparr>)"
proof -
  let ?c = "cursor_after since s n"
  obtain start where start: "decodeCursor ?c = Some start" and
    m: "sort_key position (filter (\<lambda>i. \<not> xi_updated i < since \<and> (?c \<noteq> [] \<longrightarrow> start < position i)) (mj_issues s)) = drop n (wanted since s)"
  proof (cases n)
    case 0
    then show ?thesis using that by (simp add: cursor_after_def decodeCursor_def wanted_def)
  next
    case (Suc k)
    then have k: "k < length (wanted since s)" using assms(2) by simp
    show ?thesis using that [of "position (wanted since s ! k)"] matching_after [OF assms(1) k] encodeCursor_nonempty
      by (simp add: cursor_after_def Suc decode_encodeCursor wanted_fits [OF assms(1) k])
  qed
  have l: "int (length (drop n (wanted since s))) > limit \<longleftrightarrow> n + nat limit < length (wanted since s)"
    using assms(2,3) by auto
  have c: "drop n (wanted since s) ! (nat limit - 1) = wanted since s ! (n + nat limit - 1)" if "n + nat limit < length (wanted since s)"
    using that assms(3) by simp
  show ?thesis
    unfolding mj_List_def start Let_def option.case m using l c assms(3)
    by (simp add: cursor_after_def)
qed

text \<open>Following the pages to the end; \<open>None\<close> means that the bound was too small or a page was refused.\<close>

fun follow_pages :: "int \<Rightarrow> int \<Rightarrow> mockjira \<Rightarrow> nat \<Rightarrow> string \<Rightarrow> issue list option" where
  "follow_pages since limit s 0 cursor = None"
| "follow_pages since limit s (Suc k) cursor =
     (case mj_List since cursor limit s of
        None \<Rightarrow> None
      | Some p \<Rightarrow>
          if xg_next p = [] then Some (xg_issues p)
          else map_option ((@) (xg_issues p)) (follow_pages since limit s k (xg_next p)))"

lemma follow_pages_from:
  assumes "mj_ok s" and "0 < limit"
  shows "n \<le> length (wanted since s) \<Longrightarrow> length (wanted since s) - n < k \<Longrightarrow>
    follow_pages since limit s k (cursor_after since s n) = Some (drop n (wanted since s))"
proof (induction k arbitrary: n)
  case 0 then show ?case by simp
next
  case (Suc k)
  show ?case
  proof (cases "n + nat limit < length (wanted since s)")
    case True
    have "follow_pages since limit s k (cursor_after since s (n + nat limit)) = Some (drop (n + nat limit) (wanted since s))"
      using Suc.IH [of "n + nat limit"] Suc.prems True assms(2) by simp
    moreover have "cursor_after since s (n + nat limit) \<noteq> []" using assms(2) encodeCursor_nonempty by (simp add: cursor_after_def)
    moreover have "take (nat limit) (drop n (wanted since s)) @ drop (n + nat limit) (wanted since s) = drop n (wanted since s)"
      by (metis append_take_drop_id drop_drop add.commute)
    ultimately show ?thesis using mj_List_page [OF assms(1) Suc.prems(1) assms(2)] True by simp
  next
    case False
    then show ?thesis using mj_List_page [OF assms(1) Suc.prems(1) assms(2)] by simp
  qed
qed

text \<open>
  C25: Following the cursors lists every issue updated since the given time exactly once, in order of time and
  identifier, whatever the page size, in at most one page per issue and one more.
\<close>

theorem pages_list_every_issue:
  assumes "mj_ok s" and "0 < limit"
  shows "follow_pages since limit s (Suc (length (mj_issues s))) [] = Some (wanted since s) \<and>
    set (wanted since s) = {i \<in> set (mj_issues s). since \<le> xi_updated i} \<and>
    sorted_wrt (\<lambda>i j. position i < position j) (wanted since s)"
proof -
  have "length (wanted since s) \<le> length (mj_issues s)" by (simp add: wanted_def)
  then have "follow_pages since limit s (Suc (length (mj_issues s))) [] = Some (wanted since s)"
    using follow_pages_from [OF assms, of 0 since "Suc (length (mj_issues s))"] by (simp add: cursor_after_def)
  moreover have "set (wanted since s) = {i \<in> set (mj_issues s). since \<le> xi_updated i}"
    by (auto simp: wanted_def)
  moreover have "sorted_wrt (\<lambda>i j. position i < position j) (wanted since s)"
    using strict_wanted [OF assms(1)] by (simp add: sorted_wrt_map)
  ultimately show ?thesis by blast
qed

subsection \<open>Idempotent patches\<close>

text \<open>What the retries of a push cannot change again.\<close>

definition core :: "mockjira \<Rightarrow> issue list \<times> delivery list \<times> (string \<rightharpoonup> issue)" where
  "core s = (mj_issues s, mj_pending s, mj_idem s)"

lemma Get_id: "mj_Get ext s = Some i \<Longrightarrow> xi_id i = ext"
  unfolding mj_Get_def by (auto simp: find_Some_iff)

text \<open>The effect of an update: the issue found, its successor, one delivery.\<close>

definition updated :: "fenv \<Rightarrow> string \<Rightarrow> issue_patch \<Rightarrow> mockjira \<Rightarrow> issue \<Rightarrow> mockjira \<Rightarrow> bool" where
  "updated E ext p s i' s' \<longleftrightarrow> (\<exists>i t n. mj_Get ext s = Some i \<and>
       i' = (patched p i)\<lparr>xi_version := wrap64 (xi_version i + 1), xi_updated := t\<rparr> \<and>
       mj_issues s' = update_where (\<lambda>x. xi_id x = ext) (\<lambda>_. i') (mj_issues s) \<and>
       mj_pending s' = mj_pending s @ [(''dlv-'' @ show_nat n, render (JObject [(''event'', JString ''issue.updated''), (''issue'', issue_json E i')]))])"

lemma mj_update_cases:
  assumes "mj_update E J ext p s = (r, s')"
  obtains (missing) "r = None" and "s' = s"
    | (found) i' where "r = Some i'" and "updated E ext p s i' s'" and "mj_idem s' = mj_idem s" and "mj_faults s' = mj_faults s"
proof (cases "mj_Get ext s")
  case None
  then show thesis using missing assms by (simp add: mj_update_def)
next
  case (Some i)
  obtain i' s1 where put: "mj_put E J ''issue.updated'' (patched p i) s = (i', s1)" by fastforce
  then have "r = Some i'" "s' = s1" using assms Some by (simp_all add: mj_update_def)
  moreover have "xi_id (patched p i) = ext" "xi_version (patched p i) = xi_version i" using Get_id [OF Some] by (simp_all add: patched_def)
  ultimately have "updated E ext p s i' s'" and "mj_idem s' = mj_idem s" and "mj_faults s' = mj_faults s"
    using put Some unfolding updated_def
    by - (rule exI [of _ i], rule exI [of _ "mo_now J (mj_reads s)"], rule exI [of _ "Suc (mj_nextDelivery s)"],
        auto simp: mj_put_def mj_enqueue_def Let_def simp del: render.simps)
  then show thesis using found \<open>r = Some i'\<close> by blast
qed

lemma updated_same:
  "mj_issues t = mj_issues s \<Longrightarrow> mj_pending t = mj_pending s \<Longrightarrow> mj_issues t' = mj_issues s' \<Longrightarrow> mj_pending t' = mj_pending s' \<Longrightarrow>
   updated E ext p t i' t' = updated E ext p s i' s'"
  by (simp add: updated_def mj_Get_def)

lemma mj_patch_cases:
  assumes "mj_patch E J ext p key s = (r, s')"
  obtains (same) "core s' = core s" and "mj_faults s' = mj_faults s" and "key \<noteq> [] \<longrightarrow> r \<noteq> None \<longrightarrow> mj_idem s' key \<noteq> None"
    | (found) i' where "r = Some i'" and "updated E ext p s i' s'" and "mj_faults s' = mj_faults s" and "key \<noteq> [] \<longrightarrow> mj_idem s key = None"
        and "mj_idem s' = (if key \<noteq> [] then (mj_idem s)(key \<mapsto> i') else mj_idem s)"
proof (cases "key \<noteq> [] \<and> mj_idem s key \<noteq> None")
  case True
  then show thesis using same assms by (auto simp: mj_patch_def core_def)
next
  case False
  let ?s = "s\<lparr>mj_patches := Suc (mj_patches s)\<rparr>"
  obtain r1 s1 where u: "mj_update E J ext p ?s = (r1, s1)" by fastforce
  show thesis
  proof (rule mj_update_cases [OF u])
    assume "r1 = None" "s1 = ?s"
    then show thesis using same assms u False by (auto simp: mj_patch_def core_def split: if_splits)
  next
    fix i' assume "r1 = Some i'" "updated E ext p ?s i' s1" "mj_idem s1 = mj_idem ?s" "mj_faults s1 = mj_faults ?s"
    then have "updated E ext p s i' s1" "r = Some i'" "s' = (if key \<noteq> [] then s1\<lparr>mj_idem := (mj_idem s)(key \<mapsto> i')\<rparr> else s1)"
      "mj_idem s1 = mj_idem s" "mj_faults s1 = mj_faults s"
      using updated_same [of ?s s s1 s1 E ext p i'] assms u False by (auto simp: mj_patch_def Let_def)
    moreover from this have "updated E ext p s i' s'" using updated_same [of s s s' s1 E ext p i'] by simp
    ultimately show thesis using found [of i'] False by auto
  qed
qed

text \<open>The patch under a key is applied: to one issue, once.\<close>

definition applied_once :: "fenv \<Rightarrow> string \<Rightarrow> issue_patch \<Rightarrow> string \<Rightarrow> mockjira \<Rightarrow> mockjira \<Rightarrow> bool" where
  "applied_once E ext p key s s' \<longleftrightarrow> mj_idem s key = None \<and>
     (\<exists>i'. updated E ext p s i' s' \<and> mj_idem s' = (mj_idem s)(key \<mapsto> i'))"

lemma mj_patch_core:
  assumes "mj_patch E J ext p key s = (r, s')" and "key \<noteq> []"
  shows "(core s' = core s \<or> applied_once E ext p key s s') \<and> (r \<noteq> None \<longrightarrow> mj_idem s' key \<noteq> None) \<and> mj_faults s' = mj_faults s"
  using assms(2) by (rule_tac mj_patch_cases [OF assms(1)]) (auto simp: applied_once_def)

lemma core_applied: "core s' = core s \<Longrightarrow> applied_once E ext p key s' s'' = applied_once E ext p key s s''"
  using updated_same [of s' s s'' s''] by (auto simp: core_def applied_once_def)

lemma applied_core: "core s'' = core s' \<Longrightarrow> applied_once E ext p key s s'' = applied_once E ext p key s s'"
  using updated_same [of s s s'' s'] by (auto simp: core_def applied_once_def)

definition ascii_patch :: "issue_patch \<Rightarrow> bool" where
  "ascii_patch p \<longleftrightarrow> (\<forall>x \<in> set_option (xp_summary p) \<union> set_option (xp_status p) \<union> set_option (xp_description p). ascii x)"

lemma Decode_json_render: "plain_json v \<Longrightarrow> Decode_json (render v) = Some v"
  using scan_value [of v "[]" Value "[]"] by (simp add: Decode_json_def)

lemma decode_patch_render: "ascii_patch p \<Longrightarrow> decode_patch (render (patch_json p)) = Some p"
proof -
  assume "ascii_patch p"
  then have "plain_json (patch_json p)" by (auto simp: patch_json_def ascii_patch_def ascii_def split: option.splits)
  then have "Decode_json (render (patch_json p)) = Some (patch_json p)" by (rule Decode_json_render)
  then show ?thesis unfolding decode_patch_def
    by (cases p) (auto simp: patch_json_def members_of_def assigned_def names_field_def fold_letter_def
        byte_def Let_def simp del: render.simps split: option.splits)
qed

text \<open>One patch request, whatever it meets.\<close>

definition tracker_faults :: "mockjira \<Rightarrow> bool" where
  "tracker_faults s \<longleftrightarrow> (\<forall>f \<in> set (mj_faults s). 400 \<le> fst f)"

lemma patch_request_core:
  assumes "mj_Handler E J R sr (patch_request ext q key) = (resp, sr')" and "key \<noteq> []" and "decode_patch (render (patch_json q)) = Some p"
    and "tracker_faults (fst sr)"
  shows "(core (fst sr') = core (fst sr) \<or> applied_once E ext p key (fst sr) (fst sr')) \<and> tracker_faults (fst sr') \<and>
    (200 \<le> hr_status resp \<and> hr_status resp \<le> 299 \<longrightarrow> mj_idem (fst sr') key \<noteq> None)"
proof (cases "ext = []")
  case True
  then show ?thesis using assms(1,4) by (auto simp: mj_Handler_def patch_request_def Let_def http_text_def split: if_splits)
next
  case False
  have h: "mj_Handler E J R sr (patch_request ext q key) =
      (case on_issue E J ''PATCH'' ext (patch_request ext q key) (fst sr) of (resp, s') \<Rightarrow> (resp, (s', snd sr)))"
    using False by (simp add: mj_Handler_def patch_request_def Let_def split: prod.split)
  show ?thesis
  proof (cases "mj_faults (fst sr)")
    case (Cons f fs)
    then show ?thesis using assms(1,4) h
      by (auto simp: on_issue_def mj_rest_def core_def tracker_faults_def http_text_def split: prod.splits)
  next
    case Nil
    obtain r s' where m: "mj_patch E J ext p key (fst sr) = (r, s')" by fastforce
    have "mj_Handler E J R sr (patch_request ext q key) = (issue_reply E r, (s', snd sr))"
      using h Nil assms(3) m by (simp add: on_issue_def mj_rest_def handlePatch_def body_of_def patch_request_def)
    then show ?thesis using assms(1,4) mj_patch_core [OF m assms(2)]
      by (auto simp: tracker_faults_def issue_reply_def http_text_def split: option.splits)
  qed
qed

text \<open>All the attempts of a push.\<close>

definition pushes :: "fenv \<Rightarrow> string \<Rightarrow> issue_patch \<Rightarrow> string \<Rightarrow> mockjira \<Rightarrow> mockjira \<Rightarrow> bool" where
  "pushes E ext p key s s' \<longleftrightarrow> core s' = core s \<or> applied_once E ext p key s s'"

lemma pushes_trans:
  assumes "pushes E ext p key s s'" and "pushes E ext p key s' s''"
  shows "pushes E ext p key s s''"
proof (cases "core s' = core s")
  case True
  then show ?thesis using assms(2) by (simp add: pushes_def core_applied [OF True])
next
  case False
  then have a: "applied_once E ext p key s s'" using assms(1) by (simp add: pushes_def)
  then have "mj_idem s' key \<noteq> None" by (auto simp: applied_once_def Let_def)
  then have c: "core s'' = core s'" using assms(2) by (auto simp: pushes_def applied_once_def)
  show ?thesis using a by (simp add: pushes_def applied_core [OF c])
qed

lemma pushes_keeps_key: "pushes E ext p key s s' \<Longrightarrow> mj_idem s k \<noteq> None \<Longrightarrow> mj_idem s' k = mj_idem s k"
  by (auto simp: pushes_def core_def applied_once_def Let_def)

lemma once_push:
  assumes "once E ctx (mj_Handler E' J R) into (patch_request ext q key) out w = ((err, out'), w')"
    and "key \<noteq> []" and "decode_patch (render (patch_json q)) = Some p" and "tracker_faults (fst (fw_ext w))"
  shows "pushes E' ext p key (fst (fw_ext w)) (fst (fw_ext w')) \<and> tracker_faults (fst (fw_ext w')) \<and>
    (err = None \<longrightarrow> mj_idem (fst (fw_ext w')) key \<noteq> None)"
proof -
  obtain resp sr' where h: "mj_Handler E' J R (fw_ext w) (patch_request ext q key) = (resp, sr')" by (meson surj_pair)
  note c = patch_request_core [OF h assms(2-4)]
  show ?thesis using assms(1,4) c h
    by (auto simp: once_def answer_def pushes_def Let_def split: if_splits fate.splits prod.splits)
qed

lemma attempts_push:
  "attempts E ctx fl (mj_Handler E' J R) pol into (patch_request ext q key) k a out l w = (r, w') \<Longrightarrow>
     key \<noteq> [] \<Longrightarrow> decode_patch (render (patch_json q)) = Some p \<Longrightarrow> tracker_faults (fst (fw_ext w)) \<Longrightarrow>
     pushes E' ext p key (fst (fw_ext w)) (fst (fw_ext w')) \<and> tracker_faults (fst (fw_ext w')) \<and>
     (\<forall>i. r = Inr i \<longrightarrow> mj_idem (fst (fw_ext w')) key \<noteq> None)"
proof (induction k arbitrary: a out l w)
  case 0 then show ?case by (auto simp: pushes_def)
next
  case (Suc k)
  obtain err out1 w1 where o: "once E ctx (mj_Handler E' J R) into (patch_request ext q key) out w = ((err, out1), w1)"
    by (metis surj_pair)
  note s = once_push [OF o Suc.prems(2-4)]
  consider (stop) "w' = w1 \<or> w' = ftick w1" "err \<noteq> None \<longrightarrow> (\<exists>e. r = Inl e)"
    | (again) e where "attempts E ctx fl (mj_Handler E' J R) pol into (patch_request ext q key) k (Suc a) out1 (Some e) (ftick w1) = (r, w')"
    using Suc.prems(1) o by (auto simp: sleepContext_def split: option.splits if_splits)
  then show ?case
  proof cases
    case stop then show ?thesis using s by (cases err) auto
  next
    case again
    from Suc.IH [OF this Suc.prems(2,3)] s show ?thesis
      using pushes_trans [of E' ext p key "fst (fw_ext w)" "fst (fw_ext w1)" "fst (fw_ext w')"] by auto
  qed
qed

text \<open>Requests by anybody else.\<close>

primrec serve_requests :: "'x remote \<Rightarrow> http_req list \<Rightarrow> 'x \<Rightarrow> 'x" where
  "serve_requests T [] x = x"
| "serve_requests T (q # qs) x = serve_requests T qs (snd (T x q))"

lemma mj_patch_keeps_key: "mj_patch E J ext p key s = (r, s') \<Longrightarrow> mj_idem s k \<noteq> None \<Longrightarrow> mj_idem s' k = mj_idem s k"
  by (erule mj_patch_cases) (auto simp: core_def split: if_splits)

lemma flush_posts_idem: "mj_idem (fst (snd (flush_posts E J R ds n sr))) = mj_idem (fst sr)"
  by (induction ds arbitrary: n sr) (auto simp: Let_def split: prod.split option.split)

lemma Flush_idem: "Flush E J R mode sr = (r, sr') \<Longrightarrow> mj_idem (fst sr') = mj_idem (fst sr)"
  using flush_posts_idem [of E J R _ 0 "((fst sr)\<lparr>mj_pending := []\<rparr>, snd sr)"]
  by (auto simp: Flush_def Let_def split: flush_mode.splits) (metis fst_conv snd_conv mockjira.select_convs)+

definition keeps_key :: "string \<Rightarrow> (mockjira \<Rightarrow> http_resp \<times> mockjira) \<Rightarrow> bool" where
  "keeps_key k h \<longleftrightarrow> (\<forall>s. mj_idem s k \<noteq> None \<longrightarrow> mj_idem (snd (h s)) k = mj_idem s k)"

lemma keeps_keyD: "keeps_key k h \<Longrightarrow> h s = (r, s') \<Longrightarrow> mj_idem s k \<noteq> None \<Longrightarrow> mj_idem s' k = mj_idem s k"
  by (metis keeps_key_def snd_conv)

lemma rest_keeps_key: "keeps_key k h \<Longrightarrow> keeps_key k (mj_rest h)"
  by (auto simp: keeps_key_def mj_rest_def split: list.splits)

lemma handlers_keep_key:
  "keeps_key k (handlePatch E J b q)" "keeps_key k (handleDelete E J b)" "keeps_key k (handleCreate E J q)"
  "keeps_key k (\<lambda>s. (f s, s))"
  by (auto simp: keeps_key_def handlePatch_def handleDelete_def mj_Delete_def mj_put_def mj_enqueue_def handleCreate_def mj_Create_def
      Let_def mj_patch_keeps_key split: option.splits prod.splits)

lemma on_issue_keeps_key: "keeps_key k (on_issue E J meth b q)"
  by (auto simp: on_issue_def intro: rest_keeps_key handlers_keep_key)

lemma on_issues_keeps_key: "keeps_key k (on_issues E J meth q)"
  by (auto simp: on_issues_def intro: rest_keeps_key handlers_keep_key)

lemma Handler_keeps_key:
  assumes "mj_Handler E J R sr q = (resp, sr')" and "mj_idem (fst sr) k \<noteq> None"
  shows "mj_idem (fst sr') k = mj_idem (fst sr) k"
  using assms
  by (auto simp: mj_Handler_def Let_def handleAdminFail_def FailNext_def handleAdminFlush_def
      split: list.splits if_splits prod.splits option.splits dest: keeps_keyD [OF on_issues_keeps_key] keeps_keyD [OF on_issue_keeps_key] Flush_idem)

lemma serve_requests_key:
  "mj_idem (fst sr) k \<noteq> None \<Longrightarrow> mj_idem (fst (serve_requests (mj_Handler E J R) qs sr)) k = mj_idem (fst sr) k"
proof (induction qs arbitrary: sr)
  case Nil then show ?case by simp
next
  case (Cons q qs)
  have "mj_idem (fst (snd (mj_Handler E J R sr q))) k = mj_idem (fst sr) k"
    by (rule Handler_keeps_key [OF prod.collapse [symmetric] Cons.prems])
  then show ?case using Cons.IH [of "snd (mj_Handler E J R sr q)"] Cons.prems by simp
qed


subsection \<open>Webhooks that arrive\<close>

lemma hex_decode_encode: "hex_decode (hex_encode s) = Some s"
proof (induction s)
  case Nil then show ?case by (simp add: hex_encode_def)
next
  case (Cons c s)
  have "of_char c < (256 :: nat)" by (metis mod_less_divisor of_char_mod_256 zero_less_numeral)
  then have "(of_char c :: nat) div 16 < 16" by (intro less_mult_imp_div_less) simp
  moreover have "byte (16 * (of_char c div 16) + of_char c mod 16) = c" by (simp add: byte_def)
  ultimately show ?case using Cons by (simp add: hex_encode_def hex_value_digit)
qed

lemma show_int_nonempty: "show_int n \<noteq> []"
  by (simp add: show_int_def show_nat_nonempty)

lemma parse_seconds_show: "- (2 ^ 63) \<le> n \<Longrightarrow> n < 2 ^ 63 \<Longrightarrow> parse_seconds (show_int n) = Some n"
proof -
  assume n: "- (2 ^ 63) \<le> n" "n < 2 ^ 63"
  have "hd (show_int n) \<noteq> CHR ''+''" using show_int_chars [of "hd (show_int n)" n] show_int_nonempty [of n]
    by (cases "show_int n") (auto simp: is_digit_def)
  then show ?thesis using n parse_show_int [of 64 n] show_int_nonempty [of n] by (cases "show_int n") (simp_all add: parse_seconds_def)
qed

text \<open>The receiver of the webhooks is the endpoint of \<open>FsWebhook\<close>.\<close>

definition webhook_endpoint :: "fenv \<Rightarrow> string \<Rightarrow> webhook_verifier \<Rightarrow> nat \<Rightarrow> 'x fworld receiver" where
  "webhook_endpoint E system v maxBody w q = (case NewHandler E system v maxBody q w of ((status, _), w') \<Rightarrow> (Some status, w'))"

definition deliverable :: "nat \<Rightarrow> delivery \<Rightarrow> bool" where
  "deliverable maxBody d \<longleftrightarrow> fst d \<noteq> [] \<and> CHR ''.'' \<notin> set (fst d) \<and> length (snd d) \<le> maxBody"

definition clocks_agree :: "fenv \<Rightarrow> mj_options \<Rightarrow> webhook_verifier \<Rightarrow> bool" where
  "clocks_agree E J v \<longleftrightarrow> (\<forall>n m. \<bar>fe_clock E n * 1000 - mo_now J m div go_second * go_second\<bar> \<le> vf_tolerance v) \<and>
     (\<forall>m. - (2 ^ 63) \<le> mo_now J m div go_second \<and> mo_now J m div go_second < 2 ^ 63)"

text \<open>What is signed by the tracker passes the check of the endpoint.\<close>

lemma signature_accepted:
  assumes "clocks_agree E J v" and "mo_secret J = vf_secret v" and "CHR ''.'' \<notin> set i"
  shows "Verify E v (fe_clock E n) (show_int (mo_now J m div go_second)) i
    (''sha256='' @ mj_sign E (mo_secret J) (show_int (mo_now J m div go_second)) i body) body = None"
proof -
  let ?s = "mo_now J m div go_second"
  have p: "parse_seconds (show_int ?s) = Some ?s" using assms(1) by (simp add: clocks_agree_def parse_seconds_show)
  have c: "cut_prefix signaturePrefix (''sha256='' @ x) = Some x" for x by (simp add: cut_prefix_def signaturePrefix_def)
  have "\<bar>fe_clock E n * 1000 - ?s * 1000000000\<bar> \<le> vf_tolerance v" using assms(1) by (simp add: clocks_agree_def go_second_def)
  then show ?thesis using p show_int_nonempty [of ?s] assms(2,3)
    by (auto simp: Verify_def c mj_sign_def hex_decode_encode mac_input_def Let_def simp del: append.simps)
qed

definition stored_from :: "string \<Rightarrow> delivery list \<Rightarrow> fdb \<Rightarrow> fdb \<Rightarrow> bool" where
  "stored_from system ds d d' \<longleftrightarrow>
     (\<forall>x \<in> set ds. \<exists>row \<in> set (f_inbox d'). inbox_key system (fst x) row) \<and>
     set (f_inbox d) \<subseteq> set (f_inbox d') \<and>
     (\<forall>row \<in> set (f_inbox d'). row \<in> set (f_inbox d) \<or> (\<exists>x \<in> set ds. \<exists>t. row = new_inbox_row system (fst x) (snd x) t))"

lemma Deliver_stored:
  assumes "\<forall>n. fe_fate E n = Done" and "clocks_agree E J v" and "mo_secret J = vf_secret v" and "deliverable maxBody x" and "fw_tx w = None"
    and "Deliver E J (webhook_endpoint E system v maxBody) x (mo_now J m) w = (res, w')"
  shows "res = Some 202 \<and> fw_tx w' = None \<and> stored_from system [x] (fw_db w) (fw_db w')"
proof -
  obtain r d where q: "fq_InsertWebhookInbox system (fst x) (snd x) (fnow E w) (fw_db w) = (r, d)" by fastforce
  have v: "Verify E v (fnow E w) (show_int (mo_now J m div go_second)) (fst x)
      (''sha256='' @ mj_sign E (mo_secret J) (show_int (mo_now J m div go_second)) (fst x) (snd x)) (snd x) = None"
    unfolding fnow_def by (rule signature_accepted) (use assms in \<open>auto simp: deliverable_def\<close>)
  obtain k where k: "r = Inr k" using InsertWebhookInbox_tables [OF q] by auto
  have h: "NewHandler E system v maxBody \<lparr>wq_delivery = fst x, wq_timestamp = show_int (mo_now J m div go_second),
      wq_signature = ''sha256='' @ mj_sign E (mo_secret J) (show_int (mo_now J m div go_second)) (fst x) (snd x), wq_body = Some (snd x)\<rparr> w =
      (webhook_reply 202 (if k = 1 then ''accepted'' else ''duplicate''), (ftick w)\<lparr>fw_db := d\<rparr>)"
    using v assms(1,4,5) q k
    by (simp add: NewHandler_def deliverable_def DBInbox_Insert_def fbind_def fexec_def fret_def del: append.simps)
  then have res: "res = Some 202" "w' = (ftick w)\<lparr>fw_db := d\<rparr>"
    using assms(6) by (simp_all add: Deliver_def webhook_endpoint_def webhook_reply_def Let_def del: append.simps)
  have "stored_from system [x] (fw_db w) d" using InsertWebhookInbox_tables [OF q]
  proof
    assume "(\<exists>row \<in> set (f_inbox (fw_db w)). inbox_key system (fst x) row) \<and> r = Inr 0 \<and> d = fw_db w"
    then show ?thesis by (simp add: stored_from_def)
  next
    assume a: "r = Inr 1 \<and> d = (fw_db w)\<lparr>f_inbox := f_inbox (fw_db w) @ [new_inbox_row system (fst x) (snd x) (fnow E w)]\<rparr>"
    have "inbox_key system (fst x) (new_inbox_row system (fst x) (snd x) (fnow E w))" by (simp add: inbox_key_def new_inbox_row_def)
    then show ?thesis using a by (auto simp: stored_from_def)
  qed
  then show ?thesis using res assms(5) by simp
qed

lemma stored_from_Cons: "stored_from system [x] d d1 \<Longrightarrow> stored_from system ds d1 d2 \<Longrightarrow> stored_from system (x # ds) d d2"
  unfolding stored_from_def by simp blast

lemma flush_posts_stored:
  assumes "\<forall>n. fe_fate E n = Done" and "clocks_agree E J v" and "mo_secret J = vf_secret v"
  shows "\<forall>x \<in> set ds. deliverable maxBody x \<Longrightarrow> fw_tx (snd sw) = None \<Longrightarrow>
    flush_posts E J (webhook_endpoint E system v maxBody) ds n sw = (res, sw') \<Longrightarrow>
    res = (n + length ds, None) \<and> mj_pending (fst sw') = mj_pending (fst sw) \<and> stored_from system ds (fw_db (snd sw)) (fw_db (snd sw'))"
proof (induction ds arbitrary: n sw)
  case Nil then show ?case by (auto simp: stored_from_def)
next
  case (Cons x ds)
  obtain r w1 where d: "Deliver E J (webhook_endpoint E system v maxBody) x (mo_now J (mj_reads (fst sw))) (snd sw) = (r, w1)" by fastforce
  have "deliverable maxBody x" using Cons.prems(1) by simp
  note s = Deliver_stored [OF assms this Cons.prems(2) d]
  then have "flush_posts E J (webhook_endpoint E system v maxBody) ds (n + 1) ((fst sw)\<lparr>mj_reads := Suc (mj_reads (fst sw))\<rparr>, w1) = (res, sw')"
    using Cons.prems(3) d by (simp add: Let_def)
  note t = Cons.IH [OF _ _ this]
  have "res = (n + 1 + length ds, None) \<and> mj_pending (fst sw') = mj_pending (fst sw) \<and> stored_from system ds (fw_db w1) (fw_db (snd sw'))"
    using t Cons.prems(1) s by auto
  then show ?case using s stored_from_Cons [of system x "fw_db (snd sw)" "fw_db w1" ds "fw_db (snd sw')"] by auto
qed


end
