(* ===== verification/FsPullClaims.thy ===== *)
theory FsPullClaims
  imports FsPull FsMockjiraProofs
begin

section \<open>offline-sync-app: what the incremental pull guarantees\<close>

text \<open>
  The extractor relies on its lister only through the laws of the locale \<open>issue_source\<close>, which the client
  talking to the issue tracker satisfies. It returns within its budget, and it misses no issue however
  often it is interrupted.
\<close>

subsection \<open>The run ends\<close>

definition calls_rise :: "('x, 'a) fm \<Rightarrow> bool" where
  "calls_rise m \<longleftrightarrow> (\<forall>w. fw_calls w \<le> fw_calls (snd (m w)))"

named_theorems rise

lemma rise_fret [rise]: "calls_rise (fret x)" and rise_fthrow [rise]: "calls_rise (fthrow e)"
  by (simp_all add: calls_rise_def fret_def fthrow_def)

lemma rise_fexec [rise]: "calls_rise (fexec E st)"
  by (auto simp: calls_rise_def fexec_def Let_def split: option.splits prod.splits fate.splits)

lemma rise_fbind [rise]: "calls_rise m \<Longrightarrow> (\<And>x. calls_rise (f x)) \<Longrightarrow> calls_rise (fbind m f)"
  unfolding calls_rise_def fbind_def
proof (intro allI)
  fix w assume m: "\<forall>w. fw_calls w \<le> fw_calls (snd (m w))" and f: "\<And>x. \<forall>w. fw_calls w \<le> fw_calls (snd (f x w))"
  obtain r w1 where 1: "m w = (r, w1)" by fastforce
  show "fw_calls w \<le> fw_calls (snd (case m w of (Inl e, w') \<Rightarrow> (Inl e, w') | (Inr x, w') \<Rightarrow> f x w'))"
    using 1 m [THEN spec, of w] f [THEN spec, of w1] by (cases r) (auto intro: le_trans)
qed

lemma rise_fhandle [rise]: "calls_rise m \<Longrightarrow> (\<And>x. calls_rise (k x)) \<Longrightarrow> calls_rise (fhandle m k)"
  unfolding calls_rise_def fhandle_def
proof (intro allI)
  fix w assume m: "\<forall>w. fw_calls w \<le> fw_calls (snd (m w))" and k: "\<And>x. \<forall>w. fw_calls w \<le> fw_calls (snd (k x w))"
  obtain r w1 where 1: "m w = (r, w1)" by fastforce
  show "fw_calls w \<le> fw_calls (snd (case m w of (r, w') \<Rightarrow> k r w'))"
    using 1 m [THEN spec, of w] k [THEN spec, of w1] by (auto intro: le_trans)
qed

lemma rise_feach [rise]: "(\<And>x. calls_rise (f x)) \<Longrightarrow> calls_rise (feach f xs)"
  by (induction xs) (auto intro: rise)

lemma rise_at: "(\<And>w. calls_rise (m w)) \<Longrightarrow> calls_rise (\<lambda>w. m w w)"
  by (simp add: calls_rise_def)

lemma rise_InTx:
  fixes body :: "('x, 'a) fm"
  assumes "calls_rise body" shows "calls_rise (InTx E body)"
  unfolding calls_rise_def
proof
  fix w :: "'x fworld"
  let ?w = "(ftick w)\<lparr>fw_tx := Some \<lparr>ft_now = fnow E w, ft_db = fw_db w\<rparr>\<rparr>"
  obtain r w1 where b: "body ?w = (r, w1)" by fastforce
  have "Suc (fw_calls w) \<le> fw_calls w1" using assms [unfolded calls_rise_def, THEN spec, of ?w] b by simp
  then show "fw_calls w \<le> fw_calls (snd (InTx E body w))"
    using b by (auto simp: InTx_def split: sum.splits fate.splits)
qed

lemma rise_publish [rise]: "calls_rise (fs_Publish E a i t p u)"
  unfolding fs_Publish_def [abs_def] by (rule rise_at, intro rise)

lemma rise_resolve [rise]: "calls_rise (ResolveInternalID E system ext)"
  unfolding ResolveInternalID_def [abs_def] by (rule rise_at, intro rise)

lemma rise_sum [rise]: "(\<And>e. calls_rise (f e)) \<Longrightarrow> (\<And>x. calls_rise (g x)) \<Longrightarrow> calls_rise (case r of Inl e \<Rightarrow> f e | Inr x \<Rightarrow> g x)"
  by (cases r) simp_all

lemma rise_if [rise]: "calls_rise m \<Longrightarrow> calls_rise m' \<Longrightarrow> calls_rise (if b then m else m')"
  by simp

lemma rise_item [rise]: "calls_rise (apply_item E A issue i current)"
  unfolding apply_item_def publish_item_def Let_def case_prod_beta by (intro rise)

lemma rise_Apply [rise]: "calls_rise (Apply E A src i)"
  unfolding Apply_def isEcho_def by (intro rise)

lemma rise_page: "calls_rise (apply_page E X prior since page m)"
  unfolding apply_page_def by (intro rise_InTx rise)

lemma run_pages_end:
  assumes ls: "\<And>s c n. calls_rise (ls s c n)" and late: "\<forall>n \<ge> N. deadline \<le> ns_of (fe_clock E n)"
  shows "N - fw_calls w < k \<Longrightarrow> \<exists>r. run_pages E X ls deadline prior since k cursor m slowest res w = Some r"
proof (induction k arbitrary: cursor m slowest res w)
  case 0 then show ?case by simp
next
  case (Suc k)
  show ?case
  proof (cases "deadline - ns_of (fnow E w) \<le> 0 \<or> deadline - ns_of (fnow E w) < slowest")
    case True then show ?thesis by (auto simp: Let_def)
  next
    case False
    then have N: "fw_calls w < N" using late by (auto simp: fnow_def not_le [symmetric])
    obtain r1 w1 where l: "ls since cursor (ex_page X) (ftick (ftick w)) = (r1, w1)" by fastforce
    have c1: "fw_calls w < fw_calls w1"
      using ls [unfolded calls_rise_def, THEN spec, of "ftick (ftick w)" since cursor "ex_page X"] l by simp
    show ?thesis
    proof (cases r1)
      case (Inl e) then show ?thesis using False l by (auto simp: Let_def)
    next
      case (Inr page)
      obtain r2 w2 where p: "apply_page E X prior since page (run_max m (xg_issues page)) w1 = (r2, w2)" by fastforce
      have "fw_calls w1 \<le> fw_calls w2"
        using rise_page [of E X prior since page "run_max m (xg_issues page)", unfolded calls_rise_def, THEN spec, of w1] p by simp
      then have "N - fw_calls (ftick w2) < k" using Suc.prems N c1 by simp
      then have "\<exists>r. run_pages E X ls deadline prior since k c' m' s' res' (ftick w2) = Some r" for c' m' s' res'
        by (rule Suc.IH)
      then show ?thesis using False l Inr p by (cases r2) (auto simp: Let_def)
    qed
  qed
qed

text \<open>
  C27: The extractor stops on its own: whatever the tracker answers, even an endless chain of pages, once the clock
  has passed the budget the run returns. As many rounds as there are calls before that are enough.
\<close>

theorem extractor_returns:
  assumes "\<And>s c n. calls_rise (ls s c n)" and "\<forall>n \<ge> N. ns_of (fnow E w) + ex_budget X \<le> ns_of (fe_clock E n)"
  shows "\<exists>r. Extractor_Run E X ls (Suc N) w = Some r"
proof -
  obtain r1 w1 where g: "fexec E (fq_GetSyncState (ap_system (ex_applier X))) (ftick w) = (r1, w1)" by fastforce
  have "\<exists>r. run_pages E X ls (ns_of (fnow E w) + ex_budget X) st since (Suc N) c m 0 res w1 = Some r" for st since c m res
    by (rule run_pages_end [OF assms]) auto
  then show ?thesis using g by (auto simp: Extractor_Run_def Let_def simp del: run_pages.simps split: sum.splits prod.split)
qed

subsection \<open>A source of issues\<close>

text \<open>
  What the extractor needs of a lister, while the issues it lists do not change: listing changes nothing
  here, and a page either holds an issue that is still due or leaves it to the pages behind its cursor.
  \<open>seen c i\<close> says that the cursor \<open>c\<close> is past the issue \<open>i\<close>.
\<close>

definition taken :: "string \<Rightarrow> issue \<Rightarrow> fdb \<Rightarrow> bool" where
  "taken system i d \<longleftrightarrow> (\<exists>l. link_at system (xi_id i) d = Some l \<and> xi_version i \<le> lk_version l)"

lemma taken_rises: "taken system i d \<Longrightarrow> versions_rise d d' \<Longrightarrow> taken system i d'"
  unfolding taken_def versions_rise_def by (metis order_trans)

definition due_from :: "sync_state \<Rightarrow> int" where
  "due_from st = (case sy_since st of None \<Rightarrow> fs_zero_time | Some t \<Rightarrow> ns_of t)"

locale issue_source =
  fixes ls :: "'e \<Rightarrow> 'x lister" and laws :: "'e \<Rightarrow> bool" and good :: "'x \<Rightarrow> bool" and issues :: "'x \<Rightarrow> issue list"
    and seen :: "string \<Rightarrow> issue \<Rightarrow> bool"
  assumes list_keeps: "laws e \<Longrightarrow> ls e since c n w = (r, w') \<Longrightarrow> good (fw_ext w) \<Longrightarrow>
      good (fw_ext w') \<and> issues (fw_ext w') = issues (fw_ext w) \<and> fw_db w' = fw_db w \<and> fw_tx w' = fw_tx w"
    and list_page: "laws e \<Longrightarrow> ls e since c n w = (Inr p, w') \<Longrightarrow> good (fw_ext w) \<Longrightarrow> i \<in> set (issues (fw_ext w)) \<Longrightarrow>
      since \<le> xi_updated i \<Longrightarrow> \<not> seen c i \<Longrightarrow> i \<in> set (xg_issues p) \<or> (xg_next p \<noteq> [] \<and> \<not> seen (xg_next p) i)"
    and seen_start: "\<not> seen [] i"
    and after_zero: "good x \<Longrightarrow> i \<in> set (issues x) \<Longrightarrow> fs_zero_time \<le> xi_updated i"
begin

text \<open>What a stored state promises of the issues \<open>is\<close>.\<close>

definition due :: "string \<Rightarrow> issue list \<Rightarrow> int \<Rightarrow> string \<Rightarrow> fdb \<Rightarrow> bool" where
  "due system isu since c d \<longleftrightarrow> (\<forall>i \<in> set isu. taken system i d \<or> (since \<le> xi_updated i \<and> \<not> seen c i))"

definition state_ok :: "string \<Rightarrow> issue list \<Rightarrow> sync_state \<Rightarrow> fdb \<Rightarrow> bool" where
  "state_ok system isu st d \<longleftrightarrow>
     (if sy_cursor st = [] then sy_watermark st = None \<or> (\<forall>i \<in> set isu. taken system i d)
      else due system isu (due_from st) (sy_cursor st) d)"

definition pull_inv :: "string \<Rightarrow> issue list \<Rightarrow> fdb \<Rightarrow> bool" where
  "pull_inv system isu d \<longleftrightarrow> tw_ok d \<and> (\<forall>st \<in> set (f_sync d). sy_system st = system \<longrightarrow> state_ok system isu st d)"

lemma due_rises: "due system isu since c d \<Longrightarrow> versions_rise d d' \<Longrightarrow> due system isu since c d'"
  unfolding due_def using taken_rises by blast

lemma state_ok_rises: "state_ok system isu st d \<Longrightarrow> versions_rise d d' \<Longrightarrow> state_ok system isu st d'"
  unfolding state_ok_def using taken_rises due_rises by (auto split: if_splits)

lemma pull_inv_applies:
  "pull_inv system isu d \<Longrightarrow> applies E A src issue n d out d' \<Longrightarrow> pull_inv system isu d' \<and> versions_rise d d'"
  using applies_tw_ok [of E A src issue n d out d'] applies_versions [of E A src issue n d out d']
    applies_inbox [of E A src issue n d out d'] state_ok_rises [of system isu _ d d']
  by (auto simp: pull_inv_def)

text \<open>The effect of a committed page.\<close>

lemma page_steps:
  assumes "steps (\<lambda>i d out d'. applies E A SourcePoll i n d out d') is d outs d'" and "tw_ok d"
  shows "tw_ok d' \<and> versions_rise d d' \<and> (\<forall>i \<in> set is. taken (ap_system A) i d')"
proof (rule steps_seen [where I = tw_ok and A = versions_rise and S = "taken (ap_system A)",
      OF _ taken_rises versions_rise_refl versions_rise_trans assms])
  fix i d out d' assume a: "applies E A SourcePoll i n d out d'" and ok: "tw_ok d"
  have "out \<noteq> OutcomeEcho" by (rule applies_cases [OF a ok]) (auto split: if_splits)
  then show "tw_ok d' \<and> versions_rise d d' \<and> taken (ap_system A) i d'"
    using applies_tw_ok [OF a ok] applies_versions [OF a ok] by (auto simp: taken_def)
qed

lemma page_sync: "steps (\<lambda>i d out d'. applies E A SourcePoll i n d out d') is d outs d' \<Longrightarrow> f_sync d' = f_sync d"
  by (induction "is" arbitrary: d outs) (auto dest: applies_inbox)

lemma apply_page_committed:
  fixes w :: "'x fworld"
  assumes "apply_page E X prior since page m w = (r, w')"
  shows "fw_ext w' = fw_ext w \<and> (fw_tx w = None \<longrightarrow> fw_tx w' = None) \<and>
    ((\<exists>e. r = Inl e \<and> fw_db w' = fw_db w) \<or>
     (\<exists>n outs d. steps (\<lambda>i d out d'. applies E (ex_applier X) SourcePoll i n d out d') (xg_issues page) (fw_db w) outs d \<and>
        fw_db w' = snd (checkpoint prior since (xg_next page) m (ap_system (ex_applier X)) n d)))"
proof -
  let ?P = "\<lambda>n d (_ :: unit) d'. \<exists>outs d1. steps (\<lambda>i d out d'. applies E (ex_applier X) SourcePoll i n d out d') (xg_issues page) d outs d1 \<and>
     d' = snd (checkpoint prior since (xg_next page) m (ap_system (ex_applier X)) n d1)"
  let ?b = "fbind (feach (Apply E (ex_applier X) SourcePoll) (xg_issues page))
     (\<lambda>_. fexec E (checkpoint prior since (xg_next page) m (ap_system (ex_applier X)))) :: ('x, unit) fm"
  have b: "ok_tx ?b ?P"
    by (rule ok_tx_weaken [OF ok_tx_fbind [OF ok_tx_feach [OF Apply_ok] ok_tx_fexec]])
      (elim exE conjE, intro exI conjI, assumption, simp)
  have t: "InTx E ?b w = (r, w')" using assms by (simp add: apply_page_def)
  show ?thesis
    using ok_tx_InTx [OF b t] in_tx_InTx(1,2) [OF b [unfolded ok_tx_def] t] by auto
qed

lemma page_inv:
  fixes w :: "'x fworld"
  assumes "apply_page E X prior since page m w = (r, w')" and "pull_inv (ap_system (ex_applier X)) isu (fw_db w)"
    and "due (ap_system (ex_applier X)) isu since c (fw_db w)"
    and "\<And>i. i \<in> set isu \<Longrightarrow> since \<le> xi_updated i \<Longrightarrow> \<not> seen c i \<Longrightarrow>
      i \<in> set (xg_issues page) \<or> (xg_next page \<noteq> [] \<and> \<not> seen (xg_next page) i)"
  shows "pull_inv (ap_system (ex_applier X)) isu (fw_db w') \<and>
    (\<forall>u. r = Inr u \<longrightarrow> (if xg_next page = [] then \<forall>i \<in> set isu. taken (ap_system (ex_applier X)) i (fw_db w')
       else due (ap_system (ex_applier X)) isu since (xg_next page) (fw_db w')))"
proof -
  let ?s = "ap_system (ex_applier X)"
  consider (none) e where "r = Inl e" "fw_db w' = fw_db w"
    | (page) n outs d where "steps (\<lambda>i d out d'. applies E (ex_applier X) SourcePoll i n d out d') (xg_issues page) (fw_db w) outs d"
        "fw_db w' = snd (checkpoint prior since (xg_next page) m ?s n d)"
    using apply_page_committed [OF assms(1)] by blast
  then show ?thesis
  proof cases
    case none then show ?thesis using assms(2) by simp
  next
    case page
    have ok: "tw_ok (fw_db w)" using assms(2) by (simp add: pull_inv_def)
    note s = page_steps [OF page(1) ok]
    have d1: "due ?s isu since c d" using due_rises assms(3) s by blast
    have rest: "if xg_next page = [] then \<forall>i \<in> set isu. taken ?s i d else due ?s isu since (xg_next page) d"
      using d1 assms(4) s by (auto simp: due_def)
    have links: "f_links (fw_db w') = f_links d" "f_items (fw_db w') = f_items d"
      unfolding page(2) by (auto simp: checkpoint_def fq_UpsertSyncState_def Let_def)
    then have tk: "taken ?s i (fw_db w') = taken ?s i d" for i by (simp add: taken_def link_at_def)
    have ok': "tw_ok (fw_db w')" using s links by (simp add: tw_ok_def)
    have "state_ok ?s isu st (fw_db w')" if st: "st \<in> set (f_sync (fw_db w'))" "sy_system st = ?s" for st
    proof (cases "xg_next page = []")
      case True
      have "sy_cursor st = []" using st unfolding page(2)
        by (auto simp: checkpoint_def True fq_UpsertSyncState_def Let_def set_update_where image_iff split: if_splits)
      then show ?thesis using rest True tk by (simp add: state_ok_def)
    next
      case False
      have c: "sy_cursor st = xg_next page" "sy_since st = Some (toTimestamptz since)" using st unfolding page(2)
        by (auto simp: checkpoint_def False fq_UpsertSyncState_def Let_def set_update_where image_iff split: if_splits)
      have "due_from st \<le> since" using c(2) by (simp add: due_from_def ns_of_def toTimestamptz_def)
      then have "due ?s isu (due_from st) (sy_cursor st) (fw_db w')" using rest False c(1) tk by (auto simp: due_def)
      then show ?thesis using False c(1) by (simp add: state_ok_def)
    qed
    then show ?thesis using ok' rest tk by (cases "xg_next page = []") (auto simp: pull_inv_def due_def)
  qed
qed

lemma run_pages_inv:
  "run_pages E X (ls e) deadline prior since k c m slowest res w = Some ((err, res'), w') \<Longrightarrow>
    laws e \<Longrightarrow> good (fw_ext w) \<Longrightarrow> fw_tx w = None \<Longrightarrow> isu = issues (fw_ext w) \<Longrightarrow>
    pull_inv (ap_system (ex_applier X)) isu (fw_db w) \<Longrightarrow> due (ap_system (ex_applier X)) isu since c (fw_db w) \<Longrightarrow> \<not> er_done res \<Longrightarrow>
    good (fw_ext w') \<and> fw_tx w' = None \<and> issues (fw_ext w') = isu \<and> pull_inv (ap_system (ex_applier X)) isu (fw_db w') \<and>
    (er_done res' \<longrightarrow> (\<forall>i \<in> set isu. taken (ap_system (ex_applier X)) i (fw_db w')))"
proof (induction k arbitrary: c m slowest res w)
  case 0 then show ?case by simp
next
  case (Suc k)
  show ?case
  proof (cases "deadline - ns_of (fnow E w) \<le> 0 \<or> deadline - ns_of (fnow E w) < slowest")
    case True
    then show ?thesis using Suc.prems by (auto simp: Let_def)
  next
    case False
    obtain r1 w1 where l: "ls e since c (ex_page X) (ftick (ftick w)) = (r1, w1)" by fastforce
    have g: "good (fw_ext (ftick (ftick w)))" using Suc.prems(3) by simp
    note k1 = list_keeps [OF Suc.prems(2) l g]
    show ?thesis
    proof (cases r1)
      case (Inl e)
      then show ?thesis using Suc.prems False l k1 by (auto simp: Let_def)
    next
      case (Inr page)
      obtain r2 w2 where p: "apply_page E X prior since page (run_max m (xg_issues page)) w1 = (r2, w2)" by fastforce
      have pg: "\<And>i. i \<in> set isu \<Longrightarrow> since \<le> xi_updated i \<Longrightarrow> \<not> seen c i \<Longrightarrow>
          i \<in> set (xg_issues page) \<or> (xg_next page \<noteq> [] \<and> \<not> seen (xg_next page) i)"
        using list_page [OF Suc.prems(2) l [unfolded Inr] g] Suc.prems(5) by simp
      have inv: "pull_inv (ap_system (ex_applier X)) isu (fw_db w1)" "due (ap_system (ex_applier X)) isu since c (fw_db w1)"
        using Suc.prems(6,7) k1 by simp_all
      note i = page_inv [OF p inv pg] and q = apply_page_committed [OF p]
      have w2: "good (fw_ext w2)" "issues (fw_ext w2) = isu" "fw_tx w2 = None"
        using k1 q Suc.prems(4,5) by simp_all
      show ?thesis
      proof (cases "\<exists>u. r2 = Inr u \<and> xg_next page \<noteq> []")
        case False2: False
        then show ?thesis using Suc.prems(1,8) False l Inr p i w2 by (cases r2) (auto simp: Let_def)
      next
        case True
        then obtain u where u: "r2 = Inr u" "xg_next page \<noteq> []" by blast
        have d2: "due (ap_system (ex_applier X)) isu since (xg_next page) (fw_db w2)" using i u by auto
        obtain m2 s2 res2 where "run_pages E X (ls e) deadline prior since k (xg_next page) m2 s2 res2 (ftick w2) = Some ((err, res'), w')"
            and "\<not> er_done res2"
          using Suc.prems(1,8) False l Inr p u by (auto simp: Let_def)
        from Suc.IH [OF this(1) Suc.prems(2) _ _ _ _ _ this(2)] show ?thesis using w2 i d2 by simp
      qed
    qed
  qed
qed

lemma run_inv:
  assumes "Extractor_Run E X (ls e) k w = Some ((err, res), w')" and "laws e" and "good (fw_ext w)" and "fw_tx w = None"
    and "pull_inv (ap_system (ex_applier X)) (issues (fw_ext w)) (fw_db w)"
  shows "good (fw_ext w') \<and> fw_tx w' = None \<and> issues (fw_ext w') = issues (fw_ext w) \<and>
    pull_inv (ap_system (ex_applier X)) (issues (fw_ext w)) (fw_db w') \<and>
    (er_done res \<longrightarrow> (\<forall>i \<in> set (issues (fw_ext w)). taken (ap_system (ex_applier X)) i (fw_db w')))"
proof -
  let ?s = "ap_system (ex_applier X)" and ?isu = "issues (fw_ext w)"
  obtain r1 w1 where g: "fexec E (fq_GetSyncState ?s) (ftick w) = (r1, w1)" by fastforce
  then have w1: "fw_db w1 = fw_db w" "fw_tx w1 = None" "fw_ext w1 = fw_ext w"
    using assms(4) by (auto simp: fexec_def fq_GetSyncState_def split: fate.splits)
  have r1: "r1 = fst (fq_GetSyncState ?s (fnow E (ftick w)) (fw_db w)) \<or> r1 = Inl FsUnavailable"
    using g assms(4) by (auto simp: fexec_def fq_GetSyncState_def split: fate.splits)
  show ?thesis
  proof (cases "\<exists>st. (case r1 of Inl e \<Rightarrow> if e = FsNoRows then Inr zero_state else Inl e | Inr st \<Rightarrow> Inr st) = (Inr st :: fs_error + sync_state)")
    case False
    then show ?thesis using assms g w1 by (auto simp: Extractor_Run_def Let_def split: sum.splits if_splits)
  next
    case True
    then obtain st where st: "(case r1 of Inl e \<Rightarrow> if e = FsNoRows then Inr zero_state else Inl e | Inr st \<Rightarrow> Inr st) = (Inr st :: fs_error + sync_state)"
      by blast
    have "state_ok ?s ?isu st (fw_db w)"
    proof (cases r1)
      case (Inl e)
      then show ?thesis using st by (auto simp: state_ok_def zero_state_def split: if_splits)
    next
      case (Inr x)
      then have "x \<in> set (f_sync (fw_db w)) \<and> sy_system x = ?s"
        using r1 by (auto simp: fq_GetSyncState_def one_row_find split: option.splits dest: find_SomeD)
      then show ?thesis using assms(5) st Inr by (simp add: pull_inv_def)
    qed
    then have d: "due ?s ?isu (fst (run_start (ex_overlap X) st)) (fst (snd (run_start (ex_overlap X) st))) (fw_db w)"
      using after_zero [OF assms(3)]
      by (auto simp: run_start_def state_ok_def due_def due_from_def seen_start split: if_splits option.splits)
    obtain since c m where s: "run_start (ex_overlap X) st = (since, c, m)" by (metis surj_pair)
    have "run_pages E X (ls e) (ns_of (fnow E w) + ex_budget X) st since k c m 0 \<lparr>er_pages = 0, er_issues = 0, er_done = False\<rparr> w1 = Some ((err, res), w')"
      using assms(1) g st s by (simp add: Extractor_Run_def Let_def)
    from run_pages_inv [OF this assms(2)] show ?thesis using w1 assms(3,5) d s by simp
  qed
qed

end

subsection \<open>The client and the tracker are such a source\<close>

text \<open>A time that can be read back is the time that was written; nothing else is asked of the time format.\<close>

definition wire_laws :: "fenv \<Rightarrow> fenv \<Rightarrow> bool" where
  "wire_laws E' E \<longleftrightarrow> fe_time E = fe_time E' \<and> fe_parse_time E = fe_parse_time E' \<and>
     (\<forall>t. fe_time E' t \<noteq> [] \<and> ascii (fe_time E' t) \<and> fe_parse_time E' (fe_time E' t) \<in> {None, Some t})"

text \<open>Every page fits in what the client reads of an answer.\<close>

definition answers_fit :: "fenv \<Rightarrow> mockjira \<Rightarrow> bool" where
  "answers_fit E s \<longleftrightarrow> (\<forall>since c n p. mj_List since c n s = Some p \<longrightarrow> length (render (page_json E p)) < bodyLimit)"

definition tracker_ok :: "fenv \<Rightarrow> mockjira \<Rightarrow> bool" where
  "tracker_ok E s \<longleftrightarrow> mj_ok s \<and> tracker_faults s \<and> answers_fit E s \<and>
     (\<forall>i \<in> set (mj_issues s). ascii (xi_summary i) \<and> ascii (xi_status i) \<and> ascii (xi_description i))"

definition cursor_past :: "string \<Rightarrow> issue \<Rightarrow> bool" where
  "cursor_past c i \<longleftrightarrow> c \<noteq> [] \<and> (case decodeCursor c of None \<Rightarrow> False | Some pos \<Rightarrow> position i \<le> pos)"

lemma mj_List_covers:
  assumes "mj_ok s" and "mj_List since c n s = Some p" and "i \<in> set (mj_issues s)" and "since \<le> xi_updated i" and "\<not> cursor_past c i"
  shows "i \<in> set (xg_issues p) \<or> (xg_next p \<noteq> [] \<and> \<not> cursor_past (xg_next p) i)"
proof -
  obtain start where start: "decodeCursor c = Some start" using assms(2) by (auto simp: mj_List_def split: option.splits)
  define m where "m = sort_key position (filter (\<lambda>i. \<not> xi_updated i < since \<and> (c \<noteq> [] \<longrightarrow> start < position i)) (mj_issues s))"
  have i: "i \<in> set m" using assms(3-5) start by (auto simp: m_def cursor_past_def)
  have p: "p = (if n > 0 \<and> int (length m) > n then \<lparr>xg_issues = take (nat n) m, xg_next = encodeCursor (m ! (nat n - 1))\<rparr>
      else \<lparr>xg_issues = m, xg_next = []\<rparr>)"
    using assms(2) by (simp add: mj_List_def start m_def [symmetric] Let_def split: if_splits)
  show ?thesis
  proof (cases "n > 0 \<and> int (length m) > n")
    case False then show ?thesis using i unfolding p by auto
  next
    case True
    let ?k = "nat n - 1"
    have k: "?k < length m" using True by linarith
    have mem: "m ! ?k \<in> set (mj_issues s)" using nth_mem [OF k] by (simp add: m_def)
    then have d: "decodeCursor (encodeCursor (m ! ?k)) = Some (position (m ! ?k))"
      using assms(1) by (simp add: mj_ok_def decode_encodeCursor)
    show ?thesis
    proof (cases "i \<in> set (take (nat n) m)")
      case in_page: True then show ?thesis using True unfolding p by simp
    next
      case False
      obtain j where j: "j < length m" "m ! j = i" using i by (auto simp: in_set_conv_nth)
      then have ge: "nat n \<le> j" using False by (auto simp: in_set_conv_nth) (metis not_le nth_take length_take min_less_iff_conj)
      have "sorted (map position m)" by (simp add: m_def)
      moreover have "?k < j" using ge True by linarith
      ultimately have "position (m ! ?k) \<le> position i" using j sorted_nth_mono [of "map position m" ?k j] by simp
      moreover have "position (m ! ?k) \<noteq> position i"
      proof
        assume "position (m ! ?k) = position i"
        then have "m ! ?k = m ! j" using position_inj [OF assms(1)] mem assms(3) j(2) by (auto dest: inj_onD)
        moreover have "distinct m" using assms(1) by (auto simp: m_def mj_ok_def distinct_map)
        ultimately show False using nth_eq_iff_index_eq [of m ?k j] k j(1) \<open>?k < j\<close> by simp
      qed
      ultimately show ?thesis using True d encodeCursor_nonempty unfolding p by (simp add: cursor_past_def not_le)
    qed
  qed
qed

lemma mj_List_parts: "mj_List since c n s = Some p \<Longrightarrow> set (xg_issues p) \<subseteq> set (mj_issues s) \<and> (xg_next p = [] \<or> (\<exists>i. xg_next p = encodeCursor i))"
  by (auto simp: mj_List_def Let_def split: option.splits if_splits dest!: in_set_takeD)

text \<open>On the wire.\<close>

lemma parse_show_range: "parse_int 64 (show_int n) = (if - (2 ^ 63) \<le> n \<and> n < 2 ^ 63 then Some n else None)"
  using show_nat_word hd_show_nat by (auto simp: parse_int_def show_int_def Let_def)

lemma Unmarshal_line: "plain_json v \<Longrightarrow> Unmarshal (render v @ [byte 10]) = Some v"
proof -
  assume v: "plain_json v"
  have d: "delimited [byte 10]" and sp: "is_space (byte 10)" by code_simp+
  have "scan (Some (Reading Between [] Value)) (render v @ [byte 10]) = Some (v, [byte 10])"
    using scan_value [OF v d, of Value "[]"] by simp
  then show ?thesis using sp by (simp add: Unmarshal_def)
qed

lemma ascii_cursor: "ascii (encodeCursor i)"
proof -
  have "\<forall>c \<in> set alphabet. of_char c < (128 :: nat)" by code_simp
  then show ?thesis using EncodeToString_chars by (auto simp: ascii_def encodeCursor_def list_all_iff)
qed

lemma plain_page:
  assumes "tracker_ok E' s" and "wire_laws E' E" and "mj_List since c n s = Some p"
  shows "plain_json (page_json E' p)"
proof -
  have i: "plain_json (issue_json E' i)" if "i \<in> set (xg_issues p)" for i
    using that mj_List_parts [OF assms(3)] assms(1,2)
    by (auto simp: issue_json_def tracker_ok_def mj_ok_def fits_def wire_laws_def number_show_int show_int_word ascii_simps)
  have "ascii (xg_next p)" using mj_List_parts [OF assms(3)] ascii_cursor by (auto simp: ascii_simps)
  then show ?thesis using i by (auto simp: page_json_def list_all_iff ascii_simps)
qed

lemma issue_from_json:
  assumes "wire_laws E' E" and "issue_into E cur (issue_json E' i) = (i', True)"
  shows "i' = i"
proof -
  have "fe_parse_time E (fe_time E' (xi_updated i)) \<in> {None, Some (xi_updated i)}" using assms(1) by (simp add: wire_laws_def)
  then show ?thesis using assms(2)
    by (cases i) (auto simp: issue_json_def assigned_def names_field_def issue_fields_def fold_letter_def byte_def parse_show_range
        Let_def split: if_splits option.splits)
qed

lemma page_from_json:
  assumes "wire_laws E' E" and "page_into E cur (page_json E' p) = (p', True)"
  shows "p' = p"
proof -
  have "map (\<lambda>v. fst (issue_into E zero_issue v)) (map (issue_json E') is) = is"
    if "list_all (\<lambda>v. snd (issue_into E zero_issue v)) (map (issue_json E') is)" for "is"
    using that
  proof (induction "is")
    case Nil then show ?case by simp
  next
    case (Cons i "is")
    obtain i' ok where r: "issue_into E zero_issue (issue_json E' i) = (i', ok)" by fastforce
    then have "i' = i" using issue_from_json [OF assms(1)] Cons.prems by simp
    then show ?case using Cons r by simp
  qed
  then show ?thesis using assms(2)
    by (cases p) (auto simp: page_json_def assigned_def names_field_def fold_letter_def byte_def Let_def)
qed

lemma once_list:
  assumes o: "once E ctx (mj_Handler E' J R) (page_into E) (list_request E since c n) out w = ((err, out'), w')"
    and ok: "tracker_ok E' (fst (fw_ext w))" and wl: "wire_laws E' E"
  shows "tracker_ok E' (fst (fw_ext w')) \<and> mj_issues (fst (fw_ext w')) = mj_issues (fst (fw_ext w)) \<and>
    (err = None \<longrightarrow> (\<exists>lim. mj_List since c lim (fst (fw_ext w)) = Some out'))"
proof -
  let ?q = "list_request E since c n" and ?s = "fst (fw_ext w)"
  have h: "mj_Handler E' J R sr ?q = (case mj_rest (\<lambda>s. (handleList E' ?q s, s)) (fst sr) of (resp, s') \<Rightarrow> (resp, (s', snd sr)))" for sr
    by (simp add: mj_Handler_def list_request_def on_issues_def Let_def split: prod.split)
  have List_same: "mj_List a b l (s\<lparr>mj_faults := fs\<rparr>) = mj_List a b l s" for a b l s fs
    by (simp add: mj_List_def split: option.split)
  show ?thesis
  proof (cases "mj_faults ?s")
    case (Cons f fs)
    have "tracker_ok E' (?s\<lparr>mj_faults := fs\<rparr>)" using ok Cons
      by (simp add: tracker_ok_def mj_ok_def tracker_faults_def answers_fit_def List_same)
    moreover have "400 \<le> fst f" using ok Cons by (simp add: tracker_ok_def tracker_faults_def)
    ultimately show ?thesis using o ok Cons h [of "fw_ext w"]
      by (auto simp: once_def answer_def mj_rest_def http_text_def Let_def split: if_splits fate.splits prod.splits)
  next
    case Nil
    have k: "query_get ''cursor'' ?q = c" by (auto simp: query_get_def list_request_def split: if_splits)
    have u: "query_get ''updated_since'' ?q = (if since \<noteq> fs_zero_time then fe_time E since else [])"
      by (auto simp: query_get_def list_request_def split: if_splits)
    have t: "(if query_get ''updated_since'' ?q \<noteq> [] then fe_parse_time E' (query_get ''updated_since'' ?q) else Some fs_zero_time) \<in> {None, Some since}"
      using wl by (auto simp: u wire_laws_def)
    have resp: "mj_Handler E' J R (fw_ext w) ?q = (handleList E' ?q ?s, fw_ext w)" using h Nil by (simp add: mj_rest_def)
    have page: "\<exists>lim. mj_List since c lim ?s = Some out'" if "answer (page_into E) out (handleList E' ?q ?s) = (None, out')"
    proof -
      let ?r = "mj_List since c (atoi_value (query_get ''limit'' ?q)) ?s"
      have "?r \<noteq> None \<and> handleList E' ?q ?s = http_json 200 (page_json E' (the ?r))"
        using that t by (auto simp: handleList_def k answer_def http_text_def Let_def split: option.splits if_splits)
      then obtain p where p: "?r = Some p" "handleList E' ?q ?s = http_json 200 (page_json E' p)" by auto
      have "length (render (page_json E' p)) < bodyLimit" using ok p(1) by (auto simp: tracker_ok_def answers_fit_def)
      then have "take bodyLimit (hr_body (http_json 200 (page_json E' p))) = render (page_json E' p) @ [byte 10]"
        by (simp add: http_json_def)
      then have "page_into E out (page_json E' p) = (out', True)"
        using that p(2) Unmarshal_line [OF plain_page [OF ok wl p(1)]]
        by (auto simp: answer_def decode_body_def http_json_def Let_def split: prod.splits if_splits)
      then show ?thesis using page_from_json [OF wl] p(1) by auto
    qed
    then show ?thesis using o ok resp by (auto simp: once_def split: if_splits fate.splits)
  qed
qed

lemma attempts_list:
  "attempts E ctx fl (mj_Handler E' J R) pol (page_into E) (list_request E since c n) k a out l w = (r, w') \<Longrightarrow>
     tracker_ok E' (fst (fw_ext w)) \<Longrightarrow> wire_laws E' E \<Longrightarrow>
     tracker_ok E' (fst (fw_ext w')) \<and> mj_issues (fst (fw_ext w')) = mj_issues (fst (fw_ext w)) \<and>
     fw_db w' = fw_db w \<and> fw_tx w' = fw_tx w \<and>
     (\<forall>p. r = Inr p \<longrightarrow> (\<exists>lim s. mj_issues s = mj_issues (fst (fw_ext w)) \<and> mj_List since c lim s = Some p))"
proof (induction k arbitrary: a out l w)
  case 0 then show ?case by auto
next
  case (Suc k)
  obtain err out1 w1 where o: "once E ctx (mj_Handler E' J R) (page_into E) (list_request E since c n) out w = ((err, out1), w1)"
    by (metis surj_pair)
  note s = once_list [OF o Suc.prems(2,3)] once_step [OF o]
  consider (stop) "w' = w1 \<or> w' = ftick w1" "case err of None \<Rightarrow> r = Inr out1 | Some e \<Rightarrow> \<exists>e. r = Inl e"
    | (again) e where "attempts E ctx fl (mj_Handler E' J R) pol (page_into E) (list_request E since c n) k (Suc a) out1 (Some e) (ftick w1) = (r, w')"
    using Suc.prems(1) o by (auto simp: sleepContext_def split: option.splits if_splits)
  then show ?case
  proof cases
    case stop then show ?thesis using s by (cases err) auto
  next
    case again
    from Suc.IH [OF this _ Suc.prems(3)] s show ?thesis by auto
  qed
qed

text \<open>\<open>e\<close> is what differs from run to run: the environment, when the context is cancelled, the rounding.\<close>

interpretation tracker: issue_source
  "\<lambda>(E, ctx, fl). client_List E ctx fl (mj_Handler E' J R) pol" "\<lambda>(E, ctx, fl). wire_laws E' E"
  "\<lambda>sr. tracker_ok E' (fst sr)" "\<lambda>sr. mj_issues (fst sr)" cursor_past
  for E' J R pol
proof (unfold_locales, goal_cases)
  case (1 e since c n w r w')
  then show ?case
    by (cases e) (auto simp: client_List_def client_do_def dest: attempts_list)
next
  case (2 e since c n w p w' i)
  obtain E ctx fl where e: "e = (E, ctx, fl)" by (cases e)
  have r: "attempts E ctx fl (mj_Handler E' J R) pol (page_into E) (list_request E since c n) (nat (rp_attempts pol)) 1 \<lparr>xg_issues = [], xg_next = []\<rparr> None w = (Inr p, w')"
    using 2(2) by (simp add: e client_List_def client_do_def)
  obtain lim s where s: "mj_issues s = mj_issues (fst (fw_ext w))" "mj_List since c lim s = Some p"
    using attempts_list [OF r 2(3)] 2(1) e by auto
  have "mj_ok s" using 2(3) s(1) by (simp add: tracker_ok_def mj_ok_def)
  then show ?case using mj_List_covers [OF _ s(2), of i] 2(4-6) s(1) by simp
next
  case (3 i) then show ?case by (simp add: cursor_past_def)
next
  case (4 x i)
  then have "- (2 ^ 63) \<le> xi_updated i" by (auto simp: tracker_ok_def mj_ok_def fits_def)
  then show ?case by (simp add: fs_zero_time_def)
qed

text \<open>
  What may happen between two looks at the tracker: runs of any extractors of the system, ended in any way, and
  issues applied from elsewhere.
\<close>

inductive pulls :: "fenv \<Rightarrow> mj_options \<Rightarrow> 'r receiver \<Rightarrow> retry_policy \<Rightarrow> string \<Rightarrow> (mockjira \<times> 'r) fworld \<Rightarrow> (mockjira \<times> 'r) fworld \<Rightarrow> bool"
  for E' J R pol system w
  where
  start: "pulls E' J R pol system w w"
| run: "pulls E' J R pol system w w1 \<Longrightarrow> wire_laws E' E \<Longrightarrow> ap_system (ex_applier X) = system \<Longrightarrow>
    Extractor_Run E X (client_List E ctx fl (mj_Handler E' J R) pol) k w1 = Some (res, w2) \<Longrightarrow> pulls E' J R pol system w w2"
| apply_issue: "pulls E' J R pol system w w1 \<Longrightarrow> InTx E (Apply E A src i) w1 = (r, w2) \<Longrightarrow> pulls E' J R pol system w w2"

lemma pulls_inv:
  assumes "pulls E' J R pol system w w1" and "tracker_ok E' (fst (fw_ext w))" and "fw_tx w = None"
    and "tracker.pull_inv system (mj_issues (fst (fw_ext w))) (fw_db w)"
  shows "tracker_ok E' (fst (fw_ext w1)) \<and> fw_tx w1 = None \<and> mj_issues (fst (fw_ext w1)) = mj_issues (fst (fw_ext w)) \<and>
    tracker.pull_inv system (mj_issues (fst (fw_ext w))) (fw_db w1)"
  using assms
proof (induction rule: pulls.induct)
  case start then show ?case by simp
next
  case (run w1 E X ctx fl k res w2)
  obtain err r where res: "res = (err, r)" by fastforce
  show ?case
    using tracker.run_inv [where e = "(E, ctx, fl)" and E' = E' and J = J and R = R and pol = pol, of E X k w1 err r w2] run res by simp
next
  case (apply_issue w1 E A src i r w2)
  have "tracker.pull_inv system (mj_issues (fst (fw_ext w))) (fw_db w2)"
    by (rule Apply_commits [OF apply_issue(2)]) (use apply_issue tracker.pull_inv_applies in auto)
  moreover have "fw_ext w2 = fw_ext w1" "fw_tx w2 = None"
    using in_tx_InTx(1,2) [OF Apply_ok [unfolded ok_tx_def] apply_issue(2)] apply_issue by auto
  ultimately show ?case using apply_issue by simp
qed

text \<open>
  C13: The incremental pull misses nothing. While the tracker's issues stand still, after any number of runs that
  failed, lost the answer to a commit or ran out of budget anywhere, mixed with issues applied from
  webhooks, once a run reports that it is done every issue of the tracker has been taken in at its
  version or a later one.
\<close>

theorem pull_misses_nothing:
  assumes "tracker_ok E' (fst (fw_ext w))" and "tw_ok (fw_db w)" and "fw_tx w = None" and "system \<notin> sy_system ` set (f_sync (fw_db w))"
    and "pulls E' J R pol system w w1" and "wire_laws E' E" and "ap_system (ex_applier X) = system"
    and "Extractor_Run E X (client_List E ctx fl (mj_Handler E' J R) pol) k w1 = Some ((err, res), w2)" and "er_done res"
  shows "\<forall>i \<in> set (mj_issues (fst (fw_ext w))). \<exists>l. link_at system (xi_id i) (fw_db w2) = Some l \<and> xi_version i \<le> lk_version l"
proof -
  have "tracker.pull_inv system (mj_issues (fst (fw_ext w))) (fw_db w)"
    using assms(2,4) by (auto simp: tracker.pull_inv_def)
  from pulls_inv [OF assms(5,1,3) this] assms(6-9) show ?thesis
    using tracker.run_inv [where e = "(E, ctx, fl)" and E' = E' and J = J and R = R and pol = pol, of E X k w1 err res w2]
    by (auto simp: taken_def)
qed

subsection \<open>Concrete runs\<close>

definition fs_world :: "'x \<Rightarrow> 'x fworld" where
  "fs_world x = \<lparr>fw_db = empty_fdb, fw_tx = None, fw_ext = x, fw_bus = [], fw_calls = 0\<rparr>"

definition busy_server :: "unit remote" where
  "busy_server = (\<lambda>x q. (\<lparr>hr_status = 503, hr_retry = ''1'', hr_body = []\<rparr>, x))"

theorem client_call_bounded_witness:
  "let w' = snd (client_do (fs_env (\<lambda>_. Done)) (\<lambda>_. False) (\<lambda>x. x) (counted busy_server) (DefaultRetryPolicy\<lparr>rp_attempts := 3\<rparr>)
       (\<lambda>out v. (out, True)) (patch_request ''MJ-1'' \<lparr>xp_summary = None, xp_status = None, xp_description = Some ''n''\<rparr> ''e1'') () (fs_world ((), 0)))
   in snd (fw_ext w') \<le> 3 \<and> fw_db w' = empty_fdb"
  using client_call_bounded [OF prod.collapse [symmetric], of "fs_env (\<lambda>_. Done)" "\<lambda>_. False" "\<lambda>x. x" busy_server
      "DefaultRetryPolicy\<lparr>rp_attempts := 3\<rparr>" "\<lambda>out v. (out, True)"
      "patch_request ''MJ-1'' \<lparr>xp_summary = None, xp_status = None, xp_description = Some ''n''\<rparr> ''e1''" "()" "fs_world ((), 0)"]
  unfolding Let_def by (simp add: fs_world_def)

theorem backoff_bounded_witness:
  "0 \<le> delay (\<lambda>x. x) DefaultRetryPolicy (1 / 2) 3 FsUnavailable \<and> delay (\<lambda>x. x) DefaultRetryPolicy (1 / 2) 3 FsUnavailable \<le> 800000000"
  using backoff_bounded [OF exact_rounding, of "1 / 2" DefaultRetryPolicy FsUnavailable 3]
  by (simp add: DefaultRetryPolicy_def server_delay_def go_second_def)

definition two_issues :: mockjira where
  "two_issues = mj_New\<lparr>mj_issues := [leak 2 ''b'' ''n'', (leak 1 ''a'' ''n'')\<lparr>xi_id := ''MJ-2''\<rparr>], mj_pending := [(''dlv-1'', ''b'')]\<rparr>"

lemma two_issues_ok: "mj_ok two_issues" "tracker_faults two_issues"
  by (simp_all add: mj_ok_def two_issues_def mj_New_def fits_def leak_def ascii_simps tracker_faults_def)

theorem pages_list_every_issue_witness:
  "follow_pages 0 1 two_issues 3 [] = Some (wanted 0 two_issues) \<and> length (wanted 0 two_issues) = 2"
proof -
  have "follow_pages 0 1 two_issues (Suc (length (mj_issues two_issues))) [] = Some (wanted 0 two_issues)"
    using pages_list_every_issue [OF two_issues_ok(1), of 1 0] by simp
  moreover have "Suc (length (mj_issues two_issues)) = 3" by (simp add: two_issues_def)
  moreover have "length (wanted 0 two_issues) = 2" by (simp add: wanted_def two_issues_def leak_def)
  ultimately show ?thesis by simp
qed

definition notes_patch :: issue_patch where
  "notes_patch = \<lparr>xp_summary = None, xp_status = None, xp_description = Some ''fixed''\<rparr>"

definition wall_clock :: mj_options where "wall_clock = \<lparr>mo_now = (\<lambda>_. 0), mo_secret = ''k''\<rparr>"


definition steady_env :: fenv where
  "steady_env = (fs_env (\<lambda>_. Done))\<lparr>fe_clock := (\<lambda>_. 0), fe_parse_time := parse_seconds\<rparr>"


definition jira_pull :: extractor where
  "jira_pull = \<lparr>ex_applier = jira, ex_budget = 5000, ex_overlap = 0, ex_page = 10\<rparr>"

theorem extractor_returns_witness:
  "\<exists>r. Extractor_Run (fs_env (\<lambda>_. Done)) jira_pull (\<lambda>since c n. fret \<lparr>xg_issues = [], xg_next = ''more''\<rparr>) 6 fs_start = Some r"
proof -
  have "\<forall>n \<ge> 5. ns_of (fnow (fs_env (\<lambda>_. Done)) fs_start) + ex_budget jira_pull \<le> ns_of (fe_clock (fs_env (\<lambda>_. Done)) n)"
    by (simp add: ns_of_def fnow_def fs_env_def jira_pull_def fs_start_def)
  from extractor_returns [OF rise_fret this, of "\<lambda>since c n. \<lparr>xg_issues = [], xg_next = ''more''\<rparr>"]
  show ?thesis by simp
qed

definition one_issue :: mockjira where
  "one_issue = mj_New\<lparr>mj_issues := [leak 1 ''x'' ''n'']\<rparr>"

lemma one_issue_ok: "tracker_ok steady_env one_issue"
proof -
  have "length (render (page_json steady_env \<lparr>xg_issues = [leak 1 ''x'' ''n''], xg_next = []\<rparr>)) < 200"
    "length (render (page_json steady_env \<lparr>xg_issues = [], xg_next = []\<rparr>)) < 200"
    by code_simp+
  then have "length (render (page_json steady_env \<lparr>xg_issues = [leak 1 ''x'' ''n''], xg_next = []\<rparr>)) < bodyLimit"
    "length (render (page_json steady_env \<lparr>xg_issues = [], xg_next = []\<rparr>)) < bodyLimit"
    by (simp_all add: bodyLimit_def del: render.simps)
  moreover have "p = \<lparr>xg_issues = [leak 1 ''x'' ''n''], xg_next = []\<rparr> \<or> p = \<lparr>xg_issues = [], xg_next = []\<rparr>"
    if "mj_List since c n one_issue = Some p" for since c n p
    using that by (auto simp: mj_List_def one_issue_def Let_def split: option.splits if_splits)
  ultimately have "answers_fit steady_env one_issue" by (auto simp: answers_fit_def)
  then show ?thesis
    by (simp add: tracker_ok_def one_issue_def mj_New_def mj_ok_def fits_def leak_def ascii_simps tracker_faults_def)
qed

lemma steady_wire: "wire_laws steady_env steady_env"
proof -
  have "parse_seconds (show_int t) \<in> {None, Some t}" for t
    using show_int_chars [of "hd (show_int t)" t] show_int_nonempty [of t]
    by (cases "show_int t") (auto simp: parse_seconds_def is_digit_def parse_show_range dest: sym split: if_splits)
  moreover have "ascii (show_int t)" for t
  proof -
    have "of_char c < (128 :: nat)" if "c \<in> set (show_int t)" for c
      using show_int_chars [OF that] by (auto simp: is_digit_def)
    then show ?thesis by (simp add: ascii_def list_all_iff)
  qed
  ultimately show ?thesis by (simp add: wire_laws_def steady_env_def fs_env_def show_int_nonempty)
qed

definition one_page :: issue_page where
  "one_page = \<lparr>xg_issues = [leak 1 ''x'' ''n''], xg_next = []\<rparr>"

definition quiet :: "unit receiver" where "quiet r q = (None, r)"

lemma page_read: "page_into steady_env out (page_json steady_env one_page) = (one_page, True)"
  by (simp add: page_json_def one_page_def issue_json_def assigned_def names_field_def issue_fields_def fold_letter_def byte_def leak_def
      steady_env_def fs_env_def zero_issue_def Let_def parse_show_range parse_seconds_show)

lemma list_once:
  "client_List steady_env (\<lambda>_. False) (\<lambda>x. x) (mj_Handler steady_env wall_clock quiet) (DefaultRetryPolicy\<lparr>rp_attempts := 1\<rparr>) fs_zero_time [] 10 w
    = (Inr one_page, ftick w)" if "fw_ext w = (one_issue, ())"
proof -
  have m: "mj_List fs_zero_time [] n one_issue = Some one_page" for n
    by (simp add: mj_List_def decodeCursor_def one_issue_def one_page_def leak_def fs_zero_time_def Let_def)
  have "handleList steady_env (list_request steady_env fs_zero_time [] 10) one_issue = http_json 200 (page_json steady_env one_page)"
    by (simp add: handleList_def list_request_def query_get_def m)
  then have h: "mj_Handler steady_env wall_clock quiet (one_issue, ()) (list_request steady_env fs_zero_time [] 10) =
      (http_json 200 (page_json steady_env one_page), (one_issue, ()))"
    by (simp add: mj_Handler_def list_request_def on_issues_def mj_rest_def one_issue_def mj_New_def)
  have "plain_json (page_json steady_env one_page)"
    by (rule plain_page [OF one_issue_ok steady_wire m])
  moreover have "length (render (page_json steady_env one_page)) < bodyLimit"
    using one_issue_ok m unfolding tracker_ok_def answers_fit_def by blast
  ultimately have "answer (page_into steady_env) out (http_json 200 (page_json steady_env one_page)) = (None, one_page)" for out
    by (simp add: answer_def decode_body_def http_json_def Unmarshal_line page_read del: render.simps)
  then show ?thesis using that h
    by (simp add: client_List_def client_do_def DefaultRetryPolicy_def once_def steady_env_def [unfolded fs_env_def] ftick_def)
qed

definition tracker_world :: "(mockjira \<times> unit) fworld" where
  "tracker_world = fs_world (one_issue, ())"

lemma pull_runs:
  "\<exists>w2. Extractor_Run steady_env jira_pull (client_List steady_env (\<lambda>_. False) (\<lambda>x. x) (mj_Handler steady_env wall_clock quiet)
      (DefaultRetryPolicy\<lparr>rp_attempts := 1\<rparr>)) 1 tracker_world = Some ((None, \<lparr>er_pages = 1, er_issues = 1, er_done = True\<rparr>), w2)"
proof -
  let ?w1 = "tracker_world\<lparr>fw_calls := 5\<rparr>"
  obtain w2 where "apply_page steady_env jira_pull zero_state fs_zero_time one_page (Some 1000) ?w1 = (Inr (), w2)"
    by (simp add: apply_page_def checkpoint_def fq_UpsertSyncState_def tracker_world_def fs_world_def jira_pull_def one_page_def
        steady_env_def fs_env_def tw_model cong: tw_cong)
  then have p: "apply_page steady_env jira_pull zero_state fs_zero_time one_page (run_max None (xg_issues one_page)) ?w1 = (Inr (), w2)"
    by (simp add: run_max_def one_page_def leak_def)
  let ?ls = "client_List steady_env (\<lambda>_. False) (\<lambda>x. x) (mj_Handler steady_env wall_clock quiet) (DefaultRetryPolicy\<lparr>rp_attempts := 1\<rparr>)"
  have g: "fexec steady_env (fq_GetSyncState (ap_system (ex_applier jira_pull))) (ftick tracker_world) = (Inl FsNoRows, tracker_world\<lparr>fw_calls := 2\<rparr>)"
    by (simp add: fexec_def fq_GetSyncState_def one_row_def tracker_world_def fs_world_def empty_fdb_def steady_env_def fs_env_def ftick_def)
  have l: "?ls fs_zero_time [] (ex_page jira_pull) (ftick (ftick (tracker_world\<lparr>fw_calls := 2\<rparr>))) = (Inr one_page, ?w1)"
    using list_once [of "ftick (ftick (tracker_world\<lparr>fw_calls := 2\<rparr>))"]
    by (simp add: jira_pull_def ftick_def tracker_world_def fs_world_def)
  have t: "fnow steady_env w = 0" for w :: "(mockjira \<times> unit) fworld" by (simp add: fnow_def steady_env_def)
  have "run_pages steady_env jira_pull ?ls 5000 zero_state fs_zero_time (Suc 0) [] None 0 \<lparr>er_pages = 0, er_issues = 0, er_done = False\<rparr>
      (tracker_world\<lparr>fw_calls := 2\<rparr>) = Some ((None, \<lparr>er_pages = 1, er_issues = 1, er_done = True\<rparr>), w2)"
    using p l by (simp add: t ns_of_def Let_def one_page_def)
  then show ?thesis
    using g by (simp add: Extractor_Run_def t ns_of_def run_start_def zero_state_def jira_pull_def Let_def del: run_pages.simps)
qed

theorem pull_misses_nothing_witness:
  "let w2 = snd (the (Extractor_Run steady_env jira_pull (client_List steady_env (\<lambda>_. False) (\<lambda>x. x) (mj_Handler steady_env wall_clock quiet)
      (DefaultRetryPolicy\<lparr>rp_attempts := 1\<rparr>)) 1 tracker_world))
   in \<exists>l. link_at ''jira'' ''MJ-1'' (fw_db w2) = Some l \<and> 1 \<le> lk_version l"
proof -
  obtain w2 where r: "Extractor_Run steady_env jira_pull (client_List steady_env (\<lambda>_. False) (\<lambda>x. x) (mj_Handler steady_env wall_clock quiet)
      (DefaultRetryPolicy\<lparr>rp_attempts := 1\<rparr>)) 1 tracker_world = Some ((None, \<lparr>er_pages = 1, er_issues = 1, er_done = True\<rparr>), w2)"
    using pull_runs by blast
  have w: "tracker_ok steady_env (fst (fw_ext tracker_world))" "tw_ok (fw_db tracker_world)" "fw_tx tracker_world = None"
    "''jira'' \<notin> sy_system ` set (f_sync (fw_db tracker_world))"
    using one_issue_ok by (simp_all add: tracker_world_def fs_world_def tw_ok_def empty_fdb_def)
  have s: "ap_system (ex_applier jira_pull) = ''jira''" by (simp add: jira_pull_def jira_def)
  have "\<forall>i \<in> set (mj_issues (fst (fw_ext tracker_world))). \<exists>l. link_at ''jira'' (xi_id i) (fw_db w2) = Some l \<and> xi_version i \<le> lk_version l"
    by (rule pull_misses_nothing [OF w pulls.start steady_wire s r]) simp
  then have "\<exists>l. link_at ''jira'' ''MJ-1'' (fw_db w2) = Some l \<and> 1 \<le> lk_version l"
    by (simp add: tracker_world_def fs_world_def one_issue_def leak_def)
  then show ?thesis unfolding r by simp
qed

end
