(* ===== verification/Payment.thy ===== *)
theory Payment
  imports Schema Complex_Main
begin

section \<open>internal/payment: the provider interface and the fake provider\<close>

text \<open>
  \<open>Provider\<close> (\<open>Charge\<close>, \<open>Refund\<close>), the reconciler's \<open>StatusOf\<close>, and \<open>FakeProvider\<close> with its
  injected failures, from \<open>internal/payment/payment.go\<close>. A provider is a record of its
  methods over a state of its own; a method is told the number of the call, which is what its
  randomness or the network may depend on. What the saga and the reconciler may rely on is
  the locale \<open>payment_provider\<close>.
\<close>

subsection \<open>The interface\<close>

datatype charge_status = StatusCaptured | StatusFailed | StatusUnknown

record charge_result =
  cr_ref :: string
  cr_status :: charge_status

record 'p provider =
  pv_charge :: "nat \<Rightarrow> string \<Rightarrow> int \<Rightarrow> 'p \<Rightarrow> (error + charge_result) \<times> 'p"
  pv_refund :: "nat \<Rightarrow> string \<Rightarrow> int \<Rightarrow> 'p \<Rightarrow> (error + string) \<times> 'p"
  pv_status :: "string \<Rightarrow> 'p \<Rightarrow> charge_status"

text \<open>\<open>string(result.Status)\<close>, as it is stored in \<open>payments.status\<close>.\<close>

fun stored_status :: "charge_status \<Rightarrow> pay_status" where
  "stored_status StatusCaptured = PayCaptured"
| "stored_status StatusFailed = PayFailed"
| "stored_status StatusUnknown = PayUnknown"

definition call_charge ::
    "'p provider \<Rightarrow> string \<Rightarrow> int \<Rightarrow> ('l, 'p) world \<Rightarrow> (error + charge_result) \<times> ('l, 'p) world" where
  "call_charge P k amount w =
     (case pv_charge P (w_calls w) k amount (w_pay w) of (r, p) \<Rightarrow> (r, (tick w)\<lparr>w_pay := p\<rparr>))"

definition call_refund ::
    "'p provider \<Rightarrow> string \<Rightarrow> int \<Rightarrow> ('l, 'p) world \<Rightarrow> (error + string) \<times> ('l, 'p) world" where
  "call_refund P ref amount w =
     (case pv_refund P (w_calls w) ref amount (w_pay w) of (r, p) \<Rightarrow> (r, (tick w)\<lparr>w_pay := p\<rparr>))"

lemma call_charge_frame [frame_simps]: "call_charge P k a w = (r, w') \<Longrightarrow> w_db w' = w_db w \<and> w_lock w' = w_lock w"
  by (auto simp: call_charge_def split: prod.splits)

lemma call_refund_frame [frame_simps]: "call_refund P k a w = (r, w') \<Longrightarrow> w_db w' = w_db w \<and> w_lock w' = w_lock w"
  by (auto simp: call_refund_def split: prod.splits)

subsection \<open>FakeProvider\<close>

text \<open>
  Rates and rolls are \<open>float64\<close> values, which are rationals; a roll divides a random integer
  below \<open>2 ^ 53\<close> by \<open>2 ^ 53\<close>, which is exact. \<open>draw n i\<close> is the i-th random integer of call n.
\<close>

record fake_provider =
  FailRate :: rat
  TimeoutRate :: rat
  AmbiguousRate :: rat
  captured :: "string \<Rightarrow> bool"

definition NewFakeProvider :: fake_provider where
  "NewFakeProvider = \<lparr>FailRate = 0, TimeoutRate = 0, AmbiguousRate = 0, captured = (\<lambda>_. False)\<rparr>"

definition roll :: "int \<Rightarrow> rat" where
  "roll d = of_int (d mod 2 ^ 53) / 2 ^ 53"

definition fake_ref :: "string \<Rightarrow> string" where
  "fake_ref k = ''fake_'' @ k"

definition Charge ::
    "(nat \<Rightarrow> nat \<Rightarrow> int) \<Rightarrow> nat \<Rightarrow> string \<Rightarrow> int \<Rightarrow> fake_provider \<Rightarrow> (error + charge_result) \<times> fake_provider" where
  "Charge draw n k amount p =
     (if captured p k then (Inr \<lparr>cr_ref = fake_ref k, cr_status = StatusCaptured\<rparr>, p)
      else if roll (draw n 0) < FailRate p then (Inr \<lparr>cr_ref = [], cr_status = StatusFailed\<rparr>, p)
      else if roll (draw n 1) < AmbiguousRate p then
        (Inr \<lparr>cr_ref = fake_ref k, cr_status = StatusUnknown\<rparr>, p\<lparr>captured := (captured p)(k := True)\<rparr>)
      else if roll (draw n 2) < TimeoutRate p then (Inr \<lparr>cr_ref = [], cr_status = StatusUnknown\<rparr>, p)
      else (Inr \<lparr>cr_ref = fake_ref k, cr_status = StatusCaptured\<rparr>, p\<lparr>captured := (captured p)(k := True)\<rparr>))"

definition Refund :: "nat \<Rightarrow> string \<Rightarrow> int \<Rightarrow> fake_provider \<Rightarrow> (error + string) \<times> fake_provider" where
  "Refund n ref amount p = (Inr (''refund_'' @ ref), p)"

definition StatusOf :: "string \<Rightarrow> fake_provider \<Rightarrow> charge_status" where
  "StatusOf k p = (if captured p k then StatusCaptured else StatusFailed)"

definition fake :: "(nat \<Rightarrow> nat \<Rightarrow> int) \<Rightarrow> fake_provider provider" where
  "fake draw = \<lparr>pv_charge = Charge draw, pv_refund = Refund, pv_status = StatusOf\<rparr>"

subsection \<open>What the saga and the reconciler rely on\<close>

text \<open>
  A provider charges a key at most once, answers a repeated charge of a captured key with the
  same reference, and \<open>StatusOf\<close> tells what really happened.
\<close>

locale payment_provider =
  fixes P :: "'p provider"
  assumes replay: "pv_status P k p = StatusCaptured \<Longrightarrow> pv_charge P n k a p = (r, p') \<Longrightarrow>
      p' = p \<and> (\<exists>c. r = Inr c \<and> cr_status c = StatusCaptured)"
    and told: "pv_charge P n k a p = (Inr c, p') \<Longrightarrow>
      (cr_status c = StatusCaptured \<longrightarrow> pv_status P k p' = StatusCaptured)
    \<and> (cr_status c = StatusFailed \<longrightarrow> pv_status P k p' \<noteq> StatusCaptured)"
    and one_key: "pv_charge P n k a p = (r, p') \<Longrightarrow> k' \<noteq> k \<Longrightarrow> pv_status P k' p' = pv_status P k' p"
    and same_ref: "pv_charge P n k a p = (Inr c, p') \<Longrightarrow> cr_status c = StatusCaptured \<Longrightarrow>
      pv_charge P n' k a' p' = (Inr c', p'') \<Longrightarrow> cr_ref c' = cr_ref c"
    and refund_keeps: "pv_refund P n ref a p = (r', p') \<Longrightarrow> pv_status P k p' = pv_status P k p"
begin

text \<open>A history of charges: each charged key with whether this charge captured it.\<close>

fun charges :: "(nat \<times> string \<times> int) list \<Rightarrow> 'p \<Rightarrow> (string \<times> bool) list \<times> 'p" where
  "charges [] p = ([], p)"
| "charges ((n, k, a) # cs) p =
     (let (r, p1) = pv_charge P n k a p; (es, p2) = charges cs p1
      in ((k, pv_status P k p \<noteq> StatusCaptured \<and> pv_status P k p1 = StatusCaptured) # es, p2))"

lemma stays_captured:
  "pv_status P k p = StatusCaptured \<Longrightarrow> pv_charge P n k' a p = (r, p') \<Longrightarrow> pv_status P k p' = StatusCaptured"
  using replay one_key by (metis (full_types))

lemma captured_no_more:
  "pv_status P k p = StatusCaptured \<Longrightarrow> charges cs p = (es, p') \<Longrightarrow> (k, True) \<notin> set es"
proof (induction cs arbitrary: p p' es)
  case Nil
  then show ?case by simp
next
  case (Cons x cs)
  obtain n k' a where x: "x = (n, k', a)" by (cases x)
  obtain r p1 where c: "pv_charge P n k' a p = (r, p1)" by (meson surj_pair)
  obtain es2 p2 where cs: "charges cs p1 = (es2, p2)" by (meson surj_pair)
  have "(k, True) \<notin> set es2" by (rule Cons.IH [OF stays_captured [OF Cons.prems(1) c] cs])
  with Cons.prems x c cs show ?case by auto
qed

lemma charged_once:
  "charges cs p = (es, p') \<Longrightarrow> length (filter (\<lambda>e. e = (k, True)) es) \<le> 1"
proof (induction cs arbitrary: p p' es)
  case Nil
  then show ?case by simp
next
  case (Cons x cs)
  obtain n k' a where x: "x = (n, k', a)" by (cases x)
  obtain r p1 where c: "pv_charge P n k' a p = (r, p1)" by (meson surj_pair)
  obtain es2 p2 where cs: "charges cs p1 = (es2, p2)" by (meson surj_pair)
  have ih: "length (filter (\<lambda>e. e = (k, True)) es2) \<le> 1" by (rule Cons.IH [OF cs])
  show ?case
  proof (cases "k' = k \<and> pv_status P k p1 = StatusCaptured")
    case True
    then have "(k, True) \<notin> set es2" using captured_no_more cs by blast
    then have "filter (\<lambda>e. e = (k, True)) es2 = []" by (auto simp: filter_empty_conv)
    with Cons.prems x c cs show ?thesis by auto
  next
    case False
    with Cons.prems x c cs ih show ?thesis by auto
  qed
qed

lemma captured_answer:
  "pv_status P k p = StatusCaptured \<Longrightarrow> \<exists>c. pv_charge P n k a p = (Inr c, p) \<and> cr_status c = StatusCaptured"
  using replay by (metis prod.collapse)

end

lemma StatusOf_Captured [simp]: "StatusOf k p = StatusCaptured \<longleftrightarrow> captured p k"
  by (simp add: StatusOf_def)

lemma fake_simps [simp]:
  "pv_charge (fake draw) = Charge draw" "pv_refund (fake draw) = Refund" "pv_status (fake draw) = StatusOf"
  by (simp_all add: fake_def)

interpretation fake_provider: payment_provider "fake draw" for draw
  by unfold_locales (auto simp: Charge_def Refund_def StatusOf_def split: if_splits)

subsection \<open>Properties\<close>

text \<open>
  The fake provider never charges twice. In any history of charges of any keys, under any
  failure rates and random draws, a key is captured at most once; once captured, every
  further charge of it answers CAPTURED with the same reference and changes nothing.
\<close>

lemma fake_charges_once:
  assumes "fake_provider.charges draw cs p = (es, p')"
  shows "length (filter (\<lambda>e. e = (k, True)) es) \<le> 1
    \<and> (StatusOf k p' = StatusCaptured \<longrightarrow>
        Charge draw n k a p' = (Inr \<lparr>cr_ref = fake_ref k, cr_status = StatusCaptured\<rparr>, p'))"
  using fake_provider.charged_once [OF assms] by (simp add: Charge_def)

lemma fake_charges_once_example:
  "length (filter (\<lambda>e. e = (''k'', True))
     (fst (fake_provider.charges (\<lambda>n i. 0) [(1, ''k'', 500), (2, ''k'', 500), (3, ''j'', 9)] NewFakeProvider))) \<le> 1"
  using fake_charges_once [OF prod.collapse [symmetric]] by blast

end
