(* ===== verification/Order.thy ===== *)
theory Order
  imports InventoryProofs Payment Ticketing
begin

section \<open>internal/order: the saga\<close>

text \<open>
  \<open>CreateOrder\<close>, \<open>RunSaga\<close> and \<open>compensate\<close> of \<open>internal/order/order.go\<close>. \<open>orders.status\<close> is
  the state machine: extend the hold, charge, confirm the seats, issue tickets; when the
  confirmation fails after the money has moved, reallocate other seats or refund. Errors the
  code discards with \<open>_ =\<close> are discarded here; the wrapped error texts that end in
  \<open>last_error\<close> come from the environment.
\<close>

record ('l, 'p) saga =
  sg_inv :: "'l service"
  sg_pay :: "'p provider"
  sg_tickets :: "ticketing option"

definition extendBuffer :: int where "extendBuffer = 180 * 1000000000"
definition reallocMaxMult :: int where "reallocMaxMult = 1"

subsection \<open>Helpers\<close>

text \<open>\<open>toPgText\<close> of this package stores the empty string as NULL.\<close>

definition toPgText :: "string \<Rightarrow> string option" where
  "toPgText s = (if s = [] then None else Some s)"

definition pg_string :: "string option \<Rightarrow> string" where
  "pg_string x = (case x of None \<Rightarrow> [] | Some s \<Rightarrow> s)"

definition markStep ::
    "env \<Rightarrow> uuid \<Rightarrow> saga_step_name \<Rightarrow> step_state \<Rightarrow> string \<Rightarrow> ('l, 'p) world \<Rightarrow> ('l, 'p) world" where
  "markStep E i step st lastErr w = snd (exec E (q_UpdateSagaStep i step st (toPgText lastErr)) w)"

definition setStatus :: "env \<Rightarrow> uuid \<Rightarrow> order_status \<Rightarrow> ('l, 'p) world \<Rightarrow> ('l, 'p) world" where
  "setStatus E i st w = snd (exec E (q_UpdateOrderStatus i st) w)"

definition failOrder :: "env \<Rightarrow> uuid \<Rightarrow> string \<Rightarrow> string \<Rightarrow> ('l, 'p) world \<Rightarrow> ('l, 'p) world" where
  "failOrder E i code detail w = snd (exec E (q_FailOrder i (toPgText code) (toPgText detail)) w)"

definition issueTickets ::
    "env \<Rightarrow> ('l, 'p) saga \<Rightarrow> int \<Rightarrow> uuid \<Rightarrow> ('l, 'p) world \<Rightarrow> ('l, 'p) world" where
  "issueTickets E G ev i w =
     (case sg_tickets G of None \<Rightarrow> w | Some T \<Rightarrow> snd (IssueTicketsForOrder E T ev i w))"

definition chargeIdempotencyKey :: "env \<Rightarrow> string \<Rightarrow> uuid \<Rightarrow> uuid \<Rightarrow> string" where
  "chargeIdempotencyKey E user i h = sha256_hex E (user @ '':'' @ uuid_text E i @ '':'' @ uuid_text E h)"

definition currentFences ::
    "env \<Rightarrow> int list \<Rightarrow> uuid \<Rightarrow> ('l, 'p) world \<Rightarrow> (error + int list) \<times> ('l, 'p) world" where
  "currentFences E seats h w =
     (case exec E (q_GetSeatsByHoldID h) w of
        (Inl e, w') \<Rightarrow> (Inl e, w')
      | (Inr rows, w') \<Rightarrow>
          (let byID = map_of (rev (map (\<lambda>r. (es_seat r, es_fence r)) rows))
           in (Inr (map (\<lambda>i. case byID i of None \<Rightarrow> 0 | Some f \<Rightarrow> f) seats), w')))"

subsection \<open>CreateOrder\<close>

text \<open>The total is added up in an \<open>int32\<close>.\<close>

definition hold_total :: "event_seat list \<Rightarrow> int" where
  "hold_total seats =
     foldl (\<lambda>a s. wrap32 (a + (case es_hold_price s of None \<Rightarrow> 0 | Some p \<Rightarrow> p))) 0 seats"

fun create_steps ::
    "env \<Rightarrow> uuid \<Rightarrow> saga_step_name list \<Rightarrow> tx \<Rightarrow> ('l, 'p) world \<Rightarrow> (error + tx) \<times> ('l, 'p) world" where
  "create_steps E i [] t w = (Inr t, w)"
| "create_steps E i (s # ss) t w =
     (case exec_tx E (q_CreateSagaStep i s) t w of
        (Inl e, w') \<Rightarrow> (Inl e, w')
      | (Inr (_, t'), w') \<Rightarrow> create_steps E i ss t' w')"

definition created_event :: "uuid \<Rightarrow> int \<Rightarrow> int \<Rightarrow> payload" where
  "created_event i ev amount = [(''orderId'', JUuid i), (''eventId'', JInt ev), (''amountCents'', JInt amount)]"

definition CreateOrder :: "env \<Rightarrow> uuid \<Rightarrow> string \<Rightarrow> ('l, 'p) world \<Rightarrow> (error + uuid) \<times> ('l, 'p) world" where
  "CreateOrder E h user w =
     (case exec E (q_GetSeatsByHoldID h) w of
        (Inl e, w1) \<Rightarrow> (Inl e, w1)
      | (Inr seats, w1) \<Rightarrow>
     (case seats of
        [] \<Rightarrow> (Inl HoldNotFound, w1)
      | s0 # _ \<Rightarrow>
     if pg_string (es_held_by s0) \<noteq> user then (Inl NotHoldOwner, w1)
     else
       (let ev = es_event s0; seatIDs = map es_seat seats; amount = hold_total seats;
            (i, w2) = new_uuid E w1
        in case begin_tx E w2 of
             (Inl e, w3) \<Rightarrow> (Inl e, w3)
           | (Inr t, w3) \<Rightarrow>
          (case exec_tx E (q_CreateOrder i user ev h seatIDs amount) t w3 of
             (Inl e, w4) \<Rightarrow> (Inl e, w4)
           | (Inr (_, t4), w4) \<Rightarrow>
          (case create_steps E i [ExtendHoldStep, ChargeStep, ConfirmStep, IssueTicketStep] t4 w4 of
             (Inl e, w5) \<Rightarrow> (Inl e, w5)
           | (Inr t5, w5) \<Rightarrow>
          (case Publish E (uuid_text E i) OrderCreatedEvent (created_event i ev amount) t5 w5 of
             (Inl e, w6) \<Rightarrow> (Inl e, w6)
           | (Inr t6, w6) \<Rightarrow>
          (case commit_tx E t6 w6 of
             (Inl e, w7) \<Rightarrow> (Inl e, w7)
           | (Inr _, w7) \<Rightarrow> (Inr i, w7))))))))"

subsection \<open>RunSaga\<close>

text \<open>Step 1 for a PENDING order: whether the saga goes on.\<close>

definition saga_extend ::
    "env \<Rightarrow> ('l, 'p) saga \<Rightarrow> order_row \<Rightarrow> ('l, 'p) world \<Rightarrow> bool \<times> ('l, 'p) world" where
  "saga_extend E G r w =
     (if ord_status r = Pending then
        (case ExtendHold E (ord_event r) (ord_seats r) (ord_hold r) extendBuffer
                (setStatus E (ord_id r) Authorizing w) of
           (Inl e, w2) \<Rightarrow>
             (False,
              failOrder E (ord_id r) ''hold_expired'' ''hold expired before payment could be authorized''
                (markStep E (ord_id r) ExtendHoldStep StepFailed (error_text E e) w2))
         | (Inr _, w2) \<Rightarrow> (True, markStep E (ord_id r) ExtendHoldStep StepDone [] w2))
      else (True, w))"

text \<open>The payment row of the order's idempotency key, inserted or found.\<close>

definition saga_payment ::
    "env \<Rightarrow> order_row \<Rightarrow> ('l, 'p) world \<Rightarrow> (error + payment_row) \<times> ('l, 'p) world" where
  "saga_payment E r w =
     (let k = chargeIdempotencyKey E (ord_user r) (ord_id r) (ord_hold r); (i, w1) = new_uuid E w in
      case exec E (q_InsertPayment i (ord_id r) k (ord_amount r)) w1 of
        (Inr p, w2) \<Rightarrow> (Inr p, w2)
      | (Inl _, w2) \<Rightarrow> exec E (q_GetPaymentByIdempotencyKey k) w2)"

text \<open>
  Step 2: the charge of a PENDING payment. The code copies only the status into its local
  row; the stored provider reference is not read back.
\<close>

definition saga_charge ::
    "env \<Rightarrow> ('l, 'p) saga \<Rightarrow> order_row \<Rightarrow> payment_row \<Rightarrow> ('l, 'p) world
     \<Rightarrow> (error + payment_row) \<times> ('l, 'p) world" where
  "saga_charge E G r p w =
     (if pay_status_of p = PayPending then
        (case call_charge (sg_pay G) (chargeIdempotencyKey E (ord_user r) (ord_id r) (ord_hold r)) (ord_amount r) w of
           (Inl e, w1) \<Rightarrow> (Inl e, w1)
         | (Inr c, w1) \<Rightarrow>
             (let w2 = snd (exec E (q_UpdatePaymentStatus (pay_id p) (stored_status (cr_status c))
                                      (toPgText (cr_ref c)) None) w1)
              in (Inr (p\<lparr>pay_status_of := stored_status (cr_status c)\<rparr>), w2)))
      else (Inr p, w))"

definition finish_tickets ::
    "env \<Rightarrow> ('l, 'p) saga \<Rightarrow> order_row \<Rightarrow> ('l, 'p) world \<Rightarrow> ('l, 'p) world" where
  "finish_tickets E G r w =
     setStatus E (ord_id r) Ticketed
       (markStep E (ord_id r) IssueTicketStep StepDone []
         (issueTickets E G (ord_event r) (ord_id r) w))"

definition refund_order ::
    "env \<Rightarrow> ('l, 'p) saga \<Rightarrow> order_row \<Rightarrow> payment_row \<Rightarrow> error \<Rightarrow> ('l, 'p) world
     \<Rightarrow> (error + unit) \<times> ('l, 'p) world" where
  "refund_order E G r p cause w =
     (case call_refund (sg_pay G) (pg_string (pay_ref p)) (pay_amount p) w of
        (Inl e, w1) \<Rightarrow> (Inl e, w1)
      | (Inr ref, w1) \<Rightarrow>
          (let (i, w2) = new_uuid E w1;
               w3 = snd (exec E (q_InsertRefund i (pay_id p) (toPgText ref) (pay_amount p) RefundCompleted) w2);
               w4 = markStep E (ord_id r) ConfirmStep StepCompensated (''refunded after: '' @ error_text E cause) w3
           in (Inr (), setStatus E (ord_id r) Compensated w4)))"

text \<open>
  \<open>ConfirmSeats\<close> leaves \<open>newSeatIDs\<close> sorted, so \<open>ReallocateOrder\<close> and \<open>ReleaseHold\<close> get the
  sorted list. A quantity that is 0 in 32 bits would panic on the division.
\<close>

definition compensate ::
    "env \<Rightarrow> ('l, 'p) saga \<Rightarrow> order_row \<Rightarrow> payment_row \<Rightarrow> error \<Rightarrow> ('l, 'p) world
     \<Rightarrow> (error + unit) \<times> ('l, 'p) world" where
  "compensate E G r p cause w =
     (let quantity = length (ord_seats r); q32 = wrap32 (int quantity) in
      if q32 = 0 then (Inl (OtherError ''integer divide by zero''), w)
      else
        (let maxPrice = wrap32 (wrap32 (go_div (ord_amount r) q32) * reallocMaxMult) in
         case BestAvailable E (sg_inv G) (ord_event r) (int quantity) maxPrice (ord_user r) w of
           (Inl _, w1) \<Rightarrow> refund_order E G r p cause w1
         | (Inr newHold, w1) \<Rightarrow>
             (let newSeatIDs = map hs_seat (h_seats newHold); newFences = map hs_fence (h_seats newHold);
                  sorted = fst (sortSeatsAndFencesTogether newSeatIDs newFences)
              in case ConfirmSeats E (ord_event r) newSeatIDs newFences (h_id newHold) (ord_id r) w1 of
                   (Inr _, w2) \<Rightarrow>
                     (let w3 = snd (exec E (q_ReallocateOrder (ord_id r) (h_id newHold) sorted) w2);
                          w4 = setStatus E (ord_id r) Confirmed w3;
                          w5 = markStep E (ord_id r) ConfirmStep StepCompensated
                                 (''reallocated after: '' @ error_text E cause) w4
                      in (Inr (), finish_tickets E G r w5))
                 | (Inl _, w2) \<Rightarrow>
                     refund_order E G r p cause
                       (snd (ReleaseHold E (sg_inv G) (ord_event r) sorted (h_id newHold) (ord_user r) w2)))))"

text \<open>Step 3 and what follows it.\<close>

definition saga_confirm ::
    "env \<Rightarrow> ('l, 'p) saga \<Rightarrow> order_row \<Rightarrow> payment_row \<Rightarrow> ('l, 'p) world \<Rightarrow> (error + unit) \<times> ('l, 'p) world" where
  "saga_confirm E G r p w =
     (case currentFences E (ord_seats r) (ord_hold r) (setStatus E (ord_id r) Confirming w) of
        (Inl e, w1) \<Rightarrow> (Inl e, w1)
      | (Inr fences, w1) \<Rightarrow>
          (case ConfirmSeats E (ord_event r) (ord_seats r) fences (ord_hold r) (ord_id r) w1 of
             (Inr _, w2) \<Rightarrow>
               (Inr (), finish_tickets E G r
                  (setStatus E (ord_id r) Confirmed (markStep E (ord_id r) ConfirmStep StepDone [] w2)))
           | (Inl e, w2) \<Rightarrow> compensate E G r p e w2))"

definition after_charge ::
    "env \<Rightarrow> ('l, 'p) saga \<Rightarrow> order_row \<Rightarrow> payment_row \<Rightarrow> ('l, 'p) world \<Rightarrow> (error + unit) \<times> ('l, 'p) world" where
  "after_charge E G r p w =
     (case pay_status_of p of
        PayFailed \<Rightarrow>
          (Inr (), failOrder E (ord_id r) ''payment_declined'' ''payment provider declined the charge''
             (markStep E (ord_id r) ChargeStep StepFailed ''payment declined'' w))
      | PayUnknown \<Rightarrow> (Inr (), w)
      | PayCaptured \<Rightarrow> saga_confirm E G r p (markStep E (ord_id r) ChargeStep StepDone [] w)
      | PayPending \<Rightarrow> (Inr (), w))"

definition RunSaga ::
    "env \<Rightarrow> ('l, 'p) saga \<Rightarrow> uuid \<Rightarrow> ('l, 'p) world \<Rightarrow> (error + unit) \<times> ('l, 'p) world" where
  "RunSaga E G i w =
     (case exec E (q_GetOrder i) w of
        (Inl e, w1) \<Rightarrow> (Inl e, w1)
      | (Inr r, w1) \<Rightarrow>
     if ord_status r \<notin> {Pending, Authorizing, Confirming} then (Inr (), w1)
     else
       (case saga_extend E G r w1 of
          (False, w2) \<Rightarrow> (Inr (), w2)
        | (True, w2) \<Rightarrow>
       (case saga_payment E r w2 of
          (Inl e, w3) \<Rightarrow> (Inl e, w3)
        | (Inr p, w3) \<Rightarrow>
       (case saga_charge E G r p w3 of
          (Inl e, w4) \<Rightarrow> (Inl e, w4)
        | (Inr p', w4) \<Rightarrow> after_charge E G r p' w4))))"

end
