(* ===== verification/InventoryClaims.thy ===== *)
theory InventoryClaims
  imports Samples
begin

section \<open>What the inventory operations guarantee\<close>

text \<open>
  The properties of \<open>internal/inventory\<close>: sorting helpers, the success and the failure of
  \<open>AcquireHold\<close> and \<open>ConfirmSeats\<close>, and completeness of \<open>AcquireHold\<close> when the lock is down.
\<close>

subsection \<open>Lemmas\<close>

lemma keyed_rows_hit:
  assumes wf: "seats_wf rows" and dist: "distinct ids"
    and P: "\<And>r. r \<in> set rows \<Longrightarrow> P r \<Longrightarrow> es_event r = ev \<and> es_seat r \<in> set ids"
    and len: "count_where P rows = length ids" and s: "s \<in> set ids"
  shows "\<exists>r \<in> set rows. P r \<and> es_event r = ev \<and> es_seat r = s"
proof -
  have "seat_key ` {r \<in> set rows. P r} = set (map (Pair ev) ids)"
  proof (rule count_where_full)
    show "distinct (map seat_key rows)" using wf by (simp add: seats_wf_def)
    show "distinct (map (Pair ev) ids)" using dist by (simp add: distinct_map inj_on_def)
    show "\<And>r. r \<in> set rows \<Longrightarrow> P r \<Longrightarrow> seat_key r \<in> set (map (Pair ev) ids)"
      using P by (auto simp: seat_key_def)
    show "count_where P rows = length (map (Pair ev) ids)" using len by simp
  qed
  then have "(ev, s) \<in> seat_key ` {r \<in> set rows. P r}" using s by auto
  then show ?thesis by (auto simp: seat_key_def)
qed

lemma hold_effect_row:
  assumes "hold_effect t ev ids h u ttl rows d d'" and "seats_wf (t_seats d)" and "distinct ids"
    and "s \<in> set ids"
  obtains r where "r \<in> set (t_seats d)" "es_event r = ev" "es_seat r = s" "acquirable t ev ids r"
    "set_held t h u ttl r \<in> set (t_seats d')" "acquired_of t ttl r \<in> set rows"
proof -
  have "\<exists>r \<in> set (t_seats d). acquirable t ev ids r \<and> es_event r = ev \<and> es_seat r = s"
  proof (rule keyed_rows_hit [OF assms(2,3) _ _ assms(4)])
    show "count_where (acquirable t ev ids) (t_seats d) = length ids"
      using assms(1) by (auto simp: hold_effect_def count_where_def)
  qed (auto simp: acquirable_def)
  then obtain r where r: "r \<in> set (t_seats d)" "acquirable t ev ids r" "es_event r = ev" "es_seat r = s"
    by blast
  then have "set_held t h u ttl r \<in> set (t_seats d')" and "acquired_of t ttl r \<in> set rows"
    using assms(1) by (auto simp: hold_effect_def set_update_where image_iff)
  with r that show thesis by blast
qed

lemma update_where_others:
  "r \<in> set rows \<Longrightarrow> \<not> P r \<Longrightarrow> r \<in> set (update_where P f rows)"
  by (auto simp: set_update_where)

lemma confirm_effect_row:
  assumes "confirm_effect t ev ids fcs h b d d'" and "seats_wf (t_seats d)" and "distinct ids"
    and "length ids = length fcs" and "s \<in> set ids"
  obtains r where "r \<in> set (t_seats d)" "es_event r = ev" "es_seat r = s"
    "confirmable t ev ids fcs h r" "set_booked t b r \<in> set (t_seats d')"
proof -
  have "\<exists>r \<in> set (t_seats d). confirmable t ev ids fcs h r \<and> es_event r = ev \<and> es_seat r = s"
  proof (rule keyed_rows_hit [OF assms(2,3) _ _ assms(5)])
    show "count_where (confirmable t ev ids fcs h) (t_seats d) = length ids"
      using assms(1) by (simp add: confirm_effect_def)
  qed (auto simp: confirmable_def dest: set_zip_leftD)
  then obtain r where r: "r \<in> set (t_seats d)" "confirmable t ev ids fcs h r" "es_event r = ev" "es_seat r = s"
    by blast
  then have "set_booked t b r \<in> set (t_seats d')"
    using assms(1) by (auto simp: confirm_effect_def set_update_where image_iff)
  with r that show thesis by blast
qed

lemma unambiguous: "\<forall>k. fate_of E k \<noteq> Ambiguous \<Longrightarrow> \<exists>k. fate_of E k = Ambiguous \<Longrightarrow> False"
  by blast

subsection \<open>Sorting helpers\<close>

text \<open>
  \<open>sortDedup\<close> returns the distinct ids of the request in ascending order, and reports a
  duplicate exactly when the request has one.
\<close>

lemma sortDedup_correct:
  "sorted (fst (sortDedup ids)) \<and> distinct (fst (sortDedup ids))
   \<and> set (fst (sortDedup ids)) = set ids \<and> (snd (sortDedup ids) \<longleftrightarrow> \<not> distinct ids)"
  by simp

text \<open>
  \<open>sortSeatsAndFencesTogether\<close> sorts the seats ascending and keeps every fence with its
  seat: the pairs are the same multiset before and after.
\<close>

lemma sortSeatsAndFences_keeps_pairs:
  assumes "length seats = length fences"
  shows "case sortSeatsAndFencesTogether seats fences of
           (a, b) \<Rightarrow> sorted a \<and> length b = length a \<and> mset (zip a b) = mset (zip seats fences)"
  using sortTogether_zip [OF assms] by (auto split: prod.splits)

lemma sortSeatsAndFences_keeps_pairs_example:
  "case sortSeatsAndFencesTogether [13, 11, 12] [3, 1, 2] of
     (a, b) \<Rightarrow> sorted a \<and> length b = length a \<and> mset (zip a b) = mset (zip [13, 11, 12] [3, 1, 2])"
  by (rule sortSeatsAndFences_keeps_pairs) simp

subsection \<open>AcquireHold\<close>

text \<open>
  C7: when \<open>AcquireHold\<close> returns a hold, every requested seat was sellable and either free or
  under an expired hold, is now HELD under the new hold by the caller with its fence raised by
  one and its price locked, and the hold reports exactly that fence and price; every other row
  is untouched, and exactly one unpublished \<open>seat.held\<close> event per seat was added to the outbox.
\<close>

theorem acquire_hold_success:
  assumes run: "AcquireHold E S ev ids user w = (Inr hl, w')" and wf: "seats_wf (t_seats (w_db w))"
  shows "distinct ids \<and> length ids \<le> sv_max_seats S \<and> length (h_seats hl) = length ids
    \<and> (\<forall>s \<in> set ids. \<exists>r \<in> set (t_seats (w_db w)). \<exists>t.
          es_event r = ev \<and> es_seat r = s \<and> es_sellable r
        \<and> (es_status r = 0 \<or> es_status r \<in> {1, 3} \<and> before (es_expires r) t)
        \<and> set_held t (h_id hl) user (dur_seconds (sv_hold_ttl S)) r \<in> set (t_seats (w_db w'))
        \<and> \<lparr>hs_seat = s, hs_ordinal = es_ordinal r, hs_fence = es_fence r + 1, hs_price = es_price r\<rparr>
             \<in> set (h_seats hl))
    \<and> (\<forall>r \<in> set (t_seats (w_db w)). es_event r \<noteq> ev \<or> es_seat r \<notin> set ids \<longrightarrow> r \<in> set (t_seats (w_db w')))
    \<and> (\<exists>rows. map (\<lambda>r. ar_seat r) rows = map hs_seat (h_seats hl)
          \<and> appends_events (w_db w) (map (held_event ev (h_id hl)) rows) (w_db w'))"
  using run
proof (cases rule: AcquireHold_cases)
  case (held t rows)
  let ?h = "uuid_at E (w_calls w)" and ?ttl = "dur_seconds (sv_hold_ttl S)"
  have hl: "hl = hold_of ev ?h rows" using held(1) by simp
  have seat: "\<exists>r \<in> set (t_seats (w_db w)). \<exists>t.
          es_event r = ev \<and> es_seat r = s \<and> es_sellable r
        \<and> (es_status r = 0 \<or> es_status r \<in> {1, 3} \<and> before (es_expires r) t)
        \<and> set_held t (h_id hl) user ?ttl r \<in> set (t_seats (w_db w'))
        \<and> \<lparr>hs_seat = s, hs_ordinal = es_ordinal r, hs_fence = es_fence r + 1, hs_price = es_price r\<rparr>
             \<in> set (h_seats hl)" if s: "s \<in> set ids" for s
  proof -
    obtain r where r: "r \<in> set (t_seats (w_db w))" "es_event r = ev" "es_seat r = s" "acquirable t ev ids r"
        "set_held t ?h user ?ttl r \<in> set (t_seats (w_db w'))" "acquired_of t ?ttl r \<in> set rows"
      using hold_effect_row [OF held(5) wf held(2) s] by blast
    have "held_seat_of (acquired_of t ?ttl r) \<in> set (h_seats hl)" using r(6) hl by (simp add: hold_of_def)
    then show ?thesis using r hl
      by (intro bexI [of _ r] exI [of _ t]) (auto simp: acquirable_def held_seat_of_def acquired_of_def hold_of_def)
  qed
  have others: "r \<in> set (t_seats (w_db w'))"
    if "r \<in> set (t_seats (w_db w))" "es_event r \<noteq> ev \<or> es_seat r \<notin> set ids" for r
    using held(5) that by (auto simp: hold_effect_def acquirable_def intro!: update_where_others)
  have "length rows = length ids" using held(5) unfolding hold_effect_def by blast
  then have "length (h_seats hl) = length ids" using hl by (simp add: hold_of_def)
  moreover have "h_id hl = ?h" using hl by (simp add: hold_of_def)
  moreover have "appends_events (w_db w) (map (held_event ev ?h) rows) (w_db w')"
    using held(5) unfolding hold_effect_def by blast
  moreover have "map (\<lambda>r. ar_seat r) rows = map hs_seat (h_seats hl)"
    using hl by (simp add: hold_of_def held_seat_of_def)
  ultimately show ?thesis using held(2,4) seat others by (auto simp del: map_map)
qed auto

theorem acquire_hold_success_witness:
  "\<exists>r \<in> set (t_seats sample_db). \<exists>t. es_seat r = 12 \<and> es_status r = 0 \<and>
     set_held t 100 ''ann'' 600 r \<in> set (t_seats (w_db held_world))"
proof -
  have wf: "seats_wf (t_seats (w_db sample_world))" using sample_seats_wf by (simp add: sample_world_def)
  have ttl: "dur_seconds (sv_hold_ttl sample_service) = 600" by code_simp
  have "\<forall>s \<in> set [12, 11]. \<exists>r \<in> set (t_seats (w_db sample_world)). \<exists>t.
          es_event r = 1 \<and> es_seat r = s \<and> es_sellable r
        \<and> (es_status r = 0 \<or> es_status r \<in> {1, 3} \<and> before (es_expires r) t)
        \<and> set_held t 100 ''ann'' 600 r \<in> set (t_seats (w_db held_world))"
    using acquire_hold_success [OF held_world_run wf] by (auto simp: ttl)
  then show ?thesis
    by (auto simp: sample_world_def sample_db_def sample_seat_def)
qed

text \<open>
  C17: when \<open>AcquireHold\<close> returns an error (seats taken, an invalid request, any outage of the
  lock, of a statement or of the commit), no seat row and no outbox row has changed, unless
  the answer to a call was lost after the server had executed it.
\<close>

theorem acquire_hold_all_or_nothing:
  assumes "AcquireHold E S ev ids user w = (Inl e, w')" and "\<forall>k. fate_of E k \<noteq> Ambiguous"
  shows "t_seats (w_db w') = t_seats (w_db w) \<and> t_outbox (w_db w') = t_outbox (w_db w)"
  using assms(1) by (cases rule: AcquireHold_cases) (use assms(2) in \<open>auto simp: audit_only_tables\<close>)

theorem acquire_hold_all_or_nothing_witness:
  "fst (AcquireHold sample_env sample_service 1 [13, 12] ''bob'' held_world) = Inl (SeatTaken [12])
   \<and> t_seats (w_db (snd (AcquireHold sample_env sample_service 1 [13, 12] ''bob'' held_world))) = t_seats (w_db held_world)"
proof -
  have run: "AcquireHold sample_env sample_service 1 [13, 12] ''bob'' held_world
      = (Inl (SeatTaken [12]), snd (AcquireHold sample_env sample_service 1 [13, 12] ''bob'' held_world))"
    by (subst prod.collapse [symmetric], rule arg_cong2 [of _ _ _ _ Pair]) (code_simp, rule refl)
  have f: "\<forall>k. fate_of sample_env k \<noteq> Ambiguous" by (simp add: sample_env_def)
  show ?thesis using run acquire_hold_all_or_nothing [OF run f] by (metis fst_conv)
qed

lemma publish_all_done:
  assumes alldone: "\<forall>k. fate_of E k = Done" and inj: "inj (uuid_at E)"
  shows "\<forall>k \<ge> w_calls w. uuid_at E k \<notin> de_id ` set (t_outbox (tx_db t)) \<Longrightarrow>
         \<exists>t' w'. publish_all E es t w = (Inr t', w')"
proof (induction es arbitrary: t w)
  case Nil
  then show ?case by simp
next
  case (Cons e es)
  obtain agg ty pl where e: "e = (agg, ty, pl)" by (cases e)
  let ?i = "uuid_at E (w_calls w)"
  let ?st = "q_InsertDomainEvent ?i agg ty SchemaVersion pl"
  obtain d' where d': "?st (tx_now t) (tx_db t) = (Inr (), d')" "de_id ` set (t_outbox d') = insert ?i (de_id ` set (t_outbox (tx_db t)))"
    using Cons.prems by (auto simp: q_InsertDomainEvent_def)
  then have p: "Publish E agg ty pl t w = (Inr (t\<lparr>tx_db := d'\<rparr>), tick (tick w))"
    using alldone by (simp add: Publish_def new_uuid_def exec_tx_def)
  have "\<forall>k \<ge> w_calls (tick (tick w)). uuid_at E k \<notin> de_id ` set (t_outbox (tx_db (t\<lparr>tx_db := d'\<rparr>)))"
    using Cons.prems d'(2) inj by (auto simp: inj_eq)
  from Cons.IH [OF this] show ?case by (simp add: e p)
qed

lemma acquire_locks_no_conflict:
  assumes "\<And>f t e s h d l. fst (lk_acquire (sv_lock S) f t e s h d l) \<noteq> Inr False"
  shows "\<exists>acq' w'. acquire_locks E S ev h ss acq w = ((None, acq'), w')"
proof (induction ss arbitrary: acq w)
  case Nil
  then show ?case by simp
next
  case (Cons s ss)
  obtain r w1 where c: "call_acquire E S ev s h w = (r, w1)" by (meson surj_pair)
  have "r \<noteq> Inr False"
    using assms c by (auto simp: call_acquire_def split: prod.splits dest: arg_cong [where f = fst])
  with Cons.IH show ?case by (auto simp: c split: sum.splits bool.splits)
qed

lemma acquire_locks_calls: "acquire_locks E S ev h ss acq w = (r, w') \<Longrightarrow> w_calls w \<le> w_calls w'"
proof (induction ss arbitrary: acq w)
  case Nil
  then show ?case by simp
next
  case (Cons s ss)
  obtain r1 w1 where c: "call_acquire E S ev s h w = (r1, w1)" by (meson surj_pair)
  then have "w_calls w1 = Suc (w_calls w)" by (auto simp: call_acquire_def split: prod.splits)
  with Cons.prems Cons.IH [of "acq @ [s]" w1] show ?case
    by (auto simp: c split: sum.splits bool.splits)
qed

text \<open>
  losing the lock never blocks a sale. When no call to the database fails, the requested
  seats are free and sellable, and the lock never claims that somebody else holds a seat (it
  grants, or is unreachable), \<open>AcquireHold\<close> returns a hold.
\<close>

lemma acquire_hold_complete:
  assumes alldone: "\<forall>k. fate_of E k = Done"
    and fresh: "inj (uuid_at E)" "\<forall>k. uuid_at E k \<notin> de_id ` set (t_outbox (w_db w))"
    and lock: "\<And>f t e s h d l. fst (lk_acquire (sv_lock S) f t e s h d l) \<noteq> Inr False"
    and wf: "seats_wf (t_seats (w_db w))"
    and req: "distinct ids" "ids \<noteq> []" "length ids \<le> sv_max_seats S"
    and free: "\<forall>s \<in> set ids. \<exists>r \<in> set (t_seats (w_db w)).
                 es_event r = ev \<and> es_seat r = s \<and> es_sellable r \<and> es_status r = 0"
  shows "\<exists>hl w'. AcquireHold E S ev ids user w = (Inr hl, w')"
proof -
  let ?h = "uuid_at E (w_calls w)" and ?ttl = "dur_seconds (sv_hold_ttl S)"
  obtain seats where sd: "sortDedup ids = (seats, False)" using req(1) by (metis prod.collapse sortDedup_dupes)
  have seats: "set seats = set ids" "length seats = length ids"
    using sd sortDedup_set [of ids] sortDedup_length [OF req(1)] by auto
  obtain acq w2 where l: "acquire_locks E S ev ?h seats [] (tick w) = ((None, acq), w2)"
    using acquire_locks_no_conflict [OF lock] by meson
  have d2: "w_db w2 = w_db w" and c2: "w_calls w \<le> w_calls w2"
    using acquire_locks_frame [OF l] acquire_locks_calls [OF l] by auto
  have b: "begin_tx E w2 = (Inr \<lparr>tx_now = now E w2, tx_db = w_db w\<rparr>, tick w2)"
    using alldone d2 by (simp add: begin_tx_def)
  let ?P = "acquirable (now E w2) ev seats"
  let ?rows = "map (acquired_of (now E w2) ?ttl) (filter ?P (t_seats (w_db w)))"
  let ?d2 = "(w_db w)\<lparr>t_seats := update_where ?P (set_held (now E w2) ?h user ?ttl) (t_seats (w_db w))\<rparr>"
  let ?t2 = "\<lparr>tx_now = now E w2, tx_db = ?d2\<rparr>"
  have x: "exec_tx E (q_AcquireHold ev seats ?h user ?ttl) \<lparr>tx_now = now E w2, tx_db = w_db w\<rparr> (tick w2)
      = (Inr (?rows, ?t2), tick (tick w2))"
    using alldone by (simp add: exec_tx_def q_AcquireHold_def)
  have "seat_key ` {r \<in> set (t_seats (w_db w)). ?P r} = Pair ev ` set ids"
    using free seats by (force simp: seat_key_def acquirable_def)
  then have "count_where ?P (t_seats (w_db w)) = card (Pair ev ` set ids)"
    using wf by (simp add: count_where_keys [of seat_key] seats_wf_def)
  also have "\<dots> = length ids" using req(1) by (simp add: card_image inj_on_def distinct_card)
  finally have len: "length ?rows = length seats" using seats by (simp add: count_where_def)
  obtain t3 w3 where p: "publish_all E (map (held_event ev ?h) ?rows) ?t2 (tick (tick w2)) = (Inr t3, w3)"
    using publish_all_done [OF alldone fresh(1), of "tick (tick w2)" ?t2 "map (held_event ev ?h) ?rows"] fresh(2)
    by (auto simp del: map_map)
  have "acquire_cas E S ev seats acq ?h user w2
      = (Inr (hold_of ev ?h ?rows), audit_acquired E (hold_of ev ?h ?rows) user
           (h_seats (hold_of ev ?h ?rows)) ((tick w3)\<lparr>w_db := tx_db t3\<rparr>))"
    using b x len p alldone by (simp add: acquire_cas_def commit_tx_def Let_def)
  moreover have "AcquireHold E S ev ids user w = acquire_cas E S ev seats acq ?h user w2"
    using sd l req seats by (auto simp: AcquireHold_def new_uuid_def)
  ultimately show ?thesis by metis
qed

definition dead_lock_service :: "unit service" where
  "dead_lock_service = sample_service\<lparr>sv_lock := \<lparr>lk_acquire = (\<lambda>_ _ _ _ _ _ l. (Inl Unavailable, l)),
     lk_release = (\<lambda>_ _ _ _ _ l. (Inl Unavailable, l))\<rparr>\<rparr>"

lemma acquire_hold_complete_example:
  "\<exists>hl w'. AcquireHold sample_env dead_lock_service 1 [13, 11] ''ann'' sample_world = (Inr hl, w')"
proof (rule acquire_hold_complete)
  show "\<forall>k. fate_of sample_env k = Done" by (simp add: sample_env_def)
  show "inj (uuid_at sample_env)" by (simp add: sample_env_def inj_def)
  show "\<forall>k. uuid_at sample_env k \<notin> de_id ` set (t_outbox (w_db sample_world))"
    by (simp add: sample_world_def sample_db_def empty_db_def)
  show "fst (lk_acquire (sv_lock dead_lock_service) f t e s h d l) \<noteq> Inr False" for f t e s h d l
    by (simp add: dead_lock_service_def)
  show "seats_wf (t_seats (w_db sample_world))" using sample_seats_wf by (simp add: sample_world_def)
  show "length [13, 11 :: int] \<le> sv_max_seats dead_lock_service"
    by (simp add: dead_lock_service_def sample_service_def)
  show "\<forall>s \<in> set [13, 11]. \<exists>r \<in> set (t_seats (w_db sample_world)).
      es_event r = 1 \<and> es_seat r = s \<and> es_sellable r \<and> es_status r = 0"
    by (simp add: sample_world_def sample_db_def sample_seat_def)
qed simp_all

subsection \<open>ConfirmSeats\<close>

lemma confirm_effect_distinct:
  assumes "confirm_effect t ev ids fcs h b d d'" and "seats_wf (t_seats d)"
  shows "distinct ids"
proof -
  let ?H = "{r \<in> set (t_seats d). confirmable t ev ids fcs h r}"
  have "length ids = card (seat_key ` ?H)"
    using assms by (simp add: confirm_effect_def seats_wf_def count_where_keys [of seat_key])
  also have "\<dots> \<le> card (Pair ev ` set ids)"
    by (intro card_mono) (auto simp: seat_key_def confirmable_def dest: set_zip_leftD)
  also have "\<dots> \<le> card (set ids)" by (rule card_image_le) simp
  finally have "card (set ids) = length ids" using card_length [of ids] by simp
  then show ?thesis by (rule card_distinct)
qed

lemma zip_fence:
  "distinct ids \<Longrightarrow> length ids = length fcs \<Longrightarrow> i < length ids \<Longrightarrow> (ids ! i, f) \<in> set (zip ids fcs) \<Longrightarrow> f = fcs ! i"
  by (auto simp: in_set_zip nth_eq_iff_index_eq)

lemma ConfirmSeats_seat:
  assumes "ConfirmSeats E ev ids fcs h b w = (Inr (), w')" and "seats_wf (t_seats (w_db w))" and "i < length ids"
  shows "distinct ids \<and> length fcs = length ids \<and> (\<exists>r \<in> set (t_seats (w_db w)). \<exists>t.
          es_event r = ev \<and> es_seat r = ids ! i \<and> es_status r \<in> {1, 3} \<and> es_hold r = Some h
        \<and> es_fence r = fcs ! i \<and> after (es_expires r) t \<and> set_booked t b r \<in> set (t_seats (w_db w')))"
  using assms(1)
proof (cases rule: ConfirmSeats_cases)
  case (booked t)
  have d: "distinct ids" by (rule confirm_effect_distinct [OF booked(3) assms(2)])
  have "ids ! i \<in> set ids" using assms(3) by simp
  then obtain r where r: "r \<in> set (t_seats (w_db w))" "es_event r = ev" "es_seat r = ids ! i"
      "confirmable t ev ids fcs h r" "set_booked t b r \<in> set (t_seats (w_db w'))"
    using confirm_effect_row [OF booked(3) assms(2) d booked(2)] by blast
  moreover have "es_fence r = fcs ! i"
    using r(3,4) zip_fence [OF d booked(2) assms(3)] by (auto simp: confirmable_def)
  ultimately have "\<exists>r \<in> set (t_seats (w_db w)). \<exists>t.
          es_event r = ev \<and> es_seat r = ids ! i \<and> es_status r \<in> {1, 3} \<and> es_hold r = Some h
        \<and> es_fence r = fcs ! i \<and> after (es_expires r) t \<and> set_booked t b r \<in> set (t_seats (w_db w'))"
    by (intro bexI [of _ r] exI [of _ t]) (auto simp: confirmable_def)
  with d booked(2) show ?thesis by simp
qed auto

text \<open>
  C8: when \<open>ConfirmSeats\<close> succeeds, every seat was held under exactly this hold, with exactly
  the fence passed for it, and the hold had not expired; every seat is now BOOKED by the
  order, and exactly one unpublished \<open>seat.booked\<close> event per seat was added to the outbox.
\<close>

theorem confirm_seats_success:
  assumes run: "ConfirmSeats E ev ids fcs h b w = (Inr (), w')" and wf: "seats_wf (t_seats (w_db w))"
  shows "distinct ids \<and> length fcs = length ids
    \<and> (\<forall>i < length ids. \<exists>r \<in> set (t_seats (w_db w)). \<exists>t.
          es_event r = ev \<and> es_seat r = ids ! i \<and> es_status r \<in> {1, 3} \<and> es_hold r = Some h
        \<and> es_fence r = fcs ! i \<and> after (es_expires r) t \<and> set_booked t b r \<in> set (t_seats (w_db w')))
    \<and> (\<exists>seats. mset seats = mset ids \<and> appends_events (w_db w) (map (booked_event ev h b) seats) (w_db w'))"
  using run
proof (cases rule: ConfirmSeats_cases)
  case (booked t)
  have d: "distinct ids" by (rule confirm_effect_distinct [OF booked(3) wf])
  have seat: "\<exists>r \<in> set (t_seats (w_db w)). \<exists>t.
          es_event r = ev \<and> es_seat r = ids ! i \<and> es_status r \<in> {1, 3} \<and> es_hold r = Some h
        \<and> es_fence r = fcs ! i \<and> after (es_expires r) t \<and> set_booked t b r \<in> set (t_seats (w_db w'))"
    if i: "i < length ids" for i
    using ConfirmSeats_seat [OF run wf i] by blast
  have "mset (fst (sortSeatsAndFencesTogether ids fcs)) = mset ids"
    by (metis booked(2) prod.collapse sortTogether_set(3))
  then have "\<exists>seats. mset seats = mset ids \<and> appends_events (w_db w) (map (booked_event ev h b) seats) (w_db w')"
    using booked(3) unfolding confirm_effect_def by blast
  with d booked(2) seat show ?thesis by simp
qed auto

theorem confirm_seats_success_witness:
  "\<exists>r \<in> set (t_seats (w_db held_world)). \<exists>t. es_seat r = 12 \<and> es_hold r = Some 100 \<and> es_fence r = 1
      \<and> set_booked t 77 r \<in> set (t_seats (w_db booked_world))"
proof -
  have "\<forall>i < length [11, 12 :: int]. \<exists>r \<in> set (t_seats (w_db held_world)). \<exists>t.
          es_event r = 1 \<and> es_seat r = [11, 12] ! i \<and> es_status r \<in> {1, 3} \<and> es_hold r = Some 100
        \<and> es_fence r = [1, 1] ! i \<and> after (es_expires r) t \<and> set_booked t 77 r \<in> set (t_seats (w_db booked_world))"
    using confirm_seats_success [OF booked_world_run held_seats_wf] by blast
  from this [rule_format, of 1] show ?thesis by auto
qed



end
