(* ===== verification/HoldClaims.thy ===== *)
theory HoldClaims
  imports InventoryClaims
begin

section \<open>Releasing, extending and choosing holds\<close>

text \<open>
  The properties of \<open>ReleaseHold\<close> and \<open>ExtendHold\<close> (\<open>internal/inventory/inventory.go\<close>) and
  of \<open>findContiguousRuns\<close> and \<open>BestAvailable\<close> (\<open>best_available.go\<close>).
\<close>

subsection \<open>ReleaseHold\<close>

lemma set_free_not_held [simp]: "\<not> held_as ev ids h (set_free t r)"
  by (simp add: held_as_def)

lemma release_nothing:
  assumes "release_effect t ev ids h d d'" and "\<forall>r \<in> set (t_seats d). \<not> held_as ev ids h r"
  shows "t_seats d' = t_seats d \<and> t_outbox d' = t_outbox d"
proof -
  have c: "count_where (held_as ev ids h) (t_seats d) = 0" using assms(2) by (simp add: count_where_zero)
  have "appends_events d [] d'" using assms(1) unfolding release_effect_def c by simp
  moreover have "t_seats d' = t_seats d"
    using assms update_where_none [OF assms(2)] by (simp add: release_effect_def)
  ultimately show ?thesis by (auto simp: appends_events_def)
qed

lemma release_frees_all:
  "release_effect t ev ids h d d' \<Longrightarrow> r \<in> set (t_seats d') \<Longrightarrow> \<not> held_as ev ids h r"
  by (auto simp: release_effect_def set_update_where)

text \<open>
  \<open>ReleaseHold\<close> frees exactly the named seats that its hold still holds, touches no other
  row (a newer holder's seat or a booked one stays as it is), and is idempotent: repeating it,
  by anybody and after any outcome but a release, changes neither a seat nor the outbox.
\<close>

lemma release_hold_own_and_idempotent:
  assumes first: "ReleaseHold E S ev ids h user w = (Inr (), w')"
    and again: "ReleaseHold E2 S2 ev ids h user2 w' = (r2, w'')"
  shows "(\<forall>r \<in> set (t_seats (w_db w)).
            (if held_as ev ids h r then \<exists>t. set_free t r \<in> set (t_seats (w_db w')) else r \<in> set (t_seats (w_db w'))))
    \<and> t_seats (w_db w'') = t_seats (w_db w') \<and> t_outbox (w_db w'') = t_outbox (w_db w')"
proof -
  obtain t where eff: "release_effect t ev ids h (w_db w) (w_db w')"
    using first by (cases rule: ReleaseHold_cases) auto
  have rows: "\<forall>r \<in> set (t_seats (w_db w)).
            (if held_as ev ids h r then \<exists>t. set_free t r \<in> set (t_seats (w_db w')) else r \<in> set (t_seats (w_db w')))"
    using eff by (auto simp: release_effect_def set_update_where)
  have "t_seats (w_db w'') = t_seats (w_db w') \<and> t_outbox (w_db w'') = t_outbox (w_db w')"
    using again
    by (cases rule: ReleaseHold_cases) (use release_nothing release_frees_all [OF eff] in auto)
  with rows show ?thesis by blast
qed

definition released_world :: "(unit, unit) world" where
  "released_world = snd (ReleaseHold sample_env sample_service 1 [11, 12, 13] 100 ''ann'' held_world)"

lemma release_hold_own_and_idempotent_example:
  "t_seats (w_db released_world) \<noteq> t_seats (w_db held_world)
   \<and> t_seats (w_db (snd (ReleaseHold sample_env sample_service 1 [11, 12, 13] 100 ''ann'' released_world)))
       = t_seats (w_db released_world)"
proof -
  have "fst (ReleaseHold sample_env sample_service 1 [11, 12, 13] 100 ''ann'' held_world) = Inr ()" by code_simp
  then have first: "ReleaseHold sample_env sample_service 1 [11, 12, 13] 100 ''ann'' held_world = (Inr (), released_world)"
    by (metis prod.collapse released_world_def)
  have "map es_status (t_seats (w_db released_world)) \<noteq> map es_status (t_seats (w_db held_world))" by code_simp
  then have "t_seats (w_db released_world) \<noteq> t_seats (w_db held_world)" by (rule contrapos_nn) (rule arg_cong)
  then show ?thesis using release_hold_own_and_idempotent [OF first prod.collapse [symmetric]] by blast
qed

subsection \<open>ExtendHold\<close>

lemma live_rows:
  assumes "seats_wf rows" and "\<not> count_where (live_as t ev ids h) rows < length (fst (sortDedup ids))"
    and "s \<in> set ids"
  shows "\<exists>r \<in> set rows. live_as t ev ids h r \<and> es_event r = ev \<and> es_seat r = s"
proof -
  let ?H = "{r \<in> set rows. live_as t ev ids h r}"
  have d: "distinct (map seat_key rows)" using assms(1) by (simp add: seats_wf_def)
  have "seat_key ` ?H \<subseteq> Pair ev ` set ids"
    by (auto simp: live_as_def held_as_def seat_key_def)
  moreover have "card (Pair ev ` set ids) \<le> card (seat_key ` ?H)"
  proof -
    have "card (Pair ev ` set ids) = length (fst (sortDedup ids))"
      using sortDedup_spec [of ids] by (simp add: card_image inj_on_def flip: distinct_card)
    then show ?thesis using assms(2) by (simp add: count_where_keys [OF d])
  qed
  ultimately have "seat_key ` ?H = Pair ev ` set ids" by (intro card_seteq) auto
  then have "(ev, s) \<in> seat_key ` ?H" using assms(3) by auto
  then show ?thesis by (auto simp: seat_key_def)
qed

text \<open>
  a successful \<open>ExtendHold\<close> found every named seat live under the hold, moved each into
  EXTENDED with an expiry no earlier than before and no earlier than the duration from now,
  and left fence, holder, locked price and every other row alone.
\<close>

lemma extend_hold_success:
  assumes run: "ExtendHold E ev ids h dur w = (Inr n, w')" and wf: "seats_wf (t_seats (w_db w))"
  shows "\<forall>s \<in> set ids. \<exists>r \<in> set (t_seats (w_db w)). \<exists>r' \<in> set (t_seats (w_db w')).
            es_event r = ev \<and> es_seat r = s \<and> es_hold r = Some h \<and> after (es_expires r) (now E w)
          \<and> r' = r\<lparr>es_status := 3, es_expires := es_expires r', es_version := es_version r + 1, es_updated := now E w\<rparr>
          \<and> (\<exists>x x'. es_expires r = Some x \<and> es_expires r' = Some x'
                \<and> x \<le> x' \<and> now E w + make_interval (dur_seconds dur) \<le> x')"
  using run
proof (cases rule: ExtendHold_cases)
  case run
  show ?thesis
  proof
    fix s assume s: "s \<in> set ids"
    have "\<not> count_where (live_as (now E w) ev ids h) (t_seats (w_db w)) < length (fst (sortDedup ids))"
      using run(1) by (auto split: if_splits)
    then obtain r where r: "r \<in> set (t_seats (w_db w))" "live_as (now E w) ev ids h r" "es_event r = ev" "es_seat r = s"
      using live_rows [OF wf _ s] by blast
    let ?r' = "set_extended (now E w) (dur_seconds dur) r"
    have "?r' \<in> set (t_seats (w_db w'))" using run(2) r by (auto simp: set_update_where)
    with r show "\<exists>r \<in> set (t_seats (w_db w)). \<exists>r' \<in> set (t_seats (w_db w')).
            es_event r = ev \<and> es_seat r = s \<and> es_hold r = Some h \<and> after (es_expires r) (now E w)
          \<and> r' = r\<lparr>es_status := 3, es_expires := es_expires r', es_version := es_version r + 1, es_updated := now E w\<rparr>
          \<and> (\<exists>x x'. es_expires r = Some x \<and> es_expires r' = Some x'
                \<and> x \<le> x' \<and> now E w + make_interval (dur_seconds dur) \<le> x')"
      by (intro bexI [of _ r] bexI [of _ ?r'])
         (auto simp: live_as_def held_as_def set_extended_def after_def split: option.splits)
  qed
qed auto

lemma extend_hold_success_example:
  "\<exists>r \<in> set (t_seats (w_db (snd (ExtendHold sample_env 1 [12, 11] 100 900000000000 held_world)))).
     es_seat r = 12 \<and> es_status r = 3"
proof -
  let ?x = "ExtendHold sample_env 1 [12, 11] 100 900000000000 held_world"
  have "fst ?x = Inr 2" by code_simp
  then have run: "?x = (Inr 2, snd ?x)" by (metis prod.collapse)
  obtain r r' where r: "r' \<in> set (t_seats (w_db (snd ?x)))" "es_seat r = 12"
      "r' = r\<lparr>es_status := 3, es_expires := es_expires r', es_version := es_version r + 1,
              es_updated := now sample_env held_world\<rparr>"
    by (rule bexE [OF bspec [OF extend_hold_success [OF run held_seats_wf], of 12]]) (simp, elim bexE conjE)
  have "es_seat r' = 12" and "es_status r' = 3"
    using arg_cong [OF r(3), of es_seat] arg_cong [OF r(3), of es_status] r(2) by simp_all
  with r(1) show ?thesis by blast
qed

subsection \<open>findContiguousRuns and BestAvailable\<close>

text \<open>A contiguous run of the candidate list starting at a position, as the code promises it.\<close>

definition contiguous_at :: "candidate_row list \<Rightarrow> nat \<Rightarrow> nat \<Rightarrow> bool" where
  "contiguous_at cs q start \<longleftrightarrow>
     start + q \<le> length cs
   \<and> (\<forall>i < q. cd_row (cs ! (start + i)) = cd_row (cs ! start)
            \<and> cd_ordinal (cs ! (start + i)) = cd_ordinal (cs ! start) + int i)"

lemma run_at_step:
  "run_at cs q start \<longleftrightarrow>
   (\<forall>i. 1 \<le> i \<and> i < q \<longrightarrow> cd_row (cs ! (start + i)) = cd_row (cs ! (start + i - 1))
      \<and> cd_ordinal (cs ! (start + i)) = wrap32 (cd_ordinal (cs ! (start + i - 1)) + 1))"
  by (auto simp: run_at_def list_all_iff)

lemma run_at_contiguous:
  assumes "\<forall>c \<in> set cs. in_int32 (cd_ordinal c) \<and> in_int32 (cd_ordinal c + 1)" and "start + q \<le> length cs"
  shows "run_at cs q start \<longleftrightarrow> contiguous_at cs q start"
proof
  assume run: "run_at cs q start"
  have "i < q \<Longrightarrow> cd_row (cs ! (start + i)) = cd_row (cs ! start)
            \<and> cd_ordinal (cs ! (start + i)) = cd_ordinal (cs ! start) + int i" for i
  proof (induction i)
    case 0
    then show ?case by simp
  next
    case (Suc i)
    have "in_int32 (cd_ordinal (cs ! (start + i)) + 1)" using assms Suc.prems by (simp add: nth_mem)
    with Suc run show ?case unfolding run_at_step by (auto dest!: spec [of _ "Suc i"])
  qed
  with assms(2) show "contiguous_at cs q start" by (simp add: contiguous_at_def)
next
  assume c: "contiguous_at cs q start"
  show "run_at cs q start" unfolding run_at_step
  proof (intro allI impI)
    fix i assume i: "1 \<le> i \<and> i < q"
    then obtain j where j: "i = Suc j" by (cases i) auto
    have "in_int32 (cd_ordinal (cs ! (start + j)) + 1)" using assms i j by (simp add: nth_mem)
    then show "cd_row (cs ! (start + i)) = cd_row (cs ! (start + i - 1))
      \<and> cd_ordinal (cs ! (start + i)) = wrap32 (cd_ordinal (cs ! (start + i - 1)) + 1)"
      using c i j by (auto simp: contiguous_at_def dest!: spec [of _ j] spec [of _ "Suc j"])
  qed
qed

text \<open>
  \<open>findContiguousRuns\<close> returns exactly the windows of \<open>quantity\<close> candidates that lie in
  one row and have consecutive ordinals, in the order in which they start.
\<close>

lemma findContiguousRuns_exact:
  assumes "\<forall>c \<in> set cs. in_int32 (cd_ordinal c) \<and> in_int32 (cd_ordinal c + 1)"
  shows "findContiguousRuns cs q
    = map (\<lambda>start. map cd_seat (take q (drop start cs))) (filter (contiguous_at cs q) [0..<Suc (length cs)])"
proof -
  have f: "filter (contiguous_at cs q) [0..<Suc (length cs)] = filter (run_at cs q) [0..<length cs + 1 - q]"
  proof -
    have cut: "[0..<Suc (length cs)] = [0..<length cs + 1 - q] @ [length cs + 1 - q..<Suc (length cs)]"
      using upt_add_eq_append [of 0 "length cs + 1 - q" "Suc (length cs) - (length cs + 1 - q)"] by simp
    have "filter (contiguous_at cs q) [length cs + 1 - q..<Suc (length cs)] = []"
      by (auto simp: filter_empty_conv contiguous_at_def)
    moreover have "filter (contiguous_at cs q) [0..<length cs + 1 - q] = filter (run_at cs q) [0..<length cs + 1 - q]"
      by (rule filter_cong) (use run_at_contiguous [OF assms] in auto)
    ultimately show ?thesis unfolding cut by simp
  qed
  have "map (\<lambda>i. cd_seat (cs ! (start + i))) [0..<q] = map cd_seat (take q (drop start cs))"
    if "start + q \<le> length cs" for start
    using that by (intro nth_equalityI) auto
  then show ?thesis unfolding findContiguousRuns_def f by (intro map_cong) auto
qed

lemma findContiguousRuns_exact_example:
  "findContiguousRuns [\<lparr>cd_seat = 11, cd_ordinal = 0, cd_row = 5\<rparr>, \<lparr>cd_seat = 12, cd_ordinal = 1, cd_row = 5\<rparr>,
     \<lparr>cd_seat = 13, cd_ordinal = 2, cd_row = 6\<rparr>, \<lparr>cd_seat = 15, cd_ordinal = 3, cd_row = 6\<rparr>] 2 = [[11, 12], [13, 15]]"
  by (subst findContiguousRuns_exact) (simp add: in_int32_def, code_simp)

lemma try_runs_success:
  "try_runs E S ev rs user w = (Inr hl, w') \<Longrightarrow>
   \<exists>r wa. r \<in> set rs \<and> AcquireHold E S ev r user wa = (Inr hl, w') \<and> seats_evolve (t_seats (w_db w)) (t_seats (w_db wa))"
proof (induction rs arbitrary: w)
  case Nil
  then show ?case by simp
next
  case (Cons x rs)
  obtain ra wa where a: "AcquireHold E S ev x user w = (ra, wa)" by (meson surj_pair)
  show ?case
  proof (cases ra)
    case (Inr h)
    with Cons.prems a have "AcquireHold E S ev x user w = (Inr hl, w')" by simp
    then show ?thesis by (intro exI [of _ x] exI [of _ w]) simp
  next
    case (Inl e)
    then have "try_runs E S ev rs user wa = (Inr hl, w')" using Cons.prems a by (simp split: if_splits)
    from Cons.IH [OF this] AcquireHold_evolves [OF a] show ?thesis
      by (meson list.set_intros(2) seats_evolve_trans)
  qed
qed

lemma steps_price: "seat_step\<^sup>*\<^sup>* r r' \<Longrightarrow> es_price r' = es_price r"
  by (induction rule: rtranclp_induct) (auto dest: seat_step_ordinal)

lemma evolve_same_row:
  assumes "seats_evolve rows rows'" and "seats_wf rows" and "r \<in> set rows" and "r' \<in> set rows'"
    and "seat_key r = seat_key r'"
  shows "es_ordinal r' = es_ordinal r \<and> es_price r' = es_price r \<and> es_sellable r' = es_sellable r"
proof -
  obtain r2 where r2: "r2 \<in> set rows'" "seat_step\<^sup>*\<^sup>* r r2" using seats_evolve_row [OF assms(1,3)] .
  have "distinct (map seat_key rows')" using seats_evolve_wf [OF assms(1,2)] by (simp add: seats_wf_def)
  then have "r2 = r'" using unique_key_row [of seat_key rows' r2 r'] r2 assms(4,5) steps_key by metis
  with r2 steps_ordinal steps_price show ?thesis by metis
qed

lemma candidate_row_source:
  assumes "q_ListAvailableForBestAvailable ev maxp t d = (Inr cs, d')" and "c \<in> set cs"
  obtains r v where "r \<in> set (t_seats d)" "v \<in> set (t_venue_seats d)" "seat_key r = (ev, cd_seat c)"
    "es_sellable r" "es_price r \<le> maxp" "es_ordinal r = cd_ordinal c" "st_id v = cd_seat c" "st_row v = cd_row c"
proof -
  obtain r v where rv: "r \<in> set (t_seats d)" "es_event r = ev" "es_sellable r" "es_price r \<le> maxp"
      "v \<in> set (t_venue_seats d)" "st_id v = es_seat r"
      "c = \<lparr>cd_seat = es_seat r, cd_ordinal = es_ordinal r, cd_row = st_row v\<rparr>"
    using assms by (auto simp: q_ListAvailableForBestAvailable_def)
  show thesis by (rule that [of r v]) (use rv in \<open>simp_all add: seat_key_def\<close>)
qed

lemma BestAvailable_success:
  assumes "BestAvailable E S ev q maxp user w = (Inr hl, w')"
  obtains t cs d run wa where "q_ListAvailableForBestAvailable ev maxp t (w_db w) = (Inr cs, d)"
    "0 < q" "run \<in> set (findContiguousRuns cs (nat q))" "AcquireHold E S ev run user wa = (Inr hl, w')"
    "seats_evolve (t_seats (w_db w)) (t_seats (w_db wa))"
proof -
  obtain rx wx where x: "exec E (q_ListAvailableForBestAvailable ev maxp) w = (rx, wx)" by (meson surj_pair)
  have ev: "seats_evolve (t_seats (w_db w)) (t_seats (w_db wx))" by (rule exec_evolves [OF _ x]) simp
  have q: "0 < q" using assms by (auto simp: BestAvailable_def split: if_splits)
  obtain cs where cs: "rx = Inr cs"
      "try_runs E S ev (take bestAvailableMaxAttempts (findContiguousRuns cs (nat q))) user wx = (Inr hl, w')"
    using assms x by (auto simp: BestAvailable_def Let_def split: if_splits sum.splits)
  from x cs(1) obtain d where d: "q_ListAvailableForBestAvailable ev maxp (now E w) (w_db w) = (Inr cs, d)"
    by (auto elim: exec_cases)
  from try_runs_success [OF cs(2)] obtain run wa where
      "run \<in> set (take bestAvailableMaxAttempts (findContiguousRuns cs (nat q)))"
      "AcquireHold E S ev run user wa = (Inr hl, w')" "seats_evolve (t_seats (w_db wx)) (t_seats (w_db wa))" by blast
  with seats_evolve_trans [OF ev] show thesis by (intro that [OF d q]) (auto dest: in_set_takeD)
qed

lemma contiguous_run_ordinals:
  assumes "run \<in> set (findContiguousRuns cs q)" and "0 < q"
    and "\<forall>c \<in> set cs. in_int32 (cd_ordinal c) \<and> in_int32 (cd_ordinal c + 1)"
  obtains base room where "\<And>s. s \<in> set run \<Longrightarrow> \<exists>c \<in> set cs. cd_seat c = s \<and> cd_row c = room
      \<and> base \<le> cd_ordinal c \<and> cd_ordinal c < base + int q"
    "\<And>i. i < q \<Longrightarrow> \<exists>c \<in> set cs. cd_seat c \<in> set run \<and> cd_ordinal c = base + int i"
proof -
  obtain start where st: "start < length cs + 1 - q" "run_at cs q start" "run = map (\<lambda>i. cd_seat (cs ! (start + i))) [0..<q]"
    using assms(1) by (auto simp: findContiguousRuns_def)
  then have le: "start + q \<le> length cs" by simp
  have c: "contiguous_at cs q start" using run_at_contiguous [OF assms(3) le] st(2) by simp
  have at: "i < q \<Longrightarrow> cs ! (start + i) \<in> set cs \<and> cd_row (cs ! (start + i)) = cd_row (cs ! start)
            \<and> cd_ordinal (cs ! (start + i)) = cd_ordinal (cs ! start) + int i" for i
    using c le by (simp add: contiguous_at_def)
  show thesis
  proof (rule that [of "cd_row (cs ! start)" "cd_ordinal (cs ! start)"])
    fix s assume "s \<in> set run"
    then obtain i where "i < q" "s = cd_seat (cs ! (start + i))" using st(3) by auto
    then show "\<exists>c \<in> set cs. cd_seat c = s \<and> cd_row c = cd_row (cs ! start)
        \<and> cd_ordinal (cs ! start) \<le> cd_ordinal c \<and> cd_ordinal c < cd_ordinal (cs ! start) + int q"
      using at by (intro bexI [of _ "cs ! (start + i)"]) auto
  next
    fix i assume "i < q"
    then show "\<exists>c \<in> set cs. cd_seat c \<in> set run \<and> cd_ordinal c = cd_ordinal (cs ! start) + int i"
      using at st(3) by (intro bexI [of _ "cs ! (start + i)"]) auto
  qed
qed

text \<open>
  a hold returned by \<open>BestAvailable\<close> is \<open>quantity\<close> seats of one row whose ordinals are
  consecutive without a gap, each sellable and priced at most the given maximum, whichever of
  the candidate runs survived the contention of other buyers.
\<close>

lemma best_available_contiguous:
  assumes run: "BestAvailable E S ev q maxp user w = (Inr hl, w')"
    and wf: "seats_wf (t_seats (w_db w))"
    and range: "\<forall>r \<in> set (t_seats (w_db w)). in_int32 (es_ordinal r) \<and> in_int32 (es_ordinal r + 1)"
  shows "\<exists>base room. set (map hs_ordinal (h_seats hl)) = {base..<base + q}
    \<and> (\<forall>x \<in> set (h_seats hl). hs_price x \<le> maxp
         \<and> (\<exists>r \<in> set (t_seats (w_db w)). seat_key r = (ev, hs_seat x) \<and> es_sellable r)
         \<and> (\<exists>v \<in> set (t_venue_seats (w_db w)). st_id v = hs_seat x \<and> st_row v = room))"
proof -
  obtain t cs d rn wa where b: "q_ListAvailableForBestAvailable ev maxp t (w_db w) = (Inr cs, d)" "0 < q"
      "rn \<in> set (findContiguousRuns cs (nat q))" "AcquireHold E S ev rn user wa = (Inr hl, w')"
      and evo: "seats_evolve (t_seats (w_db w)) (t_seats (w_db wa))"
    using BestAvailable_success [OF run] .
  have wfa: "seats_wf (t_seats (w_db wa))" by (rule seats_evolve_wf [OF evo wf])
  have "\<forall>c \<in> set cs. in_int32 (cd_ordinal c) \<and> in_int32 (cd_ordinal c + 1)"
    using candidate_row_source [OF b(1)] range by metis
  then obtain base room where
        seat: "\<And>s. s \<in> set rn \<Longrightarrow> \<exists>c \<in> set cs. cd_seat c = s \<and> cd_row c = room
            \<and> base \<le> cd_ordinal c \<and> cd_ordinal c < base + int (nat q)"
      and all: "\<And>i. i < nat q \<Longrightarrow> \<exists>c \<in> set cs. cd_seat c \<in> set rn \<and> cd_ordinal c = base + int i"
    using contiguous_run_ordinals [OF b(3)] b(2) by (metis zero_less_nat_eq)
  obtain t2 rows where hl: "hl = hold_of ev (uuid_at E (w_calls wa)) rows" and dist: "distinct rn"
      and eff: "hold_effect t2 ev rn (uuid_at E (w_calls wa)) user (dur_seconds (sv_hold_ttl S)) rows (w_db wa) (w_db w')"
    using b(4) by (cases rule: AcquireHold_cases) auto
  have held: "hs_ordinal x = cd_ordinal c \<and> hs_price x \<le> maxp
         \<and> (\<exists>r \<in> set (t_seats (w_db w)). seat_key r = (ev, hs_seat x) \<and> es_sellable r)
         \<and> (\<exists>v \<in> set (t_venue_seats (w_db w)). st_id v = hs_seat x \<and> st_row v = cd_row c)"
    if x: "x \<in> set (h_seats hl)" and c: "c \<in> set cs" "cd_seat c = hs_seat x" for x c
  proof -
    obtain r where r: "r \<in> set (t_seats (w_db wa))" "acquirable t2 ev rn r"
        "x = held_seat_of (acquired_of t2 (dur_seconds (sv_hold_ttl S)) r)"
      using x eff hl by (auto simp: hold_of_def hold_effect_def)
    have k: "seat_key r = (ev, hs_seat x)" "hs_ordinal x = es_ordinal r" "hs_price x = es_price r"
      using r by (auto simp: held_seat_of_def acquired_of_def seat_key_def acquirable_def)
    obtain r0 v where r0: "r0 \<in> set (t_seats (w_db w))" "v \<in> set (t_venue_seats (w_db w))" "seat_key r0 = (ev, cd_seat c)"
        "es_sellable r0" "es_price r0 \<le> maxp" "es_ordinal r0 = cd_ordinal c" "st_id v = cd_seat c" "st_row v = cd_row c"
      using candidate_row_source [OF b(1) c(1)] .
    have "es_ordinal r = es_ordinal r0 \<and> es_price r = es_price r0"
      using evolve_same_row [OF evo wf r0(1) r(1)] k(1) r0(3) c(2) by simp
    with k r0 c(2) show ?thesis by auto
  qed
  have inrun: "hs_seat x \<in> set rn" if "x \<in> set (h_seats hl)" for x
    using that eff hl by (auto simp: hold_of_def hold_effect_def held_seat_of_def acquired_of_def acquirable_def)
  have hit: "\<exists>x \<in> set (h_seats hl). hs_seat x = s" if s: "s \<in> set rn" for s
  proof -
    obtain r where "es_seat r = s" "acquired_of t2 (dur_seconds (sv_hold_ttl S)) r \<in> set rows"
      using hold_effect_row [OF eff wfa dist s] by metis
    then have "hs_seat (held_seat_of (acquired_of t2 (dur_seconds (sv_hold_ttl S)) r)) = s"
        "held_seat_of (acquired_of t2 (dur_seconds (sv_hold_ttl S)) r) \<in> set (h_seats hl)"
      by (simp_all add: hl hold_of_def) (simp add: held_seat_of_def acquired_of_def)
    then show ?thesis by blast
  qed
  have "set (map hs_ordinal (h_seats hl)) = {base..<base + q}"
  proof (intro equalityI subsetI)
    fix n assume "n \<in> set (map hs_ordinal (h_seats hl))"
    then obtain x where x: "x \<in> set (h_seats hl)" "n = hs_ordinal x" by auto
    with seat [OF inrun [OF x(1)]] held [OF x(1)] b(2) show "n \<in> {base..<base + q}" by fastforce
  next
    fix n assume n: "n \<in> {base..<base + q}"
    then obtain c where c: "c \<in> set cs" "cd_seat c \<in> set rn" "cd_ordinal c = n"
      using all [of "nat (n - base)"] by auto
    obtain x where "x \<in> set (h_seats hl)" "hs_seat x = cd_seat c" using hit [OF c(2)] by blast
    with held c show "n \<in> set (map hs_ordinal (h_seats hl))" by force
  qed
  moreover have "\<forall>x \<in> set (h_seats hl). hs_price x \<le> maxp
         \<and> (\<exists>r \<in> set (t_seats (w_db w)). seat_key r = (ev, hs_seat x) \<and> es_sellable r)
         \<and> (\<exists>v \<in> set (t_venue_seats (w_db w)). st_id v = hs_seat x \<and> st_row v = room)"
  proof
    fix x assume x: "x \<in> set (h_seats hl)"
    obtain c where c: "c \<in> set cs" "cd_seat c = hs_seat x" "cd_row c = room" using seat [OF inrun [OF x]] by blast
    from held [OF x c(1,2)] c(3) show "hs_price x \<le> maxp
         \<and> (\<exists>r \<in> set (t_seats (w_db w)). seat_key r = (ev, hs_seat x) \<and> es_sellable r)
         \<and> (\<exists>v \<in> set (t_venue_seats (w_db w)). st_id v = hs_seat x \<and> st_row v = room)" by blast
  qed
  ultimately show ?thesis by blast
qed

lemma best_available_contiguous_example:
  "\<exists>hl w' base. BestAvailable sample_env sample_service 1 2 6000 ''eve'' sample_world = (Inr hl, w')
     \<and> set (map hs_ordinal (h_seats hl)) = {base..<base + 2}"
proof -
  let ?b = "BestAvailable sample_env sample_service 1 2 6000 ''eve'' sample_world"
  have "case fst ?b of Inl _ \<Rightarrow> False | Inr hl \<Rightarrow> map hs_seat (h_seats hl) = [11, 12]" by code_simp
  then obtain hl where "fst ?b = Inr hl" by (cases "fst ?b") auto
  then have run: "?b = (Inr hl, snd ?b)" by (metis prod.collapse)
  have wf: "seats_wf (t_seats (w_db sample_world))" using sample_seats_wf by (simp add: sample_world_def)
  have range: "\<forall>r \<in> set (t_seats (w_db sample_world)). in_int32 (es_ordinal r) \<and> in_int32 (es_ordinal r + 1)"
    by (simp add: sample_world_def sample_db_def sample_seat_def in_int32_def)
  show ?thesis using best_available_contiguous [OF run wf range] run by meson
qed

end
