(* ===== verification/Http.thy ===== *)
theory Http
  imports Waitingroom Order HoldClaims
begin

section \<open>internal/auth and internal/httpapi: holds, orders, tickets, the queue\<close>

text \<open>
  The handlers of \<open>holds.go\<close>, \<open>orders.go\<close>, \<open>ticketing.go\<close> and \<open>waitingroom.go\<close>, the admission
  middleware, and the verifier of \<open>internal/auth\<close>. A handler maps the pieces of a request it reads
  (path parameter, authenticated claims, body) and the world to a response and a world. JSON
  bodies are values; an object's members are listed in the order of the source. Rendering an
  instant and parsing an identifier are parameters (\<open>web\<close>).
\<close>

subsection \<open>Responses\<close>

datatype http_body = NoBody | JsonBody json | RawBody bytes | TextBody string

record response =
  rs_status :: nat
  rs_headers :: "(string \<times> string) list"
  rs_body :: http_body

definition writeJSON :: "nat \<Rightarrow> json \<Rightarrow> response" where
  "writeJSON status v =
     \<lparr>rs_status = status, rs_headers = [(''Content-Type'', ''application/json'')], rs_body = JsonBody v\<rparr>"

definition writeError :: "nat \<Rightarrow> string \<Rightarrow> string \<Rightarrow> response" where
  "writeError status code message =
     writeJSON status (JObject [(''code'', JString code), (''message'', JString message)])"

definition statusOnly :: "nat \<Rightarrow> response" where
  "statusOnly status = \<lparr>rs_status = status, rs_headers = [], rs_body = NoBody\<rparr>"

text \<open>\<open>http.Error\<close>, a plain text body.\<close>

definition httpError :: "string \<Rightarrow> nat \<Rightarrow> response" where
  "httpError text status = \<lparr>rs_status = status, rs_headers = [], rs_body = TextBody text\<rparr>"

record web =
  wb_fmt :: "time \<Rightarrow> string"
  wb_uuid :: "string \<Rightarrow> uuid option"
  wb_url :: "string \<Rightarrow> string \<Rightarrow> string"

definition jint :: "int \<Rightarrow> json" where "jint n = JNumber (show_int n)"

text \<open>\<open>strconv.ParseInt(s, 10, 64)\<close>.\<close>

definition ParseInt :: "string \<Rightarrow> int option" where
  "ParseInt s = parse_int 64 (case s of c # ds \<Rightarrow> if c = CHR ''+'' \<and> (ds = [] \<or> hd ds \<noteq> CHR ''-'') then ds else s | [] \<Rightarrow> s)"

subsection \<open>internal/auth\<close>

record claims =
  cl_sub :: string
  cl_email :: string

text \<open>
  The key set is fetched by a third-party client and the token parsed by a third-party library:
  \<open>fetch\<close> may fail, \<open>parse\<close> checks signature, issuer, audience and expiry and gives the claims
  \<open>token_use\<close>, \<open>sub\<close> and \<open>email\<close>, each if present.
\<close>

record 'k verifier =
  vf_issuer :: string
  vf_audience :: string
  vf_ttl :: time
  vf_set :: "'k option"
  vf_fetched :: time

record 'k jwt_library =
  jl_fetch :: "string \<Rightarrow> time \<Rightarrow> 'k option"
  jl_parse :: "'k \<Rightarrow> string \<Rightarrow> string \<Rightarrow> string \<Rightarrow> time \<Rightarrow> (string option \<times> string option \<times> string option) option"

definition NewVerifier :: "string \<Rightarrow> string \<Rightarrow> 'k verifier" where
  "NewVerifier issuer audience =
     \<lparr>vf_issuer = issuer, vf_audience = audience, vf_ttl = 5 * 60 * 1000000, vf_set = None, vf_fetched = 0\<rparr>"

definition jwksURL :: "'k verifier \<Rightarrow> string" where
  "jwksURL v = rev (dropWhile (\<lambda>c. c = CHR ''/'') (rev (vf_issuer v))) @ ''/.well-known/jwks.json''"

definition keySet :: "'k jwt_library \<Rightarrow> time \<Rightarrow> 'k verifier \<Rightarrow> 'k option \<times> 'k verifier" where
  "keySet L t v =
     (if vf_set v \<noteq> None \<and> t - vf_fetched v < vf_ttl v then (vf_set v, v)
      else
        (case jl_fetch L (jwksURL v) t of
           None \<Rightarrow> (None, v)
         | Some k \<Rightarrow> (Some k, v\<lparr>vf_set := Some k, vf_fetched := t\<rparr>)))"

definition VerifyJWT :: "'k jwt_library \<Rightarrow> time \<Rightarrow> string \<Rightarrow> 'k verifier \<Rightarrow> claims option \<times> 'k verifier" where
  "VerifyJWT L t tokenStr v =
     (if tokenStr = [] then (None, v)
      else
        (case keySet L t v of
           (None, v') \<Rightarrow> (None, v')
         | (Some k, v') \<Rightarrow>
             (case jl_parse L k tokenStr (vf_issuer v) (vf_audience v) t of
                None \<Rightarrow> (None, v')
              | Some (use, sub, email) \<Rightarrow>
                  if use \<noteq> Some ''id'' then (None, v')
                  else (Some \<lparr>cl_sub = pg_string sub, cl_email = pg_string email\<rparr>, v'))))"

definition verify_header :: "'k jwt_library \<Rightarrow> time \<Rightarrow> string \<Rightarrow> 'k verifier \<Rightarrow> claims option \<times> 'k verifier" where
  "verify_header L t authHeader v =
     (if take 7 authHeader = ''Bearer '' \<and> drop 7 authHeader \<noteq> [] then VerifyJWT L t (drop 7 authHeader) v
      else (None, v))"

text \<open>The middleware: the wrapped handler runs with the claims of a verified token only.\<close>

definition AuthMiddleware ::
    "'k jwt_library \<Rightarrow> time \<Rightarrow> string \<Rightarrow> 'k verifier \<Rightarrow> (claims \<Rightarrow> 'w \<Rightarrow> response \<times> 'w) \<Rightarrow> 'w \<Rightarrow> response \<times> 'k verifier \<times> 'w" where
  "AuthMiddleware L t authHeader v handler w =
     (case verify_header L t authHeader v of
        (None, v') \<Rightarrow> (httpError ''unauthorized'' 401, v', w)
      | (Some c, v') \<Rightarrow> (case handler c w of (r, w') \<Rightarrow> (r, v', w')))"

subsection \<open>RequireAdmission and joinQueue\<close>

definition invalid_event :: response where
  "invalid_event = writeError 400 ''invalid_id'' ''eventID must be an integer''"

definition unauthorized :: response where
  "unauthorized = writeError 401 ''unauthorized'' ''missing auth claims''"

text \<open>\<open>None\<close> passes the request on to the handler behind it.\<close>

definition RequireAdmission ::
    "(bytes \<Rightarrow> bytes \<Rightarrow> bytes) \<Rightarrow> string \<Rightarrow> time \<Rightarrow> string \<Rightarrow> string option \<Rightarrow> string \<Rightarrow> response option" where
  "RequireAdmission hmac secret t eventID claims token =
     (case ParseInt eventID of
        None \<Rightarrow> Some (httpError ''{\"code\":\"invalid_id\",\"message\":\"eventID must be an integer\"}'' 400)
      | Some ev \<Rightarrow>
     (case claims of
        None \<Rightarrow> Some (httpError ''{\"code\":\"unauthorized\",\"message\":\"missing auth claims\"}'' 401)
      | Some sub \<Rightarrow>
          if token = [] then Some (httpError ''{\"code\":\"not_admitted\",\"message\":\"join the queue first\"}'' 403)
          else if VerifyToken hmac secret t token sub ev \<noteq> None
          then Some (httpError ''{\"code\":\"not_admitted\",\"message\":\"invalid or expired admission token\"}'' 403)
          else None))"

definition joinQueue ::
    "env \<Rightarrow> (rat \<Rightarrow> rat) \<Rightarrow> (bytes \<Rightarrow> bytes \<Rightarrow> bytes) \<Rightarrow> string \<Rightarrow> string \<Rightarrow> 's room_store \<Rightarrow> string \<Rightarrow> string option
     \<Rightarrow> ('s, 'p) world \<Rightarrow> response \<times> ('s, 'p) world" where
  "joinQueue E fl hmac secret nonce Q eventID claims w =
     (case ParseInt eventID of
        None \<Rightarrow> (invalid_event, w)
      | Some ev \<Rightarrow>
     (case claims of
        None \<Rightarrow> (unauthorized, w)
      | Some sub \<Rightarrow>
     (case Join E fl hmac secret nonce Q ev sub w of
        (Inl e, w') \<Rightarrow> (writeError 500 ''internal'' ''join queue failed'', w')
      | (Inr (Admitted tok), w') \<Rightarrow> (writeJSON 200 (JObject [(''admissionToken'', JString tok)]), w')
      | (Inr (Waiting pos eta), w') \<Rightarrow>
          (writeJSON 202 (JObject [(''position'', jint pos), (''etaSeconds'', jint eta), (''pollAfterMs'', jint 2000)]), w'))))"

subsection \<open>Inventory errors\<close>

fun isSystemError :: "error \<Rightarrow> bool" where
  "isSystemError (SeatTaken _) = False"
| "isSystemError HoldExpired = False"
| "isSystemError TooManySeats = False"
| "isSystemError DuplicateSeat = False"
| "isSystemError NoContiguousSeats = False"
| "isSystemError _ = True"

fun writeInventoryError :: "error \<Rightarrow> response" where
  "writeInventoryError (SeatTaken cs) =
     writeJSON 409 (JObject [(''code'', JString ''SEAT_TAKEN''), (''message'', JString ''one or more seats are no longer available''),
                             (''conflicts'', if cs = [] then JNull else JArray (map jint cs))])"
| "writeInventoryError HoldExpired = writeError 409 ''HOLD_EXPIRED'' ''the hold has expired''"
| "writeInventoryError TooManySeats = writeError 422 ''too_many_seats'' ''too many seats requested in one hold''"
| "writeInventoryError DuplicateSeat = writeError 422 ''duplicate_seat'' ''duplicate seat in request''"
| "writeInventoryError NoContiguousSeats =
     writeError 409 ''no_contiguous_seats'' ''no contiguous seats available for that quantity/price''"
| "writeInventoryError _ = writeError 500 ''internal'' ''internal error''"

subsection \<open>createHold\<close>

record createHoldRequest =
  SeatOrdinals :: "int list"
  Quantity :: int
  MaxPriceCents :: int
  BestAvailableFlag :: bool

definition hold_request_fields :: "string list" where
  "hold_request_fields = [''seatOrdinals'', ''quantity'', ''maxPriceCents'', ''bestAvailable'']"

definition decode_hold_request :: "string \<Rightarrow> createHoldRequest option" where
  "decode_hold_request body =
     (case Decode_json body of None \<Rightarrow> None | Some v \<Rightarrow>
     (case members_of v of None \<Rightarrow> None | Some ms \<Rightarrow>
        (let (ords, ok1) = assign_all (ints_into 32) [] (assigned hold_request_fields ''seatOrdinals'' ms);
             (q, ok2) = assign_all (int_into 64) 0 (assigned hold_request_fields ''quantity'' ms);
             (mx, ok3) = assign_all (int_into 32) 0 (assigned hold_request_fields ''maxPriceCents'' ms);
             (best, ok4) = assign_all bool_into False (assigned hold_request_fields ''bestAvailable'' ms)
         in if ok1 \<and> ok2 \<and> ok3 \<and> ok4
            then Some \<lparr>SeatOrdinals = ords, Quantity = q, MaxPriceCents = mx, BestAvailableFlag = best\<rparr> else None)))"

definition resolveOrdinals :: "env \<Rightarrow> int \<Rightarrow> int list \<Rightarrow> ('l, 'p) world \<Rightarrow> (error + int list) \<times> ('l, 'p) world" where
  "resolveOrdinals E ev ordinals w =
     (if ordinals = [] then (Inl (OtherError ''seatOrdinals must not be empty''), w)
      else
        (case exec E (q_GetSeatIDsByOrdinals ev ordinals) w of
           (Inl e, w') \<Rightarrow> (Inl e, w')
         | (Inr rows, w') \<Rightarrow>
             if length rows \<noteq> length ordinals
             then (Inl (OtherError ''one or more seatOrdinals do not exist for this event''), w')
             else (Inr (map fst rows), w')))"

definition seat_json :: "int \<Rightarrow> int \<Rightarrow> int \<Rightarrow> json" where
  "seat_json seat ord price = JObject [(''seatId'', jint seat), (''seatOrdinal'', jint ord), (''priceCents'', jint price)]"

definition holdResponse :: "env \<Rightarrow> web \<Rightarrow> time \<Rightarrow> hold \<Rightarrow> json" where
  "holdResponse E B t h =
     JObject [(''holdId'', JString (uuid_text E (h_id h))), (''eventId'', jint (h_event h)),
       (''seats'', JArray (map (\<lambda>s. seat_json (hs_seat s) (hs_ordinal s) (hs_price s)) (h_seats h))),
       (''expiresAt'', JString (wb_fmt B (h_expires h))), (''serverTime'', JString (wb_fmt B t)),
       (''totalCents'', jint (sum_list (map hs_price (h_seats h)))),
       (''fenceTokens'', JObject (map (\<lambda>s. (show_int (hs_seat s), JString (show_int (hs_fence s)))) (h_seats h)))]"

definition writeHoldResultOrError :: "env \<Rightarrow> web \<Rightarrow> time \<Rightarrow> error + hold \<Rightarrow> response" where
  "writeHoldResultOrError E B t r =
     (case r of Inl e \<Rightarrow> writeInventoryError e | Inr h \<Rightarrow> writeJSON 201 (holdResponse E B t h))"

definition record_attempt :: "time \<Rightarrow> time \<Rightarrow> error + hold \<Rightarrow> hold_metrics option \<Rightarrow> hold_metrics option" where
  "record_attempt start finish r m =
     map_option (Record ((finish - start) * 1000) (case r of Inl e \<Rightarrow> isSystemError e | Inr _ \<Rightarrow> False)) m"

definition createHold ::
    "env \<Rightarrow> web \<Rightarrow> 'l service \<Rightarrow> string \<Rightarrow> string option \<Rightarrow> string \<Rightarrow> hold_metrics option \<Rightarrow> ('l, 'p) world
     \<Rightarrow> response \<times> hold_metrics option \<times> ('l, 'p) world" where
  "createHold E B S eventID claims body m w =
     (case ParseInt eventID of
        None \<Rightarrow> (invalid_event, m, w)
      | Some ev \<Rightarrow>
     (case claims of
        None \<Rightarrow> (unauthorized, m, w)
      | Some sub \<Rightarrow>
     (case decode_hold_request body of
        None \<Rightarrow> (writeError 400 ''invalid_body'' ''malformed JSON body'', m, w)
      | Some req \<Rightarrow>
     if BestAvailableFlag req
     then (case BestAvailable E S ev (Quantity req) (MaxPriceCents req) sub w of
             (r, w') \<Rightarrow> (writeHoldResultOrError E B (now E w') r, record_attempt (now E w) (now E w') r m, w'))
     else
       (case resolveOrdinals E ev (SeatOrdinals req) w of
          (Inl e, w1) \<Rightarrow> (writeError 400 ''invalid_seats'' (error_text E e), m, w1)
        | (Inr seatIDs, w1) \<Rightarrow>
            (case AcquireHold E S ev seatIDs sub w1 of
               (r, w') \<Rightarrow> (writeHoldResultOrError E B (now E w') r, record_attempt (now E w) (now E w') r m, w'))))))"

text \<open>\<open>POST .../holds\<close> as the router mounts it: behind the waiting room when there is one.\<close>

definition post_holds ::
    "env \<Rightarrow> web \<Rightarrow> (bytes \<Rightarrow> bytes \<Rightarrow> bytes) \<Rightarrow> string option \<Rightarrow> 'l service \<Rightarrow> string \<Rightarrow> string option \<Rightarrow> string \<Rightarrow> string
     \<Rightarrow> hold_metrics option \<Rightarrow> ('l, 'p) world \<Rightarrow> response \<times> hold_metrics option \<times> ('l, 'p) world" where
  "post_holds E B hmac room S eventID claims token body m w =
     (case (case room of None \<Rightarrow> None | Some secret \<Rightarrow> RequireAdmission hmac secret (now E w) eventID claims token) of
        Some r \<Rightarrow> (r, m, w)
      | None \<Rightarrow> createHold E B S eventID claims body m w)"

subsection \<open>getHold, deleteHold, extendHold\<close>

definition invalid_hold :: response where
  "invalid_hold = writeError 400 ''invalid_id'' ''holdID must be a UUID''"

definition gone :: response where
  "gone = writeError 410 ''gone'' ''hold not found or already released/confirmed''"

text \<open>A NULL timestamp reads as the zero time.\<close>

definition go_time :: "time option \<Rightarrow> time" where
  "go_time x = (case x of None \<Rightarrow> zero_time | Some t \<Rightarrow> t)"

definition hold_price_of :: "event_seat \<Rightarrow> int" where
  "hold_price_of r = (case es_hold_price r of None \<Rightarrow> 0 | Some p \<Rightarrow> p)"

definition getHold ::
    "env \<Rightarrow> web \<Rightarrow> string \<Rightarrow> string option \<Rightarrow> ('l, 'p) world \<Rightarrow> response \<times> ('l, 'p) world" where
  "getHold E B holdID claims w =
     (case wb_uuid B holdID of
        None \<Rightarrow> (invalid_hold, w)
      | Some h \<Rightarrow>
     (case claims of
        None \<Rightarrow> (unauthorized, w)
      | Some sub \<Rightarrow>
     (case exec E (q_GetSeatsByHoldID h) w of
        (Inl e, w1) \<Rightarrow> (writeError 500 ''internal'' ''lookup failed'', w1)
      | (Inr [], w1) \<Rightarrow> (gone, w1)
      | (Inr (r # rs), w1) \<Rightarrow>
          if pg_string (es_held_by r) \<noteq> sub then (gone, w1)
          else
            (let expiresAt = go_time (es_expires r); left = expiresAt - now E w1;
                 remaining = (if left < 0 then 0 else left div 1000000) in
             (writeJSON 200 (JObject [(''holdId'', JString (uuid_text E h)), (''eventId'', jint (es_event r)),
                (''status'', JString ''HELD''), (''expiresAt'', JString (wb_fmt B expiresAt)),
                (''secondsRemaining'', jint remaining),
                (''seats'', JArray (map (\<lambda>x. seat_json (es_seat x) (es_ordinal x) (hold_price_of x)) (r # rs))),
                (''totalCents'', jint (sum_list (map hold_price_of (r # rs))))]), w1)))))"

definition deleteHold ::
    "env \<Rightarrow> web \<Rightarrow> 'l service \<Rightarrow> string \<Rightarrow> string option \<Rightarrow> ('l, 'p) world \<Rightarrow> response \<times> ('l, 'p) world" where
  "deleteHold E B S holdID claims w =
     (case wb_uuid B holdID of
        None \<Rightarrow> (invalid_hold, w)
      | Some h \<Rightarrow>
     (case claims of
        None \<Rightarrow> (unauthorized, w)
      | Some sub \<Rightarrow>
     (case exec E (q_GetSeatsByHoldID h) w of
        (Inl e, w1) \<Rightarrow> (writeError 500 ''internal'' ''lookup failed'', w1)
      | (Inr [], w1) \<Rightarrow> (statusOnly 204, w1)
      | (Inr (r # rs), w1) \<Rightarrow>
          if pg_string (es_held_by r) \<noteq> sub then (statusOnly 204, w1)
          else
            (case ReleaseHold E S (es_event r) (map es_seat (r # rs)) h sub w1 of
               (Inl e, w2) \<Rightarrow> (writeError 500 ''internal'' ''release failed'', w2)
             | (Inr _, w2) \<Rightarrow> (statusOnly 204, w2)))))"

text \<open>A body that does not decode leaves what it had assigned; nothing assigned means the default.\<close>

definition extend_seconds :: "string \<Rightarrow> int" where
  "extend_seconds body =
     (case Decode_json body of None \<Rightarrow> 0 | Some v \<Rightarrow>
     (case members_of v of None \<Rightarrow> 0 | Some ms \<Rightarrow>
        fst (assign_all (int_into 64) 0 (assigned [''extendSeconds''] ''extendSeconds'' ms))))"

definition extend_duration :: "string \<Rightarrow> int" where
  "extend_duration body =
     (if extend_seconds body > 0 then sint (word_of_int (extend_seconds body * 1000000000) :: 64 word)
      else 180 * 1000000000)"

definition extendHold ::
    "env \<Rightarrow> web \<Rightarrow> string \<Rightarrow> string option \<Rightarrow> string \<Rightarrow> ('l, 'p) world \<Rightarrow> response \<times> ('l, 'p) world" where
  "extendHold E B holdID claims body w =
     (case wb_uuid B holdID of
        None \<Rightarrow> (invalid_hold, w)
      | Some h \<Rightarrow>
     (case claims of
        None \<Rightarrow> (unauthorized, w)
      | Some sub \<Rightarrow>
     (case exec E (q_GetSeatsByHoldID h) w of
        (Inl e, w1) \<Rightarrow> (writeError 500 ''internal'' ''lookup failed'', w1)
      | (Inr [], w1) \<Rightarrow> (gone, w1)
      | (Inr (r # rs), w1) \<Rightarrow>
          if pg_string (es_held_by r) \<noteq> sub then (gone, w1)
          else
            (case ExtendHold E (es_event r) (map es_seat (r # rs)) h (extend_duration body) w1 of
               (Inl e, w2) \<Rightarrow> (writeInventoryError e, w2)
             | (Inr _, w2) \<Rightarrow>
                 (case exec E (q_GetSeatsByHoldID h) w2 of
                    (Inl e, w3) \<Rightarrow> (writeError 500 ''internal'' ''post-extend lookup failed'', w3)
                  | (Inr [], w3) \<Rightarrow> (writeError 500 ''internal'' ''post-extend lookup failed'', w3)
                  | (Inr (x # xs), w3) \<Rightarrow>
                      (writeJSON 200 (JObject [(''expiresAt'', JString (wb_fmt B (go_time (es_expires x)))),
                                               (''serverTime'', JString (wb_fmt B (now E w3)))]), w3))))))"

subsection \<open>orders.go\<close>

fun status_text :: "order_status \<Rightarrow> string" where
  "status_text Pending = ''PENDING''"
| "status_text Authorizing = ''AUTHORIZING''"
| "status_text Confirming = ''CONFIRMING''"
| "status_text Confirmed = ''CONFIRMED''"
| "status_text Ticketed = ''TICKETED''"
| "status_text Failed = ''FAILED''"
| "status_text Compensated = ''COMPENSATED''"

definition decode_order_request :: "string \<Rightarrow> string option" where
  "decode_order_request body =
     (case Decode_json body of None \<Rightarrow> None | Some v \<Rightarrow>
     (case members_of v of None \<Rightarrow> None | Some ms \<Rightarrow>
        (case assign_all string_into [] (assigned [''holdId''] ''holdId'' ms) of
           (s, ok) \<Rightarrow> if ok then Some s else None)))"

text \<open>The third component is the order whose saga the handler starts in the background.\<close>

definition createOrder ::
    "env \<Rightarrow> web \<Rightarrow> string option \<Rightarrow> string \<Rightarrow> ('l, 'p) world \<Rightarrow> response \<times> uuid option \<times> ('l, 'p) world" where
  "createOrder E B claims body w =
     (case claims of
        None \<Rightarrow> (unauthorized, None, w)
      | Some sub \<Rightarrow>
     (case decode_order_request body of
        None \<Rightarrow> (writeError 400 ''invalid_body'' ''malformed JSON body'', None, w)
      | Some hold \<Rightarrow>
     (case wb_uuid B hold of
        None \<Rightarrow> (writeError 400 ''invalid_hold_id'' ''holdId must be a UUID'', None, w)
      | Some h \<Rightarrow>
     (case CreateOrder E h sub w of
        (Inl e, w') \<Rightarrow>
          ((if e = HoldNotFound then writeError 410 ''gone'' ''hold not found or already released''
            else if e = NotHoldOwner then writeError 403 ''forbidden'' ''caller does not own this hold''
            else writeError 500 ''internal'' ''create order failed''), None, w')
      | (Inr i, w') \<Rightarrow>
          (writeJSON 202 (JObject [(''orderId'', JString (uuid_text E i)), (''status'', JString ''PENDING''),
                                   (''pollAfterMs'', jint 500)]), Some i, w')))))"

definition order_not_found :: response where
  "order_not_found = writeError 404 ''not_found'' ''order not found''"

definition getOrder ::
    "env \<Rightarrow> web \<Rightarrow> string option \<Rightarrow> string \<Rightarrow> ('l, 'p) world \<Rightarrow> response \<times> ('l, 'p) world" where
  "getOrder E B claims orderID w =
     (case claims of
        None \<Rightarrow> (unauthorized, w)
      | Some sub \<Rightarrow>
     (case wb_uuid B orderID of
        None \<Rightarrow> (writeError 400 ''invalid_id'' ''orderID must be a UUID'', w)
      | Some i \<Rightarrow>
     (case exec E (q_GetOrder i) w of
        (Inl e, w') \<Rightarrow> (order_not_found, w')
      | (Inr r, w') \<Rightarrow>
          if ord_user r \<noteq> sub then (order_not_found, w')
          else (writeJSON 200 (JObject [(''orderId'', JString (uuid_text E (ord_id r))),
                  (''status'', JString (status_text (ord_status r))), (''seatIds'', JArray (map jint (ord_seats r))),
                  (''amountCents'', jint (ord_amount r)), (''reallocated'', JBool (ord_reallocated r)),
                  (''failureCode'', JString (pg_string (ord_failure_code r)))]), w'))))"

subsection \<open>ticketing.go\<close>

definition ticket_not_found :: response where
  "ticket_not_found = writeError 404 ''not_found'' ''ticket not found''"

definition getTicketQR ::
    "env \<Rightarrow> web \<Rightarrow> ticketing \<Rightarrow> string \<Rightarrow> string option \<Rightarrow> ('l, 'p) world \<Rightarrow> response \<times> ('l, 'p) world" where
  "getTicketQR E B T ticketID claims w =
     (case wb_uuid B ticketID of
        None \<Rightarrow> (writeError 400 ''invalid_id'' ''ticketID must be a UUID'', w)
      | Some i \<Rightarrow>
     (case claims of
        None \<Rightarrow> (unauthorized, w)
      | Some sub \<Rightarrow>
     (case exec E (q_GetTicket i) w of
        (Inl e, w1) \<Rightarrow> (ticket_not_found, w1)
      | (Inr tk, w1) \<Rightarrow>
     (case exec E (q_GetOrder (tk_order tk)) w1 of
        (Inl e, w2) \<Rightarrow> (ticket_not_found, w2)
      | (Inr r, w2) \<Rightarrow>
          if ord_user r \<noteq> sub then (ticket_not_found, w2)
          else
            (case PresignQR E T i w2 of
               (Inl e, w3) \<Rightarrow> (writeError 500 ''internal'' ''presign failed'', w3)
             | (Inr (url, expiresAt), w3) \<Rightarrow>
                 (writeJSON 200 (JObject [(''url'', JString url), (''expiresAt'', JString (wb_fmt B expiresAt))]), w3))))))"

definition decode_redeem_request :: "string \<Rightarrow> string option" where
  "decode_redeem_request body =
     (case Decode_json body of None \<Rightarrow> None | Some v \<Rightarrow>
     (case members_of v of None \<Rightarrow> None | Some ms \<Rightarrow>
        (case assign_all string_into [] (assigned [''token''] ''token'' ms) of
           (s, ok) \<Rightarrow> if ok \<and> s \<noteq> [] then Some s else None)))"

definition redeemGate ::
    "env \<Rightarrow> web \<Rightarrow> ticketing \<Rightarrow> string \<Rightarrow> ('l, 'p) world \<Rightarrow> response \<times> ('l, 'p) world" where
  "redeemGate E B T body w =
     (case decode_redeem_request body of
        None \<Rightarrow> (writeError 400 ''invalid_body'' ''malformed request'', w)
      | Some token \<Rightarrow>
          (case Redeem E (wb_uuid B) T token w of
             (Inr _, w') \<Rightarrow> (writeJSON 200 (JObject [(''status'', JString ''redeemed'')]), w')
           | (Inl e, w') \<Rightarrow>
               ((if e = AlreadyRedeemed then writeError 409 ''already_redeemed'' ''ticket already redeemed or revoked''
                 else if e = BadSignature \<or> e = Malformed then writeError 403 ''bad_signature'' ''invalid or tampered ticket''
                 else writeError 500 ''internal'' ''redeem failed''), w')))"

subsection \<open>What a stranger sees\<close>

lemma writeError_status [simp]: "rs_status (writeError n c m) = n" and writeJSON_status [simp]: "rs_status (writeJSON n v) = n"
  and statusOnly_status [simp]: "rs_status (statusOnly n) = n"
  by (simp_all add: writeError_def writeJSON_def statusOnly_def)

lemma hold_rows:
  "\<forall>n. fate_of E n = Done \<Longrightarrow>
   exec E (q_GetSeatsByHoldID h) w = (Inr (sort_key es_seat (filter (\<lambda>r. es_hold r = Some h) (t_seats (w_db w)))), tick w)"
  by (simp add: exec_Done q_GetSeatsByHoldID_def tick_def)

lemma order_lookup:
  "\<forall>n. fate_of E n = Done \<Longrightarrow>
   exec E (q_GetOrder i) w = (fst (q_GetOrder i (now E w) (w_db w)), tick w)"
  by (simp add: exec_Done q_GetOrder_def tick_def)

lemma GetOrder_id: "fst (q_GetOrder i t d) = Inr r \<Longrightarrow> r \<in> set (t_orders d) \<and> ord_id r = i"
  by (auto simp: q_GetOrder_def split: list.splits dest: filter_eq_ConsD)

text \<open>Rows of a hold that none of which is the caller's.\<close>

definition strangers_hold :: "db \<Rightarrow> uuid \<Rightarrow> string \<Rightarrow> bool" where
  "strangers_hold d h sub \<longleftrightarrow> (\<forall>r \<in> set (t_seats d). es_hold r = Some h \<longrightarrow> pg_string (es_held_by r) \<noteq> sub)"

lemma strangers_first:
  "strangers_hold d h sub \<Longrightarrow> sort_key es_seat (filter (\<lambda>r. es_hold r = Some h) (t_seats d)) = r # rs \<Longrightarrow>
   pg_string (es_held_by r) \<noteq> sub"
proof -
  assume s: "strangers_hold d h sub" and e: "sort_key es_seat (filter (\<lambda>r. es_hold r = Some h) (t_seats d)) = r # rs"
  have "r \<in> set (sort_key es_seat (filter (\<lambda>r. es_hold r = Some h) (t_seats d)))" by (simp add: e)
  with s show ?thesis by (simp add: strangers_hold_def)
qed

lemma strangers_hold_routes:
  assumes "\<forall>n. fate_of E n = Done" and "wb_uuid B hid = Some h" and "strangers_hold (w_db w) h sub"
  shows "fst (getHold E B hid (Some sub) w) = gone \<and> w_db (snd (getHold E B hid (Some sub) w)) = w_db w"
    and "fst (deleteHold E B S hid (Some sub) w) = statusOnly 204 \<and> w_db (snd (deleteHold E B S hid (Some sub) w)) = w_db w"
    and "fst (extendHold E B hid (Some sub) body w) = gone \<and> w_db (snd (extendHold E B hid (Some sub) body w)) = w_db w"
proof -
  let ?rows = "sort_key es_seat (filter (\<lambda>r. es_hold r = Some h) (t_seats (w_db w)))"
  have first: "\<And>r rs. ?rows = r # rs \<Longrightarrow> pg_string (es_held_by r) \<noteq> sub" using strangers_first [OF assms(3)] .
  note rows = hold_rows [OF assms(1), of h w] assms(2) first
  show "fst (getHold E B hid (Some sub) w) = gone \<and> w_db (snd (getHold E B hid (Some sub) w)) = w_db w"
    using rows by (cases ?rows) (simp_all add: getHold_def tick_def)
  show "fst (deleteHold E B S hid (Some sub) w) = statusOnly 204 \<and> w_db (snd (deleteHold E B S hid (Some sub) w)) = w_db w"
    using rows by (cases ?rows) (simp_all add: deleteHold_def tick_def)
  show "fst (extendHold E B hid (Some sub) body w) = gone \<and> w_db (snd (extendHold E B hid (Some sub) body w)) = w_db w"
    using rows by (cases ?rows) (simp_all add: extendHold_def tick_def)
qed

lemma strangers_order:
  assumes "\<forall>n. fate_of E n = Done" and "wb_uuid B oid = Some i"
    and "\<forall>r \<in> set (t_orders (w_db w)). ord_id r = i \<longrightarrow> ord_user r \<noteq> sub"
  shows "fst (getOrder E B (Some sub) oid w) = order_not_found \<and> w_db (snd (getOrder E B (Some sub) oid w)) = w_db w"
proof (cases "fst (q_GetOrder i (now E w) (w_db w))")
  case (Inr r)
  with GetOrder_id [OF Inr] assms show ?thesis by (simp add: getOrder_def order_lookup [OF assms(1)] tick_def)
qed (use assms in \<open>simp add: getOrder_def order_lookup [OF assms(1)] tick_def\<close>)

lemma strangers_ticket:
  assumes "\<forall>n. fate_of E n = Done" and "wb_uuid B tid = Some k"
    and "\<forall>tk \<in> set (t_tickets (w_db w)). tk_id tk = k \<longrightarrow>
        (\<forall>r \<in> set (t_orders (w_db w)). ord_id r = tk_order tk \<longrightarrow> ord_user r \<noteq> sub)"
  shows "fst (getTicketQR E B T tid (Some sub) w) = ticket_not_found \<and> w_db (snd (getTicketQR E B T tid (Some sub) w)) = w_db w"
proof -
  have x: "exec E (q_GetTicket k) w = (fst (q_GetTicket k (now E w) (w_db w)), tick w)"
    using assms(1) by (simp add: exec_Done q_GetTicket_def tick_def)
  show ?thesis
  proof (cases "fst (q_GetTicket k (now E w) (w_db w))")
    case (Inl e)
    with assms(2) x show ?thesis by (simp add: getTicketQR_def tick_def)
  next
    case (Inr tk)
    then have tk: "tk \<in> set (t_tickets (w_db w))" "tk_id tk = k"
      by (auto simp: q_GetTicket_def split: list.splits dest: filter_eq_ConsD)
    show ?thesis
    proof (cases "fst (q_GetOrder (tk_order tk) (now E (tick w)) (w_db (tick w)))")
      case (Inl e)
      with assms(2) x Inr show ?thesis by (simp add: getTicketQR_def order_lookup [OF assms(1)] tick_def)
    next
      case r: (Inr r)
      then have "ord_user r \<noteq> sub" using GetOrder_id [OF r] tk assms(3) by (auto simp: tick_def)
      with assms(2) x Inr r show ?thesis by (simp add: getTicketQR_def order_lookup [OF assms(1)] tick_def)
    qed
  qed
qed

subsection \<open>What a 201 means\<close>

definition granted :: "db \<Rightarrow> int \<Rightarrow> string \<Rightarrow> hold \<Rightarrow> bool" where
  "granted d ev sub h \<longleftrightarrow> h_event h = ev \<and> h_seats h \<noteq> []
   \<and> (\<forall>s \<in> set (h_seats h). \<exists>r \<in> set (t_seats d).
        seat_key r = (ev, hs_seat s) \<and> es_ordinal r = hs_ordinal s \<and> es_status r = 1 \<and> es_hold r = Some (h_id h)
      \<and> es_held_by r = Some sub \<and> es_hold_price r = Some (hs_price s) \<and> es_fence r = hs_fence s)"

lemma hold_effect_granted:
  assumes "hold_effect t ev ids h sub ttl rows d d'" and "ids \<noteq> []"
  shows "granted d' ev sub (hold_of ev h rows)"
proof -
  have "\<exists>r \<in> set (t_seats d'). seat_key r = (ev, ar_seat a) \<and> es_ordinal r = ar_ordinal a \<and> es_status r = 1
      \<and> es_hold r = Some h \<and> es_held_by r = Some sub \<and> es_hold_price r = Some (ar_price a) \<and> es_fence r = ar_fence a"
    if a: "a \<in> set rows" for a
  proof -
    obtain r where r: "r \<in> set (t_seats d)" "acquirable t ev ids r" "a = acquired_of t ttl r"
      using assms(1) a by (auto simp: hold_effect_def)
    then have "set_held t h sub ttl r \<in> set (t_seats d')" using assms(1) by (auto simp: hold_effect_def set_update_where)
    with r show ?thesis
      by (intro bexI [of _ "set_held t h sub ttl r"]) (simp_all add: seat_key_def acquired_of_def set_held_def acquirable_def)
  qed
  moreover have "length rows = length ids" using assms(1) unfolding hold_effect_def by blast
  ultimately show ?thesis using assms(2) by (auto simp: granted_def hold_of_def held_seat_of_def)
qed

lemma AcquireHold_granted: "AcquireHold E S ev ids sub w = (Inr h, w') \<Longrightarrow> granted (w_db w') ev sub h"
  by (erule AcquireHold_cases) (auto intro: hold_effect_granted)

lemma AcquireHold_refused:
  "AcquireHold E S ev ids sub w = (Inl e, w') \<Longrightarrow> \<forall>k. fate_of E k \<noteq> Ambiguous \<Longrightarrow> t_seats (w_db w') = t_seats (w_db w)"
  by (erule AcquireHold_cases) (auto simp: audit_only_tables)

lemma try_runs_refused:
  "try_runs E S ev rs sub w = (Inl e, w') \<Longrightarrow> \<forall>k. fate_of E k \<noteq> Ambiguous \<Longrightarrow> t_seats (w_db w') = t_seats (w_db w)"
proof (induction rs arbitrary: w)
  case (Cons x rs)
  obtain ra wa where a: "AcquireHold E S ev x sub w = (ra, wa)" by (meson surj_pair)
  show ?case
    using Cons AcquireHold_refused [of E S ev x sub w _ wa] by (auto simp: a split: sum.splits if_splits)
qed simp

lemma BestAvailable_refused:
  assumes "BestAvailable E S ev q maxp sub w = (Inl e, w')" and "\<forall>k. fate_of E k \<noteq> Ambiguous"
  shows "t_seats (w_db w') = t_seats (w_db w)"
proof -
  obtain rx wx where x: "exec E (q_ListAvailableForBestAvailable ev maxp) w = (rx, wx)" by (meson surj_pair)
  then have "t_seats (w_db wx) = t_seats (w_db w)"
    by (rule exec_cases) (simp_all add: q_ListAvailableForBestAvailable_def)
  then show ?thesis
    using assms x try_runs_refused [OF _ assms(2), of S ev _ sub wx e w']
    by (auto simp: BestAvailable_def Let_def split: if_splits sum.splits)
qed

lemma resolveOrdinals_seats: "resolveOrdinals E ev ords w = (r, w') \<Longrightarrow> t_seats (w_db w') = t_seats (w_db w)"
proof -
  assume r: "resolveOrdinals E ev ords w = (r, w')"
  obtain rx wx where x: "exec E (q_GetSeatIDsByOrdinals ev ords) w = (rx, wx)" by (meson surj_pair)
  then have "t_seats (w_db wx) = t_seats (w_db w)" by (rule exec_cases) (simp_all add: q_GetSeatIDsByOrdinals_def)
  with r x show ?thesis by (auto simp: resolveOrdinals_def split: if_splits sum.splits)
qed

lemma writeHoldResult_status: "rs_status (writeHoldResultOrError E B t r) = 201 \<longleftrightarrow> (\<exists>h. r = Inr h)"
proof (cases r)
  case (Inl e)
  then show ?thesis by (cases e) (simp_all add: writeHoldResultOrError_def)
qed (simp add: writeHoldResultOrError_def)

text \<open>What an answer of the route says about the world it leaves.\<close>

definition hold_answer :: "env \<Rightarrow> web \<Rightarrow> int \<Rightarrow> string \<Rightarrow> response \<Rightarrow> ('l, 'p) world \<Rightarrow> ('l, 'p) world \<Rightarrow> bool" where
  "hold_answer E B ev sub rs w w' \<longleftrightarrow>
     (if rs_status rs = 201 then \<exists>h. rs_body rs = JsonBody (holdResponse E B (now E w') h) \<and> granted (w_db w') ev sub h
      else (\<forall>k. fate_of E k \<noteq> Ambiguous) \<longrightarrow> t_seats (w_db w') = t_seats (w_db w))"

lemma hold_answer_result:
  assumes "\<And>h. r = Inr h \<Longrightarrow> granted (w_db w') ev sub h"
    and "\<And>e. r = Inl e \<Longrightarrow> \<forall>k. fate_of E k \<noteq> Ambiguous \<Longrightarrow> t_seats (w_db w') = t_seats (w_db w)"
  shows "hold_answer E B ev sub (writeHoldResultOrError E B (now E w') r) w w'"
proof (cases r)
  case (Inl e)
  then show ?thesis using assms(2) writeHoldResult_status [of E B "now E w'" r] by (simp add: hold_answer_def)
next
  case (Inr h)
  then show ?thesis using assms(1) by (auto simp: hold_answer_def writeHoldResultOrError_def writeJSON_def)
qed

lemma createHold_answer:
  assumes "createHold E B S eventID (Some sub) body m w = (rs, m', w')" and "ParseInt eventID = Some ev"
  shows "hold_answer E B ev sub rs w w'"
proof (cases "decode_hold_request body")
  case None
  then show ?thesis using assms by (auto simp: createHold_def hold_answer_def)
next
  case (Some req)
  show ?thesis
  proof (cases "BestAvailableFlag req")
    case True
    obtain r wa where b: "BestAvailable E S ev (Quantity req) (MaxPriceCents req) sub w = (r, wa)" by (meson surj_pair)
    have "hold_answer E B ev sub (writeHoldResultOrError E B (now E wa) r) w wa"
      by (rule hold_answer_result) (use b BestAvailable_refused in \<open>auto elim!: BestAvailable_success intro: AcquireHold_granted\<close>)
    then show ?thesis using assms Some True b by (auto simp: createHold_def)
  next
    case False
    obtain ro w1 where o: "resolveOrdinals E ev (SeatOrdinals req) w = (ro, w1)" by (meson surj_pair)
    have s: "t_seats (w_db w1) = t_seats (w_db w)" by (rule resolveOrdinals_seats [OF o])
    show ?thesis
    proof (cases ro)
      case (Inl e)
      then show ?thesis using assms Some False o s by (auto simp: createHold_def hold_answer_def)
    next
      case (Inr ids)
      obtain r wa where a: "AcquireHold E S ev ids sub w1 = (r, wa)" by (meson surj_pair)
      have "hold_answer E B ev sub (writeHoldResultOrError E B (now E wa) r) w wa"
        by (rule hold_answer_result) (use a s in \<open>auto dest: AcquireHold_refused intro: AcquireHold_granted\<close>)
      then show ?thesis using assms Some False o Inr a by (auto simp: createHold_def)
    qed
  qed
qed

lemma createHold_no_auth:
  "ParseInt eventID = None \<or> claims = None \<Longrightarrow> createHold E B S eventID claims body m w = (rs, m', w') \<Longrightarrow>
   rs_status rs \<noteq> 201 \<and> w' = w"
  by (auto simp: createHold_def invalid_event_def unauthorized_def split: option.splits)

lemma system_error_is_500: "isSystemError e \<longleftrightarrow> rs_status (writeInventoryError e) = 500"
  by (cases e) simp_all

lemma admission_status:
  "RequireAdmission hmac secret t eventID claims token = Some rs \<Longrightarrow> rs_status rs \<noteq> 201"
  by (auto simp: RequireAdmission_def httpError_def split: option.splits if_splits)

lemma admission_passed:
  "RequireAdmission hmac secret t eventID claims token = None \<longleftrightarrow>
   (\<exists>ev sub. ParseInt eventID = Some ev \<and> claims = Some sub \<and> token \<noteq> [] \<and> VerifyToken hmac secret t token sub ev = None)"
  by (auto simp: RequireAdmission_def split: option.splits if_splits)

subsection \<open>Properties\<close>


definition sample_web :: web where
  "sample_web = \<lparr>wb_fmt = show_int, wb_uuid = parse_decimal, wb_url = (\<lambda>b k. b @ ''/'' @ k)\<rparr>"



text \<open>Ann asks for the first two seats of event 1; no waiting room is configured.\<close>

definition hold_request :: string where
  "hold_request = render (JObject [(''seatOrdinals'', JArray [JNumber ''0'', JNumber ''1''])])"


end
