(* ===== verification/Wshub.thy ===== *)
theory Wshub
  imports Http Projector
begin

section \<open>internal/wshub: live connections\<close>

text \<open>
  \<open>wshub.go\<close>: a connection is registered with the one subscription of its event, gets a snapshot or a
  gap fill, then the deltas fanned out to it through a buffered channel. Goroutines are steps
  that may interleave: \<open>pump\<close> is one message of \<open>pumpRedis\<close>, \<open>write_step\<close> one turn of \<open>writeLoop\<close>. Whether
  the socket accepts a write, a random disconnect and the upgrade are inputs. Pings and read
  deadlines, which only close the socket, are the input of \<open>hang_up\<close>.
\<close>

subsection \<open>Connections and subscriptions\<close>

definition FrameSizeCap :: nat where "FrameSizeCap = 128 * 1024"
definition sendBuffer :: nat where "sendBuffer = 64"

record conn =
  cn_id :: uuid
  cn_event :: int
  cn_send :: "bytes list"
  cn_lastSeq :: "64 word"
  cn_out :: "bytes list" \<comment> \<open>what was written to the socket\<close>
  cn_open :: bool

type_synonym hub_subs = "int \<Rightarrow> conn list option"

definition new_conn :: "uuid \<Rightarrow> int \<Rightarrow> conn" where
  "new_conn i ev = \<lparr>cn_id = i, cn_event = ev, cn_send = [], cn_lastSeq = 0, cn_out = [], cn_open = True\<rparr>"

definition subscribe :: "int \<Rightarrow> conn \<Rightarrow> hub_subs \<Rightarrow> hub_subs" where
  "subscribe ev c subs = subs(ev \<mapsto> (case subs ev of None \<Rightarrow> [c] | Some cs \<Rightarrow> cs @ [c]))"

text \<open>The subscription ends with its last connection. Errors of the query are logged and dropped.\<close>

definition unsubscribe :: "env \<Rightarrow> int \<Rightarrow> uuid \<Rightarrow> hub_subs \<Rightarrow> ('s, 'p) world \<Rightarrow> hub_subs \<times> ('s, 'p) world" where
  "unsubscribe E ev i subs w =
     (case exec E (q_CloseWSConnection i) w of (_, w') \<Rightarrow>
        (case subs ev of
           None \<Rightarrow> (subs, w')
         | Some cs \<Rightarrow>
             (let rest = filter (\<lambda>c. cn_id c \<noteq> i) cs
              in (if rest = [] then subs(ev := None) else subs(ev \<mapsto> rest), w'))))"

text \<open>A full buffer drops the frame for that connection only.\<close>

definition enqueue :: "bytes \<Rightarrow> conn \<Rightarrow> conn" where
  "enqueue payload c = (if length (cn_send c) < sendBuffer then c\<lparr>cn_send := cn_send c @ [payload]\<rparr> else c)"

definition pump :: "int \<Rightarrow> bytes \<Rightarrow> hub_subs \<Rightarrow> hub_subs" where
  "pump ev payload subs = (case subs ev of None \<Rightarrow> subs | Some cs \<Rightarrow> subs(ev \<mapsto> map (enqueue payload) cs))"

definition write_message :: "bool \<Rightarrow> bytes \<Rightarrow> conn \<Rightarrow> conn" where
  "write_message ok frame c =
     (if \<not> ok then c\<lparr>cn_open := False\<rparr>
      else (case Decode frame of
              Inl _ \<Rightarrow> c\<lparr>cn_out := cn_out c @ [frame]\<rparr>
            | Inr f \<Rightarrow> c\<lparr>cn_out := cn_out c @ [frame], cn_lastSeq := fr_seq f\<rparr>))"

text \<open>Once the socket is closed the loop has returned.\<close>

definition write_step :: "bool \<Rightarrow> bool \<Rightarrow> conn \<Rightarrow> conn" where
  "write_step chaos ok c =
     (if \<not> cn_open c then c else case cn_send c of
        [] \<Rightarrow> c
      | frame # rest \<Rightarrow>
          (let c' = c\<lparr>cn_send := rest\<rparr> in
           if chaos then c'\<lparr>cn_open := False\<rparr>
           else if length frame > FrameSizeCap then c'
           else write_message ok frame c'))"

definition hang_up :: "conn \<Rightarrow> conn" where "hang_up c = c\<lparr>cn_open := False\<rparr>"

subsection \<open>The request\<close>

text \<open>
  \<open>fmt.Sscanf\<close> with the verb \<open>%d\<close>: leading (ASCII) blanks are skipped, the longest run of digits is
  read and what follows is ignored.
\<close>

definition scan_blank :: "char \<Rightarrow> bool" where
  "scan_blank c \<longleftrightarrow> c \<in> {CHR '' '', CHR 0x09, CHR 0x0B, CHR 0x0C, CHR 0x0D}"

definition scan_nat :: "string \<Rightarrow> nat option" where
  "scan_nat s = (let ds = takeWhile is_digit s in if ds = [] then None else Some (read_nat ds))"

definition scan_int64 :: "string \<Rightarrow> int option" where
  "scan_int64 s =
     (let t = dropWhile scan_blank s;
          neg = (t \<noteq> [] \<and> t ! 0 = CHR ''-'');
          u = (if t \<noteq> [] \<and> t ! 0 \<in> {CHR ''-'', CHR ''+''} then tl t else t) in
      case scan_nat u of
        None \<Rightarrow> None
      | Some n \<Rightarrow> (let v = (if neg then - int n else int n) in if - (2 ^ 63) \<le> v \<and> v < 2 ^ 63 then Some v else None))"

definition scan_uint64 :: "string \<Rightarrow> nat option" where
  "scan_uint64 s =
     (case scan_nat (dropWhile scan_blank s) of None \<Rightarrow> None | Some n \<Rightarrow> if n < 2 ^ 64 then Some n else None)"

definition parseEventID :: "string \<Rightarrow> int option" where
  "parseEventID s =
     (if s = [] then None else (case scan_int64 s of None \<Rightarrow> None | Some i \<Rightarrow> if i \<le> 0 then None else Some i))"

definition check_ws ::
    "'k jwt_library \<Rightarrow> time \<Rightarrow> (string \<Rightarrow> string) \<Rightarrow> 'k verifier \<Rightarrow> (response + int \<times> claims \<times> nat) \<times> 'k verifier" where
  "check_ws L t query v =
     (case parseEventID (query ''event'') of
        None \<Rightarrow> (Inl (httpError ''invalid or missing event'' 400), v)
      | Some ev \<Rightarrow>
     (case VerifyJWT L t (query ''token'') v of
        (None, v') \<Rightarrow> (Inl (httpError ''unauthorized'' 401), v')
      | (Some cl, v') \<Rightarrow>
          if query ''sinceSeq'' = [] then (Inr (ev, cl, 0), v')
          else (case scan_uint64 (query ''sinceSeq'') of
                  None \<Rightarrow> (Inl (httpError ''invalid sinceSeq'' 400), v')
                | Some n \<Rightarrow> (Inr (ev, cl, n), v'))))"

subsection \<open>Initial frames\<close>

text \<open>The frame written, if any, and the connection's last sequence number.\<close>

definition send_snapshot ::
    "env \<Rightarrow> 's store \<Rightarrow> bool \<Rightarrow> int \<Rightarrow> ordinals \<Rightarrow> ('s, 'p) world
     \<Rightarrow> (error + bytes option \<times> 64 word) \<times> ordinals \<times> ('s, 'p) world" where
  "send_snapshot E R ok ev c w =
     (case EnsureBitset E R ev w of
        (Inl e, w1) \<Rightarrow> (Inl e, c, w1)
      | (Inr (packed, seq), w1) \<Rightarrow>
     (case SeatCount E ev c w1 of
        (Inl e, c1, w2) \<Rightarrow> (Inl e, c1, w2)
      | (Inr seatCount, c1, w2) \<Rightarrow>
     (case exec E (q_GetEvent ev) w2 of
        (Inl e, w3) \<Rightarrow> (Inl e, c1, w3)
      | (Inr evt, w3) \<Rightarrow>
          (let frame = EncodeSnapshot (word_of_int (ev_layout evt)) (word_of_int ev) (of_nat seq) (of_nat seatCount) packed in
           if length frame > FrameSizeCap then (Inl (OtherError ''snapshot frame exceeds cap''), c1, w3)
           else if \<not> ok then (Inl (OtherError ''write snapshot''), c1, w3)
           else (Inr (Some frame, of_nat seq), c1, w3)))))"

definition sendInitialFrames ::
    "env \<Rightarrow> 's store \<Rightarrow> bool \<Rightarrow> int \<Rightarrow> nat \<Rightarrow> ordinals \<Rightarrow> ('s, 'p) world
     \<Rightarrow> (error + bytes option \<times> 64 word) \<times> ordinals \<times> ('s, 'p) world" where
  "sendInitialFrames E R ok ev sinceSeq c w =
     (if sinceSeq = 0 then send_snapshot E R ok ev c w
      else
        (case GapFill E R ev sinceSeq w of
           (Inl e, w1) \<Rightarrow> (Inl e, c, w1)
         | (Inr (frame, True), w1) \<Rightarrow>
             (case frame of
                None \<Rightarrow> (Inr (None, of_nat sinceSeq), c, w1)
              | Some b \<Rightarrow>
                  if \<not> ok then (Inl (OtherError ''write gap-fill frame''), c, w1)
                  else (Inr (Some b, case Decode b of Inr f \<Rightarrow> fr_seq f | Inl _ \<Rightarrow> 0), c, w1))
         | (Inr (_, False), w1) \<Rightarrow> send_snapshot E R ok ev c w1))"

definition sent_initial :: "bytes option \<times> 64 word \<Rightarrow> conn \<Rightarrow> conn" where
  "sent_initial r c = c\<lparr>cn_out := cn_out c @ (case fst r of None \<Rightarrow> [] | Some b \<Rightarrow> [b]), cn_lastSeq := snd r\<rparr>"

text \<open>
  \<open>ServeWS\<close> up to the two loops, with nothing in between: the connection is recorded (an error is
  logged and dropped), subscribed, and given its initial frames; when those fail it is
  unsubscribed at once. No response means the connection is up, or the upgrade failed.
\<close>

definition replace_conn :: "int \<Rightarrow> conn \<Rightarrow> hub_subs \<Rightarrow> hub_subs" where
  "replace_conn ev c subs = subs(ev := map_option (map (\<lambda>x. if cn_id x = cn_id c then c else x)) (subs ev))"

definition ServeWS ::
    "env \<Rightarrow> 'k jwt_library \<Rightarrow> 's store \<Rightarrow> bool \<Rightarrow> bool \<Rightarrow> (string \<Rightarrow> string) \<Rightarrow> ordinals \<Rightarrow> hub_subs \<Rightarrow> 'k verifier \<Rightarrow> ('s, 'p) world
     \<Rightarrow> response option \<times> ordinals \<times> hub_subs \<times> 'k verifier \<times> ('s, 'p) world" where
  "ServeWS E L R upgraded ok query c subs v w =
     (case check_ws L (now E w) query v of
        (Inl rs, v') \<Rightarrow> (Some rs, c, subs, v', w)
      | (Inr (ev, cl, since), v') \<Rightarrow>
          if \<not> upgraded then (None, c, subs, v', w)
          else
            (case new_uuid E w of (i, w1) \<Rightarrow>
            (case exec E (q_InsertWSConnection i ev (cl_sub cl)) w1 of (_, w2) \<Rightarrow>
            (let subs1 = subscribe ev (new_conn i ev) subs in
             case sendInitialFrames E R ok ev since c w2 of
               (Inl e, c', w3) \<Rightarrow> (case unsubscribe E ev i subs1 w3 of (subs2, w4) \<Rightarrow> (None, c', subs2, v', w4))
             | (Inr r, c', w3) \<Rightarrow> (None, c', replace_conn ev (sent_initial r (new_conn i ev)) subs1, v', w3)))))"

end
