(* ===== verification/WshubClaims.thy ===== *)
theory WshubClaims
  imports Wshub
begin

section \<open>What a connected client shows\<close>

text \<open>
  A client of \<open>/ws\<close> by the contract of \<open>wshub.go\<close> and \<open>wsproto\<close>: it starts from the initial frame, ignores
  a delta whose number it has passed, applies the next one, and asks for a resync when it sees a
  number beyond that.
\<close>

record view =
  vw_seq :: "64 word"
  vw_cells :: "32 word \<Rightarrow> 8 word"
  vw_gap :: bool

definition cells_of :: "bytes \<Rightarrow> 32 word \<Rightarrow> 8 word" where
  "cells_of packed x = (case GetSeat packed (uint x) of None \<Rightarrow> 0 | Some s \<Rightarrow> s)"

definition initial_view :: "bytes option \<Rightarrow> view \<Rightarrow> view" where
  "initial_view b k =
     (case b of
        None \<Rightarrow> k
      | Some frame \<Rightarrow>
          (case Decode frame of
             Inl _ \<Rightarrow> k
           | Inr f \<Rightarrow>
               if fr_op f = OpSnapshot then \<lparr>vw_seq = fr_seq f, vw_cells = cells_of (fr_packed f), vw_gap = False\<rparr>
               else k\<lparr>vw_seq := fr_seq f, vw_cells := apply_changes (fr_changes f) (vw_cells k)\<rparr>))"

definition receive :: "bytes \<Rightarrow> view \<Rightarrow> view" where
  "receive b k =
     (case Decode b of
        Inl _ \<Rightarrow> k
      | Inr f \<Rightarrow>
          if fr_seq f \<le> vw_seq k then k
          else if fr_seq f = vw_seq k + 1
          then k\<lparr>vw_seq := fr_seq f, vw_cells := apply_changes (fr_changes f) (vw_cells k)\<rparr>
          else k\<lparr>vw_gap := True\<rparr>)"

subsection \<open>One session\<close>

text \<open>
  The steps of one connection from its subscription on: the projector publishes a delta and the
  pump fans it out; the initial frames are sent, once; the write loop, which starts behind them, takes a
  frame. A lossless session has room in the buffer, and neither disconnects nor failed writes.
  The state is the event's history, the connection, whether the initial frames are out, and the
  client. The payment provider plays no part in a session.
\<close>

type_synonym session_state = "history \<times> conn \<times> bool \<times> view"

definition in_bitset :: "bytes \<Rightarrow> int \<times> wire_state \<Rightarrow> bool" where
  "in_bitset seeded d \<longleftrightarrow> 0 \<le> fst d \<and> fst d < 4 * int (length seeded) \<and> snd d AND 3 = snd d"

inductive session ::
    "env \<Rightarrow> 's store \<Rightarrow> int \<Rightarrow> bytes \<Rightarrow> bool \<Rightarrow> session_state \<Rightarrow> session_state \<Rightarrow> bool"
  for E :: env and R :: "'s store" and ev :: int and seeded :: bytes and lossless :: bool where
  delta: "in_bitset seeded (ord, st) \<Longrightarrow> Suc (Suc (length h)) < 2 ^ 64 \<Longrightarrow> lossless \<longrightarrow> length (cn_send c) < sendBuffer \<Longrightarrow>
      session E R ev seeded lossless (h, c, b, k) ((ord, st) # h, enqueue (ring_entry (Suc (length h)) ord st) c, b, k)"
| join: "\<forall>n. fate_of E n = Done \<Longrightarrow> read_model R ev seeded h (w_lock (w :: ('s, unit) world)) \<Longrightarrow>
      sendInitialFrames E R True ev (unat (vw_seq k)) cache w = (Inr (b, n), cache', w') \<Longrightarrow>
      session E R ev seeded lossless (h, c, False, k) (h, sent_initial (b, n) c, True, initial_view b k)"
| taken: "lossless \<longrightarrow> \<not> chaos \<and> ok \<Longrightarrow>
      session E R ev seeded lossless (h, c, True, k)
        (h, write_step chaos ok c, True, fold receive (drop (length (cn_out c)) (cn_out (write_step chaos ok c))) k)"

subsection \<open>The invariant\<close>

definition delta_no :: "history \<Rightarrow> nat \<Rightarrow> bytes" where
  "delta_no h i = (case h ! (length h - i) of (ord, st) \<Rightarrow> ring_entry i ord st)"

definition shows_at :: "bytes \<Rightarrow> history \<Rightarrow> nat \<Rightarrow> view \<Rightarrow> bool" where
  "shows_at seeded h s k \<longleftrightarrow> s \<le> length h \<and> vw_seq k = of_nat s
   \<and> (\<not> vw_gap k \<longrightarrow> vw_cells k = replay (drop (length h - s) h) (cells_of seeded))"

definition good_history :: "bytes \<Rightarrow> history \<Rightarrow> bool" where
  "good_history seeded h \<longleftrightarrow> list_all (in_bitset seeded) h \<and> Suc (length h) < 2 ^ 64"

lemma delta_no_Cons:
  "1 \<le> i \<Longrightarrow> i \<le> length h \<Longrightarrow> delta_no (d # h) i = delta_no h i"
  by (simp add: delta_no_def Suc_diff_le)

lemma delta_no_new: "delta_no ((ord, st) # h) (Suc (length h)) = ring_entry (Suc (length h)) ord st"
  by (simp add: delta_no_def)

lemma small_word: "0 \<le> i \<Longrightarrow> i < 2 ^ 30 \<Longrightarrow> uint (word_of_int i :: 32 word) = i"
  by (simp add: uint_word_of_int)

lemma in_bitset_wire:
  assumes "in_bitset seeded d" and "4 * int (length seeded) \<le> 2 ^ 30"
  shows "wire_change (change_of d)"
proof -
  have r: "0 \<le> fst d" "fst d < 2 ^ 30" using assms by (auto simp: in_bitset_def)
  have "uint (take_bit 30 (word_of_int (fst d) :: 32 word)) = uint (word_of_int (fst d) :: 32 word)"
    unfolding unsigned_take_bit_eq small_word [OF r] by (rule take_bit_int_eq_self [OF r])
  then have "(word_of_int (fst d) :: 32 word) AND mask 30 = word_of_int (fst d)"
    unfolding take_bit_eq_mask [symmetric] by (simp only: word_uint_eq_iff)
  moreover have "(mask 30 :: 32 word) = 0x3FFFFFFF" by (simp add: mask_eq_exp_minus_1)
  ultimately show ?thesis using assms(1) by (simp add: wire_change_def change_of_def in_bitset_def)
qed

lemma replay_Cons: "replay (d # h) f = (replay h f)(word_of_int (fst d) := snd d)"
  by (simp add: replay_def apply_changes_def change_of_def)

lemma cells_after:
  assumes "4 * int (length seeded) \<le> 2 ^ 30"
  shows "list_all (in_bitset seeded) h \<Longrightarrow>
    \<exists>bits. bits_after seeded h = Some bits \<and> length bits = length seeded \<and> cells_of bits = replay h (cells_of seeded)"
proof (induction h)
  case Nil
  then show ?case by (simp add: replay_def apply_changes_def)
next
  case (Cons d h)
  obtain ord st where d: "d = (ord, st)" by (cases d)
  obtain bits where b: "bits_after seeded h = Some bits" "cells_of bits = replay h (cells_of seeded)" using Cons by auto
  have r: "0 \<le> ord" "ord < 4 * int (length seeded)" "st AND 3 = st" using Cons.prems d by (auto simp: in_bitset_def)
  obtain bits' where b': "bits_after seeded (d # h) = Some bits'" "\<And>j. GetSeat bits' j = (if j = ord then Some st else GetSeat bits j)"
    using GetSeat_bits_after [OF b(1) r] d by metis
  have "cells_of bits' x = (replay (d # h) (cells_of seeded)) x" for x
  proof -
    have "uint x = ord \<longleftrightarrow> x = word_of_int ord" using r assms by (metis small_word order_less_le_trans word_of_int_uint)
    then show ?thesis using b(2) by (simp add: cells_of_def b'(2) replay_Cons d fun_upd_def) (metis cells_of_def)
  qed
  then show ?case using b'(1) bits_after_length [OF b'(1)] by auto
qed

lemma Decode_delta:
  assumes "good_history seeded h" and "4 * int (length seeded) \<le> 2 ^ 30" and "1 \<le> i" and "i \<le> length h"
  shows "Decode (delta_no h i) = Inr (sparse_frame (of_nat i) [change_of (h ! (length h - i))])"
    and "length (delta_no h i) \<le> FrameSizeCap"
proof -
  obtain ord st where d: "h ! (length h - i) = (ord, st)" by (meson surj_pair)
  have "in_bitset seeded (ord, st)" using assms by (auto simp: good_history_def list_all_length simp flip: d)
  then have "wire_change (change_of (ord, st))" using assms(2) by (rule in_bitset_wire)
  then show "Decode (delta_no h i) = Inr (sparse_frame (of_nat i) [change_of (h ! (length h - i))])"
    by (simp add: delta_no_def d ring_entry_def change_of_def Decode_EncodeSparse)
  show "length (delta_no h i) \<le> FrameSizeCap"
    by (simp add: delta_no_def d ring_entry_def EncodeSparse_def FrameSizeCap_def)
qed

text \<open>Receiving any delta of the history keeps the client right, or tells it of a gap.\<close>

lemma receive_shows:
  assumes k: "shows_at seeded h s k" and h: "good_history seeded h" and n: "4 * int (length seeded) \<le> 2 ^ 30"
    and i: "1 \<le> i" "i \<le> length h"
  shows "shows_at seeded h (if i = Suc s then i else s) (receive (delta_no h i) k)"
    and "vw_gap (receive (delta_no h i) k) \<longleftrightarrow> vw_gap k \<or> Suc s < i"
proof -
  have b: "s \<le> length h" "vw_seq k = of_nat s" "Suc (length h) < 2 ^ 64" using k h by (auto simp: shows_at_def good_history_def)
  have le: "(of_nat i :: 64 word) \<le> of_nat s \<longleftrightarrow> i \<le> s"
    using b i of_nat_64_less [of s i] by (simp add: linorder_not_less [symmetric])
  have eq: "(of_nat i :: 64 word) = of_nat s + 1 \<longleftrightarrow> i = Suc s"
    using of_nat_64_eq [of i "Suc s"] b i by (simp add: add.commute)
  note r = Decode_delta(1) [OF h n i]
  have dr: "drop (length h - i) h = (h ! (length h - i)) # drop (length h - s) h" if "i = Suc s"
    using i that Cons_nth_drop_Suc [of "length h - i" h] by (simp add: Suc_diff_Suc)
  show "shows_at seeded h (if i = Suc s then i else s) (receive (delta_no h i) k)"
    using k i dr b le eq by (auto simp: shows_at_def receive_def r sparse_frame_def replay_Cons apply_changes_def change_of_def)
  show "vw_gap (receive (delta_no h i) k) \<longleftrightarrow> vw_gap k \<or> Suc s < i"
    using le eq b by (auto simp: receive_def r sparse_frame_def)
qed

lemma shows_now:
  "good_history seeded h \<Longrightarrow> vw_seq k = of_nat (length h) \<Longrightarrow> vw_cells k = replay h (cells_of seeded) \<Longrightarrow>
   shows_at seeded h (length h) k"
  by (simp add: shows_at_def)

lemma snapshot_shows:
  assumes E: "\<forall>n. fate_of E n = Done" and m: "read_model R ev seeded h (w_lock w)" and h: "good_history seeded h"
    and n: "4 * int (length seeded) \<le> 2 ^ 30" and r: "send_snapshot E R True ev cache w = (Inr (b, l), cache', w')"
  shows "l = of_nat (length h) \<and> shows_at seeded h (length h) (initial_view b k) \<and> \<not> vw_gap (initial_view b k)"
proof -
  obtain bits w1 where e: "bits_after seeded h = Some bits" "EnsureBitset E R ev w = (Inr (bits, length h), w1)"
    using EnsureBitset_model [OF E m] by metis
  have c: "cells_of bits = replay h (cells_of seeded)" using cells_after [OF n, of h] h e(1) by (auto simp: good_history_def)
  obtain sc c1 w2 where sc: "SeatCount E ev cache w1 = (sc, c1, w2)" by (meson prod_cases3)
  obtain ge w3 where ge: "exec E (q_GetEvent ev) w2 = (ge, w3)" by (meson surj_pair)
  have "\<exists>x y z. b = Some (EncodeSnapshot x y (of_nat (length h)) z bits) \<and> l = of_nat (length h)"
  proof (cases sc; cases ge)
    fix a evt assume sg: "sc = Inr a" "ge = Inr evt"
    show ?thesis using r unfolding send_snapshot_def e(2) by (simp add: sc ge sg Let_def split: if_splits) blast
  qed (use r in \<open>simp_all add: send_snapshot_def e(2) sc ge\<close>)
  then obtain x y z where "b = Some (EncodeSnapshot x y (of_nat (length h)) z bits)" and l: "l = of_nat (length h)" by blast
  then have v: "initial_view b k = \<lparr>vw_seq = of_nat (length h), vw_cells = replay h (cells_of seeded), vw_gap = False\<rparr>"
    by (simp add: initial_view_def Decode_EncodeSnapshot snapshot_frame_def c)
  show ?thesis using shows_now [OF h, of "initial_view b k"] by (simp add: v l)
qed

lemma join_shows:
  assumes E: "\<forall>n. fate_of E n = Done" and m: "read_model R ev seeded h (w_lock w)" and h: "good_history seeded h"
    and n: "4 * int (length seeded) \<le> 2 ^ 30"
    and k: "vw_seq k = 0 \<or> shows_at seeded h s k" "\<not> vw_gap k"
    and r: "sendInitialFrames E R True ev (unat (vw_seq k)) cache w = (Inr (b, l), cache', w')"
  shows "shows_at seeded h (length h) (initial_view b k) \<and> \<not> vw_gap (initial_view b k)"
proof (cases "vw_seq k = 0")
  case True
  then show ?thesis using r snapshot_shows [OF E m h n] by (auto simp: sendInitialFrames_def)
next
  case False
  then have s: "shows_at seeded h s k" using k by simp
  have b64: "length h < 2 ^ 64" using h by (simp add: good_history_def)
  have since: "unat (vw_seq k) = s" using s b64 by (auto simp: shows_at_def unat_of_nat take_bit_nat_eq_self)
  have wh: "wire_history h" using h in_bitset_wire [OF _ n] by (auto simp: wire_history_def good_history_def list_all_iff)
  have s64: "s < 2 ^ 64" "s \<noteq> 0" "s \<le> length h" using s b64 False since by (auto simp: shows_at_def intro: gr0I)
  obtain g w1 where g: "GapFill E R ev s w = (g, w1)" by (meson surj_pair)
  note ga = GapFill_answer [OF E m b64 wh s64(1), unfolded g]
  have lock: "w_lock w1 = w_lock w" using ga by simp
  consider "g = Inr (None, True)" "length h \<le> s" | f cs where "g = Inr (Some f, True)" "s < length h"
      "Decode f = Inr (sparse_frame (of_nat (length h)) cs)"
      "\<forall>base. apply_changes cs (replay (drop (length h - s) h) base) = replay h base" | "g = Inr (None, False)"
    using ga by (auto split: if_splits)
  then show ?thesis
  proof cases
    case 1
    then have "b = None" "length h = s" using r g s64 by (auto simp: sendInitialFrames_def since)
    then show ?thesis using s k by (simp add: initial_view_def)
  next
    case 2
    then have "b = Some f" using r g s64 by (auto simp: sendInitialFrames_def since split: if_splits)
    then have "initial_view b k = k\<lparr>vw_seq := of_nat (length h), vw_cells := replay h (cells_of seeded)\<rparr>"
      using 2 s k(2) by (simp add: initial_view_def sparse_frame_def shows_at_def OpSparse_def OpSnapshot_def)
    then show ?thesis using shows_now [OF h, of "initial_view b k"] k(2) by simp
  next
    case 3
    then have "send_snapshot E R True ev cache w1 = (Inr (b, l), cache', w')" using r g s64 by (simp add: sendInitialFrames_def since)
    from snapshot_shows [OF E _ h n this] m lock show ?thesis by simp
  qed
qed

text \<open>What holds in every state of a session.\<close>

definition numbered_queue :: "bool \<Rightarrow> history \<Rightarrow> bytes list \<Rightarrow> nat \<Rightarrow> bool" where
  "numbered_queue lossless h q s \<longleftrightarrow> (\<exists>ns. q = map (delta_no h) ns \<and> (\<forall>i \<in> set ns. 1 \<le> i \<and> i \<le> length h)
     \<and> (lossless \<longrightarrow> (\<exists>a \<ge> 1. a \<le> Suc s \<and> ns = [a..<Suc (length h)])))"

definition session_ok :: "bytes \<Rightarrow> bool \<Rightarrow> session_state \<Rightarrow> bool" where
  "session_ok seeded lossless = (\<lambda>(h, c, started, k). good_history seeded h
   \<and> (if started then \<exists>s. shows_at seeded h s k \<and> numbered_queue lossless h (cn_send c) s \<and> (lossless \<longrightarrow> \<not> vw_gap k)
      else \<not> vw_gap k \<and> (vw_seq k = 0 \<or> (\<exists>s. shows_at seeded h s k)) \<and> numbered_queue lossless h (cn_send c) (length h)))"

lemma shows_at_Cons: "shows_at seeded h s k \<Longrightarrow> shows_at seeded (d # h) s k"
  by (auto simp: shows_at_def Suc_diff_le)

lemma numbered_queueI:
  assumes "q = map (delta_no h) ns" and "\<forall>i \<in> set ns. 1 \<le> i \<and> i \<le> length h"
    and "lossless \<Longrightarrow> 1 \<le> a \<and> a \<le> Suc s \<and> ns = [a..<Suc (length h)]"
  shows "numbered_queue lossless h q s"
proof -
  have "lossless \<longrightarrow> (\<exists>a \<ge> 1. a \<le> Suc s \<and> ns = [a..<Suc (length h)])" using assms(3) by blast
  with assms(1,2) show ?thesis unfolding numbered_queue_def by blast
qed

lemma numbered_queueE:
  assumes "numbered_queue lossless h q s"
  obtains ns a where "q = map (delta_no h) ns" "\<forall>i \<in> set ns. 1 \<le> i \<and> i \<le> length h"
    "lossless \<Longrightarrow> 1 \<le> a \<and> a \<le> Suc s \<and> ns = [a..<Suc (length h)]"
proof -
  obtain ns where i: "q = map (delta_no h) ns" "\<forall>i \<in> set ns. 1 \<le> i \<and> i \<le> length h"
    and L: "lossless \<longrightarrow> (\<exists>a. 1 \<le> a \<and> a \<le> Suc s \<and> ns = [a..<Suc (length h)])"
    using assms unfolding numbered_queue_def by blast
  from L obtain a where "lossless \<Longrightarrow> 1 \<le> a \<and> a \<le> Suc s \<and> ns = [a..<Suc (length h)]" by blast
  with i that show thesis by blast
qed

lemma numbered_queue_mono: "numbered_queue lossless h q s \<Longrightarrow> s \<le> s' \<Longrightarrow> numbered_queue lossless h q s'"
proof -
  assume q: "numbered_queue lossless h q s" and le: "s \<le> s'"
  obtain ns a where i: "q = map (delta_no h) ns" "\<forall>i \<in> set ns. 1 \<le> i \<and> i \<le> length h"
    and L: "lossless \<Longrightarrow> 1 \<le> a \<and> a \<le> Suc s \<and> ns = [a..<Suc (length h)]" using numbered_queueE [OF q] by blast
  have "lossless \<Longrightarrow> 1 \<le> a \<and> a \<le> Suc s' \<and> ns = [a..<Suc (length h)]" using L le by (meson Suc_le_mono le_trans)
  with i show ?thesis by (rule numbered_queueI)
qed

lemma numbered_queue_enqueue:
  assumes "numbered_queue lossless h (cn_send c) s" and "lossless \<longrightarrow> length (cn_send c) < sendBuffer" and "s \<le> length h"
  shows "numbered_queue lossless (d # h) (cn_send (enqueue (ring_entry (Suc (length h)) (fst d) (snd d)) c)) s"
proof -
  obtain ns a where i: "cn_send c = map (delta_no h) ns" "\<forall>i \<in> set ns. 1 \<le> i \<and> i \<le> length h"
    and L: "lossless \<Longrightarrow> 1 \<le> a \<and> a \<le> Suc s \<and> ns = [a..<Suc (length h)]" using numbered_queueE [OF assms(1)] by blast
  have old: "map (delta_no h) ns = map (delta_no (d # h)) ns" using i(2) delta_no_Cons by simp
  have new: "ring_entry (Suc (length h)) (fst d) (snd d) = delta_no (d # h) (Suc (length h))"
    by (cases d) (simp add: delta_no_new)
  show ?thesis
  proof (cases "length (cn_send c) < sendBuffer")
    case True
    show ?thesis
    proof (rule numbered_queueI [where ns = "ns @ [Suc (length h)]" and a = a])
      show "cn_send (enqueue (ring_entry (Suc (length h)) (fst d) (snd d)) c) = map (delta_no (d # h)) (ns @ [Suc (length h)])"
        using True by (simp add: enqueue_def new i(1)) (use old in simp)
      show "\<forall>i \<in> set (ns @ [Suc (length h)]). 1 \<le> i \<and> i \<le> length (d # h)" using i(2) by auto
      assume lossless
      with L show "1 \<le> a \<and> a \<le> Suc s \<and> ns @ [Suc (length h)] = [a..<Suc (length (d # h))]"
        using assms(3) by (simp add: upt_Suc_append)
    qed
  next
    case False
    then show ?thesis using assms(2) i(2) old
      by (intro numbered_queueI [where ns = ns and a = a]) (auto simp: enqueue_def i(1))
  qed
qed

lemma write_step_out:
  assumes "numbered_queue lossless h (cn_send c) s" and "good_history seeded h" and "4 * int (length seeded) \<le> 2 ^ 30"
    and "lossless \<longrightarrow> \<not> chaos \<and> ok" and "s \<le> length h"
  obtains (idle) "write_step chaos ok c = c"
  | (lost) "\<not> lossless" "cn_out (write_step chaos ok c) = cn_out c" "numbered_queue lossless h (cn_send (write_step chaos ok c)) s"
  | (out) i where "1 \<le> i" "i \<le> length h" "cn_out (write_step chaos ok c) = cn_out c @ [delta_no h i]" "lossless \<longrightarrow> i \<le> Suc s"
      "numbered_queue lossless h (cn_send (write_step chaos ok c)) (if i = Suc s then i else s)"
proof (cases "cn_open c \<and> cn_send c \<noteq> []")
  case False
  then show thesis using idle by (cases "cn_send c") (auto simp: write_step_def)
next
  case True
  then obtain b q where Cons: "cn_send c = b # q" "cn_open c" by (cases "cn_send c") auto
  obtain ns a where i: "cn_send c = map (delta_no h) ns" "\<forall>i \<in> set ns. 1 \<le> i \<and> i \<le> length h"
    and L: "lossless \<Longrightarrow> 1 \<le> a \<and> a \<le> Suc s \<and> ns = [a..<Suc (length h)]" using numbered_queueE [OF assms(1)] by blast
  obtain x xs where x: "ns = x # xs" "b = delta_no h x" "q = map (delta_no h) xs" using i(1) Cons by (cases ns) auto
  have r: "1 \<le> x" "x \<le> length h" using i(2) x by auto
  note dec = Decode_delta [OF assms(2,3) r]
  have q: "cn_send (write_step chaos ok c) = q"
    using Cons dec by (simp add: write_step_def write_message_def x Let_def)
  have Lx: "lossless \<longrightarrow> x \<le> Suc s \<and> xs = [Suc x..<Suc (length h)]"
  proof
    assume lossless
    then have "a \<le> Suc s" "x # xs = [a..<Suc (length h)]" using L x(1) by simp_all
    then show "x \<le> Suc s \<and> xs = [Suc x..<Suc (length h)]" unfolding upt_eq_Cons_conv [symmetric] by (auto dest: sym simp: upt_eq_Cons_conv simp del: upt_Suc)
  qed
  have nq: "numbered_queue lossless h q s'" if "lossless \<longrightarrow> x \<le> s'" for s'
    by (rule numbered_queueI [where ns = xs and a = "Suc x"]) (use i(2) x that Lx in auto)
  show thesis
  proof (cases "chaos \<or> \<not> ok")
    case True
    then have "cn_out (write_step chaos ok c) = cn_out c" using Cons dec by (auto simp: write_step_def write_message_def x Let_def)
    moreover have "\<not> lossless" using True assms(4) by blast
    ultimately show thesis using lost nq [of s] q by simp
  next
    case False
    then have "cn_out (write_step chaos ok c) = cn_out c @ [delta_no h x]"
      using Cons dec by (simp add: write_step_def write_message_def x Let_def)
    moreover have "numbered_queue lossless h q (if x = Suc s then x else s)" using nq Lx by auto
    ultimately show thesis using out [OF r] q Lx by simp
  qed
qed

lemma session_step_ok:
  assumes "session E R ev seeded lossless a b" and "4 * int (length seeded) \<le> 2 ^ 30" and "session_ok seeded lossless a"
  shows "session_ok seeded lossless b"
  using assms(1)
proof cases
  case (delta ord st h c started k)
  have h: "good_history seeded ((ord, st) # h)" using delta assms(3) by (simp add: session_ok_def good_history_def)
  have q: "numbered_queue lossless ((ord, st) # h) (cn_send (enqueue (ring_entry (Suc (length h)) ord st) c)) s"
    if "numbered_queue lossless h (cn_send c) s" "s \<le> length h" for s
    using numbered_queue_enqueue [OF that(1) _ that(2), of "(ord, st)"] delta by simp
  show ?thesis
  proof (cases started)
    case True
    then obtain s where s: "shows_at seeded h s k" "numbered_queue lossless h (cn_send c) s" "lossless \<longrightarrow> \<not> vw_gap k"
      using delta assms(3) by (auto simp: session_ok_def)
    have "s \<le> length h" using s by (simp add: shows_at_def)
    then show ?thesis using True delta h s q shows_at_Cons [OF s(1)] by (auto simp: session_ok_def)
  next
    case False
    then show ?thesis using delta h assms(3) q numbered_queue_mono [of lossless _ _ "length h" "Suc (length h)"]
      by (auto simp: session_ok_def intro: shows_at_Cons)
  qed
next
  case (join h w k cache x l cache' w' c)
  have ok: "good_history seeded h" "\<not> vw_gap k" "vw_seq k = 0 \<or> (\<exists>s. shows_at seeded h s k)"
      "numbered_queue lossless h (cn_send c) (length h)" using assms(3) join by (auto simp: session_ok_def)
  then obtain s where "vw_seq k = 0 \<or> shows_at seeded h s k" by blast
  from join_shows [OF join(3,4) ok(1) assms(2) this ok(2) join(5)]
  have "shows_at seeded h (length h) (initial_view x k) \<and> \<not> vw_gap (initial_view x k)" .
  then have "session_ok seeded lossless (h, sent_initial (x, l) c, True, initial_view x k)"
    unfolding session_ok_def prod.case using ok(1,4) by (auto simp: sent_initial_def)
  then show ?thesis using join(2) by simp
next
  case (taken chaos ok h c k)
  then obtain s where s: "good_history seeded h" "shows_at seeded h s k" "numbered_queue lossless h (cn_send c) s" "lossless \<longrightarrow> \<not> vw_gap k"
    using assms(3) by (auto simp: session_ok_def)
  then have sl: "s \<le> length h" by (simp add: shows_at_def)
  have L: "lossless \<longrightarrow> \<not> chaos \<and> ok" using taken by blast
  show ?thesis
  proof (cases rule: write_step_out [OF s(3,1) assms(2) L sl])
    case 1
    then show ?thesis using taken s by (auto simp: session_ok_def)
  next
    case 2
    then show ?thesis using taken s by (auto simp: session_ok_def)
  next
    case (3 i)
    have "shows_at seeded h (if i = Suc s then i else s) (receive (delta_no h i) k)"
      "vw_gap (receive (delta_no h i) k) \<longleftrightarrow> vw_gap k \<or> Suc s < i"
      using receive_shows [OF s(2,1) assms(2) 3(1,2)] .
    then show ?thesis using taken s 3 unfolding session_ok_def by (auto simp: session_ok_def)
  qed
qed

lemma session_reach_ok:
  assumes "(session E R ev seeded lossless)\<^sup>*\<^sup>* a b" and "4 * int (length seeded) \<le> 2 ^ 30" and "session_ok seeded lossless a"
  shows "session_ok seeded lossless b"
  using assms(1) by (induction rule: rtranclp_induct) (use assms(2,3) session_step_ok in blast)+

subsection \<open>Properties\<close>


text \<open>A fresh connection to event 1 joins after seat 0 was held, and drains its buffer.\<close>

definition joined_mem :: mem where
  "joined_mem = ((\<lambda>_. None)(bitsetKey 1 \<mapsto> [1]), (\<lambda>_. None)(seqKey 1 \<mapsto> 1), (\<lambda>_. [])(ringKey 1 := delta_bytes [(0, 1)]))"

definition joined_world :: "(mem, unit) world" where
  "joined_world = \<lparr>w_db = empty_db\<lparr>t_events := [\<lparr>ev_id = 1, ev_venue = 1, ev_artist = [], ev_title = [], ev_starts = 0,
       ev_onsale = 0, ev_region = [], ev_status = [], ev_layout = 1, ev_created = 0\<rparr>]\<rparr>,
     w_lock = joined_mem, w_pay = (), w_objects = [], w_bus = [], w_calls = 0\<rparr>"


text \<open>
  a torn snapshot. \<open>EnsureBitset\<close> reads the bitset and the counter in two commands. If the projector
  applies a transition between them, the snapshot carries the old bits under the new number: a client
  that starts from it ignores the very delta it is missing, and keeps showing the old state of
  that seat until another transition of it.
\<close>

lemma torn_snapshot_loses_delta:
  assumes "\<forall>n. fate_of E n = Done" and "store_laws R" and "read_model R ev seeded h (w_lock w)"
    and "good_history seeded ((ord, st) # h)" and "4 * int (length seeded) \<le> 2 ^ 30"
    and bits: "get_bits E R ev w = (Inr (Some bits), w1)"
    and moved: "apply_seat E R ev ord st w1 = (Inr True, w2)"
    and seq: "read_seq E R ev w2 = (Inr n, w3)"
  shows "let k = initial_view (Some (EncodeSnapshot lv e (of_nat n) sc bits)) k0 in
      read_model R ev seeded ((ord, st) # h) (w_lock w2) \<and> n = Suc (length h)
    \<and> receive (delta_no ((ord, st) # h) n) k = k \<and> \<not> vw_gap k
    \<and> vw_cells k (word_of_int ord) \<noteq> st"
proof -
  have w1: "w_lock w1 = w_lock w" and b: "rs_get R (bitsetKey ev) (w_lock w) = Some bits"
    using bits by (auto simp: get_bits_def rcall_Done [OF assms(1)] tick_def)
  have r: "in_bitset seeded (ord, st)" using assms(4) by (simp add: good_history_def)
  then have o: "0 \<le> ord" "ord < 4 * int (length seeded)" "st AND 3 = st" by (simp_all add: in_bitset_def)
  have m1: "read_model R ev seeded h (w_lock w1)" using assms(3) w1 by simp
  obtain bits' w' where a: "bits_after seeded h = Some bits'" "apply_seat E R ev ord st w1 = (Inr (GetSeat bits' ord \<noteq> Some st), w')"
    "read_model R ev seeded (if GetSeat bits' ord = Some st then h else (ord, st) # h) (w_lock w')"
    using apply_seat_model [OF assms(1,2) m1 o(1,2), of st] by blast
  have bb: "bits' = bits" using a(1) b assms(3) by (simp add: read_model_def)
  have ne: "GetSeat bits ord \<noteq> Some st" and ww: "w' = w2" using a(2) moved bb by auto
  have m2: "read_model R ev seeded ((ord, st) # h) (w_lock w2)" using a(3) bb ne ww by simp
  then have n: "n = Suc (length h)" using seq by (simp add: read_seq_Done [OF assms(1)] read_model_def)
  have len: "length bits = length seeded" using bits_after_length [OF a(1)] bb by simp
  have u: "uint (word_of_int ord :: 32 word) = ord" using o assms(5) by (intro small_word) auto
  have "GetSeat bits ord \<noteq> None" using in_range [of ord "length bits"] o len by (auto simp: GetSeat_def Let_def)
  then have c: "cells_of bits (word_of_int ord) \<noteq> st" using ne by (auto simp: cells_of_def u)
  let ?k = "initial_view (Some (EncodeSnapshot lv e (of_nat n) sc bits)) k0"
  have k: "?k = \<lparr>vw_seq = of_nat n, vw_cells = cells_of bits, vw_gap = False\<rparr>"
    by (simp add: initial_view_def Decode_EncodeSnapshot snapshot_frame_def)
  have d: "Decode (delta_no ((ord, st) # h) n) = Inr (sparse_frame (of_nat n) [change_of (ord, st)])"
    using Decode_delta(1) [OF assms(4,5), of n] by (simp add: n)
  then have "receive (delta_no ((ord, st) # h) n) ?k = ?k" unfolding k receive_def by (simp add: sparse_frame_def)
  with m2 n c show ?thesis unfolding Let_def k by simp
qed

lemma torn_snapshot_loses_delta_example:
  "\<exists>n (w3 :: (mem, unit) world) k. read_model mem_store 1 [0] [(0, 1)] (w_lock w3) \<and> vw_seq k = of_nat n \<and> n = 1
     \<and> receive (delta_no [(0, 1)] n) k = k \<and> vw_cells k 0 \<noteq> 1"
proof -
  let ?w = "\<lparr>w_db = empty_db, w_lock = fresh_mem, w_pay = (), w_objects = [], w_bus = [], w_calls = 0\<rparr> :: (mem, unit) world"
  let ?g = "get_bits sample_env mem_store 1 ?w"
  let ?a = "apply_seat sample_env mem_store 1 0 1 (snd ?g)"
  let ?q = "read_seq sample_env mem_store 1 (snd ?a)"
  have E: "\<forall>n. fate_of sample_env n = Done" by (simp add: sample_env_def)
  have m: "read_model mem_store 1 [0] [] (w_lock ?w)"
    by (simp add: read_model_def mem_store_def fresh_mem_def count_of_def)
  have h: "good_history [0] [(0, 1)]" by (simp add: good_history_def in_bitset_def)
  have "fst ?g = Inr (Some [0])" by code_simp
  then have g: "?g = (Inr (Some [0]), snd ?g)" by (metis prod.collapse)
  have "fst ?a = Inr True" by code_simp
  then have a: "?a = (Inr True, snd ?a)" by (metis prod.collapse)
  have "fst ?q = Inr 1" by code_simp
  then have q: "?q = (Inr 1, snd ?q)" by (metis prod.collapse)
  let ?k = "initial_view (Some (EncodeSnapshot 1 1 (of_nat 1) 3 [0])) \<lparr>vw_seq = 0, vw_cells = (\<lambda>_. 0), vw_gap = False\<rparr>"
  have "read_model mem_store 1 [0] [(0, 1)] (w_lock (snd ?a)) \<and> receive (delta_no [(0, 1)] 1) ?k = ?k
      \<and> vw_cells ?k (word_of_int 0) \<noteq> 1"
    using torn_snapshot_loses_delta [OF E mem_store_laws m h _ g a q, of 1 1 3] unfolding Let_def by simp
  moreover have "vw_seq ?k = of_nat 1" by (simp add: initial_view_def Decode_EncodeSnapshot snapshot_frame_def)
  ultimately show ?thesis by (metis word_of_int_0)
qed

end
