(* ===== verification/HttpCatalog.thy ===== *)
theory HttpCatalog
  imports Http Projector
begin

section \<open>internal/httpapi/catalog.go: browsing\<close>

text \<open>
  The unauthenticated routes: the browse list, one event, the redirect to a layout, availability
  (the projector's bitset when Redis answers, the database scan otherwise) and prices. A query
  string is a function from names to values, absent names giving the empty string. Members of a Go
  map are written in the order of the source.
\<close>

subsection \<open>listEvents and getEvent\<close>

definition page_limit :: "string \<Rightarrow> nat" where
  "page_limit s = (case ParseInt s of None \<Rightarrow> 20 | Some v \<Rightarrow> if 0 < v \<and> v \<le> 100 then nat v else 20)"

definition page_cursor :: "string \<Rightarrow> int" where
  "page_cursor s = (case ParseInt s of None \<Rightarrow> 0 | Some v \<Rightarrow> v)"

definition eventSummary :: "web \<Rightarrow> event_row \<Rightarrow> int \<Rightarrow> nat \<Rightarrow> json" where
  "eventSummary B e minPrice available =
     JObject [(''eventId'', jint (ev_id e)), (''title'', JString (ev_title e)), (''artist'', JString (ev_artist e)),
       (''venueId'', jint (ev_venue e)), (''startsAt'', JString (wb_fmt B (ev_starts e))),
       (''onsaleAt'', JString (wb_fmt B (ev_onsale e))), (''minPriceCents'', jint minPrice),
       (''availableCount'', jint (int available))]"

text \<open>Errors of the two counting queries are dropped: the field reads zero.\<close>

fun summaries :: "env \<Rightarrow> web \<Rightarrow> event_row list \<Rightarrow> ('s, 'p) world \<Rightarrow> json list \<times> ('s, 'p) world" where
  "summaries E B [] w = ([], w)"
| "summaries E B (e # es) w =
     (case exec E (q_MinEventPriceCents (ev_id e)) w of (r1, w1) \<Rightarrow>
     (case exec E (q_CountAvailableSeats (ev_id e)) w1 of (r2, w2) \<Rightarrow>
     (case summaries E B es w2 of (js, w3) \<Rightarrow>
        (eventSummary B e (case r1 of Inl _ \<Rightarrow> 0 | Inr p \<Rightarrow> p) (case r2 of Inl _ \<Rightarrow> 0 | Inr n \<Rightarrow> n) # js, w3))))"

definition next_cursor :: "event_row list \<Rightarrow> int" where
  "next_cursor es = (if es = [] then 0 else ev_id (last es))"

definition listEvents :: "env \<Rightarrow> web \<Rightarrow> (string \<Rightarrow> string) \<Rightarrow> ('s, 'p) world \<Rightarrow> response \<times> ('s, 'p) world" where
  "listEvents E B query w =
     (case exec E (q_ListEvents (query ''q'') (page_cursor (query ''cursor'')) (page_limit (query ''limit''))) w of
        (Inl e, w1) \<Rightarrow> (writeError 500 ''internal'' ''list events failed'', w1)
      | (Inr events, w1) \<Rightarrow>
          (case summaries E B events w1 of (out, w2) \<Rightarrow>
             (writeJSON 200 (JObject [(''events'', JArray out), (''nextCursor'', jint (next_cursor events))]), w2)))"

definition saleStateOf :: "string \<Rightarrow> string" where
  "saleStateOf dbStatus =
     (if dbStatus = ''ON_SALE'' then ''onsale'' else if dbStatus = ''CLOSED'' then ''closed'' else ''pre'')"

definition layout_key :: "int \<Rightarrow> string \<Rightarrow> string" where
  "layout_key venue version = ''venues/'' @ show_int venue @ ''/'' @ version @ ''/layout.json''"

definition event_not_found :: response where
  "event_not_found = writeError 404 ''not_found'' ''event not found''"

definition getEvent :: "env \<Rightarrow> web \<Rightarrow> string \<Rightarrow> string \<Rightarrow> ('s, 'p) world \<Rightarrow> response \<times> ('s, 'p) world" where
  "getEvent E B bucket eventID w =
     (case ParseInt eventID of
        None \<Rightarrow> (invalid_event, w)
      | Some ev \<Rightarrow>
     (case exec E (q_GetEvent ev) w of
        (Inl e, w1) \<Rightarrow> (event_not_found, w1)
      | (Inr r, w1) \<Rightarrow>
          (writeJSON 200 (JObject [(''eventId'', jint (ev_id r)), (''title'', JString (ev_title r)),
             (''artist'', JString (ev_artist r)), (''venueId'', jint (ev_venue r)),
             (''startsAt'', JString (wb_fmt B (ev_starts r))), (''onsaleAt'', JString (wb_fmt B (ev_onsale r))),
             (''layoutVersion'', jint (ev_layout r)),
             (''layoutUrl'', JString (wb_url B bucket (layout_key (ev_venue r) (show_int (ev_layout r))))),
             (''pricingUrl'', JString (''/api/v1/events/'' @ show_int (ev_id r) @ ''/pricing'')),
             (''wsUrl'', JString []), (''saleState'', JString (saleStateOf (ev_status r)))]), w1)))"

subsection \<open>getVenueLayout\<close>

text \<open>\<open>http.Redirect\<close>; the anchor it writes as a body is left out.\<close>

definition redirect :: "string \<Rightarrow> nat \<Rightarrow> response" where
  "redirect url status = \<lparr>rs_status = status, rs_headers = [(''Location'', url)], rs_body = NoBody\<rparr>"

definition getVenueLayout ::
    "env \<Rightarrow> web \<Rightarrow> string \<Rightarrow> string \<Rightarrow> (string \<Rightarrow> string) \<Rightarrow> ('s, 'p) world \<Rightarrow> response \<times> ('s, 'p) world" where
  "getVenueLayout E B bucket venueID query w =
     (case ParseInt venueID of
        None \<Rightarrow> (writeError 400 ''invalid_id'' ''venueID must be an integer'', w)
      | Some v \<Rightarrow>
          if query ''v'' \<noteq> [] then (redirect (wb_url B bucket (layout_key v (query ''v''))) 302, w)
          else
            (case exec E (q_GetVenue v) w of
               (Inl e, w1) \<Rightarrow> (writeError 404 ''not_found'' ''venue not found'', w1)
             | (Inr r, w1) \<Rightarrow> (redirect (wb_url B bucket (layout_key v (show_int (vn_layout r)))) 302, w1)))"

subsection \<open>getAvailability\<close>

definition tryRedisAvailability ::
    "env \<Rightarrow> 's store \<Rightarrow> int \<Rightarrow> ordinals \<Rightarrow> ('s, 'p) world \<Rightarrow> (bytes \<times> nat \<times> nat) option \<times> ordinals \<times> ('s, 'p) world" where
  "tryRedisAvailability E R ev c w =
     (case EnsureBitset E R ev w of
        (Inl e, w1) \<Rightarrow> (None, c, w1)
      | (Inr (packed, seq), w1) \<Rightarrow>
          (case SeatCount E ev c w1 of
             (Inl e, c', w2) \<Rightarrow> (None, c', w2)
           | (Inr n, c', w2) \<Rightarrow> (if n = 0 then None else Some (packed, seq, n), c', w2)))"

text \<open>\<open>hex\<close> is the hexadecimal SHA-256 of a byte string.\<close>

definition etag_of :: "(bytes \<Rightarrow> string) \<Rightarrow> bytes \<Rightarrow> string" where
  "etag_of hex packed = CHR 0x22 # hex packed @ [CHR 0x22]"

definition writeAvailability :: "(bytes \<Rightarrow> string) \<Rightarrow> string \<Rightarrow> bytes \<Rightarrow> nat \<Rightarrow> nat option \<Rightarrow> response" where
  "writeAvailability hex ifNoneMatch packed seatCount seq =
     (if ifNoneMatch = etag_of hex packed then statusOnly 304
      else \<lparr>rs_status = 200,
            rs_headers = [(''Content-Type'', ''application/octet-stream''), (''X-Seat-Count'', show_nat seatCount)]
              @ (case seq of None \<Rightarrow> [] | Some n \<Rightarrow> [(''X-Seatmap-Version'', show_nat n)])
              @ [(''ETag'', etag_of hex packed)],
            rs_body = RawBody packed\<rparr>)"

text \<open>A panic in \<open>seatmap.Set\<close> is answered by the router's \<open>Recoverer\<close>.\<close>

definition getAvailability ::
    "env \<Rightarrow> (bytes \<Rightarrow> string) \<Rightarrow> 's store option \<Rightarrow> string \<Rightarrow> string \<Rightarrow> ordinals \<Rightarrow> ('s, 'p) world
     \<Rightarrow> response \<times> ordinals \<times> ('s, 'p) world" where
  "getAvailability E hex proj eventID ifNoneMatch c w =
     (case ParseInt eventID of
        None \<Rightarrow> (invalid_event, c, w)
      | Some ev \<Rightarrow>
     (case (case proj of None \<Rightarrow> (None, c, w) | Some R \<Rightarrow> tryRedisAvailability E R ev c w) of
        (Some (packed, seq, n), c1, w1) \<Rightarrow> (writeAvailability hex ifNoneMatch packed n (Some seq), c1, w1)
      | (None, c1, w1) \<Rightarrow>
     (case exec E (q_ListEventSeatsForAvailability ev) w1 of
        (Inl e, w2) \<Rightarrow> (writeError 500 ''internal'' ''availability query failed'', c1, w2)
      | (Inr rows, w2) \<Rightarrow>
          if rows = [] then (writeError 404 ''not_found'' ''event has no seats'', c1, w2)
          else
            (case seed_bits rows (NewBits (int (length rows))) of
               None \<Rightarrow> (statusOnly 500, c1, w2)
             | Some packed \<Rightarrow> (writeAvailability hex ifNoneMatch packed (length rows) None, c1, w2)))))"

subsection \<open>getPricing\<close>

definition getPricing :: "env \<Rightarrow> string \<Rightarrow> ('s, 'p) world \<Rightarrow> response \<times> ('s, 'p) world" where
  "getPricing E eventID w =
     (case ParseInt eventID of
        None \<Rightarrow> (invalid_event, w)
      | Some ev \<Rightarrow>
     (case exec E (q_ListEventPriceTiers ev) w of
        (Inl e, w1) \<Rightarrow> (writeError 500 ''internal'' ''list price tiers failed'', w1)
      | (Inr tiers, w1) \<Rightarrow>
     (case exec E (q_ListClosedSectionsForEvent ev) w1 of
        (Inl e, w2) \<Rightarrow> (writeError 500 ''internal'' ''list closed sections failed'', w2)
      | (Inr secs, w2) \<Rightarrow>
          ((writeJSON 200 (JObject [(''priceVersion'', jint 1),
              (''tiers'', JArray (map (\<lambda>t. JObject [(''tierId'', JString (pt_tier t)), (''name'', JString (pt_tier t)),
                                                  (''priceCents'', jint (pt_price t))]) tiers)),
              (''closedSections'', if secs = [] then JNull else JArray (map jint secs))]))
           \<lparr>rs_headers := [(''Cache-Control'', ''max-age=60, stale-while-revalidate=300''),
                           (''Content-Type'', ''application/json'')]\<rparr>, w2))))"

subsection \<open>Availability\<close>

lemma exec_select:
  assumes "exec E st w = (r, w')" and "\<And>t d. snd (st t d) = d"
  shows "w_db w' = w_db w"
proof -
  obtain x d where st: "st (now E w) (w_db w) = (x, d)" by (meson surj_pair)
  then have "d = w_db w" using assms(2) [of "now E w" "w_db w"] by simp
  with assms(1) st show ?thesis by (auto simp: exec_def split: fate.splits)
qed

lemma rcall_db: "rcall E f w = (r, w') \<Longrightarrow> w_db w' = w_db w"
  by (auto simp: rcall_def Let_def tick_def split: prod.splits fate.splits)

lemma seed_bits_write_all:
  "seed_bits rows p = seatmap.write_all (map (\<lambda>(ord, st, sellable). (ord, StateFromDB st sellable)) rows) p"
  by (induction rows p rule: seed_bits.induct) (auto split: option.splits)

text \<open>The ordinals of an event number its seats.\<close>

definition numbered :: "db \<Rightarrow> int \<Rightarrow> bool" where
  "numbered d ev \<longleftrightarrow>
     (let os = map es_ordinal (filter (\<lambda>r. es_event r = ev) (t_seats d)) in distinct os \<and> set os = {0..<int (length os)})"

lemma scan_packs:
  assumes "numbered d ev" and "fst (q_ListEventSeatsForAvailability ev t d) = Inr rows"
  shows "length rows = length (filter (\<lambda>r. es_event r = ev) (t_seats d))
    \<and> (\<exists>packed. seed_bits rows (NewBits (int (length rows))) = Some packed
        \<and> int (length packed) = (int (length rows) + 3) div 4
        \<and> (\<forall>r \<in> set (t_seats d). es_event r = ev \<longrightarrow>
             GetSeat packed (es_ordinal r) = Some (StateFromDB (es_status r) (es_sellable r))))"
proof -
  let ?S = "filter (\<lambda>r. es_event r = ev) (t_seats d)" and ?n = "int (length rows)"
  let ?ws = "map (\<lambda>(ord, st, sellable). (ord, StateFromDB st sellable)) rows"
  have rows: "rows = map (\<lambda>r. (es_ordinal r, es_status r, es_sellable r)) (sort_key es_ordinal ?S)"
    using assms(2) by (simp add: q_ListEventSeatsForAvailability_def)
  then have ws: "?ws = map (\<lambda>r. (es_ordinal r, StateFromDB (es_status r) (es_sellable r))) (sort_key es_ordinal ?S)" by simp
  have len: "length rows = length ?S" using rows by simp
  have num: "distinct (map es_ordinal ?S)" "set (map es_ordinal ?S) = {0..<?n}"
    using assms(1) len by (simp_all add: numbered_def Let_def)
  have "mset (map fst ?ws) = mset (map es_ordinal ?S)" by (simp add: ws comp_def)
  then have dist: "distinct (map fst ?ws)" and keys: "set (map fst ?ws) = {0..<?n}"
    using num by (metis mset_eq_imp_distinct_iff, metis mset_eq_setD)
  have size: "int (length (NewBits ?n)) = (?n + 3) div 4" by (simp add: NewBits_def ByteLen_def)
  have "\<forall>(i, v) \<in> set ?ws. 0 \<le> i \<and> i < 4 * int (length (NewBits ?n))"
  proof (intro ballI, clarify)
    fix i v assume "(i, v) \<in> set ?ws"
    then have "fst (i, v) \<in> set (map fst ?ws)" unfolding set_map by (rule imageI)
    then have "i \<in> {0..<?n}" unfolding keys by simp
    then show "0 \<le> i \<and> i < 4 * int (length (NewBits ?n))" unfolding size by auto
  qed
  then obtain packed where p: "seatmap.write_all ?ws (NewBits ?n) = Some packed" using seatmap.write_all_total by blast
  have "4 * int (length packed) = 4 * int (length (NewBits ?n))" using seatmap.write_all_size [OF p] .
  then have plen: "int (length packed) = (?n + 3) div 4" using size by simp
  have "GetSeat packed (es_ordinal r) = Some (StateFromDB (es_status r) (es_sellable r))"
    if r: "r \<in> set (t_seats d)" "es_event r = ev" for r
  proof -
    have "(es_ordinal r, StateFromDB (es_status r) (es_sellable r)) \<in> set ?ws" using r by (force simp: ws)
    then have "map_of ?ws (es_ordinal r) = Some (StateFromDB (es_status r) (es_sellable r))" using dist by (rule map_of_is_SomeI [rotated])
    moreover have "\<forall>(i, v) \<in> set ?ws. v AND 3 = v" by (auto simp: ws)
    ultimately show ?thesis using seatmap.write_all_get [OF p _ dist, of "es_ordinal r"] by simp
  qed
  with len p plen show ?thesis by (auto simp: seed_bits_write_all)
qed

lemma get_bits_db: "get_bits E R ev w = (r, w') \<Longrightarrow> w_db w' = w_db w"
  by (simp add: get_bits_def rcall_db)

lemma with_seq_db: "with_seq E R ev p w = (r, w') \<Longrightarrow> w_db w' = w_db w"
  by (auto simp: with_seq_def read_seq_def split: sum.splits option.splits prod.splits dest: rcall_db)

lemma scan_db: "exec E (q_ListEventSeatsForAvailability ev) w = (r, w') \<Longrightarrow> w_db w' = w_db w"
  by (erule exec_select) (simp add: q_ListEventSeatsForAvailability_def)

lemma EnsureBitset_db:
  assumes "EnsureBitset E R ev w = (r, w')"
  shows "w_db w' = w_db w"
proof -
  obtain g w1 where g: "get_bits E R ev w = (g, w1)" by (meson surj_pair)
  obtain x w2 where x: "exec E (q_ListEventSeatsForAvailability ev) w1 = (x, w2)" by (meson surj_pair)
  have w2: "w_db w2 = w_db w" using get_bits_db [OF g] scan_db [OF x] by simp
  show ?thesis
  proof (cases "g = Inr None")
    case False
    then show ?thesis using assms g get_bits_db [OF g]
      by (auto simp: EnsureBitset_def split: sum.splits option.splits dest: with_seq_db)
  next
    case True
    show ?thesis
    proof (cases "\<exists>rows packed. x = Inr rows \<and> seed_bits rows (NewBits (int (length rows))) = Some packed")
      case False
      then show ?thesis using assms g x True w2 by (auto simp: EnsureBitset_def split: sum.splits option.splits)
    next
      case seeded: True
      then obtain rows packed where p: "x = Inr rows" "seed_bits rows (NewBits (int (length rows))) = Some packed" by blast
      obtain n w3 where n: "rcall E (rs_setnx R (bitsetKey ev) packed) w2 = (n, w3)" by (meson surj_pair)
      obtain g' w4 where g': "get_bits E R ev w3 = (g', w4)" by (meson surj_pair)
      have w3: "w_db w3 = w_db w" "w_db w4 = w_db w" using w2 rcall_db [OF n] get_bits_db [OF g'] by simp_all
      show ?thesis
        using assms g x True p n g' w3
        by (auto simp: EnsureBitset_def split: sum.splits option.splits bool.splits dest: with_seq_db)
    qed
  qed
qed

lemma SeatCount_db: "SeatCount E ev c w = (r, c', w') \<Longrightarrow> w_db w' = w_db w"
proof -
  assume s: "SeatCount E ev c w = (r, c', w')"
  obtain x w1 where x: "exec E (q_ListSeatOrdinalsByEvent ev) w = (x, w1)" by (meson surj_pair)
  have "w_db w1 = w_db w" by (rule exec_select [OF x]) (simp add: q_ListSeatOrdinalsByEvent_def)
  with s x show ?thesis by (auto simp: SeatCount_def load_ordinals_def split: sum.splits option.splits)
qed

lemma tryRedis_db: "tryRedisAvailability E R ev c w = (r, c', w') \<Longrightarrow> w_db w' = w_db w"
proof -
  assume t: "tryRedisAvailability E R ev c w = (r, c', w')"
  obtain b w1 where b: "EnsureBitset E R ev w = (b, w1)" by (meson surj_pair)
  obtain n c2 w2 where n: "SeatCount E ev c w1 = (n, c2, w2)" by (meson prod_cases3)
  have "w_db w1 = w_db w" "w_db w2 = w_db w" using EnsureBitset_db [OF b] SeatCount_db [OF n] by simp_all
  with t b n show ?thesis by (auto simp: tryRedisAvailability_def split: sum.splits)
qed

text \<open>A byte string that shows the seats of an event, and the answer that carries it.\<close>

definition shows_seats :: "db \<Rightarrow> int \<Rightarrow> bytes \<Rightarrow> bool" where
  "shows_seats d ev packed \<longleftrightarrow>
     int (length packed) = (int (count_where (\<lambda>r. es_event r = ev) (t_seats d)) + 3) div 4
   \<and> (\<forall>r \<in> set (t_seats d). es_event r = ev \<longrightarrow>
        GetSeat packed (es_ordinal r) = Some (StateFromDB (es_status r) (es_sellable r)))"

definition carries :: "(bytes \<Rightarrow> string) \<Rightarrow> string \<Rightarrow> bytes \<Rightarrow> response \<Rightarrow> bool" where
  "carries hex inm packed rs \<longleftrightarrow>
     (if inm = etag_of hex packed then rs = statusOnly 304
      else rs_status rs = 200 \<and> rs_body rs = RawBody packed \<and> (''ETag'', etag_of hex packed) \<in> set (rs_headers rs))"

lemma writeAvailability_carries: "carries hex inm packed (writeAvailability hex inm packed n seq)"
  by (simp add: carries_def writeAvailability_def)

text \<open>
  availability without Redis. When the projector is not wired or any of its calls fails, the
  answer is that of the database: 404 for an event without seats; otherwise 304 if the client
  already has exactly these bytes, else 200 with two bits per seat in \<open>ceil(n/4)\<close> bytes, where every
  seat of the event reads as its row says.
\<close>

lemma availability_falls_back:
  assumes "ParseInt eventID = Some ev" and "numbered (w_db w) ev"
    and "(case proj of None \<Rightarrow> (None, c, w) | Some R \<Rightarrow> tryRedisAvailability E R ev c w) = (None, c1, w1)"
    and "fate_of E (w_calls w1) = Done"
  shows "\<exists>rs c' w'. getAvailability E hex proj eventID inm c w = (rs, c', w')
    \<and> (if \<forall>r \<in> set (t_seats (w_db w)). es_event r \<noteq> ev then rs_status rs = 404
       else \<exists>packed. carries hex inm packed rs \<and> shows_seats (w_db w) ev packed)"
proof -
  have db: "w_db w1 = w_db w" using assms(3) by (auto split: option.splits dest: tryRedis_db)
  obtain rows where rows: "fst (q_ListEventSeatsForAvailability ev (now E w1) (w_db w)) = Inr rows"
    by (simp add: q_ListEventSeatsForAvailability_def)
  note packs = scan_packs [OF assms(2) rows]
  then obtain packed where p: "seed_bits rows (NewBits (int (length rows))) = Some packed"
      "int (length packed) = (int (length rows) + 3) div 4"
      "\<forall>r \<in> set (t_seats (w_db w)). es_event r = ev \<longrightarrow>
         GetSeat packed (es_ordinal r) = Some (StateFromDB (es_status r) (es_sellable r))" by blast
  have len: "length rows = count_where (\<lambda>r. es_event r = ev) (t_seats (w_db w))" using packs by (simp add: count_where_def)
  then have nil: "rows = [] \<longleftrightarrow> (\<forall>r \<in> set (t_seats (w_db w)). es_event r \<noteq> ev)"
    unfolding length_0_conv [of rows, symmetric] by (simp add: count_where_def filter_empty_conv)
  have x: "exec E (q_ListEventSeatsForAvailability ev) w1 = (Inr rows, (tick w1)\<lparr>w_db := w_db w\<rparr>)"
    using rows assms(4) by (simp add: exec_Done db) (simp add: q_ListEventSeatsForAvailability_def)
  show ?thesis
  proof (cases "rows = []")
    case True
    then show ?thesis using assms(1,3) x nil by (simp add: getAvailability_def)
  next
    case False
    obtain rs c' w' where g: "getAvailability E hex proj eventID inm c w = (rs, c', w')" by (meson prod_cases3)
    moreover have "rs = writeAvailability hex inm packed (length rows) None"
      using g False assms(1,3) x p(1) by (simp add: getAvailability_def)
    then have "carries hex inm packed rs" by (simp add: writeAvailability_carries)
    moreover have "shows_seats (w_db w) ev packed" using p(2,3) by (simp add: shows_seats_def len)
    moreover have "\<not> (\<forall>r \<in> set (t_seats (w_db w)). es_event r \<noteq> ev)" using False unfolding nil .
    ultimately show ?thesis unfolding if_not_P [OF \<open>\<not> (\<forall>r \<in> set (t_seats (w_db w)). es_event r \<noteq> ev)\<close>] by blast
  qed
qed

lemma availability_falls_back_example:
  "\<exists>rs c' w' packed. getAvailability sample_env (\<lambda>_. ''x'') (None :: unit store option) ''1'' [] sample_ordinals held_world = (rs, c', w')
     \<and> rs_status rs = 200 \<and> rs_body rs = RawBody packed \<and> length packed = 1 \<and> GetSeat packed 0 = Some StateHeld"
proof -
  have p: "ParseInt ''1'' = Some 1" by code_simp
  have n: "numbered (w_db held_world) 1" by (simp add: numbered_def held_world_value) auto
  have f: "fate_of sample_env (w_calls held_world) = Done" by (simp add: sample_env_def)
  have some: "\<not> (\<forall>r \<in> set (t_seats (w_db held_world)). es_event r \<noteq> 1)" by (simp add: held_world_value)
  obtain rs c' w' packed where g: "getAvailability sample_env (\<lambda>_. ''x'') (None :: unit store option) ''1'' [] sample_ordinals held_world = (rs, c', w')"
      "carries (\<lambda>_. ''x'') [] packed rs" "shows_seats (w_db held_world) 1 packed"
    using availability_falls_back [OF p n, where proj = "None :: unit store option" and E = sample_env and c = sample_ordinals
        and hex = "\<lambda>_. ''x''" and inm = "[]"] f some by (simp only: option.case if_False) blast
  have "rs_status rs = 200 \<and> rs_body rs = RawBody packed" using g(2) by (simp add: carries_def etag_of_def)
  moreover have "length packed = 1 \<and> GetSeat packed 0 = Some StateHeld"
    using g(3) by (simp add: shows_seats_def held_world_value count_where_def StateFromDB_def)
  ultimately show ?thesis using g(1) by blast
qed

subsection \<open>The browse list\<close>

text \<open>
  A client that follows \<open>nextCursor\<close> until a page is empty; what it collects are the summaries of
  the pages. The first argument bounds the number of requests.
\<close>

definition browse_query :: "string \<Rightarrow> string \<Rightarrow> string \<Rightarrow> string \<Rightarrow> string" where
  "browse_query search n cur x =
     (if x = ''q'' then search else if x = ''limit'' then n else if x = ''cursor'' then cur else [])"

fun browse :: "nat \<Rightarrow> env \<Rightarrow> web \<Rightarrow> string \<Rightarrow> string \<Rightarrow> string \<Rightarrow> ('s, 'p) world \<Rightarrow> json list" where
  "browse 0 E B search n cur w = []"
| "browse (Suc k) E B search n cur w =
     (case listEvents E B (browse_query search n cur) w of (rs, w') \<Rightarrow>
        (case rs_body rs of
           JsonBody (JObject [(_, JArray page), (_, JNumber next)]) \<Rightarrow>
             if page = [] then [] else page @ browse k E B search n next w'
         | _ \<Rightarrow> []))"

definition summary_id :: "json \<Rightarrow> json option" where
  "summary_id j = (case j of JObject ms \<Rightarrow> map_of ms ''eventId'' | _ \<Rightarrow> None)"

definition matching :: "db \<Rightarrow> string \<Rightarrow> event_row list" where
  "matching d search = sort_key ev_id (filter (\<lambda>r. search = []
     \<or> ilike (ev_title r) (''%'' @ search @ ''%'') \<or> ilike (ev_artist r) (''%'' @ search @ ''%'')) (t_events d))"

definition proper_ids :: "db \<Rightarrow> bool" where
  "proper_ids d \<longleftrightarrow> distinct (map ev_id (t_events d)) \<and> (\<forall>r \<in> set (t_events d). 0 < ev_id r \<and> ev_id r < 2 ^ 63)"

lemma ParseInt_show_int: "- (2 ^ 63) \<le> n \<Longrightarrow> n < 2 ^ 63 \<Longrightarrow> ParseInt (show_int n) = Some n"
proof -
  assume r: "- (2 ^ 63) \<le> n" "n < 2 ^ 63"
  have "show_int n = [] \<or> hd (show_int n) \<noteq> CHR ''+''"
    using show_int_chars [of "hd (show_int n)" n] by (cases "show_int n") (auto simp: is_digit_def)
  then have "ParseInt (show_int n) = parse_int 64 (show_int n)"
    by (auto simp: ParseInt_def split: list.splits)
  then show ?thesis using parse_show_int [of 64 n] r by simp
qed

lemma summary_id_of [simp]: "summary_id (eventSummary B e p n) = Some (jint (ev_id e))"
  by (simp add: summary_id_def eventSummary_def)

lemma summaries_ids:
  "\<forall>n. fate_of E n = Done \<Longrightarrow> \<exists>js w'. summaries E B es w = (js, w') \<and> w_db w' = w_db w
     \<and> map summary_id js = map (\<lambda>e. Some (jint (ev_id e))) es"
proof (induction es arbitrary: w)
  case (Cons e es)
  obtain r1 w1 where 1: "exec E (q_MinEventPriceCents (ev_id e)) w = (r1, w1)" by (meson surj_pair)
  obtain r2 w2 where 2: "exec E (q_CountAvailableSeats (ev_id e)) w1 = (r2, w2)" by (meson surj_pair)
  have "w_db w2 = w_db w1" by (rule exec_select [OF 2]) (simp add: q_CountAvailableSeats_def)
  moreover have "w_db w1 = w_db w" by (rule exec_select [OF 1]) (simp add: q_MinEventPriceCents_def)
  moreover obtain js w3 where "summaries E B es w2 = (js, w3)" "w_db w3 = w_db w2"
      "map summary_id js = map (\<lambda>e. Some (jint (ev_id e))) es" using Cons by blast
  ultimately show ?case using 1 2 by simp
qed simp

text \<open>Behind the last row of a prefix of the sorted list come exactly the rows not in it.\<close>

lemma after_cursor:
  assumes "sorted (map f (xs @ ys))" and "distinct (map f (xs @ ys))" and "xs \<noteq> []"
  shows "filter (\<lambda>r. (f (last xs) :: int) < f r) (xs @ ys) = ys"
proof -
  have "\<forall>x \<in> set xs. f x \<le> f (last xs)"
    using assms(1,3) by (induction xs) (auto simp: sorted_append)
  moreover have "\<forall>y \<in> set ys. f (last xs) < f y"
  proof
    fix y assume y: "y \<in> set ys"
    have l: "last xs \<in> set xs" using assms(3) by simp
    have "f (last xs) \<le> f y" using assms(1) l y by (simp add: sorted_append)
    moreover have "f (last xs) \<noteq> f y" using assms(2) l y by (metis IntI distinct_append empty_iff imageI list.set_map map_append)
    ultimately show "f (last xs) < f y" by simp
  qed
  ultimately show ?thesis by (simp add: filter_empty_conv filter_id_conv linorder_not_less)
qed

lemma list_page:
  assumes "proper_ids d" and "matching d search = xs @ ys"
  shows "fst (q_ListEvents search (next_cursor xs) n t d) = Inr (take n ys)"
proof -
  let ?M = "\<lambda>r. search = [] \<or> ilike (ev_title r) (''%'' @ search @ ''%'') \<or> ilike (ev_artist r) (''%'' @ search @ ''%'')"
  have s: "sorted (map ev_id (xs @ ys))" 
    unfolding assms(2) [symmetric] matching_def by (rule sorted_sort_key)
  have m: "mset (map ev_id (xs @ ys)) = mset (map ev_id (filter ?M (t_events d)))"
    unfolding assms(2) [symmetric] matching_def by simp
  have "distinct (map ev_id (filter ?M (t_events d)))" using assms(1) by (simp add: proper_ids_def distinct_map_filter)
  then have di: "distinct (map ev_id (xs @ ys))" using mset_eq_imp_distinct_iff [OF m] by simp
  show ?thesis
  proof (cases "xs = []")
    case True
    then show ?thesis using assms(2) by (simp add: q_ListEvents_def next_cursor_def matching_def)
  next
    case False
    then have "last xs \<in> set (matching d search)" using assms(2) by simp
    then have "0 < ev_id (last xs)" using assms(1) by (auto simp: matching_def proper_ids_def)
    moreover have "sort_key ev_id (filter (\<lambda>r. ?M r \<and> ev_id (last xs) < ev_id r) (t_events d))
        = filter (\<lambda>r. ev_id (last xs) < ev_id r) (matching d search)"
      by (simp add: matching_def filter_sort conj_commute)
    ultimately show ?thesis using False after_cursor [OF s di False] assms(2)
      by (simp add: q_ListEvents_def next_cursor_def)
  qed
qed

lemma browse_from:
  assumes "\<forall>n. fate_of E n = Done" and "proper_ids (w_db w)" and "matching (w_db w) search = xs @ ys"
  shows "map summary_id (browse k E B search n (show_int (next_cursor xs)) w)
     = map (\<lambda>e. Some (jint (ev_id e))) (take (k * page_limit n) ys)"
  using assms(2,3)
proof (induction k arbitrary: xs ys w)
  case (Suc k)
  let ?c = "next_cursor xs" and ?n = "page_limit n"
  have "xs \<noteq> [] \<Longrightarrow> last xs \<in> set (t_events (w_db w))"
  proof -
    assume "xs \<noteq> []"
    then have "last xs \<in> set (matching (w_db w) search)" using Suc.prems(2) by simp
    then show ?thesis by (simp add: matching_def)
  qed
  then have "ParseInt (show_int ?c) = Some ?c"
    using Suc.prems(1) by (intro ParseInt_show_int) (fastforce simp: next_cursor_def proper_ids_def)+
  then have pc: "page_cursor (show_int ?c) = ?c" by (simp add: page_cursor_def)
  have n: "0 < ?n" by (simp add: page_limit_def split: option.splits)
  let ?p = "take ?n ys"
  obtain w1 where x: "exec E (q_ListEvents search ?c ?n) w = (Inr ?p, w1)" "w_db w1 = w_db w"
    using list_page [OF Suc.prems, of ?n "now E w"] assms(1) by (simp add: exec_Done) (simp add: q_ListEvents_def)
  obtain js w2 where js: "summaries E B ?p w1 = (js, w2)" "w_db w2 = w_db w1"
      "map summary_id js = map (\<lambda>e. Some (jint (ev_id e))) ?p" using summaries_ids [OF assms(1)] by blast
  have empty: "js = [] \<longleftrightarrow> ys = []" using js(3) n by (metis map_is_Nil_conv take_eq_Nil less_numeral_extra(3))
  have le: "listEvents E B (browse_query search n (show_int ?c)) w
      = (writeJSON 200 (JObject [(''events'', JArray js), (''nextCursor'', jint (next_cursor ?p))]), w2)"
    using x js by (simp add: listEvents_def browse_query_def pc)
  show ?case
  proof (cases "ys = []")
    case True
    then show ?thesis using empty by (simp add: le writeJSON_def jint_def)
  next
    case False
    have nc: "next_cursor ?p = next_cursor (xs @ ?p)" using False n by (simp add: next_cursor_def)
    have "matching (w_db w2) search = (xs @ ?p) @ drop ?n ys" using Suc.prems(2) x js by simp
    then have "map summary_id (browse k E B search n (show_int (next_cursor (xs @ ?p))) w2)
        = map (\<lambda>e. Some (jint (ev_id e))) (take (k * ?n) (drop ?n ys))"
      using Suc.IH Suc.prems(1) x js by simp
    then show ?thesis using False empty js(3)
      by (simp add: le writeJSON_def jint_def nc take_add)
  qed
qed simp

text \<open>
  browsing reaches everything. A client that follows \<open>nextCursor\<close> from the first page collects,
  after \<open>k\<close> requests, the first \<open>k * limit\<close> matching events in the order of their ids, none twice and
  none skipped; so it has them all after as many requests as there are pages.
\<close>

lemma browse_lists_everything:
  assumes "\<forall>n. fate_of E n = Done" and "proper_ids (w_db w)"
  shows "map summary_id (browse k E B search n [] w)
     = map (\<lambda>e. Some (jint (ev_id e))) (take (k * page_limit n) (matching (w_db w) search))
   \<and> (length (matching (w_db w) search) \<le> k * page_limit n \<longrightarrow>
        map summary_id (browse k E B search n [] w) = map (\<lambda>e. Some (jint (ev_id e))) (matching (w_db w) search))"
proof -
  have "page_cursor [] = 0" and "page_cursor (show_int 0) = 0" by code_simp+
  then have "listEvents E B (browse_query search n []) w = listEvents E B (browse_query search n (show_int 0)) w"
    by (simp add: listEvents_def browse_query_def)
  then have "browse k E B search n [] w = browse k E B search n (show_int (next_cursor [])) w"
    by (cases k) (simp_all add: next_cursor_def)
  then show ?thesis using browse_from [OF assms, of search "[]"] by simp
qed

definition sample_event :: "int \<Rightarrow> event_row" where
  "sample_event i = \<lparr>ev_id = i, ev_venue = 1, ev_artist = ''Band'', ev_title = ''Show'', ev_starts = 0, ev_onsale = 0,
     ev_region = ''eu'', ev_status = ''ON_SALE'', ev_layout = 1, ev_created = 0\<rparr>"

definition browse_world :: "(unit, unit) world" where
  "browse_world = sample_world\<lparr>w_db := empty_db\<lparr>t_events := map sample_event [3, 1, 2]\<rparr>\<rparr>"

lemma browse_lists_everything_example:
  "map summary_id (browse 2 sample_env sample_web [] ''2'' [] browse_world) = map (\<lambda>i. Some (jint i)) [1, 2, 3]"
proof -
  have E: "\<forall>n. fate_of sample_env n = Done" by (simp add: sample_env_def)
  have p: "proper_ids (w_db browse_world)" by (simp add: proper_ids_def browse_world_def sample_event_def)
  have l: "page_limit ''2'' = 2" by code_simp
  have m: "map ev_id (matching (w_db browse_world) []) = [1, 2, 3]"
    by (simp add: matching_def browse_world_def sample_event_def)
  then have "length (matching (w_db browse_world) []) = 3" by (metis length_map list.size(3) length_Cons numeral_3_eq_3)
  then have "map summary_id (browse 2 sample_env sample_web [] ''2'' [] browse_world)
      = map (\<lambda>e. Some (jint (ev_id e))) (matching (w_db browse_world) [])"
    using browse_lists_everything [OF E p, of 2 sample_web "[]" "''2''"] by (simp add: l)
  then show ?thesis using arg_cong [OF m, of "map (\<lambda>i. Some (jint i))"] by (simp add: comp_def)
qed

end
