(* ===== verification/Router.thy ===== *)
theory Router
  imports HttpCatalog Redeem
begin

section \<open>internal/httpapi/router.go and internal/wiring: the server\<close>

text \<open>
  The routing table, the middleware each route sits behind, and one request served from start to
  end. The routes under \<open>/api/v1\<close> that bear an identity are wrapped by the verifier, and
  \<open>POST .../holds\<close> in addition by the waiting room when there is one. A path that matches no route is
  answered by the router library, and \<open>/ws\<close> by the hub; both give no response here. CORS and the
  library's request-id middleware are left out.
\<close>

datatype route =
  Health | Ws | GateRedeem | ListEvents | GetEvent string | Availability string | Pricing string | VenueLayout string
| Whoami | JoinQueue string | PostHolds string | GetHold string | DeleteHold string | PostExtend string
| PostOrders | GetOrder string | TicketQR string

text \<open>The path is split at its slashes.\<close>

definition api_route :: "string \<Rightarrow> string list \<Rightarrow> route option" where
  "api_route m path =
     (case path of
        [a] \<Rightarrow>
          if m = ''GET'' \<and> a = ''events'' then Some ListEvents
          else if m = ''GET'' \<and> a = ''whoami'' then Some Whoami
          else if m = ''POST'' \<and> a = ''orders'' then Some PostOrders
          else None
      | [a, x] \<Rightarrow>
          if m = ''GET'' \<and> a = ''events'' then Some (GetEvent x)
          else if m = ''GET'' \<and> a = ''holds'' then Some (GetHold x)
          else if m = ''DELETE'' \<and> a = ''holds'' then Some (DeleteHold x)
          else if m = ''GET'' \<and> a = ''orders'' then Some (GetOrder x)
          else None
      | [a, x, b] \<Rightarrow>
          if m = ''GET'' \<and> a = ''events'' \<and> b = ''availability'' then Some (Availability x)
          else if m = ''GET'' \<and> a = ''events'' \<and> b = ''pricing'' then Some (Pricing x)
          else if m = ''GET'' \<and> a = ''venues'' \<and> b = ''layout'' then Some (VenueLayout x)
          else if m = ''POST'' \<and> a = ''events'' \<and> b = ''queue'' then Some (JoinQueue x)
          else if m = ''POST'' \<and> a = ''events'' \<and> b = ''holds'' then Some (PostHolds x)
          else if m = ''POST'' \<and> a = ''holds'' \<and> b = ''extend'' then Some (PostExtend x)
          else if m = ''GET'' \<and> a = ''tickets'' \<and> b = ''qr'' then Some (TicketQR x)
          else None
      | _ \<Rightarrow> None)"

definition NewRouter :: "string \<Rightarrow> string list \<Rightarrow> route option" where
  "NewRouter m path =
     (if m = ''GET'' \<and> path = [''health''] then Some Health
      else if m = ''GET'' \<and> path = [''ws''] then Some Ws
      else if m = ''POST'' \<and> path = [''gate'', ''redeem''] then Some GateRedeem
      else (case path of a # v # rest \<Rightarrow> if a = ''api'' \<and> v = ''v1'' then api_route m rest else None | _ \<Rightarrow> None))"

fun authed :: "route \<Rightarrow> bool" where
  "authed Whoami = True"
| "authed (JoinQueue _) = True"
| "authed (PostHolds _) = True"
| "authed (GetHold _) = True"
| "authed (DeleteHold _) = True"
| "authed (PostExtend _) = True"
| "authed PostOrders = True"
| "authed (GetOrder _) = True"
| "authed (TicketQR _) = True"
| "authed _ = False"

definition handleHealth :: response where
  "handleHealth = writeJSON 200 (JObject [(''status'', JString ''ok'')])"

definition handleWhoami :: "claims option \<Rightarrow> response" where
  "handleWhoami c =
     (case c of None \<Rightarrow> httpError ''unauthorized'' 401
      | Some cl \<Rightarrow> writeJSON 200 (JObject [(''sub'', JString (cl_sub cl)), (''email'', JString (cl_email cl))]))"

subsection \<open>The parts the server is wired from\<close>

record ('s, 'k) app =
  ap_env :: env
  ap_web :: web
  ap_jwt :: "'k jwt_library"
  ap_inv :: "'s service"
  ap_proj :: "'s store option"
  ap_room :: "(string \<times> 's room_store) option"
  ap_hmac :: "bytes \<Rightarrow> bytes \<Rightarrow> bytes"
  ap_tix :: ticketing
  ap_hex :: "bytes \<Rightarrow> string"
  ap_round :: "rat \<Rightarrow> rat"
  ap_bucket :: string

text \<open>What the process and its servers keep between requests, and the sagas started so far.\<close>

record ('s, 'p, 'k) site =
  si_world :: "('s, 'p) world"
  si_verifier :: "'k verifier"
  si_ordinals :: ordinals
  si_metrics :: "hold_metrics option"
  si_sagas :: "uuid list"

record request =
  rq_method :: string
  rq_path :: "string list"
  rq_auth :: string
  rq_admission :: string
  rq_etag :: string
  rq_query :: "string \<Rightarrow> string"
  rq_body :: string
  rq_nonce :: string

definition in_world :: "response \<times> ('s, 'p) world \<Rightarrow> ('s, 'p, 'k) site \<Rightarrow> response \<times> ('s, 'p, 'k) site" where
  "in_world r st = (fst r, st\<lparr>si_world := snd r\<rparr>)"

definition open_handler ::
    "('s, 'k) app \<Rightarrow> request \<Rightarrow> route \<Rightarrow> ('s, 'p, 'k) site \<Rightarrow> response \<times> ('s, 'p, 'k) site" where
  "open_handler A rq r st =
     (let E = ap_env A; B = ap_web A; w = si_world st in
      case r of
        GateRedeem \<Rightarrow> in_world (redeemGate E B (ap_tix A) (rq_body rq) w) st
      | ListEvents \<Rightarrow> in_world (listEvents E B (rq_query rq) w) st
      | GetEvent i \<Rightarrow> in_world (getEvent E B (ap_bucket A) i w) st
      | Pricing i \<Rightarrow> in_world (getPricing E i w) st
      | VenueLayout i \<Rightarrow> in_world (getVenueLayout E B (ap_bucket A) i (rq_query rq) w) st
      | Availability i \<Rightarrow>
          (case getAvailability E (ap_hex A) (ap_proj A) i (rq_etag rq) (si_ordinals st) w of
             (rs, c, w') \<Rightarrow> (rs, st\<lparr>si_ordinals := c, si_world := w'\<rparr>))
      | _ \<Rightarrow> (handleHealth, st))"

text \<open>Without a waiting room the queue handler dereferences a nil pointer once its checks have passed.\<close>

definition post_queue :: "('s, 'k) app \<Rightarrow> request \<Rightarrow> string \<Rightarrow> string option \<Rightarrow> ('s, 'p) world \<Rightarrow> response \<times> ('s, 'p) world" where
  "post_queue A rq i sub w =
     (case ap_room A of
        Some (secret, Q) \<Rightarrow> joinQueue (ap_env A) (ap_round A) (ap_hmac A) secret (rq_nonce rq) Q i sub w
      | None \<Rightarrow> (if ParseInt i = None then invalid_event else if sub = None then unauthorized else statusOnly 500, w))"

definition authed_handler ::
    "('s, 'k) app \<Rightarrow> request \<Rightarrow> route \<Rightarrow> claims \<Rightarrow> ('s, 'p, 'k) site \<Rightarrow> response \<times> ('s, 'p, 'k) site" where
  "authed_handler A rq r cl st =
     (let E = ap_env A; B = ap_web A; S = ap_inv A; w = si_world st; sub = Some (cl_sub cl) in
      case r of
        JoinQueue i \<Rightarrow> in_world (post_queue A rq i sub w) st
      | PostHolds i \<Rightarrow>
          (case post_holds E B (ap_hmac A) (map_option fst (ap_room A)) S i sub (rq_admission rq) (rq_body rq) (si_metrics st) w of
             (rs, m, w') \<Rightarrow> (rs, st\<lparr>si_metrics := m, si_world := w'\<rparr>))
      | GetHold i \<Rightarrow> in_world (getHold E B i sub w) st
      | DeleteHold i \<Rightarrow> in_world (deleteHold E B S i sub w) st
      | PostExtend i \<Rightarrow> in_world (extendHold E B i sub (rq_body rq) w) st
      | PostOrders \<Rightarrow>
          (case createOrder E B sub (rq_body rq) w of
             (rs, started, w') \<Rightarrow>
               (rs, st\<lparr>si_world := w', si_sagas := si_sagas st @ (case started of None \<Rightarrow> [] | Some i \<Rightarrow> [i])\<rparr>))
      | GetOrder i \<Rightarrow> in_world (getOrder E B sub i w) st
      | TicketQR i \<Rightarrow> in_world (getTicketQR E B (ap_tix A) i sub w) st
      | _ \<Rightarrow> (handleWhoami (Some cl), st))"

definition serve :: "('s, 'k) app \<Rightarrow> request \<Rightarrow> ('s, 'p, 'k) site \<Rightarrow> response option \<times> ('s, 'p, 'k) site" where
  "serve A rq st =
     (case NewRouter (rq_method rq) (rq_path rq) of
        None \<Rightarrow> (None, st)
      | Some r \<Rightarrow>
          if r = Ws then (None, st)
          else if authed r then
            (case AuthMiddleware (ap_jwt A) (now (ap_env A) (si_world st)) (rq_auth rq) (si_verifier st)
                    (authed_handler A rq r) st of
               (rs, v, st') \<Rightarrow> (Some rs, st'\<lparr>si_verifier := v\<rparr>))
          else (case open_handler A rq r st of (rs, st') \<Rightarrow> (Some rs, st')))"

subsection \<open>Properties\<close>

lemma select_snd:
  "(\<And>t d. snd (q t d) = d) \<Longrightarrow> w_db (snd (exec E q w)) = w_db w"
  using exec_select [of E q w "fst (exec E q w)" "snd (exec E q w)"] by simp

lemma selects_db [simp]:
  "w_db (snd (exec E (q_GetEvent i) w)) = w_db w" "w_db (snd (exec E (q_GetVenue i) w)) = w_db w"
  "w_db (snd (exec E (q_ListEventPriceTiers i) w)) = w_db w"
  "w_db (snd (exec E (q_ListClosedSectionsForEvent i) w)) = w_db w"
  "w_db (snd (exec E (q_MinEventPriceCents i) w)) = w_db w" "w_db (snd (exec E (q_CountAvailableSeats i) w)) = w_db w"
  "w_db (snd (exec E (q_ListEvents q c n) w)) = w_db w"
  "w_db (snd (exec E (q_ListEventSeatsForAvailability i) w)) = w_db w"
  by (rule select_snd, simp add: q_GetEvent_def q_GetVenue_def q_ListEventPriceTiers_def q_ListClosedSectionsForEvent_def
        q_MinEventPriceCents_def q_CountAvailableSeats_def q_ListEvents_def q_ListEventSeatsForAvailability_def)+

lemma summaries_db [simp]: "w_db (snd (summaries E B es w)) = w_db w"
  by (induction es arbitrary: w) (simp_all add: case_prod_unfold)

lemma browsing_db [simp]:
  "w_db (snd (listEvents E B q w)) = w_db w" "w_db (snd (getEvent E B b i w)) = w_db w"
  "w_db (snd (getPricing E i w)) = w_db w" "w_db (snd (getVenueLayout E B b i q w)) = w_db w"
     apply (simp add: listEvents_def case_prod_unfold split: sum.split)
    apply (simp add: getEvent_def case_prod_unfold split: sum.split option.split)
   apply (simp add: getPricing_def case_prod_unfold split: sum.split option.split)
  apply (simp add: getVenueLayout_def case_prod_unfold split: sum.split option.split)
  done

lemma getAvailability_db [simp]: "w_db (snd (snd (getAvailability E hex proj i inm c w))) = w_db w"
proof (cases "ParseInt i")
  case (Some ev)
  obtain t c1 w1 where t: "(case proj of None \<Rightarrow> (None, c, w) | Some R \<Rightarrow> tryRedisAvailability E R ev c w) = (t, c1, w1)"
    by (meson prod_cases3)
  then have "w_db w1 = w_db w" by (auto split: option.splits dest: tryRedis_db)
  then show ?thesis using Some t by (simp add: getAvailability_def case_prod_unfold split: option.split sum.split)
qed (simp add: getAvailability_def)

lemma open_handler_db:
  "\<not> authed r \<Longrightarrow> r \<noteq> GateRedeem \<Longrightarrow> w_db (si_world (snd (open_handler A rq r st))) = w_db (si_world st)"
  by (cases r) (simp_all add: open_handler_def in_world_def case_prod_unfold Let_def)

text \<open>
  C37: auth gates the API. A request to a route that bears an identity and whose token does not verify
  is answered 401 and touches nothing but the cached key set; when the token does verify, the
  handler runs for exactly the token's subject. Every other route leaves every table of the database
  as it was, the gate scanner's aside.
\<close>

theorem auth_gates_the_api:
  fixes st st' :: "('s, 'p, 'k) site"
  assumes "serve A rq st = (rs, st')" and "NewRouter (rq_method rq) (rq_path rq) = Some r"
  shows "case verify_header (ap_jwt A) (now (ap_env A) (si_world st)) (rq_auth rq) (si_verifier st) of (c, v) \<Rightarrow>
     if authed r then
       (case c of
          None \<Rightarrow> map_option rs_status rs = Some 401 \<and> st' = st\<lparr>si_verifier := v\<rparr>
        | Some cl \<Rightarrow> rs = Some (fst (authed_handler A rq r cl st))
                    \<and> st' = (snd (authed_handler A rq r cl st))\<lparr>si_verifier := v\<rparr>)
     else r \<noteq> GateRedeem \<longrightarrow> w_db (si_world st') = w_db (si_world st)"
proof (cases "authed r")
  case True
  then have "r \<noteq> Ws" by auto
  then show ?thesis using assms True
    by (auto simp: serve_def AuthMiddleware_def httpError_def split: prod.splits option.splits)
next
  case False
  then show ?thesis using assms open_handler_db [OF False, of A rq st]
    by (auto simp: serve_def split: prod.splits if_splits)
qed

text \<open>A token library that knows one token, ann's, and a site behind it.\<close>

definition sample_jwt :: "unit jwt_library" where
  "sample_jwt = \<lparr>jl_fetch = (\<lambda>_ _. Some ()),
     jl_parse = (\<lambda>_ tok _ _ _. if tok = ''ann'' then Some (Some ''id'', Some ''ann'', None) else None)\<rparr>"

definition sample_app :: "(unit, unit) app" where
  "sample_app = \<lparr>ap_env = sample_env, ap_web = sample_web, ap_jwt = sample_jwt, ap_inv = sample_service, ap_proj = None,
     ap_room = None, ap_hmac = (\<lambda>k m. k @ m), ap_tix = sample_ticketing, ap_hex = (\<lambda>_. ''x''), ap_round = (\<lambda>r. r), ap_bucket = ''layouts''\<rparr>"

definition sample_site :: "(unit, unit, unit) site" where
  "sample_site = \<lparr>si_world = held_world, si_verifier = NewVerifier ''https://issuer/'' ''app'', si_ordinals = (\<lambda>_. None),
     si_metrics = None, si_sagas = []\<rparr>"

definition get_hold :: "string \<Rightarrow> request" where
  "get_hold tok = \<lparr>rq_method = ''GET'', rq_path = [''api'', ''v1'', ''holds'', ''100''], rq_auth = tok, rq_admission = [],
     rq_etag = [], rq_query = (\<lambda>_. []), rq_body = [], rq_nonce = []\<rparr>"

text \<open>Ann's hold, asked for with her token and with none.\<close>

theorem auth_gates_the_api_witness:
  "map_option rs_status (fst (serve sample_app (get_hold []) sample_site)) = Some 401
   \<and> map_option rs_status (fst (serve sample_app (get_hold ''Bearer ann'') sample_site)) = Some 200"
proof -
  have r: "NewRouter (rq_method (get_hold t)) (rq_path (get_hold t)) = Some (GetHold ''100'')" for t
    by (simp add: get_hold_def NewRouter_def api_route_def)
  obtain rs st' where s: "serve sample_app (get_hold []) sample_site = (rs, st')" by (meson surj_pair)
  have "fst (verify_header (ap_jwt sample_app) (now (ap_env sample_app) (si_world sample_site)) (rq_auth (get_hold [])) (si_verifier sample_site)) = None"
    by (simp add: verify_header_def get_hold_def)
  then have "map_option rs_status rs = Some 401" using auth_gates_the_api [OF s r] by (auto split: prod.splits)
  moreover have "map_option rs_status (fst (serve sample_app (get_hold ''Bearer ann'') sample_site)) = Some 200" by code_simp
  ultimately show ?thesis by (simp add: s)
qed

end
