(* ===== verification/Catalog.thy ===== *)
theory Catalog
  imports CatalogQueries Wsproto
begin

section \<open>internal/catalog: the static layout\<close>

text \<open>
  \<open>BuildLayout\<close> walks the seats of a venue once and builds \<open>layout.json\<close> (\<open>layout_meta\<close>) and
  \<open>seats.bin\<close> (\<open>EncodeSeatsBin\<close>) together with the columns the event publisher writes to
  \<open>event_seats\<close>. The walk is a recursion over the rows with the loop's variables in a record;
  \<open>sectionIdx\<close> and \<open>rowIdx\<close> are one less than the lengths of the two lists. An index that is
  out of range would panic; it is an error here.
\<close>

subsection \<open>The metadata\<close>

record section_meta =
  sm_idx :: nat
  sm_section :: int
  sm_name :: string
  sm_tier :: string
  sm_polygon :: "int list"
  sm_first_row :: nat
  sm_row_count :: nat
  sm_first_seat :: nat
  sm_seat_count :: nat

record row_meta =
  rw_idx :: nat
  rw_section :: nat
  rw_label :: string
  rw_first_seat :: nat
  rw_seat_count :: nat

record layout_meta =
  lm_version :: int
  lm_venue :: int
  lm_seats :: nat
  lm_bbox :: "int list"
  lm_sections :: "section_meta list"
  lm_rows :: "row_meta list"
  lm_tiers :: "string list"

record built =
  bl_meta :: layout_meta
  bl_bin :: bytes
  bl_seat :: "int list"
  bl_tier :: "string list"
  bl_closed :: "bool list"

subsection \<open>seats.bin\<close>

fun label_digits :: "string \<Rightarrow> 16 word \<Rightarrow> 16 word option" where
  "label_digits [] n = Some n"
| "label_digits (c # cs) n = (if is_digit c then label_digits cs (n * 10 + of_nat (char_digit c)) else None)"

definition seatLabelToNumber :: "string \<Rightarrow> nat \<Rightarrow> 16 word" where
  "seatLabelToNumber label fallback =
     (case label_digits label 0 of
        None \<Rightarrow> of_nat (fallback + 1)
      | Some n \<Rightarrow> if label = [] then of_nat (fallback + 1) else n)"

text \<open>Columns shorter than the first one would panic; the tier column is copied and cut.\<close>

definition EncodeSeatsBin ::
    "16 word list \<Rightarrow> 16 word list \<Rightarrow> 16 word list \<Rightarrow> 8 word list \<Rightarrow> 16 word \<Rightarrow> bytes option" where
  "EncodeSeatsBin x y seatNumber tierIdx layoutVersion =
     (let n = length x in
      if length y < n \<or> length seatNumber < n then None
      else Some (map of_char ''SEAT'' @ [1, 0] @ le_bytes 2 layoutVersion @ le_bytes 4 (of_nat n :: 32 word)
                 @ concat (map (le_bytes 2) x) @ concat (map (le_bytes 2) (take n y))
                 @ concat (map (le_bytes 2) (take n seatNumber)) @ take n (tierIdx @ replicate n 0)))"

subsection \<open>The walk\<close>

record walk =
  wk_section :: int
  wk_row :: int
  wk_sections :: "section_meta list"
  wk_rows :: "row_meta list"
  wk_tiers :: "(string \<times> 8 word) list"
  wk_box :: "int \<times> int \<times> int \<times> int"
  wk_x :: "16 word list"
  wk_y :: "16 word list"
  wk_number :: "16 word list"
  wk_tier_idx :: "8 word list"
  wk_seat :: "int list"
  wk_tier_of :: "string list"
  wk_closed :: "bool list"

definition map_last :: "('a \<Rightarrow> 'a) \<Rightarrow> 'a list \<Rightarrow> 'a list" where
  "map_last f xs = (if xs = [] then [] else butlast xs @ [f (last xs)])"

definition enter_section :: "nat \<Rightarrow> ordered_seat \<Rightarrow> walk \<Rightarrow> walk" where
  "enter_section k r w =
     (let s = os_section r in
      if sec_id s \<noteq> wk_section w then
        w\<lparr>wk_section := sec_id s,
          wk_sections := wk_sections w @
            [\<lparr>sm_idx = length (wk_sections w), sm_section = sec_id s, sm_name = sec_name s, sm_tier = sec_tier s,
              sm_polygon = [], sm_first_row = length (wk_rows w), sm_row_count = 0,
              sm_first_seat = k, sm_seat_count = 0\<rparr>]\<rparr>
      else w)"

definition enter_row :: "nat \<Rightarrow> ordered_seat \<Rightarrow> walk \<Rightarrow> walk" where
  "enter_row k r w =
     (let x = os_row r in
      if sr_id x \<noteq> wk_row w then
        w\<lparr>wk_row := sr_id x,
          wk_rows := wk_rows w @
            [\<lparr>rw_idx = length (wk_rows w), rw_section = length (wk_sections w) - 1, rw_label = sr_label x,
              rw_first_seat = k, rw_seat_count = 0\<rparr>]\<rparr>
      else w)"

definition count_seat :: "walk \<Rightarrow> walk" where
  "count_seat w =
     w\<lparr>wk_sections := map_last (\<lambda>s. s\<lparr>sm_row_count := length (wk_rows w) - sm_first_row s,
                                     sm_seat_count := sm_seat_count s + 1\<rparr>) (wk_sections w),
       wk_rows := map_last (\<lambda>x. x\<lparr>rw_seat_count := rw_seat_count x + 1\<rparr>) (wk_rows w)\<rparr>"

definition see_tier :: "ordered_seat \<Rightarrow> walk \<Rightarrow> walk" where
  "see_tier r w =
     (let tier = sec_tier (os_section r) in
      if tier \<in> fst ` set (wk_tiers w) then w
      else w\<lparr>wk_tiers := wk_tiers w @ [(tier, of_nat (length (wk_tiers w)))]\<rparr>)"

definition grow :: "int \<times> int \<times> int \<times> int \<Rightarrow> int \<Rightarrow> int \<Rightarrow> int \<times> int \<times> int \<times> int" where
  "grow b x y = (case b of (x0, y0, x1, y1) \<Rightarrow> (min x0 x, min y0 y, max x1 x, max y1 y))"

definition add_columns :: "nat \<Rightarrow> ordered_seat \<Rightarrow> walk \<Rightarrow> walk" where
  "add_columns k r w =
     (let s = os_section r; st = os_seat r in
      w\<lparr>wk_box := grow (wk_box w) (st_x st) (st_y st),
        wk_x := wk_x w @ [word_of_int (st_x st)], wk_y := wk_y w @ [word_of_int (st_y st)],
        wk_number := wk_number w @ [seatLabelToNumber (st_label st) k],
        wk_tier_idx := wk_tier_idx w @ [case map_of (wk_tiers w) (sec_tier s) of None \<Rightarrow> 0 | Some i \<Rightarrow> i],
        wk_seat := wk_seat w @ [st_id st], wk_tier_of := wk_tier_of w @ [sec_tier s],
        wk_closed := wk_closed w @ [sec_closed s]\<rparr>)"

fun walk_rows :: "nat \<Rightarrow> ordered_seat list \<Rightarrow> walk \<Rightarrow> walk option" where
  "walk_rows k [] w = Some w"
| "walk_rows k (r # rs) w =
     (let w' = enter_row k r (enter_section k r w) in
      if wk_sections w' = [] \<or> wk_rows w' = [] then None
      else walk_rows (Suc k) rs (add_columns k r (see_tier r (count_seat w'))))"

text \<open>The bounding rectangles: the second pass over the rows.\<close>

fun section_boxes :: "ordered_seat list \<Rightarrow> int \<Rightarrow> (int \<times> int \<times> int \<times> int) list \<Rightarrow> (int \<times> int \<times> int \<times> int) list" where
  "section_boxes [] cur bs = bs"
| "section_boxes (r # rs) cur bs =
     (let bs' = (if sec_id (os_section r) \<noteq> cur then bs @ [(2 ^ 30, 2 ^ 30, - (2 ^ 30), - (2 ^ 30))] else bs)
      in section_boxes rs (sec_id (os_section r))
           (map_last (\<lambda>b. grow b (st_x (os_seat r)) (st_y (os_seat r))) bs'))"

definition polygon :: "int \<times> int \<times> int \<times> int \<Rightarrow> int list" where
  "polygon b = (case b of (x0, y0, x1, y1) \<Rightarrow> [x0, y0, x1, y0, x1, y1, x0, y1])"

definition start_walk :: "ordered_seat \<Rightarrow> walk" where
  "start_walk r =
     \<lparr>wk_section = -1, wk_row = -1, wk_sections = [], wk_rows = [], wk_tiers = [],
      wk_box = (st_x (os_seat r), st_y (os_seat r), st_x (os_seat r), st_y (os_seat r)),
      wk_x = [], wk_y = [], wk_number = [], wk_tier_idx = [], wk_seat = [], wk_tier_of = [], wk_closed = []\<rparr>"

text \<open>\<open>meta.Tiers[idx] = tier\<close> for every entry of the map, here in insertion order.\<close>

definition tier_names :: "(string \<times> 8 word) list \<Rightarrow> string list" where
  "tier_names ts = foldl (\<lambda>names (tier, i). names[unat i := tier]) (replicate (length ts) []) ts"

definition BuildLayout :: "int \<Rightarrow> int \<Rightarrow> ordered_seat list \<Rightarrow> error + built" where
  "BuildLayout venue version rows =
     (case rows of
        [] \<Rightarrow> Inl (OtherError ''build layout: venue has no seats'')
      | r # _ \<Rightarrow>
     (case walk_rows 0 rows (start_walk r) of
        None \<Rightarrow> Inl (OtherError ''index out of range'')
      | Some w \<Rightarrow>
     (case EncodeSeatsBin (wk_x w) (wk_y w) (wk_number w) (wk_tier_idx w) (word_of_int version) of
        None \<Rightarrow> Inl (OtherError ''index out of range'')
      | Some bin \<Rightarrow>
          (let boxes = section_boxes rows (-1) [];
               sections = map (\<lambda>(s, b). s\<lparr>sm_polygon := polygon b\<rparr>) (zip (wk_sections w) boxes)
           in Inr \<lparr>bl_meta = \<lparr>lm_version = version, lm_venue = venue, lm_seats = length rows,
                     lm_bbox = (case wk_box w of (x0, y0, x1, y1) \<Rightarrow> [x0, y0, x1, y1]),
                     lm_sections = sections, lm_rows = wk_rows w, lm_tiers = tier_names (wk_tiers w)\<rparr>,
                   bl_bin = bin, bl_seat = wk_seat w, bl_tier = wk_tier_of w, bl_closed = wk_closed w\<rparr>))))"

subsection \<open>Reading seats.bin back\<close>

lemma slice_concat:
  assumes "\<And>x. x \<in> set xs \<Longrightarrow> length (f x) = c" and "i < length xs"
  shows "take c (drop (c * i) (concat (map f xs) @ rest)) = f (xs ! i)"
  using assms
proof (induction xs arbitrary: i)
  case (Cons a xs)
  show ?case
  proof (cases i)
    case 0
    with Cons.prems(1) [of a] show ?thesis by simp
  next
    case (Suc j)
    then have "j < length xs" using Cons.prems(2) by simp
    have "c * i = c + c * j" using Suc by simp
    then show ?thesis using Cons.IH [OF _ \<open>j < length xs\<close>] Cons.prems(1) Suc by simp
  qed
qed simp

lemma length_concat_words [simp]: "length (concat (map (le_bytes n) xs)) = n * length xs"
  by (induction xs) simp_all

lemma column_read:
  assumes "i < length xs" and "off = length pre"
  shows "le_word (slice (off + 2 * i) (off + 2 * i + 2) (pre @ concat (map (le_bytes 2) xs) @ post)) = (xs ! i :: 16 word)"
  using slice_concat [of xs "le_bytes 2" 2 i post] assms by (simp add: slice_def)

text \<open>
  \<open>seats.bin\<close> says where everything is. For columns of one length n below 2^32,
  \<open>EncodeSeatsBin\<close> returns 12 + 7n bytes that start with the magic, the format version and the
  layout version, hold n at offset 8, and from which each seat's x, y and number are read back
  as little-endian words at 12 + 2i, 12 + 2n + 2i and 12 + 4n + 2i and its tier index at
  12 + 6n + i.
\<close>

lemma seats_bin_reads_back:
  assumes "length x = n" and "length y = n" and "length number = n" and "length tier = n" and "n < 2 ^ 32"
  shows "\<exists>b. EncodeSeatsBin x y number tier ver = Some b \<and> length b = 12 + 7 * n
    \<and> take 6 b = map of_char ''SEAT'' @ [1, 0] \<and> le_word (slice 6 8 b) = ver
    \<and> unat (le_word (slice 8 12 b) :: 32 word) = n
    \<and> (\<forall>i < n. le_word (slice (12 + 2 * i) (12 + 2 * i + 2) b) = x ! i
          \<and> le_word (slice (12 + 2 * n + 2 * i) (12 + 2 * n + 2 * i + 2) b) = y ! i
          \<and> le_word (slice (12 + 4 * n + 2 * i) (12 + 4 * n + 2 * i + 2) b) = number ! i
          \<and> b ! (12 + 6 * n + i) = tier ! i)"
proof -
  let ?h = "map of_char ''SEAT'' @ [1, 0] @ le_bytes 2 ver @ le_bytes 4 (of_nat n :: 32 word)"
  let ?x = "concat (map (le_bytes 2) x)" and ?y = "concat (map (le_bytes 2) y)" and ?n = "concat (map (le_bytes 2) number)"
  let ?b = "?h @ ?x @ ?y @ ?n @ tier"
  have b: "EncodeSeatsBin x y number tier ver = Some ?b" using assms by (simp add: EncodeSeatsBin_def)
  have "length ?h = 12" by simp
  have xs: "le_word (slice (12 + 2 * i) (12 + 2 * i + 2) ?b) = x ! i" if "i < n" for i
    using column_read [of i x 12 ?h "?y @ ?n @ tier"] that assms by simp
  have ys: "le_word (slice (12 + 2 * n + 2 * i) (12 + 2 * n + 2 * i + 2) ?b) = y ! i" if "i < n" for i
    using column_read [of i y "12 + 2 * n" "?h @ ?x" "?n @ tier"] that assms by simp
  have ns: "le_word (slice (12 + 4 * n + 2 * i) (12 + 4 * n + 2 * i + 2) ?b) = number ! i" if "i < n" for i
    using column_read [of i number "12 + 4 * n" "?h @ ?x @ ?y" tier] that assms by simp
  have ts: "?b ! (12 + 6 * n + i) = tier ! i" for i
    using assms by (simp add: nth_append)
  have "unat (le_word (slice 8 12 ?b) :: 32 word) = n"
    using assms(5) by (simp add: slice_def take_bit_nat_eq_self unsigned_of_nat)
  moreover have "le_word (slice 6 8 ?b) = ver" by (simp add: slice_def)
  ultimately show ?thesis using b xs ys ns ts assms(1-4) by (intro exI [of _ ?b]) simp
qed

lemma seats_bin_reads_back_example:
  "\<exists>b. EncodeSeatsBin [3, 515] [7, 8] [1, 2] [0, 1] 9 = Some b \<and> length b = 26 \<and> le_word (slice 14 16 b) = (515 :: 16 word)"
proof -
  obtain b where b: "EncodeSeatsBin [3, 515] [7, 8] [1, 2] [0, 1] 9 = Some b" "length b = 12 + 7 * 2"
      "\<forall>i < 2. le_word (slice (12 + 2 * i) (12 + 2 * i + 2) b) = ([3, 515] :: 16 word list) ! i"
    using seats_bin_reads_back [of "[3, 515]" 2 "[7, 8]" "[1, 2]" "[0, 1]" 9] by auto
  have "le_word (slice (12 + 2 * 1) (12 + 2 * 1 + 2) b) = ([3, 515] :: 16 word list) ! 1"
    using b(3) by (metis one_less_numeral_iff semiring_norm(76))
  then have "le_word (slice 14 16 b) = (515 :: 16 word)" by simp
  with b(1,2) show ?thesis by simp
qed

subsection \<open>What the walk maintains\<close>

lemma map_last_snoc [simp]: "map_last f (xs @ [x]) = xs @ [f x]"
  by (simp add: map_last_def)

lemma length_map_last [simp]: "length (map_last f xs) = length xs"
  by (simp add: map_last_def)

lemma map_last_Nil [simp]: "map_last f xs = [] \<longleftrightarrow> xs = []"
  by (simp add: map_last_def)

text \<open>Entries with a first index and a length that follow each other from \<open>a\<close> up to \<open>k\<close>.\<close>

fun consecutive :: "('a \<Rightarrow> nat) \<Rightarrow> ('a \<Rightarrow> nat) \<Rightarrow> nat \<Rightarrow> 'a list \<Rightarrow> nat \<Rightarrow> bool" where
  "consecutive f c a [] k \<longleftrightarrow> a = k"
| "consecutive f c a (x # xs) k \<longleftrightarrow> f x = a \<and> consecutive f c (a + c x) xs k"

lemma consecutive_snoc:
  "consecutive f c a (xs @ [x]) k \<longleftrightarrow> (\<exists>m. consecutive f c a xs m \<and> f x = m \<and> k = m + c x)"
  by (induction xs arbitrary: a) auto

lemma consecutive_grow:
  assumes "consecutive f c a xs k" and "xs \<noteq> []" and "\<And>x. f (g x) = f x" and "\<And>x. c (g x) = c x + 1"
  shows "consecutive f c a (map_last g xs) (Suc k)"
proof -
  obtain ys y where "xs = ys @ [y]" using assms(2) by (metis append_butlast_last_id)
  with assms show ?thesis by (auto simp: consecutive_snoc)
qed

lemma consecutive_map:
  "(\<And>x. x \<in> set xs \<Longrightarrow> f' (g x) = f x \<and> c' (g x) = c x) \<Longrightarrow> consecutive f' c' a (map g xs) k \<longleftrightarrow> consecutive f c a xs k"
  by (induction xs arbitrary: a) auto

definition sections_ok :: "ordered_seat list \<Rightarrow> nat \<Rightarrow> walk \<Rightarrow> bool" where
  "sections_ok rows k w \<longleftrightarrow>
     consecutive sm_first_seat sm_seat_count 0 (wk_sections w) k
   \<and> (\<forall>s \<in> set (wk_sections w). \<forall>i. sm_first_seat s \<le> i \<and> i < sm_first_seat s + sm_seat_count s \<longrightarrow>
        sec_id (os_section (rows ! i)) = sm_section s)
   \<and> (wk_sections w \<noteq> [] \<longrightarrow> sm_section (last (wk_sections w)) = wk_section w)"

definition rows_ok :: "ordered_seat list \<Rightarrow> nat \<Rightarrow> walk \<Rightarrow> bool" where
  "rows_ok rows k w \<longleftrightarrow>
     consecutive rw_first_seat rw_seat_count 0 (wk_rows w) k
   \<and> (\<forall>x \<in> set (wk_rows w). \<exists>row. \<forall>i. rw_first_seat x \<le> i \<and> i < rw_first_seat x + rw_seat_count x \<longrightarrow>
        sr_id (os_row (rows ! i)) = row)
   \<and> (wk_rows w \<noteq> [] \<longrightarrow> (\<forall>i. rw_first_seat (last (wk_rows w)) \<le> i
        \<and> i < rw_first_seat (last (wk_rows w)) + rw_seat_count (last (wk_rows w)) \<longrightarrow> sr_id (os_row (rows ! i)) = wk_row w))"

definition columns_ok :: "ordered_seat list \<Rightarrow> nat \<Rightarrow> walk \<Rightarrow> bool" where
  "columns_ok rows k w \<longleftrightarrow>
     wk_seat w = map (\<lambda>r. st_id (os_seat r)) (take k rows)
   \<and> wk_tier_of w = map (\<lambda>r. sec_tier (os_section r)) (take k rows)
   \<and> wk_closed w = map (\<lambda>r. sec_closed (os_section r)) (take k rows)
   \<and> wk_x w = map (\<lambda>r. word_of_int (st_x (os_seat r))) (take k rows)
   \<and> wk_y w = map (\<lambda>r. word_of_int (st_y (os_seat r))) (take k rows)
   \<and> length (wk_number w) = length (take k rows)
   \<and> map snd (wk_tiers w) = map of_nat [0..<length (wk_tiers w)]
   \<and> distinct (map fst (wk_tiers w)) \<and> set (wk_tier_of w) \<subseteq> fst ` set (wk_tiers w)
   \<and> wk_tier_idx w = map (\<lambda>t. the (map_of (wk_tiers w) t)) (wk_tier_of w)"

definition at_section :: "ordered_seat \<Rightarrow> walk \<Rightarrow> bool" where
  "at_section r w \<longleftrightarrow> wk_section w = sec_id (os_section r) \<and> wk_row w = sr_id (os_row r)"

lemma enter_frame [simp]:
  "wk_rows (enter_section k r w) = wk_rows w" "wk_row (enter_section k r w) = wk_row w"
  "wk_sections (enter_row k r w) = wk_sections w" "wk_section (enter_row k r w) = wk_section w"
  "wk_section (enter_section k r w) = sec_id (os_section r)" "wk_row (enter_row k r w) = sr_id (os_row r)"
  by (auto simp: enter_section_def enter_row_def Let_def)

lemma enter_section_ok: "sections_ok rows k w \<Longrightarrow> sections_ok rows k (enter_section k r w)"
  by (auto simp: sections_ok_def enter_section_def Let_def consecutive_snoc)

lemma sections_ok_cong:
  "wk_sections w' = wk_sections w \<Longrightarrow> wk_section w' = wk_section w \<Longrightarrow> sections_ok rows k w' = sections_ok rows k w"
  by (simp add: sections_ok_def)

lemma enter_row_ok: "rows_ok rows k w \<Longrightarrow> rows_ok rows k (enter_row k r w)"
  by (auto simp: rows_ok_def enter_row_def Let_def consecutive_snoc)

lemma rows_ok_cong:
  "wk_rows w' = wk_rows w \<Longrightarrow> wk_row w' = wk_row w \<Longrightarrow> rows_ok rows k w' = rows_ok rows k w"
  by (simp add: rows_ok_def)

lemma count_seat_sections:
  assumes ok: "sections_ok rows k w" and ne: "wk_sections w \<noteq> []"
    and here: "sec_id (os_section (rows ! k)) = wk_section w"
  shows "sections_ok rows (Suc k) (count_seat w)"
proof -
  obtain ss s where ss: "wk_sections w = ss @ [s]" using ne by (metis append_butlast_last_id)
  let ?g = "\<lambda>s. s\<lparr>sm_row_count := length (wk_rows w) - sm_first_row s, sm_seat_count := sm_seat_count s + 1\<rparr>"
  have run: "k = sm_first_seat s + sm_seat_count s" using ok ss by (auto simp: sections_ok_def consecutive_snoc)
  have c: "consecutive sm_first_seat sm_seat_count 0 (map_last ?g (wk_sections w)) (Suc k)"
    using ok ne by (intro consecutive_grow) (simp_all add: sections_ok_def)
  have last: "sec_id (os_section (rows ! i)) = sm_section s"
    if "sm_first_seat s \<le> i" "i < sm_first_seat s + (sm_seat_count s + 1)" for i
  proof (cases "i = k")
    case True
    then show ?thesis using here ok ss by (simp add: sections_ok_def)
  next
    case False
    with that run have "i < sm_first_seat s + sm_seat_count s" by simp
    with that(1) ok ss show ?thesis by (simp add: sections_ok_def)
  qed
  show ?thesis
    using ok c last ss by (auto simp: sections_ok_def count_seat_def)
qed

lemma count_seat_rows:
  assumes ok: "rows_ok rows k w" and ne: "wk_rows w \<noteq> []" and here: "sr_id (os_row (rows ! k)) = wk_row w"
  shows "rows_ok rows (Suc k) (count_seat w)"
proof -
  obtain ss s where ss: "wk_rows w = ss @ [s]" using ne by (metis append_butlast_last_id)
  have run: "k = rw_first_seat s + rw_seat_count s" using ok ss by (auto simp: rows_ok_def consecutive_snoc)
  have c: "consecutive rw_first_seat rw_seat_count 0 (map_last (\<lambda>x. x\<lparr>rw_seat_count := rw_seat_count x + 1\<rparr>) (wk_rows w)) (Suc k)"
    using ok ne by (intro consecutive_grow) (simp_all add: rows_ok_def)
  have last: "sr_id (os_row (rows ! i)) = wk_row w"
    if "rw_first_seat s \<le> i" "i < rw_first_seat s + (rw_seat_count s + 1)" for i
  proof (cases "i = k")
    case False
    with that run have "i < rw_first_seat s + rw_seat_count s" by simp
    with that(1) ok ss show ?thesis by (simp add: rows_ok_def)
  qed (use here in simp)
  show ?thesis
    using ok c last ss by (auto simp: rows_ok_def count_seat_def)
qed

lemma columns_frame [simp]:
  "columns_ok rows k (enter_section j r w) = columns_ok rows k w"
  "columns_ok rows k (enter_row j r w) = columns_ok rows k w"
  "columns_ok rows k (count_seat w) = columns_ok rows k w"
  by (simp_all add: columns_ok_def enter_section_def enter_row_def count_seat_def Let_def)

lemma see_tier_ok:
  assumes "columns_ok rows k w"
  shows "columns_ok rows k (see_tier r w) \<and> sec_tier (os_section r) \<in> fst ` set (wk_tiers (see_tier r w))"
proof (cases "sec_tier (os_section r) \<in> fst ` set (wk_tiers w)")
  case True
  with assms show ?thesis by (simp add: see_tier_def Let_def)
next
  case False
  let ?ts = "wk_tiers w @ [(sec_tier (os_section r), of_nat (length (wk_tiers w)))]"
  have w': "see_tier r w = w\<lparr>wk_tiers := ?ts\<rparr>" using False by (simp add: see_tier_def Let_def)
  have sub: "set (wk_tier_of w) \<subseteq> fst ` set (wk_tiers w)" using assms unfolding columns_ok_def by blast
  have "map_of ?ts t = map_of (wk_tiers w) t" if "t \<in> set (wk_tier_of w)" for t
  proof -
    have "map_of (wk_tiers w) t \<noteq> None" using that sub by (auto simp: map_of_eq_None_iff)
    then show ?thesis by (auto simp: map_add_def split: option.splits)
  qed
  then have idx: "map (\<lambda>t. the (map_of (wk_tiers w) t)) (wk_tier_of w) = map (\<lambda>t. the (map_of ?ts t)) (wk_tier_of w)"
    by (intro map_cong) (simp_all del: map_of_append)
  have "set (wk_tier_of w) \<subseteq> fst ` set ?ts" using sub by auto
  moreover have "distinct (map fst ?ts)" using assms False by (simp add: columns_ok_def)
  moreover have "map snd ?ts = map of_nat [0..<length ?ts]" using assms by (simp add: columns_ok_def)
  moreover have "sec_tier (os_section r) \<in> fst ` set ?ts" by simp
  ultimately show ?thesis
    using assms idx unfolding w' columns_ok_def by (elim conjE, intro conjI) (simp_all del: map_append map_of_append set_map set_append)
qed

lemma add_columns_ok:
  assumes "columns_ok rows k w" and "k < length rows" and "sec_tier (os_section (rows ! k)) \<in> fst ` set (wk_tiers w)"
  shows "columns_ok rows (Suc k) (add_columns k (rows ! k) w)"
proof -
  have "map_of (wk_tiers w) (sec_tier (os_section (rows ! k))) \<noteq> None" using assms(3) by (simp add: map_of_eq_None_iff)
  with assms show ?thesis
    by (auto simp: columns_ok_def add_columns_def Let_def take_Suc_conv_app_nth split: option.splits)
qed

lemma walk_tail_frame [simp]:
  "wk_sections (add_columns k r (see_tier r w)) = wk_sections w" "wk_section (add_columns k r (see_tier r w)) = wk_section w"
  "wk_rows (add_columns k r (see_tier r w)) = wk_rows w" "wk_row (add_columns k r (see_tier r w)) = wk_row w"
  by (simp_all add: add_columns_def see_tier_def Let_def)

lemma walk_rows_ok:
  "walk_rows k rs w = Some w' \<Longrightarrow> rs = drop k rows \<Longrightarrow> k \<le> length rows \<Longrightarrow>
   sections_ok rows k w \<Longrightarrow> rows_ok rows k w \<Longrightarrow> columns_ok rows k w \<Longrightarrow>
   sections_ok rows (length rows) w' \<and> rows_ok rows (length rows) w' \<and> columns_ok rows (length rows) w'"
proof (induction k rs w rule: walk_rows.induct)
  case (1 k w)
  then show ?case by auto
next
  case (2 k r rs w)
  let ?w1 = "enter_row k r (enter_section k r w)"
  let ?w2 = "add_columns k r (see_tier r (count_seat ?w1))"
  have k: "k < length rows" "r = rows ! k" "rs = drop (Suc k) rows"
    using 2(3,4) by (metis drop_eq_Nil2 list.distinct(1) not_le, metis nth_via_drop, metis Cons_nth_drop_Suc
      drop_eq_Nil2 list.inject list.distinct(1) not_le)
  have ne: "wk_sections ?w1 \<noteq> []" "wk_rows ?w1 \<noteq> []" and rest: "walk_rows (Suc k) rs ?w2 = Some w'"
    using 2(2) by (auto simp: Let_def split: if_splits)
  have "sections_ok rows k ?w1" using enter_section_ok [OF 2(5)] sections_ok_cong [of ?w1 "enter_section k r w"] by simp
  then have s: "sections_ok rows (Suc k) (count_seat ?w1)" using count_seat_sections ne(1) k by simp
  have "rows_ok rows k (enter_section k r w)" using 2(6) rows_ok_cong [of "enter_section k r w" w] by simp
  then have r: "rows_ok rows (Suc k) (count_seat ?w1)" using count_seat_rows [OF enter_row_ok] ne(2) k by simp
  have "columns_ok rows k (count_seat ?w1)" using 2(7) by simp
  then have c: "columns_ok rows (Suc k) ?w2" using see_tier_ok add_columns_ok k by blast
  have "sections_ok rows (Suc k) ?w2" "rows_ok rows (Suc k) ?w2"
    using s r sections_ok_cong [of ?w2 "count_seat ?w1"] rows_ok_cong [of ?w2 "count_seat ?w1"] by simp_all
  with 2(1) [OF refl _ rest k(3) _ _ _ c] ne k(1) show ?case by simp
qed

lemma tier_names_nth:
  assumes "map snd ts = map of_nat [0..<length ts]" and "length ts \<le> 256" and "i < length ts"
  shows "tier_names ts ! i = fst (ts ! i)"
proof -
  have gen: "foldl (\<lambda>names (tier, i). names[unat (i :: 8 word) := tier]) ns xs ! j
      = (if a \<le> j \<and> j < a + length xs then fst (xs ! (j - a)) else ns ! j)"
    if "map snd xs = map of_nat [a..<a + length xs]" "a + length xs \<le> 256" "a + length xs \<le> length ns" "j < length ns"
    for ns :: "string list" and xs a j
    using that
  proof (induction xs arbitrary: a ns)
    case (Cons x xs)
    obtain t b where x: "x = (t, b)" by (cases x)
    have up: "[a..<a + length (x # xs)] = a # [Suc a..<Suc a + length xs]" by (simp add: upt_rec)
    have b: "unat b = a" using Cons.prems(1,2) unfolding up by (simp add: x unsigned_of_nat take_bit_nat_eq_self)
    have "map snd xs = map of_nat [Suc a..<Suc a + length xs]" using Cons.prems(1) unfolding up by simp
    from Cons.IH [OF this, of "ns[a := t]"] Cons.prems b show ?case
      by (cases "j = a") (auto simp: x nth_Cons' not_le)
  qed auto
  show ?thesis using gen [of ts 0 "replicate (length ts) []" i] assms by (simp add: tier_names_def)
qed

lemma tier_names_length [simp]: "length (tier_names ts) = length ts"
proof -
  have "length (foldl (\<lambda>names (tier, i). names[unat (i :: 8 word) := tier]) ns xs) = length ns" for ns :: "string list" and xs
    by (induction xs arbitrary: ns) auto
  then show ?thesis by (simp add: tier_names_def)
qed

lemma section_boxes_length:
  "walk_rows k rs w = Some w' \<Longrightarrow> length bs = length (wk_sections w) \<Longrightarrow> wk_section w = cur \<Longrightarrow>
   length (section_boxes rs cur bs) = length (wk_sections w')"
proof (induction k rs w arbitrary: bs cur rule: walk_rows.induct)
  case (2 k r rs w)
  let ?w1 = "enter_row k r (enter_section k r w)"
  let ?w2 = "add_columns k r (see_tier r (count_seat ?w1))"
  have ne: "wk_sections ?w1 \<noteq> []" "wk_rows ?w1 \<noteq> []" and rest: "walk_rows (Suc k) rs ?w2 = Some w'"
    using 2(2) by (auto simp: Let_def split: if_splits)
  have "length (wk_sections ?w2) = length (wk_sections (enter_section k r w))" "wk_section ?w2 = sec_id (os_section r)"
    by (simp_all add: count_seat_def)
  moreover have "length (wk_sections (enter_section k r w)) = length bs + (if sec_id (os_section r) \<noteq> cur then 1 else 0)"
    using 2(3,4) by (simp add: enter_section_def Let_def)
  ultimately show ?case using 2(1) [OF refl _ rest] ne by (simp add: Let_def)
qed simp

text \<open>
  one walk builds a consistent layout. When \<open>BuildLayout\<close> succeeds, ordinal i of every
  column is row i of the walk (seat, tier and default closure); the sections follow each other
  from seat 0 to the seat count and each section's range holds seats of that section only, the
  rows likewise; and while there are at most 256 tiers, the tier index of every seat resolves
  through \<open>Tiers\<close> to that seat's tier.
\<close>

lemma build_layout_consistent:
  assumes "BuildLayout venue version rows = Inr b"
  shows "bl_seat b = map (\<lambda>r. st_id (os_seat r)) rows
    \<and> bl_tier b = map (\<lambda>r. sec_tier (os_section r)) rows
    \<and> bl_closed b = map (\<lambda>r. sec_closed (os_section r)) rows
    \<and> lm_seats (bl_meta b) = length rows
    \<and> consecutive sm_first_seat sm_seat_count 0 (lm_sections (bl_meta b)) (length rows)
    \<and> (\<forall>s \<in> set (lm_sections (bl_meta b)). \<forall>i. sm_first_seat s \<le> i \<and> i < sm_first_seat s + sm_seat_count s \<longrightarrow>
          sec_id (os_section (rows ! i)) = sm_section s)
    \<and> consecutive rw_first_seat rw_seat_count 0 (lm_rows (bl_meta b)) (length rows)
    \<and> (\<forall>x \<in> set (lm_rows (bl_meta b)). \<exists>row. \<forall>i. rw_first_seat x \<le> i \<and> i < rw_first_seat x + rw_seat_count x \<longrightarrow>
          sr_id (os_row (rows ! i)) = row)
    \<and> (length (lm_tiers (bl_meta b)) \<le> 256 \<longrightarrow>
         (\<exists>idx. \<exists>x y num. EncodeSeatsBin x y num idx (word_of_int version) = Some (bl_bin b)
            \<and> map (\<lambda>i. lm_tiers (bl_meta b) ! unat i) idx = bl_tier b))"
proof -
  obtain r rs where rows: "rows = r # rs" using assms by (cases rows) (auto simp: BuildLayout_def)
  obtain w where w: "walk_rows 0 rows (start_walk r) = Some w"
    using assms rows by (auto simp: BuildLayout_def split: option.splits)
  obtain bin where bin: "EncodeSeatsBin (wk_x w) (wk_y w) (wk_number w) (wk_tier_idx w) (word_of_int version) = Some bin"
    using assms rows w by (auto simp: BuildLayout_def split: option.splits)
  let ?boxes = "section_boxes rows (-1) []"
  have b: "bl_seat b = wk_seat w" "bl_tier b = wk_tier_of w" "bl_closed b = wk_closed w" "bl_bin b = bin"
      "lm_seats (bl_meta b) = length rows" "lm_rows (bl_meta b) = wk_rows w" "lm_tiers (bl_meta b) = tier_names (wk_tiers w)"
      "lm_sections (bl_meta b) = map (\<lambda>(s, b). s\<lparr>sm_polygon := polygon b\<rparr>) (zip (wk_sections w) ?boxes)"
    using assms rows w bin by (auto simp: BuildLayout_def Let_def)
  have ok: "sections_ok rows (length rows) w \<and> rows_ok rows (length rows) w \<and> columns_ok rows (length rows) w"
    by (rule walk_rows_ok [OF w]) (simp_all add: start_walk_def sections_ok_def rows_ok_def columns_ok_def)
  have len: "length ?boxes = length (wk_sections w)"
    using section_boxes_length [OF w, of "[]" "-1"] by (simp add: start_walk_def)
  have sections: "consecutive sm_first_seat sm_seat_count 0 (lm_sections (bl_meta b)) (length rows)"
    and members: "\<forall>s \<in> set (lm_sections (bl_meta b)). \<forall>i. sm_first_seat s \<le> i \<and> i < sm_first_seat s + sm_seat_count s \<longrightarrow>
          sec_id (os_section (rows ! i)) = sm_section s"
  proof -
    have "consecutive sm_first_seat sm_seat_count 0 (map fst (zip (wk_sections w) ?boxes)) (length rows)"
      using ok len by (simp add: sections_ok_def)
    then show "consecutive sm_first_seat sm_seat_count 0 (lm_sections (bl_meta b)) (length rows)"
      unfolding b(8) by (subst consecutive_map [of _ _ _ "\<lambda>p. sm_first_seat (fst p)" _ "\<lambda>p. sm_seat_count (fst p)"])
        (auto simp: consecutive_map)
    show "\<forall>s \<in> set (lm_sections (bl_meta b)). \<forall>i. sm_first_seat s \<le> i \<and> i < sm_first_seat s + sm_seat_count s \<longrightarrow>
          sec_id (os_section (rows ! i)) = sm_section s"
      using ok by (auto simp: b(8) sections_ok_def dest!: set_zip_leftD)
  qed
  have tiers: "map (\<lambda>i. lm_tiers (bl_meta b) ! unat i) (wk_tier_idx w) = bl_tier b" if small: "length (lm_tiers (bl_meta b)) \<le> 256"
  proof -
    have n: "length (wk_tiers w) \<le> 256" using small b(7) tier_names_length by simp
    have c: "map snd (wk_tiers w) = map of_nat [0..<length (wk_tiers w)]" "distinct (map fst (wk_tiers w))"
        "set (wk_tier_of w) \<subseteq> fst ` set (wk_tiers w)"
        "wk_tier_idx w = map (\<lambda>t. the (map_of (wk_tiers w) t)) (wk_tier_of w)"
      using ok unfolding columns_ok_def by blast+
    have "lm_tiers (bl_meta b) ! unat (the (map_of (wk_tiers w) t)) = t" if "t \<in> set (wk_tier_of w)" for t
    proof -
      have "t \<in> set (map fst (wk_tiers w))" using that c(3) by (simp add: subsetD)
      then obtain i where i: "i < length (wk_tiers w)" "fst (wk_tiers w ! i) = t"
        unfolding in_set_conv_nth by auto
      have "snd (wk_tiers w ! i) = of_nat i" using c(1) i(1) by (metis add_0 length_map nth_map nth_upt)
      moreover have "map_of (wk_tiers w) t = Some (snd (wk_tiers w ! i))"
        using c(2) i by (metis map_of_eq_Some_iff nth_mem prod.collapse)
      moreover have "unat (of_nat i :: 8 word) = i" using i(1) n by (simp add: unsigned_of_nat take_bit_nat_eq_self)
      ultimately show ?thesis using tier_names_nth [OF c(1) n i(1)] i(2) b(7) by simp
    qed
    then show ?thesis unfolding c(4) b(2) by (simp add: map_idI)
  qed
  have resolve: "length (lm_tiers (bl_meta b)) \<le> 256 \<longrightarrow>
         (\<exists>idx. \<exists>x y num. EncodeSeatsBin x y num idx (word_of_int version) = Some (bl_bin b)
            \<and> map (\<lambda>i. lm_tiers (bl_meta b) ! unat i) idx = bl_tier b)"
    using tiers bin b(4) by blast
  have cols: "bl_seat b = map (\<lambda>r. st_id (os_seat r)) rows" "bl_tier b = map (\<lambda>r. sec_tier (os_section r)) rows"
      "bl_closed b = map (\<lambda>r. sec_closed (os_section r)) rows"
    using ok unfolding b(1-3) columns_ok_def by auto
  have rws: "consecutive rw_first_seat rw_seat_count 0 (lm_rows (bl_meta b)) (length rows)"
    "\<forall>x \<in> set (lm_rows (bl_meta b)). \<exists>row. \<forall>i. rw_first_seat x \<le> i \<and> i < rw_first_seat x + rw_seat_count x \<longrightarrow>
          sr_id (os_row (rows ! i)) = row"
    using ok unfolding b(6) rows_ok_def by blast+
  show ?thesis by (intro conjI cols b(5) sections members rws resolve)
qed

text \<open>Two sections, the second closed, with two tiers.\<close>

definition sample_layout :: "ordered_seat list" where
  "sample_layout =
     [\<lparr>os_section = \<lparr>sec_id = 4, sec_venue = 1, sec_name = ''A'', sec_tier = ''gold'', sec_order = 1, sec_closed = False\<rparr>,
       os_row = \<lparr>sr_id = 6, sr_section = 4, sr_label = ''R'', sr_order = 1\<rparr>,
       os_seat = \<lparr>st_id = 21, st_row = 6, st_label = ''1'', st_x = 5, st_y = 7\<rparr>\<rparr>,
      \<lparr>os_section = \<lparr>sec_id = 4, sec_venue = 1, sec_name = ''A'', sec_tier = ''gold'', sec_order = 1, sec_closed = False\<rparr>,
       os_row = \<lparr>sr_id = 6, sr_section = 4, sr_label = ''R'', sr_order = 1\<rparr>,
       os_seat = \<lparr>st_id = 22, st_row = 6, st_label = ''2'', st_x = 6, st_y = 7\<rparr>\<rparr>,
      \<lparr>os_section = \<lparr>sec_id = 5, sec_venue = 1, sec_name = ''B'', sec_tier = ''std'', sec_order = 2, sec_closed = True\<rparr>,
       os_row = \<lparr>sr_id = 8, sr_section = 5, sr_label = ''S'', sr_order = 1\<rparr>,
       os_seat = \<lparr>st_id = 23, st_row = 8, st_label = ''x'', st_x = -1, st_y = 9\<rparr>\<rparr>]"

lemma build_layout_consistent_example:
  "\<exists>b. BuildLayout 1 3 sample_layout = Inr b \<and> bl_seat b = [21, 22, 23] \<and> bl_tier b = [''gold'', ''gold'', ''std'']"
proof -
  obtain b where b: "BuildLayout 1 3 sample_layout = Inr b"
  proof -
    have "\<not> isl (BuildLayout 1 3 sample_layout)" by code_simp
    then show thesis using that by (cases "BuildLayout 1 3 sample_layout") auto
  qed
  from build_layout_consistent [OF b] b show ?thesis by (simp add: sample_layout_def)
qed

end
