(* ===== verification/InventoryRaces.thy ===== *)
theory InventoryRaces
  imports InventoryClaims
begin

section \<open>Holds and sales under arbitrary interleavings\<close>

text \<open>
  Any number of servers and workers share one database. The step relation below lets any of
  them run any inventory operation next; across such runs no seat is sold twice and a holder
  whose seat was taken over cannot confirm it.
\<close>

subsection \<open>Interleavings\<close>

text \<open>
  The steps of a system of any number of servers and workers on one database: an inventory
  operation with any arguments, service and environment; and anything else that leaves
  \<open>event_seats\<close> as it is: the statements of the other components (\<open>keeps_seats\<close>), and whatever
  happens to the lock (keys expire, Redis is flushed).
\<close>

inductive inventory_step :: "('l, 'p) world \<Rightarrow> ('l, 'p) world \<Rightarrow> bool" where
  acquires: "AcquireHold E S ev ids user w = (r1, w') \<Longrightarrow> inventory_step w w'"
| picks: "BestAvailable E S ev q maxp user w = (r2, w') \<Longrightarrow> inventory_step w w'"
| releases: "ReleaseHold E S ev ids h user w = (r3, w') \<Longrightarrow> inventory_step w w'"
| extends: "ExtendHold E ev ids h dur w = (r4, w') \<Longrightarrow> inventory_step w w'"
| confirms: "ConfirmSeats E ev ids fcs h b w = (r5, w') \<Longrightarrow> inventory_step w w'"
| elsewhere: "t_seats (w_db w') = t_seats (w_db w) \<Longrightarrow> inventory_step w w'"

lemma inventory_step_evolves:
  "inventory_step w w' \<Longrightarrow> seats_evolve (t_seats (w_db w)) (t_seats (w_db w'))"
  by (induction rule: inventory_step.induct)
     (auto dest: acquire.evolves best_available.evolves release.evolves extendh.evolves confirm.evolves)

lemma inventory_steps_evolve:
  "inventory_step\<^sup>*\<^sup>* w w' \<Longrightarrow> seats_evolve (t_seats (w_db w)) (t_seats (w_db w'))"
  by (induction rule: rtranclp_induct) (auto dest: inventory_step_evolves intro: seats_evolve_trans)

lemma ConfirmSeats_books:
  assumes "ConfirmSeats E ev ids fcs h b w = (Inr (), w')" and "seats_wf (t_seats (w_db w))" and "s \<in> set ids"
  shows "booked_by (t_seats (w_db w')) ev s b"
  using assms(1)
proof (cases rule: ConfirmSeats_cases)
  case (booked t)
  obtain r where "es_event r = ev" "es_seat r = s" "set_booked t b r \<in> set (t_seats (w_db w'))"
    using confirm_effect_row [OF booked(3) assms(2) confirm_effect_distinct [OF booked(3) assms(2)] booked(2) assms(3)]
    by blast
  then show ?thesis unfolding booked_by_def by (intro bexI [of _ "set_booked t b r"]) simp_all
qed auto

text \<open>
  C1: a seat is never sold twice. Once a \<open>ConfirmSeats\<close> has succeeded, no \<open>ConfirmSeats\<close> that
  names one of its seats succeeds ever again, whatever operations of whatever servers ran in
  between and whatever happened to the lock.
\<close>

theorem no_seat_sold_twice:
  assumes "seats_wf (t_seats (w_db w1))"
    and first: "ConfirmSeats E1 ev ids1 fcs1 h1 b1 w1 = (Inr (), w2)"
    and between: "inventory_step\<^sup>*\<^sup>* w2 w3"
    and second: "ConfirmSeats E2 ev ids2 fcs2 h2 b2 w3 = (Inr (), w4)"
  shows "set ids1 \<inter> set ids2 = {}"
proof (rule ccontr)
  assume "set ids1 \<inter> set ids2 \<noteq> {}"
  then obtain s where s1: "s \<in> set ids1" and s2: "s \<in> set ids2" by blast
  have wf2: "seats_wf (t_seats (w_db w2))" by (rule confirm.keeps_wf [OF first assms(1)])
  have wf3: "seats_wf (t_seats (w_db w3))" by (rule seats_evolve_wf [OF inventory_steps_evolve [OF between] wf2])
  have "booked_by (t_seats (w_db w3)) ev s b1"
    by (rule booked_by_evolve [OF inventory_steps_evolve [OF between] ConfirmSeats_books [OF first assms(1) s1]])
  then obtain r1 where r1: "r1 \<in> set (t_seats (w_db w3))" "es_event r1 = ev" "es_seat r1 = s" "es_status r1 = 2"
    by (auto simp: booked_by_def)
  obtain i where i: "i < length ids2" "ids2 ! i = s" using s2 by (auto simp: in_set_conv_nth)
  obtain r2 where r2: "r2 \<in> set (t_seats (w_db w3))" "es_event r2 = ev" "es_seat r2 = s" "es_status r2 \<in> {1, 3}"
    using ConfirmSeats_seat [OF second wf3 i(1)] i(2) by metis
  have "r1 = r2"
    using unique_key_row [of seat_key "t_seats (w_db w3)" r1 r2] wf3 r1 r2 by (simp add: seats_wf_def seat_key_def)
  with r1(4) r2(4) show False by simp
qed

theorem no_seat_sold_twice_witness:
  "\<exists>w3 w4. inventory_step\<^sup>*\<^sup>* booked_world w3 \<and> ConfirmSeats sample_env 1 [13] [1] 121 78 w3 = (Inr (), w4)
     \<and> set [11, 12] \<inter> set [13 :: int] = {}"
proof -
  let ?a = "AcquireHold sample_env sample_service 1 [13] ''bob'' booked_world"
  have step: "inventory_step\<^sup>*\<^sup>* booked_world (snd ?a)"
    by (rule r_into_rtranclp, rule acquires [of _ _ _ _ _ _ "fst ?a"]) simp
  let ?c = "ConfirmSeats sample_env 1 [13] [1] 121 78 (snd ?a)"
  have "fst ?c = Inr ()" by code_simp
  then have c: "?c = (Inr (), snd ?c)" by (metis prod.collapse)
  have "set [11, 12] \<inter> set [13 :: int] = {}"
    by (rule no_seat_sold_twice [OF held_seats_wf booked_world_run step c])
  with step c show ?thesis by blast
qed

subsection \<open>Zombie holders\<close>

text \<open>A row seen later is the same row, moved on by steps.\<close>

lemma inventory_steps_row:
  assumes "inventory_step\<^sup>*\<^sup>* w w'" and "r \<in> set (t_seats (w_db w))"
  obtains r' where "r' \<in> set (t_seats (w_db w'))" "seat_key r' = seat_key r" "es_fence r \<le> es_fence r'"
  using seats_evolve_row [OF inventory_steps_evolve [OF assms(1)] assms(2)] steps_key steps_fence by metis

lemma AcquireHold_held_row:
  assumes "AcquireHold E S ev ids user w = (Inr hl, w')" and "x \<in> set (h_seats hl)"
  obtains r r' where "r \<in> set (t_seats (w_db w))" "r' \<in> set (t_seats (w_db w'))"
    "seat_key r = (ev, hs_seat x)" "seat_key r' = (ev, hs_seat x)"
    "hs_fence x = es_fence r + 1" "es_fence r' = hs_fence x"
  using assms(1)
proof (cases rule: AcquireHold_cases)
  case (held t rows)
  then obtain r where r: "r \<in> set (t_seats (w_db w))" "acquirable t ev ids r"
      "x = held_seat_of (acquired_of t (dur_seconds (sv_hold_ttl S)) r)"
    using assms(2) by (auto simp: hold_of_def hold_effect_def)
  let ?r' = "set_held t (uuid_at E (w_calls w)) user (dur_seconds (sv_hold_ttl S)) r"
  have "?r' \<in> set (t_seats (w_db w'))" using held(5) r by (auto simp: hold_effect_def set_update_where)
  with r that [of r ?r'] show thesis
    by (simp add: held_seat_of_def acquired_of_def seat_key_def acquirable_def)
qed auto

lemma seat_row_unique:
  "seats_wf rows \<Longrightarrow> r \<in> set rows \<Longrightarrow> r' \<in> set rows \<Longrightarrow> seat_key r = seat_key r' \<Longrightarrow> r = r'"
  by (rule unique_key_row [of seat_key rows]) (simp_all add: seats_wf_def)

text \<open>
  C2: a zombie holder cannot confirm. When a seat is held again (its first hold having been
  released or expired), the second hold's fence is higher, and from then on no
  \<open>ConfirmSeats\<close> that presents the first hold's fence for that seat succeeds, whatever hold
  and order it names and whatever ran in between.
\<close>

theorem stale_holder_never_confirms:
  assumes wf: "seats_wf (t_seats (w_db w1))"
    and first: "AcquireHold E1 S1 ev ids1 u1 w1 = (Inr h1, w2)" and gap1: "inventory_step\<^sup>*\<^sup>* w2 w3"
    and second: "AcquireHold E2 S2 ev ids2 u2 w3 = (Inr h2, w4)" and gap2: "inventory_step\<^sup>*\<^sup>* w4 w5"
    and x: "x \<in> set (h_seats h1)" and y: "y \<in> set (h_seats h2)" and same: "hs_seat x = hs_seat y"
    and stale: "(hs_seat x, hs_fence x) \<in> set (zip ids fcs)"
  shows "hs_fence x < hs_fence y \<and> fst (ConfirmSeats E3 ev ids fcs h b w5) \<noteq> Inr ()"
proof -
  have wf2: "seats_wf (t_seats (w_db w2))" by (rule acquire.keeps_wf [OF first wf])
  have wf3: "seats_wf (t_seats (w_db w3))" by (rule seats_evolve_wf [OF inventory_steps_evolve [OF gap1] wf2])
  have wf4: "seats_wf (t_seats (w_db w4))" by (rule acquire.keeps_wf [OF second wf3])
  have wf5: "seats_wf (t_seats (w_db w5))" by (rule seats_evolve_wf [OF inventory_steps_evolve [OF gap2] wf4])
  obtain r2 where r2: "r2 \<in> set (t_seats (w_db w2))" "seat_key r2 = (ev, hs_seat x)" "es_fence r2 = hs_fence x"
    using AcquireHold_held_row [OF first x] by metis
  obtain r3 where r3: "r3 \<in> set (t_seats (w_db w3))" "seat_key r3 = seat_key r2" "es_fence r2 \<le> es_fence r3"
    using inventory_steps_row [OF gap1 r2(1)] by metis
  obtain s3 s4 where s: "s3 \<in> set (t_seats (w_db w3))" "s4 \<in> set (t_seats (w_db w4))"
      "seat_key s3 = (ev, hs_seat y)" "seat_key s4 = (ev, hs_seat y)"
      "hs_fence y = es_fence s3 + 1" "es_fence s4 = hs_fence y"
    using AcquireHold_held_row [OF second y] by metis
  have "s3 = r3" using seat_row_unique [OF wf3 s(1) r3(1)] s(3) r3(2) r2(2) same by simp
  then have lt: "hs_fence x < hs_fence y" using s(5) r3(3) r2(3) by simp
  obtain r5 where r5: "r5 \<in> set (t_seats (w_db w5))" "seat_key r5 = seat_key s4" "es_fence s4 \<le> es_fence r5"
    using inventory_steps_row [OF gap2 s(2)] by metis
  have "fst (ConfirmSeats E3 ev ids fcs h b w5) \<noteq> Inr ()"
  proof
    assume "fst (ConfirmSeats E3 ev ids fcs h b w5) = Inr ()"
    then obtain w6 where c: "ConfirmSeats E3 ev ids fcs h b w5 = (Inr (), w6)" by (metis prod.collapse)
    obtain i where i: "i < length ids" "ids ! i = hs_seat x" "fcs ! i = hs_fence x"
      using stale by (auto simp: set_zip)
    obtain r where r: "r \<in> set (t_seats (w_db w5))" "es_event r = ev" "es_seat r = ids ! i" "es_fence r = fcs ! i"
      using ConfirmSeats_seat [OF c wf5 i(1)] by blast
    have "r = r5" using seat_row_unique [OF wf5 r(1) r5(1)] r(2,3) r5(2) s(4) same i(2) by (simp add: seat_key_def)
    with r(4) i(3) r5(3) s(6) lt show False by simp
  qed
  with lt show ?thesis ..
qed

text \<open>Ann's hold on seat 11 expires, Bob takes the seat, and Ann's late confirmation fails.\<close>

definition late_world :: "(unit, unit) world" where
  "late_world = held_world\<lparr>w_lock := ()\<rparr>"

definition late_env :: env where
  "late_env = sample_env\<lparr>clock_at := \<lambda>k. int k * 1000000 + 2000000000\<rparr>"

definition bob_world :: "(unit, unit) world" where
  "bob_world = snd (AcquireHold late_env sample_service 1 [11] ''bob'' late_world)"

theorem stale_holder_never_confirms_witness:
  "fst (ConfirmSeats sample_env 1 [11, 12] [1, 1] 100 77 bob_world) \<noteq> Inr ()"
proof -
  let ?x = "\<lparr>hs_seat = 11, hs_ordinal = 0, hs_fence = 1, hs_price = 5000\<rparr>"
  let ?y = "\<lparr>hs_seat = 11, hs_ordinal = 0, hs_fence = 2, hs_price = 5000\<rparr>"
  let ?h2 = "\<lparr>h_id = 112, h_event = 1, h_expires = 2614000000, h_seats = [?y]\<rparr>"
  have "fst (AcquireHold late_env sample_service 1 [11] ''bob'' late_world) = Inr ?h2" by code_simp
  then have b: "AcquireHold late_env sample_service 1 [11] ''bob'' late_world = (Inr ?h2, bob_world)"
    by (metis bob_world_def prod.collapse)
  have gap: "inventory_step\<^sup>*\<^sup>* held_world late_world"
    by (rule r_into_rtranclp, rule elsewhere) (simp add: late_world_def)
  have wf: "seats_wf (t_seats (w_db sample_world))" using sample_seats_wf by (simp add: sample_world_def)
  show ?thesis
    using stale_holder_never_confirms [OF wf held_world_run gap b rtranclp.rtrancl_refl, of ?x ?y "[11, 12]" "[1, 1]"
        sample_env 100 77]
    by simp
qed

end
