(* ===== verification/Holdlock.thy ===== *)
theory Holdlock
  imports Inventory
begin

section \<open>internal/holdlock: the Redis contention filter\<close>

text \<open>
  \<open>key\<close>, \<open>Acquire\<close> (SET NX PX) and \<open>Release\<close> (the Lua compare-and-delete) of
  \<open>internal/holdlock/holdlock.go\<close>. Redis is not part of the repository: the three commands the
  code issues are a parameter, and \<open>redis_laws\<close> states their documented behaviour. What a user
  of the lock may rely on is the locale \<open>seat_lock\<close>; its laws are derived from
  \<open>redis_laws\<close> for the code's \<open>Acquire\<close> and \<open>Release\<close>.
\<close>

subsection \<open>The commands\<close>

record 's redis =
  rd_get :: "time \<Rightarrow> string \<Rightarrow> 's \<Rightarrow> string option"
  rd_setnx :: "time \<Rightarrow> string \<Rightarrow> string \<Rightarrow> int \<Rightarrow> 's \<Rightarrow> bool \<times> 's"
  rd_del :: "time \<Rightarrow> string \<Rightarrow> 's \<Rightarrow> 's"

text \<open>
  SET NX PX grants a key that has no live value and lets it expire after the time to live (whole
  milliseconds, nanoseconds in Go); DEL removes a key; values only ever disappear by themselves.
\<close>

definition whole_ms :: "int \<Rightarrow> bool" where
  "whole_ms ttl \<longleftrightarrow> 0 < ttl \<and> ttl mod 1000000 = 0"

definition redis_laws :: "'s redis \<Rightarrow> bool" where
  "redis_laws R \<longleftrightarrow>
     (\<forall>t k v ttl s ok s'. rd_setnx R t k v ttl s = (ok, s') \<longrightarrow> whole_ms ttl \<longrightarrow>
        (if rd_get R t k s = None
         then ok \<and> (\<forall>t' \<ge> t. \<forall>k'. rd_get R t' k' s' =
                (if k' = k then if t' < t + ttl div 1000 then Some v else None else rd_get R t' k' s))
         else \<not> ok \<and> s' = s))
   \<and> (\<forall>t k s t' k'. t \<le> t' \<longrightarrow> rd_get R t' k' (rd_del R t k s) = (if k' = k then None else rd_get R t' k' s))
   \<and> (\<forall>t t' k s. t \<le> t' \<longrightarrow> rd_get R t' k s = None \<or> rd_get R t' k s = rd_get R t k s)"

definition key :: "int \<Rightarrow> int \<Rightarrow> string" where
  "key eventID seatID = ''{event:'' @ show_int eventID @ ''}:seat:'' @ show_int seatID @ '':hold''"

definition Acquire ::
    "'s redis \<Rightarrow> fate \<Rightarrow> time \<Rightarrow> int \<Rightarrow> int \<Rightarrow> string \<Rightarrow> int \<Rightarrow> 's \<Rightarrow> (error + bool) \<times> 's" where
  "Acquire R f t eventID seatID holdID ttl s =
     (case f of
        Lost \<Rightarrow> (Inl Unavailable, s)
      | Done \<Rightarrow> (let (ok, s') = rd_setnx R t (key eventID seatID) holdID ttl s in (Inr ok, s'))
      | Ambiguous \<Rightarrow> (Inl Unavailable, snd (rd_setnx R t (key eventID seatID) holdID ttl s)))"

text \<open>The script, run atomically by the server.\<close>

definition releaseScript :: "'s redis \<Rightarrow> time \<Rightarrow> string \<Rightarrow> string \<Rightarrow> 's \<Rightarrow> 's" where
  "releaseScript R t k v s = (if rd_get R t k s = Some v then rd_del R t k s else s)"

definition Release ::
    "'s redis \<Rightarrow> fate \<Rightarrow> time \<Rightarrow> int \<Rightarrow> int \<Rightarrow> string \<Rightarrow> 's \<Rightarrow> (error + unit) \<times> 's" where
  "Release R f t eventID seatID holdID s =
     (case f of
        Lost \<Rightarrow> (Inl Unavailable, s)
      | Done \<Rightarrow> (Inr (), releaseScript R t (key eventID seatID) holdID s)
      | Ambiguous \<Rightarrow> (Inl Unavailable, releaseScript R t (key eventID seatID) holdID s))"

text \<open>
  The lock as the inventory's \<open>Locker\<close>; \<open>uuid_string\<close> is \<open>uuid.UUID.String\<close>.
\<close>

definition redis_locker :: "'s redis \<Rightarrow> (uuid \<Rightarrow> string) \<Rightarrow> 's locker" where
  "redis_locker R uuid_string =
     \<lparr>lk_acquire = (\<lambda>f t ev seat h ttl. Acquire R f t ev seat (uuid_string h) ttl),
      lk_release = (\<lambda>f t ev seat h. Release R f t ev seat (uuid_string h))\<rparr>"

definition owner :: "'s redis \<Rightarrow> time \<Rightarrow> int \<Rightarrow> int \<Rightarrow> 's \<Rightarrow> string option" where
  "owner R t eventID seatID s = rd_get R t (key eventID seatID) s"

subsection \<open>Keys\<close>

lemma key_inj: "key e s = key e' s' \<longleftrightarrow> e = e' \<and> s = s'"
proof
  assume k: "key e s = key e' s'"
  have "show_int e @ CHR ''}'' # (CHR '':'' # ''seat:'' @ show_int s @ '':hold'')
      = show_int e' @ CHR ''}'' # (CHR '':'' # ''seat:'' @ show_int s' @ '':hold'')"
    using k by (simp add: key_def)
  from cut_at_separator [OF this show_int_no_brace show_int_no_brace]
  have "e = e'" and "show_int s @ CHR '':'' # ''hold'' = show_int s' @ CHR '':'' # ''hold''" by auto
  with cut_at_separator [OF this(2) show_int_no_colon show_int_no_colon] show "e = e' \<and> s = s'" by simp
qed simp

subsection \<open>The interface\<close>

text \<open>
  A lock per seat. \<open>ok\<close> is the trust in the server behind it: the laws are promised while it
  holds. The operations on one seat are the \<open>lock_op\<close>s.
\<close>

datatype lock_op =
  LAcquire fate time int int string int
| LRelease fate time int int string

fun op_time :: "lock_op \<Rightarrow> time" where
  "op_time (LAcquire f t e s h ttl) = t"
| "op_time (LRelease f t e s h) = t"

locale seat_lock =
  fixes ok :: bool
    and acq :: "fate \<Rightarrow> time \<Rightarrow> int \<Rightarrow> int \<Rightarrow> string \<Rightarrow> int \<Rightarrow> 'l \<Rightarrow> (error + bool) \<times> 'l"
    and rel :: "fate \<Rightarrow> time \<Rightarrow> int \<Rightarrow> int \<Rightarrow> string \<Rightarrow> 'l \<Rightarrow> (error + unit) \<times> 'l"
    and own :: "time \<Rightarrow> int \<Rightarrow> int \<Rightarrow> 'l \<Rightarrow> string option"
  assumes granted: "ok \<Longrightarrow> whole_ms ttl \<Longrightarrow> acq f t e s h ttl l = (Inr True, l') \<Longrightarrow>
      own t e s l = None \<and> (\<forall>t' \<ge> t. own t' e s l' = (if t' < t + ttl div 1000 then Some h else None))"
    and taken: "ok \<Longrightarrow> whole_ms ttl \<Longrightarrow> own t e s l = Some h' \<Longrightarrow> acq f t e s h ttl l = (r, l') \<Longrightarrow>
      r \<noteq> Inr True \<and> l' = l"
    and other_seat: "ok \<Longrightarrow> whole_ms ttl \<Longrightarrow> acq f t e s h ttl l = (r, l') \<Longrightarrow> (e', s') \<noteq> (e, s) \<Longrightarrow> t \<le> t' \<Longrightarrow>
      own t' e' s' l' = own t' e' s' l"
    and released: "ok \<Longrightarrow> rel f t e s h l = (ru, l') \<Longrightarrow> t \<le> t' \<Longrightarrow>
      own t' e' s' l' = own t' e' s' l \<or> (e', s') = (e, s) \<and> own t e s l = Some h \<and> own t' e s l' = None"
    and expires: "ok \<Longrightarrow> t \<le> t' \<Longrightarrow> own t' e s l = None \<or> own t' e s l = own t e s l"
begin

text \<open>A run of operations at rising times, with the answers of the acquires of one seat.\<close>

fun run_ops :: "lock_op list \<Rightarrow> int \<Rightarrow> int \<Rightarrow> 'l \<Rightarrow> (error + bool) list \<times> 'l" where
  "run_ops [] e s l = ([], l)"
| "run_ops (LAcquire f t e' s' h ttl # os) e s l =
     (let (r, l1) = acq f t e' s' h ttl l; (rs, l2) = run_ops os e s l1
      in (if e' = e \<and> s' = s then (r # rs, l2) else (rs, l2)))"
| "run_ops (LRelease f t e' s' h # os) e s l = run_ops os e s (snd (rel f t e' s' h l))"

fun harmless :: "int \<Rightarrow> int \<Rightarrow> string \<Rightarrow> lock_op \<Rightarrow> bool" where
  "harmless e s h (LAcquire f t e' s' h' ttl) \<longleftrightarrow> whole_ms ttl"
| "harmless e s h (LRelease f t e' s' h') \<longleftrightarrow> h' \<noteq> h \<or> (e', s') \<noteq> (e, s)"

text \<open>
  While the owner's time to live runs and the owner does not release, the seat stays with the
  owner and no acquire of it is granted.
\<close>

lemma exclusive:
  assumes "ok" and "\<forall>t'. t0 \<le> t' \<and> t' < tend \<longrightarrow> own t' e s l = Some h"
    and "sorted (t0 # map op_time os)" and "\<forall>x \<in> set os. op_time x < tend \<and> harmless e s h x"
    and "run_ops os e s l = (rs, l')"
  shows "Inr True \<notin> set rs \<and> (\<forall>t'. last (t0 # map op_time os) \<le> t' \<and> t' < tend \<longrightarrow> own t' e s l' = Some h)"
  using assms(2-5)
proof (induction os arbitrary: t0 l rs l')
  case Nil
  then show ?case by simp
next
  case (Cons x os)
  have sorted: "sorted (op_time x # map op_time os)" and le: "t0 \<le> op_time x" using Cons.prems(2) by simp_all
  have lt: "op_time x < tend" using Cons.prems(3) by simp
  have later: "\<forall>x \<in> set os. op_time x < tend \<and> harmless e s h x" using Cons.prems(3) by simp
  have held: "own t' e s l = Some h" if "op_time x \<le> t'" "t' < tend" for t'
    using Cons.prems(1) le that by simp
  show ?case
  proof (cases x)
    case (LAcquire f t e' s' h' ttl)
    obtain r l1 where a: "acq f t e' s' h' ttl l = (r, l1)" by (meson surj_pair)
    obtain rs2 l2 where n: "run_ops os e s l1 = (rs2, l2)" by (meson surj_pair)
    have ms: "whole_ms ttl" using Cons.prems(3) LAcquire by simp
    have r: "e' = e \<and> s' = s \<Longrightarrow> r \<noteq> Inr True \<and> l1 = l"
      using taken [OF assms(1) ms _ a] held [of t] lt LAcquire by simp
    have keep: "\<forall>t'. op_time x \<le> t' \<and> t' < tend \<longrightarrow> own t' e s l1 = Some h"
      using r held other_seat [OF assms(1) ms a, of e s] LAcquire by (metis op_time.simps(1) prod.inject)
    from Cons.IH [OF keep sorted later n] r Cons.prems(4) a n LAcquire show ?thesis
      by (auto split: if_splits)
  next
    case (LRelease f t e' s' h')
    obtain r l1 where a: "rel f t e' s' h' l = (r, l1)" by (meson surj_pair)
    have no: "h' \<noteq> h \<or> (e', s') \<noteq> (e, s)" using Cons.prems(3) LRelease by simp
    have keep: "\<forall>t'. op_time x \<le> t' \<and> t' < tend \<longrightarrow> own t' e s l1 = Some h"
    proof (intro allI impI)
      fix t' assume t': "op_time x \<le> t' \<and> t' < tend"
      show "own t' e s l1 = Some h"
        using released [OF assms(1) a, of t' e s] held [of t'] held [of t] t' lt no LRelease by auto
    qed
    from Cons.IH [OF keep sorted later] Cons.prems(4) a LRelease show ?thesis by auto
  qed
qed

end

subsection \<open>The code's lock fulfils it\<close>

lemma redis_setnx:
  assumes "redis_laws R" and "whole_ms ttl" and "rd_setnx R t k v ttl s = (ok, s')"
  shows "if rd_get R t k s = None
         then ok \<and> (\<forall>t' \<ge> t. \<forall>k'. rd_get R t' k' s' =
                (if k' = k then if t' < t + ttl div 1000 then Some v else None else rd_get R t' k' s))
         else \<not> ok \<and> s' = s"
  using assms unfolding redis_laws_def by blast

lemma redis_del:
  "redis_laws R \<Longrightarrow> t \<le> t' \<Longrightarrow> rd_get R t' k' (rd_del R t k s) = (if k' = k then None else rd_get R t' k' s)"
  unfolding redis_laws_def by blast

lemma redis_expires:
  "redis_laws R \<Longrightarrow> t \<le> t' \<Longrightarrow> rd_get R t' k s = None \<or> rd_get R t' k s = rd_get R t k s"
  unfolding redis_laws_def by blast

lemma Acquire_effect:
  assumes "Acquire R f t e s h ttl l = (r, l')"
  obtains (lost) "r = Inl Unavailable" "l' = l"
    | (ran) ok where "rd_setnx R t (key e s) h ttl l = (ok, l')" "r = Inr ok \<or> r = Inl Unavailable"
proof (cases f)
  case Done
  with assms that(2) show thesis by (auto simp: Acquire_def split: prod.splits)
next
  case Lost
  with assms that(1) show thesis by (simp add: Acquire_def)
next
  case Ambiguous
  with assms that(2) show thesis by (auto simp: Acquire_def) (metis prod.collapse)
qed

interpretation holdlock: seat_lock "redis_laws R" "Acquire R" "Release R" "owner R" for R
proof (unfold_locales, goal_cases)
  case (1 ttl f t e s h l l')
  from 1(3) show ?case
  proof (cases rule: Acquire_effect)
    case (ran b)
    then show ?thesis using redis_setnx [OF 1(1,2) ran(1)] by (auto simp: owner_def split: if_splits)
  qed simp
next
  case (2 ttl t e s l h' f h r l')
  from 2(4) show ?case
  proof (cases rule: Acquire_effect)
    case (ran b)
    then show ?thesis using 2(3) redis_setnx [OF 2(1,2) ran(1)] by (auto simp: owner_def split: if_splits)
  qed simp
next
  case (3 ttl f t e s h l r l' e' s' t')
  from 3(3) show ?case
  proof (cases rule: Acquire_effect)
    case (ran b)
    then show ?thesis using redis_setnx [OF 3(1,2) ran(1)] 3(4,5)
      by (auto simp: owner_def key_inj split: if_splits)
  qed simp
next
  case (4 f t e s h l r l' t' e' s')
  have "l' = l \<or> l' = releaseScript R t (key e s) h l" using 4(2) by (auto simp: Release_def split: fate.splits)
  then show ?case using redis_del [OF 4(1,3)] by (auto simp: releaseScript_def owner_def key_inj split: if_splits)
next
  case (5 t t' e s l)
  then show ?case using redis_expires by (simp add: owner_def)
qed

subsection \<open>Properties\<close>

text \<open>
  a granted seat lock is exclusive. After \<open>Acquire\<close> has granted a seat to a hold, and until
  its time to live ends or that hold releases it, every other \<open>Acquire\<close> of the seat is refused
  or fails, whatever acquires and releases (of this or other seats, by other holds) come first.
\<close>

lemma seat_lock_excludes:
  assumes "redis_laws R" and "whole_ms ttl" and "Acquire R f t e s h ttl l = (Inr True, l1)"
    and "sorted (t # map op_time ops)" and "\<forall>x \<in> set ops. op_time x < t + ttl div 1000 \<and> holdlock.harmless e s h x"
    and "last (t # map op_time ops) \<le> t2" and "t2 < t + ttl div 1000" and "whole_ms ttl2"
  shows "fst (Acquire R f2 t2 e s h2 ttl2 (snd (holdlock.run_ops R ops e s l1))) \<noteq> Inr True"
proof -
  obtain rs l2 where r: "holdlock.run_ops R ops e s l1 = (rs, l2)" by (meson surj_pair)
  have "\<forall>t'. t \<le> t' \<and> t' < t + ttl div 1000 \<longrightarrow> owner R t' e s l1 = Some h"
    using holdlock.granted [OF assms(1-3)] by simp
  from holdlock.exclusive [OF assms(1) this assms(4,5) r] assms(6,7)
  have "owner R t2 e s l2 = Some h" by blast
  from holdlock.taken [OF assms(1,8) this] r show ?thesis by (metis prod.collapse snd_conv)
qed

text \<open>A store that satisfies the laws: keys with a value and an expiry.\<close>

definition kv_redis :: "(string \<Rightarrow> (string \<times> time) option) redis" where
  "kv_redis =
     \<lparr>rd_get = (\<lambda>t k s. case s k of None \<Rightarrow> None | Some (v, x) \<Rightarrow> if t < x then Some v else None),
      rd_setnx = (\<lambda>t k v ttl s.
        (case s k of
           Some (v', x) \<Rightarrow> if t < x then (False, s) else (True, s(k \<mapsto> (v, t + ttl div 1000)))
         | None \<Rightarrow> (True, s(k \<mapsto> (v, t + ttl div 1000))))),
      rd_del = (\<lambda>t k s. s(k := None))\<rparr>"

lemma kv_redis_laws: "redis_laws kv_redis"
  unfolding redis_laws_def kv_redis_def
  by (auto split: option.splits if_splits)

lemma seat_lock_excludes_example:
  "fst (Acquire kv_redis Done 7 1 11 ''bob'' 600000000000
     (snd (holdlock.run_ops kv_redis [LRelease Done 5 1 11 ''bob''] 1 11
       (snd (Acquire kv_redis Done 3 1 11 ''ann'' 600000000000 (\<lambda>_. None)))))) \<noteq> Inr True"
proof (rule seat_lock_excludes [OF kv_redis_laws])
  show "Acquire kv_redis Done 3 1 11 ''ann'' 600000000000 (\<lambda>_. None) =
      (Inr True, snd (Acquire kv_redis Done 3 1 11 ''ann'' 600000000000 (\<lambda>_. None)))"
    by (simp add: Acquire_def kv_redis_def)
qed (simp_all add: whole_ms_def)

end
