(* ===== verification/OrderProofs.thy ===== *)
theory OrderProofs
  imports Order InventoryClaims
begin

section \<open>What the saga does to the tables\<close>

text \<open>
  Frames: the inventory operations leave the sales tables (orders, steps, payments, refunds,
  tickets) alone and every part of the saga is a seat writer. The relation \<open>touches i\<close> says
  that a part of the saga changed no other order's rows than those of order i.
\<close>

subsection \<open>Statements and transactions that keep the sales tables\<close>

definition sales :: "db \<Rightarrow> order_row list \<times> payment_row list \<times> refund_row list \<times> saga_step list \<times> ticket_row list" where
  "sales d = (t_orders d, t_payments d, t_refunds d, t_steps d, t_tickets d)"

lemma sales_simps [simp]:
  "sales (d\<lparr>t_seats := x\<rparr>) = sales d" "sales (d\<lparr>t_audit := y\<rparr>) = sales d"
  "sales (d\<lparr>t_outbox := z\<rparr>) = sales d" "sales (d\<lparr>t_outbox_seq := n\<rparr>) = sales d"
  by (simp_all add: sales_def)

lemma sales_tables:
  "sales d' = sales d \<Longrightarrow> t_orders d' = t_orders d \<and> t_payments d' = t_payments d \<and> t_refunds d' = t_refunds d
     \<and> t_steps d' = t_steps d \<and> t_tickets d' = t_tickets d"
  by (simp add: sales_def)

definition keeps_sales :: "'a stmt \<Rightarrow> bool" where
  "keeps_sales st \<longleftrightarrow> (\<forall>t d. sales (snd (st t d)) = sales d)"

lemma keeps_sales_statements [simp]:
  "keeps_sales (q_AcquireHold ev ss h u ttl)" "keeps_sales (q_ReleaseHold ev ss h)"
  "keeps_sales (q_ExtendHold ev ss h secs)" "keeps_sales (q_ConfirmSeats ev ss fs h b)"
  "keeps_sales (q_InsertHoldsAudit a)" "keeps_sales (q_InsertDomainEvent i agg ty ver pl)"
  "keeps_sales (q_GetSeatsByHoldID h)" "keeps_sales (q_ListAvailableForBestAvailable ev p)"
  "keeps_sales (q_GetOrder i)" "keeps_sales (q_GetPaymentByIdempotencyKey k)"
  "keeps_sales (q_ListSeatIDsForOrder ev b)"
  by (simp_all add: keeps_sales_def q_AcquireHold_def q_ReleaseHold_def q_ExtendHold_def q_ConfirmSeats_def
      q_InsertHoldsAudit_def q_InsertDomainEvent_def q_GetSeatsByHoldID_def q_ListAvailableForBestAvailable_def
      q_GetOrder_def q_GetPaymentByIdempotencyKey_def q_ListSeatIDsForOrder_def)

lemma keeps_salesD: "keeps_sales st \<Longrightarrow> st t d = (r, d') \<Longrightarrow> sales d' = sales d"
  by (metis keeps_sales_def snd_conv)

lemma exec_sales: "keeps_sales st \<Longrightarrow> exec E st w = (r, w') \<Longrightarrow> sales (w_db w') = sales (w_db w)"
  by (erule exec_cases) (auto dest: keeps_salesD)

lemma exec_tx_sales:
  "keeps_sales st \<Longrightarrow> exec_tx E st t w = (Inr (x, t'), w') \<Longrightarrow> sales (tx_db t') = sales (tx_db t)"
  by (erule exec_tx_cases) (auto dest: keeps_salesD)

lemma outbox_only_sales: "outbox_only d d' \<Longrightarrow> sales d' = sales d"
  by (auto simp: outbox_only_def)

lemma audit_only_sales: "audit_only d d' \<Longrightarrow> sales d' = sales d"
  by (auto simp: audit_only_def)

lemma publish_all_sales: "publish_all E es t w = (Inr t', w') \<Longrightarrow> sales (tx_db t') = sales (tx_db t)"
  using publish_all_ok outbox_only_sales by blast

lemma begin_tx_sales: "begin_tx E w = (Inr t, w') \<Longrightarrow> sales (tx_db t) = sales (w_db w)"
  by (erule begin_tx_cases) auto

lemma commit_tx_sales:
  "commit_tx E t w = (r, w') \<Longrightarrow> sales (tx_db t) = s \<Longrightarrow> sales (w_db w) = s \<Longrightarrow> sales (w_db w') = s"
  by (erule commit_tx_cases) auto

lemma audits_sales [simp]:
  "sales (w_db (audit_all E h ev ss u oc w)) = sales (w_db w)"
  "sales (w_db (audit_acquired E hl u hs w)) = sales (w_db w)"
  "sales (w_db (audit E h ev s u oc f x w)) = sales (w_db w)"
  by (rule audit_only_sales, rule audit_all_frame audit_acquired_frame audit_frame)+

lemma acquire_cas_sales:
  assumes "acquire_cas E S ev seats acq h user w = (r, w')"
  shows "sales (w_db w') = sales (w_db w)"
proof -
  obtain rb w1 where b: "begin_tx E w = (rb, w1)" by (meson surj_pair)
  show ?thesis
  proof (cases rb)
    case (Inl e)
    then show ?thesis using assms b call_frames(3) [OF b] by (auto simp: acquire_cas_def)
  next
    case (Inr t)
    obtain rx w2 where x: "exec_tx E (q_AcquireHold ev seats h user (dur_seconds (sv_hold_ttl S))) t w1 = (rx, w2)"
      by (meson surj_pair)
    have d2: "w_db w2 = w_db w" using call_frames(3) [OF b] call_frames(4) [OF x] by simp
    show ?thesis
    proof (cases rx)
      case (Inl e)
      then show ?thesis using assms b Inr x d2 by (auto simp: acquire_cas_def)
    next
      case (Inr p)
      obtain rows t2 where p: "p = (rows, t2)" by (cases p)
      have t2: "sales (tx_db t2) = sales (w_db w)"
        using exec_tx_sales [OF _ x [unfolded Inr p]] begin_tx_sales b \<open>rb = Inr t\<close> by simp
      obtain rp w3 where pb: "publish_all E (map (held_event ev h) rows) t2 w2 = (rp, w3)" by (meson surj_pair)
      have d3: "w_db w3 = w_db w" using publish_all_frame [OF pb] d2 by simp
      show ?thesis
      proof (cases rp)
        case (Inl e)
        then show ?thesis using assms b x pb p \<open>rb = Inr t\<close> \<open>rx = Inr p\<close> d2 d3
          by (auto simp: acquire_cas_def Let_def split: if_splits)
      next
        case (Inr t3)
        obtain rc w4 where c: "commit_tx E t3 w3 = (rc, w4)" by (meson surj_pair)
        have "sales (w_db w4) = sales (w_db w)"
          using commit_tx_sales [OF c] publish_all_sales [of E _ t2 w2 t3 w3] pb Inr t2 d3 by simp
        then show ?thesis using assms b x pb p c Inr \<open>rb = Inr t\<close> \<open>rx = Inr p\<close> d2
          by (auto simp: acquire_cas_def Let_def split: if_splits sum.splits)
      qed
    qed
  qed
qed

lemma AcquireHold_sales:
  assumes "AcquireHold E S ev ids user w = (r, w')"
  shows "sales (w_db w') = sales (w_db w)"
proof -
  obtain ss d where sd: "sortDedup ids = (ss, d)" by (meson surj_pair)
  obtain c acq w2 where l: "acquire_locks E S ev (uuid_at E (w_calls w)) ss [] (tick w) = ((c, acq), w2)"
    by (metis surj_pair)
  have "w_db w2 = w_db w" using acquire_locks_frame [OF l] by simp
  then show ?thesis
    using assms sd l acquire_cas_sales [of E S ev ss acq "uuid_at E (w_calls w)" user w2]
    by (auto simp: AcquireHold_def new_uuid_def Let_def split: if_splits option.splits)
qed

lemma ReleaseHold_sales:
  assumes "ReleaseHold E S ev ids h user w = (r, w')"
  shows "sales (w_db w') = sales (w_db w)"
proof -
  let ?seats = "fst (sortDedup ids)"
  obtain rb w1 where b: "begin_tx E (releaseRedisBatch E S ev ?seats h w) = (rb, w1)" by (meson surj_pair)
  have d1: "w_db w1 = w_db w" using call_frames(3) [OF b] by simp
  show ?thesis
  proof (cases rb)
    case (Inl e)
    with assms b d1 show ?thesis by (auto simp: ReleaseHold_def Let_def)
  next
    case (Inr t)
    have t: "sales (tx_db t) = sales (w_db w)" using begin_tx_sales b Inr by fastforce
    obtain rs w2 where x: "exec_tx E (q_ReleaseHold ev ?seats h) t w1 = (rs, w2)" by (meson surj_pair)
    have d2: "w_db w2 = w_db w" using call_frames(4) [OF x] d1 by simp
    show ?thesis
    proof (cases rs)
      case (Inl e)
      with assms b Inr x d2 show ?thesis by (auto simp: ReleaseHold_def Let_def)
    next
      case rs: (Inr p)
      obtain n t2 where p: "p = (n, t2)" by (cases p)
      have t2: "sales (tx_db t2) = sales (w_db w)" using exec_tx_sales [OF _ x [unfolded rs p]] t by simp
      let ?es = "if n > 0 then map (released_event ev h) ?seats else []"
      obtain rp w3 where pa: "publish_all E ?es t2 w2 = (rp, w3)" by (meson surj_pair)
      have pub: "(if n > 0 then publish_all E (map (released_event ev h) ?seats) t2 w2 else (Inr t2, w2)) = (rp, w3)"
        using pa by (auto split: if_splits)
      have d3: "w_db w3 = w_db w" using publish_all_frame [OF pa] d2 by simp
      show ?thesis
      proof (cases rp)
        case (Inl e)
        with assms b Inr x rs p pub d3 show ?thesis by (auto simp: ReleaseHold_def Let_def)
      next
        case rp: (Inr t3)
        obtain rc w4 where c: "commit_tx E t3 w3 = (rc, w4)" by (meson surj_pair)
        have "sales (w_db w4) = sales (w_db w)"
          using commit_tx_sales [OF c] publish_all_sales [of E ?es t2 w2 t3 w3] pa rp t2 d3 by simp
        with assms b Inr x rs p pub rp c show ?thesis
          by (auto simp: ReleaseHold_def Let_def split: sum.splits)
      qed
    qed
  qed
qed

lemma ConfirmSeats_sales:
  assumes "ConfirmSeats E ev ids fcs h b w = (r, w')"
  shows "sales (w_db w') = sales (w_db w)"
proof (cases "length ids = length fcs")
  case False
  then show ?thesis using assms by (auto simp: ConfirmSeats_def)
next
  case True
  obtain ss fs where so: "sortSeatsAndFencesTogether ids fcs = (ss, fs)" by (meson surj_pair)
  obtain rb w1 where b: "begin_tx E w = (rb, w1)" by (meson surj_pair)
  have d1: "w_db w1 = w_db w" using call_frames(3) [OF b] by simp
  show ?thesis
  proof (cases rb)
    case (Inl e)
    with assms b d1 so True show ?thesis by (auto simp: ConfirmSeats_def)
  next
    case (Inr t)
    have t: "sales (tx_db t) = sales (w_db w)" using begin_tx_sales b Inr by fastforce
    obtain rs w2 where x: "exec_tx E (q_ConfirmSeats ev ss fs h b) t w1 = (rs, w2)" by (meson surj_pair)
    have d2: "w_db w2 = w_db w" using call_frames(4) [OF x] d1 by simp
    show ?thesis
    proof (cases rs)
      case (Inl e)
      with assms b Inr x d2 so True show ?thesis by (auto simp: ConfirmSeats_def)
    next
      case rs: (Inr p)
      obtain n t2 where p: "p = (n, t2)" by (cases p)
      have t2: "sales (tx_db t2) = sales (w_db w)" using exec_tx_sales [OF _ x [unfolded rs p]] t by simp
      obtain rp w3 where pa: "publish_all E (map (booked_event ev h b) ss) t2 w2 = (rp, w3)" by (meson surj_pair)
      have d3: "w_db w3 = w_db w" using publish_all_frame [OF pa] d2 by simp
      show ?thesis
      proof (cases rp)
        case (Inl e)
        with assms b Inr x rs p pa d2 d3 so True show ?thesis
          by (auto simp: ConfirmSeats_def split: if_splits)
      next
        case rp: (Inr t3)
        obtain rc w4 where c: "commit_tx E t3 w3 = (rc, w4)" by (meson surj_pair)
        have "sales (w_db w4) = sales (w_db w)"
          using commit_tx_sales [OF c] publish_all_sales [of E _ t2 w2 t3 w3] pa rp t2 d3 by simp
        with assms b Inr x rs p pa rp c d2 so True show ?thesis
          by (auto simp: ConfirmSeats_def split: sum.splits if_splits)
      qed
    qed
  qed
qed

lemma ExtendHold_sales:
  assumes "ExtendHold E ev ids h dur w = (r, w')"
  shows "sales (w_db w') = sales (w_db w)"
proof -
  obtain rx wx where x: "exec E (q_ExtendHold ev (fst (sortDedup ids)) h (dur_seconds dur)) w = (rx, wx)"
    by (meson surj_pair)
  have "sales (w_db wx) = sales (w_db w)" by (rule exec_sales [OF _ x]) simp
  with assms x show ?thesis by (auto simp: ExtendHold_def Let_def split: sum.splits if_splits)
qed

lemma BestAvailable_sales:
  assumes "BestAvailable E S ev q maxp user w = (r, w')"
  shows "sales (w_db w') = sales (w_db w)"
proof -
  have tr: "try_runs E S ev rs user v = (r', v') \<Longrightarrow> sales (w_db v') = sales (w_db v)" for rs v r' v'
  proof (induction rs arbitrary: v)
    case Nil
    then show ?case by simp
  next
    case (Cons x rs)
    obtain ra va where a: "AcquireHold E S ev x user v = (ra, va)" by (meson surj_pair)
    show ?case using Cons AcquireHold_sales [OF a] by (auto simp: a split: sum.splits if_splits)
  qed
  obtain rx wx where x: "exec E (q_ListAvailableForBestAvailable ev maxp) w = (rx, wx)" by (meson surj_pair)
  have "sales (w_db wx) = sales (w_db w)" by (rule exec_sales [OF _ x]) simp
  then show ?thesis
    using assms x by (auto simp: BestAvailable_def Let_def split: if_splits sum.splits dest!: tr)
qed

lemmas inventory_sales = AcquireHold_sales ReleaseHold_sales ConfirmSeats_sales ExtendHold_sales BestAvailable_sales

subsection \<open>The saga writes event-seats only through the inventory\<close>

lemma snd_exec_seats: "keeps_seats st \<Longrightarrow> t_seats (w_db (snd (exec E st w))) = t_seats (w_db w)"
  by (metis exec_keeps prod.collapse)

lemma saga_writes_seats [simp]:
  "t_seats (w_db (markStep E i s st e w)) = t_seats (w_db w)"
  "t_seats (w_db (setStatus E i os w)) = t_seats (w_db w)"
  "t_seats (w_db (failOrder E i c dt w)) = t_seats (w_db w)"
  by (simp_all add: markStep_def setStatus_def failOrder_def snd_exec_seats)

lemma issueTickets_seats [simp]: "t_seats (w_db (issueTickets E G ev i w)) = t_seats (w_db w)"
  by (auto simp: issueTickets_def IssueTickets_keeps [OF prod.collapse [symmetric]] split: option.split)

lemma finish_tickets_seats [simp]: "t_seats (w_db (finish_tickets E G r w)) = t_seats (w_db w)"
  by (simp add: finish_tickets_def)

lemma saga_payment_seats: "saga_payment E r w = (p, w') \<Longrightarrow> t_seats (w_db w') = t_seats (w_db w)"
proof -
  let ?k = "chargeIdempotencyKey E (ord_user r) (ord_id r) (ord_hold r)"
  obtain ri wi where i: "exec E (q_InsertPayment (uuid_at E (w_calls w)) (ord_id r) ?k (ord_amount r)) (tick w) = (ri, wi)"
    by (meson surj_pair)
  have "t_seats (w_db wi) = t_seats (w_db w)" using exec_keeps [OF _ i] by simp
  moreover assume "saga_payment E r w = (p, w')"
  ultimately show ?thesis using i exec_keeps [of "q_GetPaymentByIdempotencyKey ?k" E wi]
    by (auto simp: saga_payment_def new_uuid_def Let_def split: sum.splits)
qed

lemma saga_charge_seats: "saga_charge E G r p w = (q, w') \<Longrightarrow> t_seats (w_db w') = t_seats (w_db w)"
proof -
  obtain c wc where c: "call_charge (sg_pay G) (chargeIdempotencyKey E (ord_user r) (ord_id r) (ord_hold r)) (ord_amount r) w = (c, wc)"
    by (meson surj_pair)
  have "w_db wc = w_db w" using call_charge_frame [OF c] by simp
  moreover assume "saga_charge E G r p w = (q, w')"
  ultimately show ?thesis using c
    by (auto simp: saga_charge_def Let_def snd_exec_seats split: sum.splits if_splits)
qed

lemma refund_order_seats: "refund_order E G r p cause w = (q, w') \<Longrightarrow> t_seats (w_db w') = t_seats (w_db w)"
proof -
  obtain c wc where c: "call_refund (sg_pay G) (pg_string (pay_ref p)) (pay_amount p) w = (c, wc)" by (meson surj_pair)
  have "w_db wc = w_db w" using call_refund_frame [OF c] by simp
  moreover assume "refund_order E G r p cause w = (q, w')"
  ultimately show ?thesis using c
    by (auto simp: refund_order_def new_uuid_def Let_def snd_exec_seats split: sum.splits)
qed

lemma currentFences_frame:
  "currentFences E seats h w = (q, w') \<Longrightarrow> t_seats (w_db w') = t_seats (w_db w) \<and> sales (w_db w') = sales (w_db w)"
proof -
  obtain rx wx where x: "exec E (q_GetSeatsByHoldID h) w = (rx, wx)" by (meson surj_pair)
  have "t_seats (w_db wx) = t_seats (w_db w)" "sales (w_db wx) = sales (w_db w)"
    using exec_keeps [OF _ x] exec_sales [OF _ x] by simp_all
  moreover assume "currentFences E seats h w = (q, w')"
  ultimately show ?thesis using x by (auto simp: currentFences_def Let_def split: sum.splits)
qed

text \<open>The ways a compensation can go.\<close>

definition realloc_price :: "order_row \<Rightarrow> int" where
  "realloc_price r = wrap32 (wrap32 (go_div (ord_amount r) (wrap32 (int (length (ord_seats r))))) * reallocMaxMult)"

definition hold_ids :: "hold \<Rightarrow> int list" where "hold_ids h = map hs_seat (h_seats h)"
definition hold_fences :: "hold \<Rightarrow> int list" where "hold_fences h = map hs_fence (h_seats h)"
definition sorted_ids :: "hold \<Rightarrow> int list" where
  "sorted_ids h = fst (sortSeatsAndFencesTogether (hold_ids h) (hold_fences h))"

lemma compensate_cases:
  assumes "compensate E G r p cause w = (q, w')"
  obtains (panic) e where "q = Inl e" "w' = w"
    | (no_hold) e w1 where
        "BestAvailable E (sg_inv G) (ord_event r) (int (length (ord_seats r))) (realloc_price r) (ord_user r) w = (Inl e, w1)"
        "refund_order E G r p cause w1 = (q, w')"
    | (moved) nh w1 w2 where
        "BestAvailable E (sg_inv G) (ord_event r) (int (length (ord_seats r))) (realloc_price r) (ord_user r) w = (Inr nh, w1)"
        "ConfirmSeats E (ord_event r) (hold_ids nh) (hold_fences nh) (h_id nh) (ord_id r) w1 = (Inr (), w2)"
        "q = Inr ()"
        "w' = finish_tickets E G r (markStep E (ord_id r) ConfirmStep StepCompensated
                (''reallocated after: '' @ error_text E cause)
                (setStatus E (ord_id r) Confirmed (snd (exec E (q_ReallocateOrder (ord_id r) (h_id nh) (sorted_ids nh)) w2))))"
    | (released) nh w1 e w2 where
        "BestAvailable E (sg_inv G) (ord_event r) (int (length (ord_seats r))) (realloc_price r) (ord_user r) w = (Inr nh, w1)"
        "ConfirmSeats E (ord_event r) (hold_ids nh) (hold_fences nh) (h_id nh) (ord_id r) w1 = (Inl e, w2)"
        "refund_order E G r p cause
           (snd (ReleaseHold E (sg_inv G) (ord_event r) (sorted_ids nh) (h_id nh) (ord_user r) w2)) = (q, w')"
proof (cases "wrap32 (int (length (ord_seats r))) = 0")
  case True
  then show ?thesis using assms by (intro panic) (auto simp: compensate_def Let_def)
next
  case False
  obtain rb w1 where b: "BestAvailable E (sg_inv G) (ord_event r) (int (length (ord_seats r))) (realloc_price r) (ord_user r) w = (rb, w1)"
    by (meson surj_pair)
  note c = assms [unfolded compensate_def Let_def if_not_P [OF False], folded realloc_price_def, unfolded b prod.case]
  show thesis
  proof (cases rb)
    case (Inl e)
    with b c show thesis by (intro no_hold) simp_all
  next
    case (Inr nh)
    obtain rc w2 where f: "ConfirmSeats E (ord_event r) (hold_ids nh) (hold_fences nh) (h_id nh) (ord_id r) w1 = (rc, w2)"
      by (meson surj_pair)
    note c2 = c [unfolded Inr sum.case, folded hold_ids_def hold_fences_def, folded sorted_ids_def, unfolded f prod.case]
    show thesis
    proof (cases rc)
      case (Inl e)
      with b f c2 \<open>rb = Inr nh\<close> show thesis by (intro released) simp_all
    next
      case (Inr u)
      with b f c2 \<open>rb = Inr nh\<close> show thesis by (intro moved) auto
    qed
  qed
qed

lemma compensate_evolves:
  assumes "compensate E G r p cause w = (q, w')"
  shows "seats_evolve (t_seats (w_db w)) (t_seats (w_db w'))"
  using assms
proof (cases rule: compensate_cases)
  case (no_hold e w1)
  show ?thesis using BestAvailable_evolves [OF no_hold(1)] refund_order_seats [OF no_hold(2)] by simp
next
  case (moved nh w1 w2)
  show ?thesis
    using seats_evolve_trans [OF BestAvailable_evolves [OF moved(1)] ConfirmSeats_evolves [OF moved(2)]] moved(4)
    by (simp add: snd_exec_seats)
next
  case (released nh w1 e w2)
  note rel = ReleaseHold_evolves [OF prod.collapse [symmetric]]
  show ?thesis
    using seats_evolve_trans [OF seats_evolve_trans [OF BestAvailable_evolves [OF released(1)]
      ConfirmSeats_evolves [OF released(2)]] rel] refund_order_seats [OF released(3)] by simp
qed simp

lemma saga_confirm_evolves:
  assumes "saga_confirm E G r p w = (q, w')"
  shows "seats_evolve (t_seats (w_db w)) (t_seats (w_db w'))"
proof -
  obtain rf w1 where f: "currentFences E (ord_seats r) (ord_hold r) (setStatus E (ord_id r) Confirming w) = (rf, w1)"
    by (meson surj_pair)
  have d1: "t_seats (w_db w1) = t_seats (w_db w)" using currentFences_frame [OF f] by simp
  show ?thesis
  proof (cases rf)
    case (Inl e)
    with assms f d1 show ?thesis by (simp add: saga_confirm_def)
  next
    case (Inr fences)
    obtain rc w2 where c: "ConfirmSeats E (ord_event r) (ord_seats r) fences (ord_hold r) (ord_id r) w1 = (rc, w2)"
      by (meson surj_pair)
    have e2: "seats_evolve (t_seats (w_db w)) (t_seats (w_db w2))" using ConfirmSeats_evolves [OF c] d1 by simp
    show ?thesis
    proof (cases rc)
      case (Inl e)
      with assms f Inr c have "compensate E G r p e w2 = (q, w')" by (simp add: saga_confirm_def)
      from seats_evolve_trans [OF e2 compensate_evolves [OF this]] show ?thesis .
    next
      case (Inr u)
      with assms f c \<open>rf = Inr fences\<close> e2 show ?thesis by (auto simp: saga_confirm_def)
    qed
  qed
qed

lemma saga_extend_evolves:
  assumes "saga_extend E G r w = (q, w')"
  shows "seats_evolve (t_seats (w_db w)) (t_seats (w_db w'))"
proof -
  obtain rx wx where x: "ExtendHold E (ord_event r) (ord_seats r) (ord_hold r) extendBuffer
      (setStatus E (ord_id r) Authorizing w) = (rx, wx)" by (meson surj_pair)
  have "seats_evolve (t_seats (w_db w)) (t_seats (w_db wx))" using ExtendHold_evolves [OF x] by simp
  with assms x show ?thesis by (auto simp: saga_extend_def split: sum.splits if_splits)
qed

text \<open>The ways a run of the saga can go.\<close>

lemma RunSaga_cases:
  assumes "RunSaga E G i w = (q, w')"
  obtains (no_order) e where "q = Inl e" "exec E (q_GetOrder i) w = (Inl e, w')"
    | (idle) r where "q = Inr ()" "exec E (q_GetOrder i) w = (Inr r, w')"
        "ord_status r \<notin> {Pending, Authorizing, Confirming}"
    | (lapsed) r w1 where "q = Inr ()" "exec E (q_GetOrder i) w = (Inr r, w1)" "saga_extend E G r w1 = (False, w')"
    | (no_payment) r w1 w2 e where "q = Inl e" "exec E (q_GetOrder i) w = (Inr r, w1)"
        "saga_extend E G r w1 = (True, w2)" "saga_payment E r w2 = (Inl e, w')"
    | (no_charge) r w1 w2 p w3 e where "q = Inl e" "exec E (q_GetOrder i) w = (Inr r, w1)"
        "saga_extend E G r w1 = (True, w2)" "saga_payment E r w2 = (Inr p, w3)" "saga_charge E G r p w3 = (Inl e, w')"
    | (charged) r w1 w2 p w3 p' w4 where "exec E (q_GetOrder i) w = (Inr r, w1)"
        "ord_status r \<in> {Pending, Authorizing, Confirming}"
        "saga_extend E G r w1 = (True, w2)" "saga_payment E r w2 = (Inr p, w3)"
        "saga_charge E G r p w3 = (Inr p', w4)" "after_charge E G r p' w4 = (q, w')"
proof -
  obtain rg w1 where g: "exec E (q_GetOrder i) w = (rg, w1)" by (meson surj_pair)
  show thesis
  proof (cases rg)
    case (Inl e)
    with assms g show thesis by (intro no_order [of e]) (auto simp: RunSaga_def)
  next
    case (Inr r)
    obtain go w2 where x: "saga_extend E G r w1 = (go, w2)" by (meson surj_pair)
    obtain rp w3 where p: "saga_payment E r w2 = (rp, w3)" by (meson surj_pair)
    consider "ord_status r \<notin> {Pending, Authorizing, Confirming}" | "ord_status r \<in> {Pending, Authorizing, Confirming}" "\<not> go"
      | "ord_status r \<in> {Pending, Authorizing, Confirming}" "go" by blast
    then show thesis
    proof cases
      case 1
      with assms g Inr show thesis by (intro idle [of r]) (auto simp: RunSaga_def)
    next
      case 2
      with assms g Inr x show thesis by (intro lapsed [of r w1]) (auto simp: RunSaga_def)
    next
      case 3
      show thesis
      proof (cases rp)
        case (Inl e)
        with assms g \<open>rg = Inr r\<close> x p 3 show thesis by (intro no_payment [of e r w1 w2]) (auto simp: RunSaga_def)
      next
        case rp: (Inr pr)
        obtain rc w4 where c: "saga_charge E G r pr w3 = (rc, w4)" by (meson surj_pair)
        show thesis
        proof (cases rc)
          case (Inl e)
          with assms g \<open>rg = Inr r\<close> x p 3 rp c show thesis
            by (intro no_charge [of e r w1 w2 pr w3]) (auto simp: RunSaga_def)
        next
          case rc: (Inr p')
          show thesis
            by (rule charged [of r w1 w2 pr w3 p' w4]) (use assms g Inr x p 3 rp c rc in \<open>auto simp: RunSaga_def\<close>)
        qed
      qed
    qed
  qed
qed

lemma after_charge_evolves:
  "after_charge E G r p w = (q, w') \<Longrightarrow> seats_evolve (t_seats (w_db w)) (t_seats (w_db w'))"
  by (auto simp: after_charge_def split: pay_status.splits dest: saga_confirm_evolves)

lemma RunSaga_evolves:
  assumes "RunSaga E G i w = (q, w')"
  shows "seats_evolve (t_seats (w_db w)) (t_seats (w_db w'))"
proof -
  have get: "exec E (q_GetOrder i) w = (rg, w1) \<Longrightarrow> t_seats (w_db w1) = t_seats (w_db w)" for rg w1
    by (rule exec_keeps [of "q_GetOrder i"]) simp_all
  from assms show ?thesis
  proof (cases rule: RunSaga_cases)
    case (charged r w1 w2 p w3 p' w4)
    have "seats_evolve (t_seats (w_db w)) (t_seats (w_db w4))"
      using get [OF charged(1)] saga_extend_evolves [OF charged(3)] saga_payment_seats [OF charged(4)]
        saga_charge_seats [OF charged(5)] by simp
    from seats_evolve_trans [OF this after_charge_evolves [OF charged(6)]] show ?thesis .
  next
    case (lapsed r w1)
    then show ?thesis using get [OF lapsed(2)] saga_extend_evolves [OF lapsed(3)] by simp
  next
    case (no_payment r w1 w2 e)
    then show ?thesis
      using get [OF no_payment(2)] saga_extend_evolves [OF no_payment(3)] saga_payment_seats [OF no_payment(4)] by simp
  next
    case (no_charge r w1 w2 p w3 e)
    then show ?thesis
      using get [OF no_charge(2)] saga_extend_evolves [OF no_charge(3)] saga_payment_seats [OF no_charge(4)]
        saga_charge_seats [OF no_charge(5)] by simp
  qed (auto dest: get)
qed

interpretation saga: seat_writer "RunSaga E G i" for E G i
  by unfold_locales (rule RunSaga_evolves)

end
