(* ===== verification/SagaMoney.thy ===== *)
theory SagaMoney
  imports OrderProofs
begin

section \<open>Money and seats settle together\<close>

text \<open>
  The two invariants \<open>internal/reconcile\<close> checks with SQL (no sold order without a captured
  payment, no captured payment without a sold order or a refund) as predicates on the
  database, and the proof that a completed run of the saga settles its order: step by step,
  what each part of \<open>RunSaga\<close> does to orders, payments and refunds.
\<close>

subsection \<open>The invariants\<close>

definition paid :: "db \<Rightarrow> uuid \<Rightarrow> bool" where
  "paid d i \<longleftrightarrow> (\<exists>p \<in> set (t_payments d). pay_order p = i \<and> pay_status_of p = PayCaptured)"

definition settled :: "db \<Rightarrow> payment_row \<Rightarrow> bool" where
  "settled d p \<longleftrightarrow> (\<exists>r \<in> set (t_orders d). ord_id r = pay_order p \<and> sold r)
     \<or> (\<exists>f \<in> set (t_refunds d). rf_payment f = pay_id p \<and> rf_status f = RefundCompleted)"

definition in_progress :: "db \<Rightarrow> payment_row \<Rightarrow> bool" where
  "in_progress d p \<longleftrightarrow> (\<exists>r \<in> set (t_orders d). ord_id r = pay_order p \<and> ord_status r \<in> {Authorizing, Confirming})"

text \<open>The invariants for all orders but those in \<open>X\<close>.\<close>

definition money_except :: "uuid set \<Rightarrow> db \<Rightarrow> bool" where
  "money_except X d \<longleftrightarrow>
     (\<forall>r \<in> set (t_orders d). ord_id r \<notin> X \<and> sold r \<longrightarrow> paid d (ord_id r))
   \<and> (\<forall>p \<in> set (t_payments d). pay_order p \<notin> X \<and> pay_status_of p = PayCaptured \<longrightarrow> settled d p \<or> in_progress d p)"

lemma invariant_queries:
  assumes "money_except {} d" and "\<forall>p \<in> set (t_payments d). \<not> in_progress d p"
  shows "q_FindOrdersMissingPayment t d = (Inr [], d) \<and> q_FindCapturedPaymentsMissingOrderOrRefund t d = (Inr [], d)"
  using assms
  by (auto simp: q_FindOrdersMissingPayment_def q_FindCapturedPaymentsMissingOrderOrRefund_def money_except_def
      paid_def settled_def filter_empty_conv)

subsection \<open>Other orders are not touched\<close>

definition touches :: "uuid \<Rightarrow> db \<Rightarrow> db \<Rightarrow> bool" where
  "touches i d d' \<longleftrightarrow>
     filter (\<lambda>r. ord_id r \<noteq> i) (t_orders d') = filter (\<lambda>r. ord_id r \<noteq> i) (t_orders d)
   \<and> map ord_id (t_orders d') = map ord_id (t_orders d)
   \<and> filter (\<lambda>p. pay_order p \<noteq> i) (t_payments d') = filter (\<lambda>p. pay_order p \<noteq> i) (t_payments d)
   \<and> set (t_refunds d) \<subseteq> set (t_refunds d')"

lemma touches_refl [simp, intro]: "touches i d d"
  by (simp add: touches_def)

lemma touches_trans: "touches i d d' \<Longrightarrow> touches i d' d'' \<Longrightarrow> touches i d d''"
  by (auto simp: touches_def)

lemma touches_sales: "sales d' = sales d \<Longrightarrow> touches i d d'"
  by (simp add: touches_def sales_def)

lemma touches_mem:
  assumes "touches i d d'"
  shows "ord_id r \<noteq> i \<Longrightarrow> r \<in> set (t_orders d') \<longleftrightarrow> r \<in> set (t_orders d)"
    and "pay_order p \<noteq> i \<Longrightarrow> p \<in> set (t_payments d') \<longleftrightarrow> p \<in> set (t_payments d)"
proof -
  show "ord_id r \<noteq> i \<Longrightarrow> r \<in> set (t_orders d') \<longleftrightarrow> r \<in> set (t_orders d)"
    using arg_cong [OF assms [unfolded touches_def, THEN conjunct1], of set] by auto
  show "pay_order p \<noteq> i \<Longrightarrow> p \<in> set (t_payments d') \<longleftrightarrow> p \<in> set (t_payments d)"
    using arg_cong [OF assms [unfolded touches_def, THEN conjunct2, THEN conjunct2, THEN conjunct1], of set] by auto
qed

lemma money_except_touches:
  assumes "touches i d d'" and "money_except {i} d"
  shows "money_except {i} d'"
proof -
  note mem = touches_mem [OF assms(1)]
  have sub: "set (t_refunds d) \<subseteq> set (t_refunds d')" using assms(1) by (simp add: touches_def)
  have pd: "paid d' j = paid d j" if "j \<noteq> i" for j using mem(2) that unfolding paid_def by metis
  have st: "settled d p \<Longrightarrow> settled d' p" if "pay_order p \<noteq> i" for p
    using mem(1) sub that unfolding settled_def by (metis subsetD)
  have ip: "in_progress d p \<Longrightarrow> in_progress d' p" if "pay_order p \<noteq> i" for p
    using mem(1) that unfolding in_progress_def by metis
  show ?thesis
    unfolding money_except_def
  proof (intro conjI ballI impI)
    fix r assume "r \<in> set (t_orders d')" "ord_id r \<notin> {i} \<and> sold r"
    then show "paid d' (ord_id r)" using assms(2) mem(1) pd unfolding money_except_def by simp
  next
    fix p assume "p \<in> set (t_payments d')" "pay_order p \<notin> {i} \<and> pay_status_of p = PayCaptured"
    then show "settled d' p \<or> in_progress d' p" using assms(2) mem(2) st ip unfolding money_except_def by auto
  qed
qed

text \<open>The order itself, once its payments and its status are known.\<close>

lemma money_whole:
  assumes "money_except {i} d"
    and "\<forall>r \<in> set (t_orders d). ord_id r = i \<and> sold r \<longrightarrow> paid d i"
    and "\<forall>p \<in> set (t_payments d). pay_order p = i \<and> pay_status_of p = PayCaptured \<longrightarrow> settled d p"
  shows "money_except {} d \<and> (\<forall>p \<in> set (t_payments d). pay_order p = i \<and> pay_status_of p = PayCaptured \<longrightarrow> settled d p)"
  using assms unfolding money_except_def by auto

subsection \<open>Single statements\<close>

lemma snd_exec_rel:
  assumes "\<And>t d. R d (snd (st t d))" and "\<And>d. R d d"
  shows "R (w_db w) (w_db (snd (exec E st w)))"
proof -
  obtain r d where st: "st (now E w) (w_db w) = (r, d)" by (meson surj_pair)
  then have "R (w_db w) d" using assms(1) by (metis snd_conv)
  with st assms(2) show ?thesis by (simp add: exec_def split: fate.split)
qed

lemma snd_exec_field: "(\<And>t d. f (snd (st t d)) = f d) \<Longrightarrow> f (w_db (snd (exec E st w))) = f (w_db w)"
  using snd_exec_rel [of "\<lambda>a b. f b = f a" st w E] by simp

lemma exec_field: "exec E st w = (r, w') \<Longrightarrow> (\<And>t d. f (snd (st t d)) = f d) \<Longrightarrow> f (w_db w') = f (w_db w)"
  using snd_exec_field [of f st E w] by simp

lemma saga_step_tables [simp]:
  "t_orders (w_db (markStep E i s st e w)) = t_orders (w_db w)"
  "t_payments (w_db (markStep E i s st e w)) = t_payments (w_db w)"
  "t_refunds (w_db (markStep E i s st e w)) = t_refunds (w_db w)"
  "t_payments (w_db (setStatus E i os w)) = t_payments (w_db w)"
  "t_refunds (w_db (setStatus E i os w)) = t_refunds (w_db w)"
  "t_payments (w_db (failOrder E i c dt w)) = t_payments (w_db w)"
  "t_refunds (w_db (failOrder E i c dt w)) = t_refunds (w_db w)"
  unfolding markStep_def setStatus_def failOrder_def
  by (rule snd_exec_field [of t_orders] snd_exec_field [of t_payments] snd_exec_field [of t_refunds],
      simp add: q_UpdateSagaStep_def q_UpdateOrderStatus_def q_FailOrder_def)+

lemma setStatus_orders:
  "fate_of E (w_calls w) = Done \<Longrightarrow> t_orders (w_db (setStatus E i os w))
     = update_where (\<lambda>r. ord_id r = i) (\<lambda>r. r\<lparr>ord_status := os, ord_updated := now E w\<rparr>) (t_orders (w_db w))"
  by (simp add: setStatus_def exec_Done q_UpdateOrderStatus_def)

lemma failOrder_orders:
  "fate_of E (w_calls w) = Done \<Longrightarrow> t_orders (w_db (failOrder E i c dt w))
     = update_where (\<lambda>r. ord_id r = i)
         (\<lambda>r. r\<lparr>ord_status := Failed, ord_failure_code := toPgText c, ord_failure_detail := toPgText dt,
               ord_updated := now E w\<rparr>) (t_orders (w_db w))"
  by (simp add: failOrder_def exec_Done q_FailOrder_def)

lemma failOrder_status:
  "fate_of E (w_calls w) = Done \<Longrightarrow> x \<in> set (t_orders (w_db (failOrder E i c dt w))) \<Longrightarrow> ord_id x = i \<Longrightarrow>
   ord_status x = Failed"
  unfolding failOrder_orders by (erule (1) updated_row [rotated 2]) simp_all

lemma setStatus_status:
  "fate_of E (w_calls w) = Done \<Longrightarrow> x \<in> set (t_orders (w_db (setStatus E i os w))) \<Longrightarrow> ord_id x = i \<Longrightarrow>
   ord_status x = os"
  unfolding setStatus_orders by (erule (1) updated_row [rotated 2]) simp_all

lemma filter_update_where:
  assumes "\<And>r. P r \<Longrightarrow> \<not> Q r \<and> \<not> Q (f r)"
  shows "filter Q (update_where P f rows) = filter Q rows"
  by (induction rows) (simp_all add: assms)

lemma touches_exec: "(\<And>t d. touches i d (snd (st t d))) \<Longrightarrow> touches i (w_db w) (w_db (snd (exec E st w)))"
  by (rule snd_exec_rel) simp_all

lemma touches_order_update:
  assumes "\<And>r. ord_id (f r) = ord_id r"
  shows "touches i d (d\<lparr>t_orders := update_where (\<lambda>r. ord_id r = i) f (t_orders d)\<rparr>)"
proof -
  have "filter (\<lambda>r. ord_id r \<noteq> i) (update_where (\<lambda>r. ord_id r = i) f (t_orders d)) = filter (\<lambda>r. ord_id r \<noteq> i) (t_orders d)"
    by (rule filter_update_where) (simp add: assms)
  moreover have "map ord_id (update_where (\<lambda>r. ord_id r = i) f (t_orders d)) = map ord_id (t_orders d)"
    by (rule map_update_where) (rule assms)
  ultimately show ?thesis by (simp add: touches_def)
qed

lemma step_touches [simp, intro]:
  "touches i (w_db w) (w_db (markStep E j s st e w))"
  "touches i (w_db w) (w_db (setStatus E i os w))"
  "touches i (w_db w) (w_db (failOrder E i c dt w))"
  "touches i (w_db w) (w_db (snd (exec E (q_ReallocateOrder i h ss) w)))"
proof -
  show "touches i (w_db w) (w_db (markStep E j s st e w))"
    unfolding markStep_def by (rule touches_exec) (simp add: q_UpdateSagaStep_def touches_def)
  show "touches i (w_db w) (w_db (setStatus E i os w))"
    unfolding setStatus_def by (rule touches_exec) (simp add: q_UpdateOrderStatus_def touches_order_update)
  show "touches i (w_db w) (w_db (failOrder E i c dt w))"
    unfolding failOrder_def by (rule touches_exec) (simp add: q_FailOrder_def touches_order_update)
  show "touches i (w_db w) (w_db (snd (exec E (q_ReallocateOrder i h ss) w)))"
    by (rule touches_exec) (simp add: q_ReallocateOrder_def touches_order_update)
qed

subsection \<open>The payment of the order\<close>

abbreviation all_done :: "env \<Rightarrow> bool" where
  "all_done E \<equiv> \<forall>k. fate_of E k = Done"

text \<open>The order's payments are one row, with the identifier and the status of \<open>p\<close>.\<close>

definition own_payment :: "db \<Rightarrow> uuid \<Rightarrow> payment_row \<Rightarrow> bool" where
  "own_payment d i p \<longleftrightarrow>
     (\<exists>x \<in> set (t_payments d). pay_order x = i)
   \<and> (\<forall>x \<in> set (t_payments d). (pay_order x = i \<longleftrightarrow> pay_id x = pay_id p)
        \<and> (pay_order x = i \<longrightarrow> pay_status_of x = pay_status_of p))"

definition saga_key :: "env \<Rightarrow> order_row \<Rightarrow> string" where
  "saga_key E r = chargeIdempotencyKey E (ord_user r) (ord_id r) (ord_hold r)"

text \<open>
  The key is stable: the payments of the order are those under the key this run derives.
\<close>

definition stable_key :: "env \<Rightarrow> order_row \<Rightarrow> db \<Rightarrow> bool" where
  "stable_key E r d \<longleftrightarrow> (\<forall>x \<in> set (t_payments d). pay_order x = ord_id r \<longleftrightarrow> pay_key x = saga_key E r)"

definition payments_wf :: "db \<Rightarrow> bool" where
  "payments_wf d \<longleftrightarrow> distinct (map pay_id (t_payments d)) \<and> distinct (map pay_key (t_payments d))"

lemma insert_payment_touches: "touches i d (snd (q_InsertPayment j i k a t d))"
  by (simp add: q_InsertPayment_def Let_def touches_def)

lemma saga_payment_own:
  assumes run: "saga_payment E r w = (Inr p, w')" and fates: "all_done E"
    and wf: "payments_wf (w_db w)" and key: "stable_key E r (w_db w)"
  shows "own_payment (w_db w') (ord_id r) p \<and> t_orders (w_db w') = t_orders (w_db w)
    \<and> t_refunds (w_db w') = t_refunds (w_db w) \<and> touches (ord_id r) (w_db w) (w_db w')"
proof (cases "saga_key E r \<in> pay_key ` set (t_payments (w_db w))")
  case False
  then have none: "\<forall>x \<in> set (t_payments (w_db w)). pay_order x \<noteq> ord_id r"
    using key False unfolding stable_key_def by (metis image_eqI)
  let ?i = "uuid_at E (w_calls w)"
  have ok: "?i \<notin> pay_id ` set (t_payments (w_db w)) \<and> ord_id r \<in> ord_id ` set (t_orders (w_db w))"
    using run fates False
    by (auto simp: saga_payment_def new_uuid_def Let_def exec_Done q_InsertPayment_def
        q_GetPaymentByIdempotencyKey_def saga_key_def [symmetric] filter_empty_conv image_iff
        split: if_splits list.splits dest: filter_eq_ConsD)
  then have "pay_order p = ord_id r" "pay_id p = ?i" "t_payments (w_db w') = t_payments (w_db w) @ [p]"
      "t_orders (w_db w') = t_orders (w_db w)" "t_refunds (w_db w') = t_refunds (w_db w)"
    using run fates False
    by (auto simp: saga_payment_def new_uuid_def Let_def exec_Done q_InsertPayment_def saga_key_def [symmetric])
  moreover have "\<forall>x \<in> set (t_payments (w_db w)). pay_id x \<noteq> ?i" using ok by (metis image_eqI)
  ultimately show ?thesis using none by (auto simp: own_payment_def touches_def)
next
  case True
  then have "q_InsertPayment (uuid_at E (w_calls w)) (ord_id r) (saga_key E r) (ord_amount r) t (w_db w) = (Inl NoRows, w_db w)" for t
    by (simp add: q_InsertPayment_def)
  then have g: "hd (filter (\<lambda>x. pay_key x = saga_key E r) (t_payments (w_db w))) = p
      \<and> filter (\<lambda>x. pay_key x = saga_key E r) (t_payments (w_db w)) \<noteq> [] \<and> w_db w' = w_db w"
    using run fates
    by (auto simp: saga_payment_def new_uuid_def Let_def exec_Done saga_key_def [symmetric]
        q_GetPaymentByIdempotencyKey_def split: list.splits)
  then have "p \<in> set (filter (\<lambda>x. pay_key x = saga_key E r) (t_payments (w_db w)))" by (metis hd_in_set)
  then have p: "p \<in> set (t_payments (w_db w))" "pay_key p = saga_key E r" by auto
  have "x = p" if "x \<in> set (t_payments (w_db w))" "pay_key x = saga_key E r" for x
    using unique_key_row [of pay_key] wf p that unfolding payments_wf_def by metis
  moreover have "x = p" if "x \<in> set (t_payments (w_db w))" "pay_id x = pay_id p" for x
    using unique_key_row [of pay_id] wf p that unfolding payments_wf_def by metis
  ultimately have "own_payment (w_db w') (ord_id r) p"
    using key p g unfolding own_payment_def stable_key_def by metis
  with g show ?thesis by simp
qed

lemma saga_charge_own:
  assumes run: "saga_charge E G r p w = (Inr p', w')" and fates: "all_done E" and pay: "sg_pay G = fake draw"
    and own: "own_payment (w_db w) (ord_id r) p"
  shows "own_payment (w_db w') (ord_id r) p' \<and> t_orders (w_db w') = t_orders (w_db w)
    \<and> t_refunds (w_db w') = t_refunds (w_db w) \<and> touches (ord_id r) (w_db w) (w_db w') \<and> pay_id p' = pay_id p"
proof (cases "pay_status_of p = PayPending")
  case False
  with run own show ?thesis by (simp add: saga_charge_def)
next
  case True
  obtain c w1 where c: "call_charge (fake draw) (saga_key E r) (ord_amount r) w = (c, w1)" by (meson surj_pair)
  then obtain cr where cr: "c = Inr cr" by (auto simp: call_charge_def Charge_def split: if_splits)
  have d1: "w_db w1 = w_db w" using call_charge_frame [OF c] by simp
  let ?st = "stored_status (cr_status cr)"
  have p': "p' = p\<lparr>pay_status_of := ?st\<rparr>"
    and w': "w' = snd (exec E (q_UpdatePaymentStatus (pay_id p) ?st (toPgText (cr_ref cr)) None) w1)"
    using run True c cr pay by (auto simp: saga_charge_def saga_key_def Let_def)
  let ?f = "\<lambda>x. x\<lparr>pay_status_of := ?st, pay_ref := toPgText (cr_ref cr), pay_error := None,
                   pay_attempts := pay_attempts x + 1, pay_updated := now E w1\<rparr>"
  have pays: "t_payments (w_db w') = update_where (\<lambda>x. pay_id x = pay_id p) ?f (t_payments (w_db w))"
    using fates w' d1 by (simp add: exec_Done q_UpdatePaymentStatus_def)
  have rest: "t_orders (w_db w') = t_orders (w_db w)" "t_refunds (w_db w') = t_refunds (w_db w)"
    using fates w' d1 by (simp_all add: exec_Done q_UpdatePaymentStatus_def)
  have eq: "pay_order x = ord_id r \<longleftrightarrow> pay_id x = pay_id p" if "x \<in> set (t_payments (w_db w))" for x
    using own that by (simp add: own_payment_def)
  have "own_payment (w_db w') (ord_id r) p'"
    unfolding own_payment_def
  proof (intro conjI ballI)
    obtain y where "y \<in> set (t_payments (w_db w))" "pay_order y = ord_id r" using own by (auto simp: own_payment_def)
    then have "?f y \<in> set (t_payments (w_db w'))" using eq by (auto simp: pays set_update_where)
    then show "\<exists>x \<in> set (t_payments (w_db w')). pay_order x = ord_id r"
      by (rule rev_bexI) (simp add: \<open>pay_order y = ord_id r\<close>)
  next
    fix x assume "x \<in> set (t_payments (w_db w'))"
    then obtain y where y: "y \<in> set (t_payments (w_db w))" "x = (if pay_id y = pay_id p then ?f y else y)"
      by (auto simp: pays set_update_where)
    show "(pay_order x = ord_id r) = (pay_id x = pay_id p')" using eq [OF y(1)] y(2) p' by simp
    show "pay_order x = ord_id r \<longrightarrow> pay_status_of x = pay_status_of p'" using eq [OF y(1)] y(2) p' by simp
  qed
  moreover have "filter (\<lambda>x. pay_order x \<noteq> ord_id r) (t_payments (w_db w')) = filter (\<lambda>x. pay_order x \<noteq> ord_id r) (t_payments (w_db w))"
  proof -
    have "filter (\<lambda>x. pay_order x \<noteq> ord_id r) (update_where (\<lambda>x. pay_id x = pay_id p) ?f ps)
        = filter (\<lambda>x. pay_order x \<noteq> ord_id r) ps" if "set ps \<subseteq> set (t_payments (w_db w))" for ps
      using that eq by (induction ps) auto
    then show ?thesis using pays by simp
  qed
  ultimately show ?thesis using rest p' by (simp add: touches_def)
qed

subsection \<open>After the charge\<close>

definition own_money :: "db \<Rightarrow> uuid \<Rightarrow> bool" where
  "own_money d i \<longleftrightarrow>
     (\<forall>r \<in> set (t_orders d). ord_id r = i \<and> sold r \<longrightarrow> paid d i)
   \<and> (\<forall>q \<in> set (t_payments d). pay_order q = i \<and> pay_status_of q = PayCaptured \<longrightarrow> settled d q)"

lemma own_payment_sales: "t_payments d' = t_payments d \<Longrightarrow> own_payment d' i p = own_payment d i p"
  by (simp add: own_payment_def)

lemma issueTickets_sales_tables:
  "t_orders (w_db (issueTickets E G ev i w)) = t_orders (w_db w)
   \<and> t_payments (w_db (issueTickets E G ev i w)) = t_payments (w_db w)
   \<and> t_refunds (w_db (issueTickets E G ev i w)) = t_refunds (w_db w)"
proof -
  have seats: "issue_seats E T ev i ss tks v = (r, v') \<Longrightarrow>
      t_orders (w_db v') = t_orders (w_db v) \<and> t_payments (w_db v') = t_payments (w_db v)
    \<and> t_refunds (w_db v') = t_refunds (w_db v)" for T ss tks v r v'
  proof (induction ss arbitrary: tks v)
    case Nil
    then show ?case by simp
  next
    case (Cons s ss)
    let ?i = "uuid_at E (w_calls v)"
    let ?tok = "encodeQR E (tg_signer T) \<lparr>TicketID = ?i, OrderID = i, EventID = ev, SeatID = s\<rparr>"
    show ?case
    proof (cases "tg_render T ?tok")
      case (Inl e)
      with Cons.prems show ?thesis by (auto simp: new_uuid_def Let_def)
    next
      case (Inr png)
      obtain rp w2 where p: "PutObject E (tg_bucket T) (ticket_key E ?i) png (tick v) = (rp, w2)" by (meson surj_pair)
      obtain rt w3 where t: "exec E (q_InsertTicket ?i i ev s (ticket_key E ?i)) w2 = (rt, w3)" by (meson surj_pair)
      have "t_orders (w_db w3) = t_orders (w_db v)" "t_payments (w_db w3) = t_payments (w_db v)"
           "t_refunds (w_db w3) = t_refunds (w_db v)"
        using PutObject_frame [OF p] exec_field [OF t, of t_orders] exec_field [OF t, of t_payments]
          exec_field [OF t, of t_refunds] by (simp_all add: q_InsertTicket_def Let_def)
      then show ?thesis
        using Cons.prems Cons.IH [of _ w3] PutObject_frame [OF p] Inr p t
        by (auto simp: new_uuid_def Let_def split: sum.splits)
    qed
  qed
  show ?thesis
  proof (cases "sg_tickets G")
    case None
    then show ?thesis by (simp add: issueTickets_def)
  next
    case (Some T)
    obtain rx wx where x: "exec E (q_ListSeatIDsForOrder ev i) w = (rx, wx)" by (meson surj_pair)
    have "sales (w_db wx) = sales (w_db w)" by (rule exec_sales [OF _ x]) simp
    note dx = sales_tables [OF this]
    obtain ri wi where i: "IssueTicketsForOrder E T ev i w = (ri, wi)" by (meson surj_pair)
    have "t_orders (w_db wi) = t_orders (w_db w) \<and> t_payments (w_db wi) = t_payments (w_db w)
        \<and> t_refunds (w_db wi) = t_refunds (w_db w)"
      using i x dx by (auto simp: IssueTicketsForOrder_def split: sum.splits dest!: seats)
    with i Some show ?thesis by (simp add: issueTickets_def)
  qed
qed

lemma finish_tickets_money:
  assumes fates: "all_done E" and own: "own_payment (w_db w) (ord_id r) p" and cap: "pay_status_of p = PayCaptured"
    and ex: "ord_id r \<in> ord_id ` set (t_orders (w_db w))"
  shows "own_money (w_db (finish_tickets E G r w)) (ord_id r) \<and> touches (ord_id r) (w_db w) (w_db (finish_tickets E G r w))"
proof -
  let ?w1 = "markStep E (ord_id r) IssueTicketStep StepDone [] (issueTickets E G (ord_event r) (ord_id r) w)"
  let ?w' = "finish_tickets E G r w"
  have w': "?w' = setStatus E (ord_id r) Ticketed ?w1" by (simp add: finish_tickets_def)
  have t1: "t_orders (w_db ?w1) = t_orders (w_db w)" "t_payments (w_db ?w1) = t_payments (w_db w)"
      "t_refunds (w_db ?w1) = t_refunds (w_db w)"
    using issueTickets_sales_tables [of E G "ord_event r" "ord_id r" w] by simp_all
  have pays: "t_payments (w_db ?w') = t_payments (w_db w)" using w' t1 by simp
  have "touches (ord_id r) (w_db w) (w_db ?w1)" using t1 by (simp add: touches_def)
  then have tch: "touches (ord_id r) (w_db w) (w_db ?w')" unfolding w' by (rule touches_trans) (rule step_touches(2))
  have st: "\<forall>x \<in> set (t_orders (w_db ?w')). ord_id x = ord_id r \<longrightarrow> ord_status x = Ticketed"
    using setStatus_status [of E ?w1] fates w' by auto
  have "ord_id r \<in> ord_id ` set (t_orders (w_db ?w'))"
    using tch ex unfolding touches_def by (metis list.set_map)
  then obtain x where x: "x \<in> set (t_orders (w_db ?w'))" "ord_id x = ord_id r" by auto
  have "paid (w_db ?w') (ord_id r)" using own cap pays by (auto simp: own_payment_def paid_def)
  moreover have "settled (w_db ?w') q" if "pay_order q = ord_id r" for q
    using x st that by (auto simp: settled_def sold_def)
  ultimately show ?thesis using tch by (auto simp: own_money_def)
qed

lemma refund_order_money:
  assumes run: "refund_order E G r p cause w = (Inr (), w')" and fates: "all_done E"
    and own: "own_payment (w_db w) (ord_id r) p" and fresh: "\<forall>k. uuid_at E k \<notin> rf_id ` set (t_refunds (w_db w))"
  shows "own_money (w_db w') (ord_id r) \<and> touches (ord_id r) (w_db w) (w_db w')"
proof -
  obtain c w1 where c: "call_refund (sg_pay G) (pg_string (pay_ref p)) (pay_amount p) w = (c, w1)" by (meson surj_pair)
  obtain ref where ref: "c = Inr ref" using run c by (cases c) (auto simp: refund_order_def)
  have d1: "w_db w1 = w_db w" using call_refund_frame [OF c] by simp
  let ?i = "uuid_at E (w_calls w1)"
  let ?st = "q_InsertRefund ?i (pay_id p) (toPgText ref) (pay_amount p) RefundCompleted"
  let ?w3 = "snd (exec E ?st (tick w1))"
  let ?w4 = "markStep E (ord_id r) ConfirmStep StepCompensated (''refunded after: '' @ error_text E cause) ?w3"
  have w': "w' = setStatus E (ord_id r) Compensated ?w4"
    using run c ref by (auto simp: refund_order_def new_uuid_def Let_def)
  let ?row = "\<lparr>rf_id = ?i, rf_payment = pay_id p, rf_ref = toPgText ref, rf_amount = pay_amount p, rf_status = RefundCompleted\<rparr>"
  have "pay_id p \<in> pay_id ` set (t_payments (w_db w))" using own unfolding own_payment_def by (metis image_eqI)
  then have t3: "t_refunds (w_db ?w3) = t_refunds (w_db w) @ [?row]" "t_orders (w_db ?w3) = t_orders (w_db w)"
      "t_payments (w_db ?w3) = t_payments (w_db w)"
    using fates fresh d1 by (simp_all add: exec_Done q_InsertRefund_def Let_def)
  have "touches (ord_id r) (w_db w) (w_db ?w4)" using t3 by (simp add: touches_def subset_insertI)
  then have tch: "touches (ord_id r) (w_db w) (w_db w')" unfolding w' by (rule touches_trans) (rule step_touches(2))
  have st: "\<forall>x \<in> set (t_orders (w_db w')). ord_id x = ord_id r \<longrightarrow> ord_status x = Compensated"
    using setStatus_status [of E ?w4] fates w' by auto
  have "?row \<in> set (t_refunds (w_db w'))" using w' t3 by simp
  then have "settled (w_db w') q" if "pay_id q = pay_id p" for q
    using that unfolding settled_def by (intro disjI2 bexI [of _ ?row]) simp_all
  moreover have "t_payments (w_db w') = t_payments (w_db w)" using w' t3 by simp
  ultimately have "own_money (w_db w') (ord_id r)"
    using own st unfolding own_money_def own_payment_def sold_def by fastforce
  with tch show ?thesis by blast
qed

lemma touches_exists: "touches i d d' \<Longrightarrow> i \<in> ord_id ` set (t_orders d) \<Longrightarrow> i \<in> ord_id ` set (t_orders d')"
  unfolding touches_def by (metis list.set_map)

lemma compensate_money:
  assumes run: "compensate E G r p cause w = (Inr (), w')" and fates: "all_done E"
    and own: "own_payment (w_db w) (ord_id r) p" and cap: "pay_status_of p = PayCaptured"
    and ex: "ord_id r \<in> ord_id ` set (t_orders (w_db w))"
    and fresh: "\<forall>k. uuid_at E k \<notin> rf_id ` set (t_refunds (w_db w))"
  shows "own_money (w_db w') (ord_id r) \<and> touches (ord_id r) (w_db w) (w_db w')"
  using run
proof (cases rule: compensate_cases)
  case (no_hold e w1)
  have s1: "sales (w_db w1) = sales (w_db w)" by (rule BestAvailable_sales [OF no_hold(1)])
  have own1: "own_payment (w_db w1) (ord_id r) p" using own own_payment_sales [of "w_db w1" "w_db w"] sales_tables [OF s1] by simp
  have fr1: "\<forall>k. uuid_at E k \<notin> rf_id ` set (t_refunds (w_db w1))" using fresh sales_tables [OF s1] by simp
  show ?thesis using refund_order_money [OF no_hold(2) fates own1 fr1] touches_trans [OF touches_sales [OF s1]] by blast
next
  case (moved nh w1 w2)
  let ?w3 = "snd (exec E (q_ReallocateOrder (ord_id r) (h_id nh) (sorted_ids nh)) w2)"
  let ?w5 = "markStep E (ord_id r) ConfirmStep StepCompensated (''reallocated after: '' @ error_text E cause)
               (setStatus E (ord_id r) Confirmed ?w3)"
  have s2: "sales (w_db w2) = sales (w_db w)"
    using BestAvailable_sales [OF moved(1)] ConfirmSeats_sales [OF moved(2)] by simp
  have pays: "t_payments (w_db ?w5) = t_payments (w_db w)"
    using sales_tables [OF s2] snd_exec_field [of t_payments "q_ReallocateOrder (ord_id r) (h_id nh) (sorted_ids nh)" E w2]
    by (simp add: q_ReallocateOrder_def)
  have t5: "touches (ord_id r) (w_db w) (w_db ?w5)"
    using touches_trans [OF touches_trans [OF touches_sales [OF s2] step_touches(4)]
      touches_trans [OF step_touches(2) step_touches(1)]] .
  have own5: "own_payment (w_db ?w5) (ord_id r) p" using own own_payment_sales [OF pays] by simp
  from finish_tickets_money [OF fates own5 cap touches_exists [OF t5 ex]] moved(4) touches_trans [OF t5]
  show ?thesis by simp
next
  case (released nh w1 e w2)
  let ?rel = "ReleaseHold E (sg_inv G) (ord_event r) (sorted_ids nh) (h_id nh) (ord_user r) w2"
  have s2: "sales (w_db (snd ?rel)) = sales (w_db w)"
    using BestAvailable_sales [OF released(1)] ConfirmSeats_sales [OF released(2)]
      ReleaseHold_sales [OF prod.collapse [symmetric]] by metis
  have own2: "own_payment (w_db (snd ?rel)) (ord_id r) p"
    using own own_payment_sales [of "w_db (snd ?rel)" "w_db w"] sales_tables [OF s2] by simp
  have fr2: "\<forall>k. uuid_at E k \<notin> rf_id ` set (t_refunds (w_db (snd ?rel)))" using fresh sales_tables [OF s2] by simp
  show ?thesis using refund_order_money [OF released(3) fates own2 fr2] touches_trans [OF touches_sales [OF s2]] by blast
qed simp

lemma saga_confirm_money:
  assumes run: "saga_confirm E G r p w = (Inr (), w')" and fates: "all_done E"
    and own: "own_payment (w_db w) (ord_id r) p" and cap: "pay_status_of p = PayCaptured"
    and ex: "ord_id r \<in> ord_id ` set (t_orders (w_db w))"
    and fresh: "\<forall>k. uuid_at E k \<notin> rf_id ` set (t_refunds (w_db w))"
  shows "own_money (w_db w') (ord_id r) \<and> touches (ord_id r) (w_db w) (w_db w')"
proof -
  let ?w0 = "setStatus E (ord_id r) Confirming w"
  obtain rf w1 where f: "currentFences E (ord_seats r) (ord_hold r) ?w0 = (rf, w1)" by (meson surj_pair)
  have s1: "sales (w_db w1) = sales (w_db ?w0)" using currentFences_frame [OF f] by simp
  obtain fences where fe: "rf = Inr fences" using run f by (cases rf) (auto simp: saga_confirm_def)
  obtain rc w2 where c: "ConfirmSeats E (ord_event r) (ord_seats r) fences (ord_hold r) (ord_id r) w1 = (rc, w2)"
    by (meson surj_pair)
  have s2: "sales (w_db w2) = sales (w_db ?w0)" using s1 ConfirmSeats_sales [OF c] by simp
  have t2: "touches (ord_id r) (w_db w) (w_db w2)" using touches_trans [OF step_touches(2) touches_sales [OF s2]] .
  have own2: "own_payment (w_db w2) (ord_id r) p" using own own_payment_sales [of "w_db w2" "w_db w"] sales_tables [OF s2] by simp
  have fr2: "\<forall>k. uuid_at E k \<notin> rf_id ` set (t_refunds (w_db w2))" using fresh sales_tables [OF s2] by simp
  note ex2 = touches_exists [OF t2 ex]
  show ?thesis
  proof (cases rc)
    case (Inl e)
    then have "compensate E G r p e w2 = (Inr (), w')" using run f fe c by (simp add: saga_confirm_def)
    from compensate_money [OF this fates own2 cap ex2 fr2] touches_trans [OF t2] show ?thesis by blast
  next
    case (Inr u)
    let ?w4 = "setStatus E (ord_id r) Confirmed (markStep E (ord_id r) ConfirmStep StepDone [] w2)"
    have w': "w' = finish_tickets E G r ?w4" using run f fe c Inr by (simp add: saga_confirm_def)
    have t4: "touches (ord_id r) (w_db w) (w_db ?w4)"
      using touches_trans [OF t2 touches_trans [OF step_touches(1) step_touches(2)]] .
    have "own_payment (w_db ?w4) (ord_id r) p" using own2 own_payment_sales [of "w_db ?w4" "w_db w2"] by simp
    from finish_tickets_money [OF fates this cap touches_exists [OF t4 ex]] w' touches_trans [OF t4] show ?thesis by simp
  qed
qed

lemma after_charge_money:
  assumes run: "after_charge E G r p w = (Inr (), w')" and fates: "all_done E"
    and own: "own_payment (w_db w) (ord_id r) p"
    and ex: "ord_id r \<in> ord_id ` set (t_orders (w_db w))"
    and unsold: "\<forall>x \<in> set (t_orders (w_db w)). ord_id x = ord_id r \<longrightarrow> \<not> sold x"
    and fresh: "\<forall>k. uuid_at E k \<notin> rf_id ` set (t_refunds (w_db w))"
  shows "own_money (w_db w') (ord_id r) \<and> touches (ord_id r) (w_db w) (w_db w')"
proof (cases "pay_status_of p")
  case PayPending
  with run own unsold show ?thesis by (auto simp: after_charge_def own_money_def own_payment_def)
next
  case PayUnknown
  with run own unsold show ?thesis by (auto simp: after_charge_def own_money_def own_payment_def)
next
  case PayFailed
  let ?w1 = "markStep E (ord_id r) ChargeStep StepFailed ''payment declined'' w"
  have w': "w' = failOrder E (ord_id r) ''payment_declined'' ''payment provider declined the charge'' ?w1"
    using run PayFailed by (simp add: after_charge_def)
  have "touches (ord_id r) (w_db w) (w_db w')" using w' touches_trans [OF step_touches(1) step_touches(3)] by simp
  moreover have "\<forall>x \<in> set (t_orders (w_db w')). ord_id x = ord_id r \<longrightarrow> ord_status x = Failed"
    using failOrder_status [of E ?w1] fates w' by auto
  moreover have "t_payments (w_db w') = t_payments (w_db w)" using w' by simp
  ultimately show ?thesis using own PayFailed by (auto simp: own_money_def own_payment_def sold_def)
next
  case PayCaptured
  let ?w1 = "markStep E (ord_id r) ChargeStep StepDone [] w"
  have "saga_confirm E G r p ?w1 = (Inr (), w')" using run PayCaptured by (simp add: after_charge_def)
  moreover have "own_payment (w_db ?w1) (ord_id r) p" using own own_payment_sales [of "w_db ?w1" "w_db w"] by simp
  ultimately have "own_money (w_db w') (ord_id r) \<and> touches (ord_id r) (w_db ?w1) (w_db w')"
    by (rule saga_confirm_money [OF _ fates _ PayCaptured]) (simp_all add: ex fresh)
  then show ?thesis using touches_trans [OF step_touches(1)] by blast
qed

subsection \<open>The whole run\<close>

lemma saga_extend_tables:
  assumes "saga_extend E G r w = (go, w')"
  shows "t_payments (w_db w') = t_payments (w_db w) \<and> t_refunds (w_db w') = t_refunds (w_db w)
    \<and> touches (ord_id r) (w_db w) (w_db w')"
proof (cases "ord_status r = Pending")
  case False
  with assms show ?thesis by (simp add: saga_extend_def)
next
  case True
  let ?w0 = "setStatus E (ord_id r) Authorizing w"
  obtain rx wx where x: "ExtendHold E (ord_event r) (ord_seats r) (ord_hold r) extendBuffer ?w0 = (rx, wx)"
    by (meson surj_pair)
  note sx = ExtendHold_sales [OF x]
  have tx: "touches (ord_id r) (w_db w) (w_db wx)" using touches_trans [OF step_touches(2) touches_sales [OF sx]] .
  have px: "t_payments (w_db wx) = t_payments (w_db w)" "t_refunds (w_db wx) = t_refunds (w_db w)"
    using sales_tables [OF sx] by simp_all
  show ?thesis
  proof (cases rx)
    case (Inl e)
    let ?w1 = "markStep E (ord_id r) ExtendHoldStep StepFailed (error_text E e) wx"
    have "w' = failOrder E (ord_id r) ''hold_expired'' ''hold expired before payment could be authorized'' ?w1"
      using assms True x Inl by (simp add: saga_extend_def)
    moreover have "touches (ord_id r) (w_db w) (w_db (failOrder E (ord_id r) c dt ?w1))" for c dt
      using touches_trans [OF tx touches_trans [OF step_touches(1) step_touches(3)]] .
    ultimately show ?thesis using px by simp
  next
    case (Inr n)
    then have "w' = markStep E (ord_id r) ExtendHoldStep StepDone [] wx" using assms True x by (simp add: saga_extend_def)
    then show ?thesis using px touches_trans [OF tx step_touches(1)] by simp
  qed
qed

lemma saga_extend_stopped:
  assumes "saga_extend E G r w = (False, w')" and "all_done E" and "x \<in> set (t_orders (w_db w'))" and "ord_id x = ord_id r"
  shows "ord_status r = Pending \<and> ord_status x = Failed"
proof -
  let ?w0 = "setStatus E (ord_id r) Authorizing w"
  obtain rx wx where h: "ExtendHold E (ord_event r) (ord_seats r) (ord_hold r) extendBuffer ?w0 = (rx, wx)"
    by (meson surj_pair)
  obtain e where e: "ord_status r = Pending" "rx = Inl e"
    using assms(1) h by (cases rx) (auto simp: saga_extend_def split: if_splits)
  let ?w1 = "markStep E (ord_id r) ExtendHoldStep StepFailed (error_text E e) wx"
  have "w' = failOrder E (ord_id r) ''hold_expired'' ''hold expired before payment could be authorized'' ?w1"
    using assms(1) h e by (simp add: saga_extend_def)
  with assms(2,3,4) e(1) failOrder_status [of E ?w1 x] show ?thesis by simp
qed

lemma saga_extend_unsold:
  assumes "saga_extend E G r w = (True, w')" and "all_done E"
    and "\<forall>x \<in> set (t_orders (w_db w)). ord_id x = ord_id r \<longrightarrow> x = r"
    and "ord_status r \<in> {Pending, Authorizing, Confirming}"
    and "x \<in> set (t_orders (w_db w'))" and "ord_id x = ord_id r"
  shows "\<not> sold x"
proof (cases "ord_status r = Pending")
  case False
  with assms show ?thesis by (auto simp: saga_extend_def sold_def)
next
  case True
  let ?w0 = "setStatus E (ord_id r) Authorizing w"
  obtain rx wx where x: "ExtendHold E (ord_event r) (ord_seats r) (ord_hold r) extendBuffer ?w0 = (rx, wx)"
    by (meson surj_pair)
  have "t_orders (w_db w') = t_orders (w_db ?w0)"
    using assms(1) True x sales_tables [OF ExtendHold_sales [OF x]] by (auto simp: saga_extend_def split: sum.splits)
  then have "ord_status x = Authorizing" using setStatus_status [of E w x "ord_id r" Authorizing] assms(2,5,6) by simp
  then show ?thesis by (simp add: sold_def)
qed

lemma RunSaga_money:
  assumes run: "RunSaga E G i w = (Inr (), w')" and fates: "all_done E" and pay: "sg_pay G = fake draw"
    and r: "r \<in> set (t_orders (w_db w))" "ord_id r = i" and ids: "distinct (map ord_id (t_orders (w_db w)))"
    and wf: "payments_wf (w_db w)" and key: "stable_key E r (w_db w)"
    and fresh: "\<forall>k. uuid_at E k \<notin> rf_id ` set (t_refunds (w_db w))"
    and act: "ord_status r \<in> {Pending, Authorizing, Confirming}"
    and pend: "ord_status r = Pending \<longrightarrow> \<not> paid (w_db w) i"
  shows "own_money (w_db w') i \<and> touches i (w_db w) (w_db w')"
proof -
  have uniq: "\<forall>x \<in> set (t_orders (w_db w)). ord_id x = i \<longrightarrow> x = r"
    using unique_key_row [OF ids] r by blast
  have get: "rg = r \<and> w_db w1 = w_db w" if "exec E (q_GetOrder i) w = (Inr rg, w1)" for rg w1
  proof -
    have "filter (\<lambda>x. ord_id x = i) (t_orders (w_db w)) \<noteq> []" using r by (auto simp: filter_empty_conv)
    then have "hd (filter (\<lambda>x. ord_id x = i) (t_orders (w_db w))) \<in> set (filter (\<lambda>x. ord_id x = i) (t_orders (w_db w)))"
      by (rule hd_in_set)
    then show ?thesis using that fates uniq
      by (auto simp: exec_Done q_GetOrder_def split: list.splits)
  qed
  from run show ?thesis
  proof (cases rule: RunSaga_cases)
    case (idle rg)
    with get act show ?thesis by metis
  next
    case (lapsed rg w1)
    note g = get [OF lapsed(2)]
    note st = saga_extend_stopped [OF lapsed(3) fates]
    have "i \<in> ord_id ` set (t_orders (w_db w'))"
      using touches_exists [OF saga_extend_tables [OF lapsed(3), THEN conjunct2, THEN conjunct2]] r g by auto
    then have "ord_status r = Pending" using st g r by auto
    then show ?thesis using st saga_extend_tables [OF lapsed(3)] g pend r(2)
      by (auto simp: own_money_def sold_def paid_def)
  next
    case (charged rg w1 w2 p w3 p' w4)
    note g = get [OF charged(1)]
    have rg: "rg = r" and d1: "w_db w1 = w_db w" using g by auto
    note x = saga_extend_tables [OF charged(3)]
    have wf2: "payments_wf (w_db w2)" and key2: "stable_key E r (w_db w2)"
      using wf key x d1 by (simp_all add: payments_wf_def stable_key_def)
    note p = saga_payment_own [OF charged(4) [unfolded rg] fates wf2 key2]
    note c = saga_charge_own [OF charged(5) [unfolded rg] fates pay conjunct1 [OF p]]
    have t4: "touches i (w_db w) (w_db w4)"
      using touches_trans [OF touches_trans [of i "w_db w" "w_db w2" "w_db w3"]] x p c r(2) rg d1 by metis
    have ex: "ord_id r \<in> ord_id ` set (t_orders (w_db w4))" using touches_exists [OF t4] r by auto
    have un: "\<forall>x \<in> set (t_orders (w_db w4)). ord_id x = ord_id r \<longrightarrow> \<not> sold x"
      using saga_extend_unsold [OF charged(3) fates] uniq act rg d1 r(2) p c by simp
    have fr: "\<forall>k. uuid_at E k \<notin> rf_id ` set (t_refunds (w_db w4))" using fresh x p c d1 by simp
    from after_charge_money [OF charged(6) [unfolded rg] fates conjunct1 [OF c] ex un fr] touches_trans [OF t4] r(2)
    show ?thesis by simp
  qed auto
qed

end
