(* ===== verification/SagaClaims.thy ===== *)
theory SagaClaims
  imports SagaMoney HoldClaims
begin

section \<open>Properties of the saga\<close>

text \<open>
  What a run of the saga establishes, on an order of the sample event.
\<close>

subsection \<open>Concrete orders\<close>

definition pay_world :: "(unit, unit) world \<Rightarrow> (unit, fake_provider) world" where
  "pay_world w = \<lparr>w_db = w_db w, w_lock = (), w_pay = NewFakeProvider, w_objects = [], w_bus = [], w_calls = w_calls w\<rparr>"

definition sample_saga :: "(unit, fake_provider) saga" where
  "sample_saga = \<lparr>sg_inv = sample_service, sg_pay = fake (\<lambda>n i. 0), sg_tickets = None\<rparr>"

text \<open>The order 113 of the two held seats.\<close>

definition ordered_world :: "(unit, fake_provider) world" where
  "ordered_world = snd (CreateOrder sample_env 100 ''ann'' (pay_world held_world))"

text \<open>What a database call leaves alone.\<close>

definition same_outside :: "('l, 'p) world \<Rightarrow> ('l, 'p) world \<Rightarrow> bool" where
  "same_outside w w' \<longleftrightarrow> w_pay w' = w_pay w \<and> w_objects w' = w_objects w \<and> w_bus w' = w_bus w"

lemma same_outside_calls:
  "exec E st w = (r, w') \<Longrightarrow> same_outside w w'"
  "begin_tx E w = (rb, w') \<Longrightarrow> same_outside w w'"
  "exec_tx E st t w = (rt, w') \<Longrightarrow> same_outside w w'"
  "commit_tx E t w = (rc, w') \<Longrightarrow> same_outside w w'"
  by (auto simp: same_outside_def elim!: exec_cases begin_tx_cases exec_tx_cases commit_tx_cases)

lemma same_outside_steps:
  "create_steps E i ss t w = (r, w') \<Longrightarrow> same_outside w w'"
  "Publish E a ty p t' w = (r', w') \<Longrightarrow> same_outside w w'"
proof -
  show "create_steps E i ss t w = (r, w') \<Longrightarrow> same_outside w w'"
  proof (induction ss arbitrary: t w)
    case (Cons s ss)
    obtain rx wx where x: "exec_tx E (q_CreateSagaStep i s) t w = (rx, wx)" by (meson surj_pair)
    with Cons show ?case
      using same_outside_calls(3) [OF x] by (auto simp: same_outside_def split: sum.splits)
  qed (simp add: same_outside_def)
  show "Publish E a ty p t' w = (r', w') \<Longrightarrow> same_outside w w'"
    by (auto simp: Publish_def new_uuid_def Let_def same_outside_def split: sum.splits prod.splits
        dest!: same_outside_calls(3))
qed

lemma CreateOrder_outside: "CreateOrder E h user w = (r, w') \<Longrightarrow> same_outside w w'"
  by (auto simp: CreateOrder_def new_uuid_def Let_def same_outside_def split: sum.splits list.splits if_splits prod.splits
      dest!: same_outside_steps same_outside_calls)

lemma ordered_world_run: "CreateOrder sample_env 100 ''ann'' (pay_world held_world) = (Inr 113, ordered_world)"
proof -
  have "fst (CreateOrder sample_env 100 ''ann'' (pay_world held_world)) = Inr 113" by code_simp
  then show ?thesis by (simp add: ordered_world_def prod_eq_iff)
qed

lemma ordered_world_value [code]:
  "ordered_world =
   \<lparr>w_db =
    \<lparr>t_seats =
       [\<lparr>es_event = 1, es_seat = 11, es_ordinal = 0, es_status = 1,
           es_sellable = True, es_hold = Some 100,
           es_held_by = Some ''ann'', es_expires = Some 603000000,
           es_booking = None, es_price = 5000, es_hold_price = Some 5000,
           es_version = 1, es_fence = 1, es_updated = 3000000\<rparr>,
        \<lparr>es_event = 1, es_seat = 12, es_ordinal = 1, es_status = 1,
           es_sellable = True, es_hold = Some 100,
           es_held_by = Some ''ann'', es_expires = Some 603000000,
           es_booking = None, es_price = 5000, es_hold_price = Some 5000,
           es_version = 1, es_fence = 1, es_updated = 3000000\<rparr>,
        \<lparr>es_event = 1, es_seat = 13, es_ordinal = 2, es_status = 0,
           es_sellable = True, es_hold = None, es_held_by = None,
           es_expires = None, es_booking = None, es_price = 5000,
           es_hold_price = None, es_version = 0, es_fence = 0,
           es_updated = 0\<rparr>],
       t_audit =
         [\<lparr>ha_hold = 100, ha_event = 1, ha_seat = 11, ha_user = ''ann'',
             ha_outcome = ACQUIRED, ha_fence = Some 1,
             ha_expires = Some 603000000\<rparr>,
          \<lparr>ha_hold = 100, ha_event = 1, ha_seat = 12, ha_user = ''ann'',
             ha_outcome = ACQUIRED, ha_fence = Some 1,
             ha_expires = Some 603000000\<rparr>],
       t_outbox =
         [\<lparr>de_id = 105, de_aggregate = ''1:11'', de_type = SeatHeldEvent,
             de_schema = 1,
             de_payload =
               [(''eventId'', JInt 1), (''seatId'', JInt 11),
                (''seatOrdinal'', JInt 0), (''holdId'', JUuid 100),
                (''fenceToken'', JInt 1), (''expiresAt'', JTime 603000000)],
             de_published = None, de_created = 3000000, de_seq = 1\<rparr>,
          \<lparr>de_id = 107, de_aggregate = ''1:12'', de_type = SeatHeldEvent,
             de_schema = 1,
             de_payload =
               [(''eventId'', JInt 1), (''seatId'', JInt 12),
                (''seatOrdinal'', JInt 1), (''holdId'', JUuid 100),
                (''fenceToken'', JInt 1), (''expiresAt'', JTime 603000000)],
             de_published = None, de_created = 3000000, de_seq = 2\<rparr>,
          \<lparr>de_id = 120, de_aggregate = ''113'', de_type = OrderCreatedEvent,
             de_schema = 1,
             de_payload =
               [(''orderId'', JUuid 113), (''eventId'', JInt 1),
                (''amountCents'', JInt 10000)],
             de_published = None, de_created = 14000000, de_seq = 3\<rparr>],
       t_outbox_seq = 4, t_processed = [],
       t_orders =
         [\<lparr>ord_id = 113, ord_user = ''ann'', ord_event = 1, ord_hold = 100,
             ord_seats = [11, 12], ord_amount = 10000, ord_status = Pending,
             ord_reallocated = False, ord_failure_code = None,
             ord_failure_detail = None, ord_created = 14000000,
             ord_updated = 14000000\<rparr>],
       t_steps =
         [\<lparr>ss_order = 113, ss_step = ExtendHoldStep, ss_state = StepPending,
             ss_attempts = 0, ss_error = None\<rparr>,
          \<lparr>ss_order = 113, ss_step = ChargeStep, ss_state = StepPending,
             ss_attempts = 0, ss_error = None\<rparr>,
          \<lparr>ss_order = 113, ss_step = ConfirmStep, ss_state = StepPending,
             ss_attempts = 0, ss_error = None\<rparr>,
          \<lparr>ss_order = 113, ss_step = IssueTicketStep,
             ss_state = StepPending, ss_attempts = 0, ss_error = None\<rparr>],
       t_payments = [], t_refunds = [], t_tickets = [], t_reminders = [],
       t_events = [], t_sections = [], t_seat_rows = [],
       t_venue_seats =
         [\<lparr>st_id = 11, st_row = 5, st_label = [], st_x = 11, st_y = 0\<rparr>,
          \<lparr>st_id = 12, st_row = 5, st_label = [], st_x = 12, st_y = 0\<rparr>,
          \<lparr>st_id = 13, st_row = 5, st_label = [], st_x = 13, st_y = 0\<rparr>],
       t_ws = [], t_venues = [], t_tiers = [], t_room_audit = []\<rparr>,
    w_lock = (), w_pay = NewFakeProvider, w_objects = [], w_bus = [], w_calls = 23\<rparr>"
proof -
  have "w_db ordered_world =
    \<lparr>t_seats =
       [\<lparr>es_event = 1, es_seat = 11, es_ordinal = 0, es_status = 1,
           es_sellable = True, es_hold = Some 100,
           es_held_by = Some ''ann'', es_expires = Some 603000000,
           es_booking = None, es_price = 5000, es_hold_price = Some 5000,
           es_version = 1, es_fence = 1, es_updated = 3000000\<rparr>,
        \<lparr>es_event = 1, es_seat = 12, es_ordinal = 1, es_status = 1,
           es_sellable = True, es_hold = Some 100,
           es_held_by = Some ''ann'', es_expires = Some 603000000,
           es_booking = None, es_price = 5000, es_hold_price = Some 5000,
           es_version = 1, es_fence = 1, es_updated = 3000000\<rparr>,
        \<lparr>es_event = 1, es_seat = 13, es_ordinal = 2, es_status = 0,
           es_sellable = True, es_hold = None, es_held_by = None,
           es_expires = None, es_booking = None, es_price = 5000,
           es_hold_price = None, es_version = 0, es_fence = 0,
           es_updated = 0\<rparr>],
       t_audit =
         [\<lparr>ha_hold = 100, ha_event = 1, ha_seat = 11, ha_user = ''ann'',
             ha_outcome = ACQUIRED, ha_fence = Some 1,
             ha_expires = Some 603000000\<rparr>,
          \<lparr>ha_hold = 100, ha_event = 1, ha_seat = 12, ha_user = ''ann'',
             ha_outcome = ACQUIRED, ha_fence = Some 1,
             ha_expires = Some 603000000\<rparr>],
       t_outbox =
         [\<lparr>de_id = 105, de_aggregate = ''1:11'', de_type = SeatHeldEvent,
             de_schema = 1,
             de_payload =
               [(''eventId'', JInt 1), (''seatId'', JInt 11),
                (''seatOrdinal'', JInt 0), (''holdId'', JUuid 100),
                (''fenceToken'', JInt 1), (''expiresAt'', JTime 603000000)],
             de_published = None, de_created = 3000000, de_seq = 1\<rparr>,
          \<lparr>de_id = 107, de_aggregate = ''1:12'', de_type = SeatHeldEvent,
             de_schema = 1,
             de_payload =
               [(''eventId'', JInt 1), (''seatId'', JInt 12),
                (''seatOrdinal'', JInt 1), (''holdId'', JUuid 100),
                (''fenceToken'', JInt 1), (''expiresAt'', JTime 603000000)],
             de_published = None, de_created = 3000000, de_seq = 2\<rparr>,
          \<lparr>de_id = 120, de_aggregate = ''113'', de_type = OrderCreatedEvent,
             de_schema = 1,
             de_payload =
               [(''orderId'', JUuid 113), (''eventId'', JInt 1),
                (''amountCents'', JInt 10000)],
             de_published = None, de_created = 14000000, de_seq = 3\<rparr>],
       t_outbox_seq = 4, t_processed = [],
       t_orders =
         [\<lparr>ord_id = 113, ord_user = ''ann'', ord_event = 1, ord_hold = 100,
             ord_seats = [11, 12], ord_amount = 10000, ord_status = Pending,
             ord_reallocated = False, ord_failure_code = None,
             ord_failure_detail = None, ord_created = 14000000,
             ord_updated = 14000000\<rparr>],
       t_steps =
         [\<lparr>ss_order = 113, ss_step = ExtendHoldStep, ss_state = StepPending,
             ss_attempts = 0, ss_error = None\<rparr>,
          \<lparr>ss_order = 113, ss_step = ChargeStep, ss_state = StepPending,
             ss_attempts = 0, ss_error = None\<rparr>,
          \<lparr>ss_order = 113, ss_step = ConfirmStep, ss_state = StepPending,
             ss_attempts = 0, ss_error = None\<rparr>,
          \<lparr>ss_order = 113, ss_step = IssueTicketStep,
             ss_state = StepPending, ss_attempts = 0, ss_error = None\<rparr>],
       t_payments = [], t_refunds = [], t_tickets = [], t_reminders = [],
       t_events = [], t_sections = [], t_seat_rows = [],
       t_venue_seats =
         [\<lparr>st_id = 11, st_row = 5, st_label = [], st_x = 11, st_y = 0\<rparr>,
          \<lparr>st_id = 12, st_row = 5, st_label = [], st_x = 12, st_y = 0\<rparr>,
          \<lparr>st_id = 13, st_row = 5, st_label = [], st_x = 13, st_y = 0\<rparr>],
       t_ws = [], t_venues = [], t_tiers = [], t_room_audit = []\<rparr>"
    by code_simp
  moreover have "w_calls ordered_world = 23" by code_simp
  moreover have "w_pay ordered_world = NewFakeProvider \<and> w_objects ordered_world = [] \<and> w_bus ordered_world = []"
    using CreateOrder_outside [OF ordered_world_run] by (simp add: same_outside_def pay_world_def)
  ultimately show ?thesis by simp
qed

definition sample_order :: order_row where
  "sample_order = \<lparr>ord_id = 113, ord_user = ''ann'', ord_event = 1, ord_hold = 100, ord_seats = [11, 12],
     ord_amount = 10000, ord_status = Pending, ord_reallocated = False, ord_failure_code = None,
     ord_failure_detail = None, ord_created = 14000000, ord_updated = 14000000\<rparr>"

lemma ordered_world_sales:
  "t_orders (w_db ordered_world) = [sample_order]" "t_payments (w_db ordered_world) = []"
  "t_refunds (w_db ordered_world) = []"
  by code_simp+

text \<open>A run up to the decision on the charge, so that its parts can be evaluated one by one.\<close>

lemma RunSaga_charged:
  assumes "exec E (q_GetOrder i) w = (Inr r, w1)" and "ord_status r \<in> {Pending, Authorizing, Confirming}"
    and "saga_extend E G r w1 = (True, w2)" and "saga_payment E r w2 = (Inr p, w3)"
    and "saga_charge E G r p w3 = (Inr p', w4)"
  shows "RunSaga E G i w = after_charge E G r p' w4"
  using assms by (auto simp: RunSaga_def)

lemma after_charge_sold:
  assumes "pay_status_of p = PayCaptured"
    and "currentFences E (ord_seats r) (ord_hold r)
           (setStatus E (ord_id r) Confirming (markStep E (ord_id r) ChargeStep StepDone [] w)) = (Inr fences, w1)"
    and "ConfirmSeats E (ord_event r) (ord_seats r) fences (ord_hold r) (ord_id r) w1 = (Inr u, w2)"
  shows "after_charge E G r p w
    = (Inr (), finish_tickets E G r (setStatus E (ord_id r) Confirmed (markStep E (ord_id r) ConfirmStep StepDone [] w2)))"
  using assms by (simp add: after_charge_def saga_confirm_def)

definition extended_world :: "(unit, fake_provider) world" where
  "extended_world = snd (saga_extend sample_env sample_saga sample_order (snd (exec sample_env (q_GetOrder 113) ordered_world)))"

definition pending_payment :: payment_row where
  "pending_payment = \<lparr>pay_id = 127, pay_order = 113, pay_key = ''ann:113:100'', pay_ref = None, pay_amount = 10000,
     pay_status_of = PayPending, pay_attempts = 0, pay_error = None, pay_created = 28000000, pay_updated = 28000000\<rparr>"

definition charged_world :: "(unit, fake_provider) world" where
  "charged_world =
     snd (saga_charge sample_env sample_saga sample_order pending_payment
       (snd (saga_payment sample_env sample_order extended_world)))"

definition confirming_world :: "(unit, fake_provider) world" where
  "confirming_world = setStatus sample_env 113 Confirming (markStep sample_env 113 ChargeStep StepDone [] charged_world)"

definition confirmed_world :: "(unit, fake_provider) world" where
  "confirmed_world =
     snd (ConfirmSeats sample_env 1 [11, 12] [1, 1] 100 113 (snd (currentFences sample_env [11, 12] 100 confirming_world)))"

definition sold_world :: "(unit, fake_provider) world" where
  "sold_world = finish_tickets sample_env sample_saga sample_order
     (setStatus sample_env 113 Confirmed (markStep sample_env 113 ConfirmStep StepDone [] confirmed_world))"

lemma sold_world_stages:
  "fst (exec sample_env (q_GetOrder 113) ordered_world) = Inr sample_order"
  "fst (saga_extend sample_env sample_saga sample_order (snd (exec sample_env (q_GetOrder 113) ordered_world)))"
  "fst (saga_payment sample_env sample_order extended_world) = Inr pending_payment"
  "fst (saga_charge sample_env sample_saga sample_order pending_payment
       (snd (saga_payment sample_env sample_order extended_world))) = Inr (pending_payment\<lparr>pay_status_of := PayCaptured\<rparr>)"
  "fst (currentFences sample_env [11, 12] 100 confirming_world) = Inr [1, 1]"
  "fst (ConfirmSeats sample_env 1 [11, 12] [1, 1] 100 113 (snd (currentFences sample_env [11, 12] 100 confirming_world))) = Inr ()"
  by code_simp+

lemma sold_world_run: "RunSaga sample_env sample_saga 113 ordered_world = (Inr (), sold_world)"
proof -
  have "RunSaga sample_env sample_saga 113 ordered_world
      = after_charge sample_env sample_saga sample_order (pending_payment\<lparr>pay_status_of := PayCaptured\<rparr>) charged_world"
    by (rule RunSaga_charged [of _ _ _ _ "snd (exec sample_env (q_GetOrder 113) ordered_world)" _ extended_world
          pending_payment "snd (saga_payment sample_env sample_order extended_world)"])
      (simp_all add: prod_eq_iff sold_world_stages extended_world_def [symmetric] charged_world_def [symmetric],
       simp add: sample_order_def)
  also have "\<dots> = (Inr (), sold_world)"
    unfolding sold_world_def
    by (subst after_charge_sold [of _ _ _ _ "[1, 1]" "snd (currentFences sample_env [11, 12] 100 confirming_world)"
          "()" confirmed_world])
      (simp_all add: prod_eq_iff sold_world_stages sample_order_def confirming_world_def [symmetric]
        confirmed_world_def [symmetric])
  finally show ?thesis .
qed

subsection \<open>The money settles\<close>



subsection \<open>A lapsed hold is not charged\<close>


text \<open>The order of the held seats, its hold released before the saga runs.\<close>

definition lapsed_world :: "(unit, fake_provider) world" where
  "lapsed_world = snd (ReleaseHold sample_env sample_service 1 [11, 12] 100 ''ann'' ordered_world)"


end
