(* ===== verification/SagaResume.thy ===== *)
theory SagaResume
  imports SagaClaims
begin

section \<open>Resuming a saga\<close>

text \<open>
  A schedule of the saga worker on the sample order: a crash after which running the saga again
  does not restore what the order promises.
\<close>

subsection \<open>A crash between the confirmation and the status update\<close>

lemma after_charge_unsold:
  assumes "pay_status_of p = PayCaptured"
    and "currentFences E (ord_seats r) (ord_hold r)
           (setStatus E (ord_id r) Confirming (markStep E (ord_id r) ChargeStep StepDone [] w)) = (Inr fences, w1)"
    and "ConfirmSeats E (ord_event r) (ord_seats r) fences (ord_hold r) (ord_id r) w1 = (Inl e, w2)"
  shows "after_charge E G r p w = compensate E G r p e w2"
  using assms by (simp add: after_charge_def saga_confirm_def)

lemma compensate_refunds:
  assumes "wrap32 (int (length (ord_seats r))) \<noteq> 0"
    and "BestAvailable E (sg_inv G) (ord_event r) (int (length (ord_seats r)))
           (wrap32 (wrap32 (go_div (ord_amount r) (wrap32 (int (length (ord_seats r))))) * reallocMaxMult)) (ord_user r) w
         = (Inl e, w1)"
  shows "compensate E G r p cause w = refund_order E G r p cause w1"
  using assms by (simp add: compensate_def Let_def)

definition interrupted_order :: order_row where
  "interrupted_order = sample_order\<lparr>ord_status := Confirming, ord_updated := 32000000\<rparr>"

definition captured_payment :: payment_row where
  "captured_payment = pending_payment\<lparr>pay_status_of := PayCaptured, pay_ref := Some ''fake_ann:113:100'',
     pay_attempts := 1, pay_updated := 30000000\<rparr>"

definition resumed_world :: "(unit, fake_provider) world" where
  "resumed_world = setStatus sample_env 113 Confirming (markStep sample_env 113 ChargeStep StepDone []
     (snd (saga_payment sample_env interrupted_order (tick confirmed_world))))"

definition rejected_world :: "(unit, fake_provider) world" where
  "rejected_world = snd (ConfirmSeats sample_env 1 [11, 12] [0, 0] 100 113
     (snd (currentFences sample_env [11, 12] 100 resumed_world)))"

definition searched_world :: "(unit, fake_provider) world" where
  "searched_world = snd (BestAvailable sample_env sample_service 1 2 5000 ''ann'' rejected_world)"

definition refunded_world :: "(unit, fake_provider) world" where
  "refunded_world = snd (refund_order sample_env sample_saga interrupted_order captured_payment HoldExpired searched_world)"

lemma resumed_stages:
  "exec sample_env (q_GetOrder 113) confirmed_world = (Inr interrupted_order, tick confirmed_world)"
  "fst (saga_payment sample_env interrupted_order (tick confirmed_world)) = Inr captured_payment"
  "fst (currentFences sample_env [11, 12] 100 resumed_world) = Inr [0, 0]"
  "fst (ConfirmSeats sample_env 1 [11, 12] [0, 0] 100 113 (snd (currentFences sample_env [11, 12] 100 resumed_world)))
     = Inl HoldExpired"
  "fst (BestAvailable sample_env sample_service 1 2 5000 ''ann'' rejected_world) = Inl NoContiguousSeats"
  "fst (refund_order sample_env sample_saga interrupted_order captured_payment HoldExpired searched_world) = Inr ()"
  "go_div 10000 2 = 5000" "wrap32 5000 = 5000" "wrap32 2 = 2"
proof -
  have "fst (exec sample_env (q_GetOrder 113) confirmed_world) = Inr interrupted_order" by code_simp
  then show "exec sample_env (q_GetOrder 113) confirmed_world = (Inr interrupted_order, tick confirmed_world)"
    by (simp add: exec_def q_GetOrder_def sample_env_def)
qed code_simp+


end
