(* ===== verification/Workers.thy ===== *)
theory Workers
  imports SagaMoney
begin

section \<open>The background workers\<close>

text \<open>
  One tick of every background process: the hold reaper (\<open>internal/reaper\<close>), the outbox relay
  (\<open>internal/outbox\<close>), the reconciler (\<open>internal/reconcile\<close>), the reminder sender
  (\<open>internal/reminder\<close>) and the sweep of \<open>cmd/saga-worker\<close>. Each is a list of rows read by one
  query and a loop over it; the loops are recursions over that list.
\<close>

subsection \<open>internal/reaper\<close>

text \<open>A failed step of the loop is logged and the loop goes on.\<close>

fun reap_holds ::
    "env \<Rightarrow> 'l service \<Rightarrow> (int \<times> uuid) list \<Rightarrow> nat \<Rightarrow> ('l, 'p) world \<Rightarrow> nat \<times> ('l, 'p) world" where
  "reap_holds E S [] released w = (released, w)"
| "reap_holds E S ((ev, h) # hs) released w =
     (case exec E (q_ListSeatIDsForHold ev h) w of
        (Inl _, w1) \<Rightarrow> reap_holds E S hs released w1
      | (Inr [], w1) \<Rightarrow> reap_holds E S hs released w1
      | (Inr seats, w1) \<Rightarrow>
          (case ReleaseHold E S ev seats h ''system:hold-reaper'' w1 of
             (Inl _, w2) \<Rightarrow> reap_holds E S hs released w2
           | (Inr _, w2) \<Rightarrow> reap_holds E S hs (released + 1) w2))"

definition reaper_RunOnce :: "env \<Rightarrow> 'l service \<Rightarrow> ('l, 'p) world \<Rightarrow> (error + nat) \<times> ('l, 'p) world" where
  "reaper_RunOnce E S w =
     (case exec E q_ListExpiredHolds w of
        (Inl e, w1) \<Rightarrow> (Inl e, w1)
      | (Inr hs, w1) \<Rightarrow> (let (n, w2) = reap_holds E S hs 0 w1 in (Inr n, w2)))"

subsection \<open>internal/outbox\<close>

text \<open>
  \<open>Publisher\<close> is EventBridge's \<open>PutEvents\<close> for a single entry: from the fate of the call, the
  entry and the entries accepted so far to an error or the \<open>FailedEntryCount\<close>, and the entries
  accepted afterwards.
\<close>

type_synonym publisher = "fate \<Rightarrow> envelope \<Rightarrow> envelope list \<Rightarrow> (error + nat) \<times> envelope list"

definition PutEvents :: "env \<Rightarrow> publisher \<Rightarrow> envelope \<Rightarrow> ('l, 'p) world \<Rightarrow> (error + nat) \<times> ('l, 'p) world" where
  "PutEvents E P en w =
     (let (r, b) = P (fate_of E (w_calls w)) en (w_bus w) in (r, (tick w)\<lparr>w_bus := b\<rparr>))"

definition Envelope :: "domain_event \<Rightarrow> envelope" where
  "Envelope e = \<lparr>en_id = de_id e, en_aggregate = de_aggregate e, en_type = de_type e,
     en_schema = de_schema e, en_payload = de_payload e\<rparr>"

definition batchSize :: nat where "batchSize = 25"

fun relay_events ::
    "env \<Rightarrow> publisher \<Rightarrow> domain_event list \<Rightarrow> nat \<Rightarrow> ('l, 'p) world \<Rightarrow> (error + nat) \<times> ('l, 'p) world" where
  "relay_events E P [] published w = (Inr published, w)"
| "relay_events E P (e # es) published w =
     (case PutEvents E P (Envelope e) w of
        (Inl _, w1) \<Rightarrow> relay_events E P es published w1
      | (Inr failed, w1) \<Rightarrow>
          if failed > 0 then relay_events E P es published w1
          else (case exec E (q_MarkDomainEventPublished (de_id e)) w1 of
                  (Inl err, w2) \<Rightarrow> (Inl err, w2)
                | (Inr _, w2) \<Rightarrow> relay_events E P es (published + 1) w2))"

definition relay_RunOnce :: "env \<Rightarrow> publisher \<Rightarrow> ('l, 'p) world \<Rightarrow> (error + nat) \<times> ('l, 'p) world" where
  "relay_RunOnce E P w =
     (case exec E (q_ListUnpublishedDomainEvents batchSize) w of
        (Inl e, w1) \<Rightarrow> (Inl e, w1)
      | (Inr es, w1) \<Rightarrow> relay_events E P es 0 w1)"

subsection \<open>internal/reconcile\<close>

definition stuckAfter :: int where "stuckAfter = 300"

text \<open>\<open>checker\<close> is \<open>StatusChecker\<close>: what the provider answers for a key, in its current state.\<close>

fun reconcile_payments ::
    "env \<Rightarrow> (string \<Rightarrow> 'p \<Rightarrow> charge_status) \<Rightarrow> ('l, 'p) saga \<Rightarrow> payment_row list \<Rightarrow> nat
     \<Rightarrow> ('l, 'p) world \<Rightarrow> (error + nat) \<times> ('l, 'p) world" where
  "reconcile_payments E checker G [] resolved w = (Inr resolved, w)"
| "reconcile_payments E checker G (p # ps) resolved w =
     (case checker (pay_key p) (w_pay w) of
        StatusCaptured \<Rightarrow>
          (let w1 = snd (exec E (q_UpdatePaymentStatus (pay_id p) PayCaptured (pay_ref p) None) w) in
           case RunSaga E G (pay_order p) w1 of
             (Inl e, w2) \<Rightarrow> (Inl e, w2)
           | (Inr _, w2) \<Rightarrow> reconcile_payments E checker G ps (resolved + 1) w2)
      | StatusFailed \<Rightarrow>
          (let w1 = snd (exec E (q_UpdatePaymentStatus (pay_id p) PayFailed None None) w);
               w2 = snd (exec E (q_FailOrder (pay_order p) (Some ''payment_declined'')
                           (Some ''resolved as declined by the reconciler'')) w1)
           in reconcile_payments E checker G ps (resolved + 1) w2)
      | StatusUnknown \<Rightarrow> reconcile_payments E checker G ps resolved w)"

definition reconcile_RunOnce ::
    "env \<Rightarrow> (string \<Rightarrow> 'p \<Rightarrow> charge_status) \<Rightarrow> ('l, 'p) saga \<Rightarrow> ('l, 'p) world \<Rightarrow> (error + nat) \<times> ('l, 'p) world" where
  "reconcile_RunOnce E checker G w =
     (case exec E (q_ListStuckPayments stuckAfter 100) w of
        (Inl e, w1) \<Rightarrow> (Inl e, w1)
      | (Inr ps, w1) \<Rightarrow> reconcile_payments E checker G ps 0 w1)"

text \<open>The number of violations of the two money invariants.\<close>

definition CheckInvariant :: "env \<Rightarrow> ('l, 'p) world \<Rightarrow> (error + nat \<times> nat) \<times> ('l, 'p) world" where
  "CheckInvariant E w =
     (case exec E q_FindOrdersMissingPayment w of
        (Inl e, w1) \<Rightarrow> (Inl e, w1)
      | (Inr missing, w1) \<Rightarrow>
          (case exec E q_FindCapturedPaymentsMissingOrderOrRefund w1 of
             (Inl e, w2) \<Rightarrow> (Inl e, w2)
           | (Inr orphaned, w2) \<Rightarrow> (Inr (length missing, length orphaned), w2)))"

subsection \<open>internal/reminder\<close>

definition T24h :: time where "T24h = 24 * 3600 * 1000000"
definition T2h :: time where "T2h = 2 * 3600 * 1000000"

text \<open>Sending is a log line; what counts is the row that keeps it from being sent again.\<close>

fun send_reminders ::
    "env \<Rightarrow> string \<Rightarrow> (uuid \<times> int \<times> time) list \<Rightarrow> nat \<Rightarrow> ('l, 'p) world \<Rightarrow> nat \<times> ('l, 'p) world" where
  "send_reminders E kind [] sent w = (sent, w)"
| "send_reminders E kind ((i, _) # rows) sent w =
     (case exec E (q_MarkReminderSent i kind) w of
        (Inl _, w1) \<Rightarrow> send_reminders E kind rows sent w1
      | (Inr _, w1) \<Rightarrow> send_reminders E kind rows (sent + 1) w1)"

definition reminder_RunOnce ::
    "env \<Rightarrow> string \<Rightarrow> time \<Rightarrow> ('l, 'p) world \<Rightarrow> (error + nat) \<times> ('l, 'p) world" where
  "reminder_RunOnce E kind lead w =
     (let t = now E w in
      case exec E (q_ListTicketsDueForReminder t (t + lead) kind) (tick w) of
        (Inl e, w1) \<Rightarrow> (Inl e, w1)
      | (Inr rows, w1) \<Rightarrow> (let (n, w2) = send_reminders E kind rows 0 w1 in (Inr n, w2)))"

subsection \<open>cmd/saga-worker\<close>

definition resumeOrder :: "env \<Rightarrow> ('l, 'p) saga \<Rightarrow> uuid \<Rightarrow> ('l, 'p) world \<Rightarrow> ('l, 'p) world" where
  "resumeOrder E G i w = snd (RunSaga E G i w)"

text \<open>One tick of the ticker: the service of this process has no ticketing wired in.\<close>

definition sweep :: "env \<Rightarrow> ('l, 'p) saga \<Rightarrow> ('l, 'p) world \<Rightarrow> ('l, 'p) world" where
  "sweep E G w =
     (case exec E (q_ListStuckOrders 30 50) w of
        (Inl _, w1) \<Rightarrow> w1
      | (Inr stuck, w1) \<Rightarrow> fold (resumeOrder E (G\<lparr>sg_tickets := None\<rparr>)) stuck w1)"

end
