(* ===== verification/WorkerProofs.thy ===== *)
theory WorkerProofs
  imports Workers SagaClaims
begin

section \<open>What the workers do\<close>

text \<open>
  The reaper frees exactly the seats of expired holds; the relay never marks an event as
  published that the bus has not accepted, and empties its batch in order when nothing fails;
  the invariant check counts exactly the violations; reminders are recorded once. Every worker
  is a seat writer.
\<close>

subsection \<open>Identifiers are fresh\<close>

text \<open>No event of the outbox carries an identifier that a later call will draw.\<close>

definition fresh_ids :: "env \<Rightarrow> nat \<Rightarrow> db \<Rightarrow> bool" where
  "fresh_ids E n d \<longleftrightarrow> (\<forall>k \<ge> n. uuid_at E k \<notin> de_id ` set (t_outbox d))"

lemma fresh_ids_later: "fresh_ids E n d \<Longrightarrow> n \<le> m \<Longrightarrow> fresh_ids E m d"
  by (simp add: fresh_ids_def)

lemma Publish_fresh:
  assumes "Publish E agg ty pl t w = (Inr t', w')" and "inj (uuid_at E)" and "fresh_ids E (w_calls w) (tx_db t)"
  shows "fresh_ids E (w_calls w') (tx_db t') \<and> w_calls w \<le> w_calls w'"
proof -
  obtain x where "exec_tx E (q_InsertDomainEvent (uuid_at E (w_calls w)) agg ty SchemaVersion pl) t (tick w)
      = (Inr (x, t'), w')"
    using assms by (auto simp: Publish_def new_uuid_def split: prod.splits sum.splits)
  then have "w_calls w' = w_calls w + 2
      \<and> de_id ` set (t_outbox (tx_db t')) = insert (uuid_at E (w_calls w)) (de_id ` set (t_outbox (tx_db t)))"
    by (rule exec_tx_cases) (auto simp: q_InsertDomainEvent_def split: if_splits)
  with assms(2,3) show ?thesis by (simp add: fresh_ids_def inj_eq)
qed

lemma publish_all_fresh:
  "publish_all E es t w = (Inr t', w') \<Longrightarrow> inj (uuid_at E) \<Longrightarrow> fresh_ids E (w_calls w) (tx_db t) \<Longrightarrow>
   fresh_ids E (w_calls w') (tx_db t') \<and> w_calls w \<le> w_calls w'"
proof (induction es arbitrary: t w)
  case Nil
  then show ?case by simp
next
  case (Cons e es)
  obtain agg ty pl where e: "e = (agg, ty, pl)" by (cases e)
  obtain t1 w1 where p: "Publish E agg ty pl t w = (Inr t1, w1)" and rest: "publish_all E es t1 w1 = (Inr t', w')"
    using Cons.prems(1) by (auto simp: e split: prod.splits sum.splits)
  from Publish_fresh [OF p Cons.prems(2,3)] Cons.IH [OF rest Cons.prems(2)] show ?case by auto
qed

lemma audit_calls: "w_calls w \<le> w_calls (audit E h ev s u oc f x w)"
  by (auto simp: audit_def exec_def Let_def split: prod.splits fate.splits)

lemma audit_all_calls: "w_calls w \<le> w_calls (audit_all E h ev ss u oc w)"
proof (induction ss arbitrary: w)
  case (Cons s ss)
  show ?case
    using order_trans [OF audit_calls Cons] by simp
qed simp

lemma releaseRedisBatch_calls: "w_calls w \<le> w_calls (releaseRedisBatch E S ev ss h w)"
proof (induction ss arbitrary: w)
  case (Cons s ss)
  obtain r w1 where c: "call_release E S ev s h w = (r, w1)" by (meson surj_pair)
  then have "w_calls w1 = Suc (w_calls w)" by (auto simp: call_release_def split: prod.splits)
  with Cons [of w1] show ?case by (simp add: c)
qed simp

lemma ReleaseHold_done:
  assumes alldone: "all_done E" and inj: "inj (uuid_at E)" and fresh: "fresh_ids E (w_calls w) (w_db w)"
  shows "\<exists>w' t. ReleaseHold E S ev ids h user w = (Inr (), w') \<and> fresh_ids E (w_calls w') (w_db w')
    \<and> t_seats (w_db w') = update_where (held_as ev ids h) (set_free t) (t_seats (w_db w))"
proof -
  let ?seats = "fst (sortDedup ids)"
  let ?w0 = "releaseRedisBatch E S ev ?seats h w"
  let ?t = "\<lparr>tx_now = now E ?w0, tx_db = w_db w\<rparr>"
  let ?d2 = "(w_db w)\<lparr>t_seats := update_where (held_as ev ids h) (set_free (now E ?w0)) (t_seats (w_db w))\<rparr>"
  let ?t2 = "\<lparr>tx_now = now E ?w0, tx_db = ?d2\<rparr>"
  let ?n = "count_where (held_as ev ids h) (t_seats (w_db w))"
  let ?es = "if ?n > 0 then map (released_event ev h) ?seats else []"
  let ?w2 = "tick (tick ?w0)"
  have b: "begin_tx E ?w0 = (Inr ?t, tick ?w0)" using alldone by (simp add: begin_tx_def)
  have x: "exec_tx E (q_ReleaseHold ev ?seats h) ?t (tick ?w0) = (Inr (?n, ?t2), ?w2)"
    using alldone by (simp add: exec_tx_def q_ReleaseHold_def)
  have fr: "fresh_ids E (w_calls ?w2) (tx_db ?t2)"
    using fresh releaseRedisBatch_calls [of w E S ev ?seats h] by (simp add: fresh_ids_def)
  obtain t3 w3 where p: "publish_all E ?es ?t2 ?w2 = (Inr t3, w3)"
    using publish_all_done [OF alldone inj, of ?w2 ?t2 ?es] fr unfolding fresh_ids_def by blast
  have pub: "(if ?n > 0 then publish_all E (map (released_event ev h) ?seats) ?t2 ?w2 else (Inr ?t2, ?w2)) = (Inr t3, w3)"
    using p by (auto split: if_splits)
  let ?w4 = "(tick w3)\<lparr>w_db := tx_db t3\<rparr>"
  let ?w' = "audit_all E h ev ?seats user RELEASED ?w4"
  have "ReleaseHold E S ev ids h user w = (Inr (), ?w')"
    using b x pub alldone by (simp add: ReleaseHold_def Let_def commit_tx_def)
  moreover have "t_outbox (w_db ?w') = t_outbox (tx_db t3)"
    using audit_only_tables [OF audit_all_frame [of ?w4]] by simp
  then have "fresh_ids E (w_calls ?w') (w_db ?w')"
    using publish_all_fresh [OF p inj fr] audit_all_calls [of ?w4 E h ev ?seats user RELEASED]
    by (auto simp: fresh_ids_def)
  moreover have "t_seats (w_db ?w') = t_seats (tx_db t3)"
    using audit_only_tables [OF audit_all_frame [of ?w4]] by simp
  then have "t_seats (w_db ?w') = update_where (held_as ev ids h) (set_free (now E ?w0)) (t_seats (w_db w))"
    using outbox_only_seats [OF conjunct1 [OF publish_all_ok [OF p]]] by simp
  ultimately show ?thesis by blast
qed

subsection \<open>The reaper\<close>

definition under :: "(int \<times> uuid) set \<Rightarrow> event_seat \<Rightarrow> bool" where
  "under H r \<longleftrightarrow> es_status r \<in> {1, 3} \<and> (\<exists>h. es_hold r = Some h \<and> (es_event r, h) \<in> H)"

definition reaped :: "(int \<times> uuid) set \<Rightarrow> event_seat list \<Rightarrow> event_seat list \<Rightarrow> bool" where
  "reaped H = list_all2 (\<lambda>r r'. if under H r then \<exists>t. r' = set_free t r else r' = r)"

lemma reaped_empty: "reaped {} rows rows' \<longleftrightarrow> rows' = rows"
  by (auto simp: reaped_def under_def list_all2_conv_all_nth list_eq_iff_nth_eq)

lemma under_free [simp]: "\<not> under H (set_free t r)"
  by (simp add: under_def)

lemma reaped_insert:
  assumes "reaped {x} rows rows1" and "reaped H rows1 rows2"
  shows "reaped (insert x H) rows rows2"
  unfolding reaped_def
proof (rule list_all2_all_nthI)
  show len: "length rows = length rows2" using assms by (auto simp: reaped_def dest!: list_all2_lengthD)
  fix i assume i: "i < length rows"
  let ?r = "rows ! i" and ?r1 = "rows1 ! i" and ?r2 = "rows2 ! i"
  have a: "if under {x} ?r then \<exists>t. ?r1 = set_free t ?r else ?r1 = ?r"
    using list_all2_nthD [OF assms(1) [unfolded reaped_def] i] by simp
  have "length rows1 = length rows" using assms(1) by (auto simp: reaped_def dest!: list_all2_lengthD)
  then have b: "if under H ?r1 then \<exists>t. ?r2 = set_free t ?r1 else ?r2 = ?r1"
    using list_all2_nthD [OF assms(2) [unfolded reaped_def], of i] i by simp
  have u: "under (insert x H) r \<longleftrightarrow> under {x} r \<or> under H r" for r by (auto simp: under_def)
  show "if under (insert x H) ?r then \<exists>t. ?r2 = set_free t ?r else ?r2 = ?r"
    using a b u by (auto split: if_splits)
qed

lemma reap_holds_done:
  assumes alldone: "all_done E" and inj: "inj (uuid_at E)"
  shows "fresh_ids E (w_calls w) (w_db w) \<Longrightarrow>
    \<exists>n w'. reap_holds E S hs m w = (n, w') \<and> reaped (set hs) (t_seats (w_db w)) (t_seats (w_db w'))"
proof (induction hs arbitrary: m w)
  case Nil
  then show ?case by (simp add: reaped_empty)
next
  case (Cons x hs)
  obtain ev h where x: "x = (ev, h)" by (cases x)
  let ?seats = "map es_seat (filter (\<lambda>r. es_event r = ev \<and> es_hold r = Some h) (t_seats (w_db w)))"
  have list: "exec E (q_ListSeatIDsForHold ev h) w = (Inr ?seats, tick w)"
    using alldone by (simp add: exec_Done q_ListSeatIDsForHold_def tick_def)
  have fr: "fresh_ids E (w_calls (tick w)) (w_db (tick w))" using Cons.prems by (simp add: fresh_ids_def)
  show ?case
  proof (cases "?seats = []")
    case True
    then have "\<forall>r \<in> set (t_seats (w_db w)). \<not> under {x} r" by (auto simp: under_def filter_empty_conv x)
    then have "reaped {x} (t_seats (w_db w)) (t_seats (w_db (tick w)))"
      by (auto simp: reaped_def list_all2_same)
    moreover obtain n w' where r: "reap_holds E S hs m (tick w) = (n, w')"
        "reaped (set hs) (t_seats (w_db (tick w))) (t_seats (w_db w'))"
      using Cons.IH [OF fr] by blast
    ultimately have "reaped (set (x # hs)) (t_seats (w_db w)) (t_seats (w_db w'))"
      using reaped_insert [of x] by (auto simp: x)
    then show ?thesis using r True list by (simp add: x)
  next
    case False
    obtain w2 t where rel: "ReleaseHold E S ev ?seats h ''system:hold-reaper'' (tick w) = (Inr (), w2)"
      "fresh_ids E (w_calls w2) (w_db w2)"
      "t_seats (w_db w2) = update_where (held_as ev ?seats h) (set_free t) (t_seats (w_db w))"
      using ReleaseHold_done [OF alldone inj fr] by fastforce
    have "held_as ev ?seats h r \<longleftrightarrow> under {x} r" if "r \<in> set (t_seats (w_db w))" for r
      using that by (auto simp: held_as_def under_def x)
    then have "reaped {x} (t_seats (w_db w)) (t_seats (w_db w2))"
      unfolding reaped_def rel(3)
      by (intro list_all2_all_nthI) auto
    moreover obtain n w' where r: "reap_holds E S hs (m + 1) w2 = (n, w')"
        "reaped (set hs) (t_seats (w_db w2)) (t_seats (w_db w'))"
      using Cons.IH [OF rel(2)] by blast
    ultimately have "reaped (set (x # hs)) (t_seats (w_db w)) (t_seats (w_db w'))"
      using reaped_insert [of x] by (auto simp: x)
    moreover obtain s ss where "?seats = s # ss" using False by (cases ?seats) auto
    ultimately show ?thesis using r rel list by (auto simp: x)
  qed
qed

definition expired_holds :: "time \<Rightarrow> event_seat list \<Rightarrow> (int \<times> uuid) set" where
  "expired_holds t rows = {(es_event r, h) | r h. r \<in> set rows \<and> es_hold r = Some h
     \<and> es_status r \<in> {1, 3} \<and> before (es_expires r) t}"

lemma expired_holdsI:
  "r \<in> set rows \<Longrightarrow> es_hold r = Some h \<Longrightarrow> es_status r \<in> {1, 3} \<Longrightarrow> before (es_expires r) t \<Longrightarrow>
   (es_event r, h) \<in> expired_holds t rows"
  by (auto simp: expired_holds_def)

lemma ListExpiredHolds_set:
  assumes "q_ListExpiredHolds t d = (Inr hs, d')"
  shows "set hs = expired_holds t (t_seats d)"
proof -
  have "set hs = (\<lambda>r. (es_event r, the (es_hold r))) `
      {r \<in> set (t_seats d). es_status r \<in> {1, 3} \<and> before (es_expires r) t \<and> es_hold r \<noteq> None}"
  proof -
    have "hs = remdups (map (\<lambda>r. (es_event r, the (es_hold r)))
        (filter (\<lambda>r. es_status r \<in> {1, 3} \<and> before (es_expires r) t \<and> es_hold r \<noteq> None) (t_seats d)))"
      using assms by (auto simp: q_ListExpiredHolds_def)
    then show ?thesis by (simp only: set_remdups set_map set_filter)
  qed
  also have "\<dots> = expired_holds t (t_seats d)"
  proof (intro set_eqI iffI)
    fix x assume "x \<in> expired_holds t (t_seats d)"
    then obtain r where "r \<in> set (t_seats d)" "es_status r \<in> {1, 3}" "before (es_expires r) t" "es_hold r \<noteq> None"
        "x = (es_event r, the (es_hold r))"
      by (auto simp: expired_holds_def)
    then show "x \<in> (\<lambda>r. (es_event r, the (es_hold r))) `
        {r \<in> set (t_seats d). es_status r \<in> {1, 3} \<and> before (es_expires r) t \<and> es_hold r \<noteq> None}"
      by blast
  qed (auto simp: expired_holds_def)
  finally show ?thesis .
qed

text \<open>
  a tick of the reaper in which no call fails frees exactly the seats held under the holds
  that had expired at its scan: each such seat becomes AVAILABLE with its hold columns cleared,
  and every other row, a live hold or a booked seat, is as it was.
\<close>

lemma reaper_frees_expired_holds:
  assumes "\<forall>k. fate_of E k = Done" and "inj (uuid_at E)" and "fresh_ids E (w_calls w) (w_db w)"
  shows "\<exists>n w'. reaper_RunOnce E S w = (Inr n, w')
    \<and> list_all2 (\<lambda>r r'. if under (expired_holds (now E w) (t_seats (w_db w))) r
                       then \<exists>t. r' = set_free t r else r' = r)
        (t_seats (w_db w)) (t_seats (w_db w'))"
proof -
  obtain hs where hs: "q_ListExpiredHolds (now E w) (w_db w) = (Inr hs, w_db w)"
    by (simp add: q_ListExpiredHolds_def)
  then have x: "exec E q_ListExpiredHolds w = (Inr hs, tick w)"
    using assms(1) by (simp add: exec_Done tick_def)
  obtain n w' where "reap_holds E S hs 0 (tick w) = (n, w')" "reaped (set hs) (t_seats (w_db w)) (t_seats (w_db w'))"
    using reap_holds_done [OF assms(1,2), of "tick w" S hs 0] assms(3) by (auto simp: fresh_ids_def)
  then show ?thesis
    using x ListExpiredHolds_set [OF hs] by (auto simp: reaper_RunOnce_def reaped_def)
qed

lemma reaper_frees_expired_holds_example:
  "\<exists>n w'. reaper_RunOnce (sample_env\<lparr>clock_at := \<lambda>k. 900000000\<rparr>) sample_service held_world = (Inr n, w')
    \<and> map es_status (t_seats (w_db held_world)) = [1, 1, 0] \<and> map es_status (t_seats (w_db w')) = [0, 0, 0]"
proof -
  let ?E = "sample_env\<lparr>clock_at := \<lambda>k. 900000000\<rparr>"
  let ?rows = "t_seats (w_db held_world)"
  obtain a b c where rows: "?rows = [a, b, c]" "map es_status ?rows = [1, 1, 0]"
      "es_hold a = Some 100" "es_hold b = Some 100" "es_expires a = Some 603000000" "es_expires b = Some 603000000"
    by (auto simp: held_world_value)
  then have und: "under (expired_holds 900000000 ?rows) a" "under (expired_holds 900000000 ?rows) b"
      "\<not> under (expired_holds 900000000 ?rows) c"
    by (auto simp: under_def before_def intro!: expired_holdsI)
  have "\<exists>n w'. reaper_RunOnce ?E sample_service held_world = (Inr n, w')
    \<and> list_all2 (\<lambda>r r'. if under (expired_holds (now ?E held_world) ?rows) r then \<exists>t. r' = set_free t r else r' = r)
        ?rows (t_seats (w_db w'))"
    by (rule reaper_frees_expired_holds) (auto simp: sample_env_def inj_def fresh_ids_def held_world_value)
  then obtain n w' where "reaper_RunOnce ?E sample_service held_world = (Inr n, w')"
    "list_all2 (\<lambda>r r'. if under (expired_holds 900000000 ?rows) r then \<exists>t. r' = set_free t r else r' = r)
        ?rows (t_seats (w_db w'))"
    by (auto simp: now_def)
  with rows show ?thesis
    using und unfolding rows(1) by (auto simp: list_all2_Cons1)
qed

subsection \<open>The relay\<close>

text \<open>
  What the relay relies on: an entry that \<open>PutEvents\<close> reports as accepted is on the bus, and the
  bus forgets nothing.
\<close>

definition bus_laws :: "publisher \<Rightarrow> bool" where
  "bus_laws P \<longleftrightarrow> (\<forall>f en b. set b \<subseteq> set (snd (P f en b)) \<and> (fst (P f en b) = Inr 0 \<longrightarrow> en \<in> set (snd (P f en b))))"

definition published_on_bus :: "('l, 'p) world \<Rightarrow> bool" where
  "published_on_bus w \<longleftrightarrow> (\<forall>e \<in> set (t_outbox (w_db w)). de_published e \<noteq> None \<longrightarrow> Envelope e \<in> set (w_bus w))"

definition outbox_ids :: "db \<Rightarrow> bool" where
  "outbox_ids d \<longleftrightarrow> distinct (map de_id (t_outbox d))"

lemma PutEvents_frame: "PutEvents E P en w = (r, w') \<Longrightarrow> w_db w' = w_db w \<and> w_calls w' = Suc (w_calls w)"
  by (auto simp: PutEvents_def split: prod.splits)

lemma PutEvents_bus:
  assumes "PutEvents E P en w = (r, w')" and "bus_laws P"
  shows "set (w_bus w) \<subseteq> set (w_bus w') \<and> (r = Inr 0 \<longrightarrow> en \<in> set (w_bus w'))"
proof -
  obtain q b where "P (fate_of E (w_calls w)) en (w_bus w) = (q, b)" by (meson surj_pair)
  with assms show ?thesis unfolding bus_laws_def PutEvents_def by (metis (mono_tags, lifting) Pair_inject case_prod_conv
    fst_conv snd_conv world.select_convs(5) world.surjective world.update_convs(5))
qed

lemma Envelope_aggregate [simp]: "en_aggregate (Envelope e) = de_aggregate e"
  by (simp add: Envelope_def)

lemma Envelope_published [simp]: "Envelope (e\<lparr>de_published := x\<rparr>) = Envelope e"
  by (simp add: Envelope_def)

lemma MarkDomainEventPublished_db:
  assumes "exec E (q_MarkDomainEventPublished i) w = (r, w')"
  shows "w_bus w' = w_bus w \<and> (w_db w' = w_db w
    \<or> w_db w' = (w_db w)\<lparr>t_outbox := update_where (\<lambda>e. de_id e = i) (\<lambda>e. e\<lparr>de_published := Some (now E w)\<rparr>) (t_outbox (w_db w))\<rparr>)"
  using assms by (auto elim!: exec_cases simp: q_MarkDomainEventPublished_def)

text \<open>The outbox up to the marks.\<close>

definition same_events :: "db \<Rightarrow> db \<Rightarrow> bool" where
  "same_events d d' \<longleftrightarrow> map Envelope (t_outbox d') = map Envelope (t_outbox d)"

lemma same_events_update:
  "same_events d (d\<lparr>t_outbox := update_where P (\<lambda>e. e\<lparr>de_published := x\<rparr>) (t_outbox d)\<rparr>)"
  by (simp add: same_events_def map_update_where)

lemma same_events_ids: "same_events d d' \<Longrightarrow> map de_id (t_outbox d') = map de_id (t_outbox d)"
proof -
  assume "same_events d d'"
  then have "map en_id (map Envelope (t_outbox d')) = map en_id (map Envelope (t_outbox d))"
    by (simp add: same_events_def)
  then show ?thesis by (simp add: Envelope_def comp_def)
qed

lemma marked_on_bus:
  assumes "published_on_bus w" and "outbox_ids (w_db w)" and "e \<in> set (t_outbox (w_db w))"
    and "Envelope e \<in> set b" and "set (w_bus w) \<subseteq> set b"
    and "x \<in> set (update_where (\<lambda>y. de_id y = de_id e) (\<lambda>y. y\<lparr>de_published := t\<rparr>) (t_outbox (w_db w)))"
    and "de_published x \<noteq> None"
  shows "Envelope x \<in> set b"
proof -
  obtain y where y: "y \<in> set (t_outbox (w_db w))" "x = (if de_id y = de_id e then y\<lparr>de_published := t\<rparr> else y)"
    using assms(6) by (auto simp: set_update_where)
  show ?thesis
  proof (cases "de_id y = de_id e")
    case True
    then have "y = e" using unique_key_row [of de_id] assms(2,3) y(1) unfolding outbox_ids_def by metis
    with True y(2) assms(4) show ?thesis by simp
  next
    case False
    with y assms(1,5,7) show ?thesis by (auto simp: published_on_bus_def)
  qed
qed

lemma relay_events_safe:
  assumes laws: "bus_laws P"
  shows "relay_events E P es n w = (r, w') \<Longrightarrow> published_on_bus w \<Longrightarrow> outbox_ids (w_db w) \<Longrightarrow>
    Envelope ` set es \<subseteq> Envelope ` set (t_outbox (w_db w)) \<Longrightarrow>
    published_on_bus w' \<and> set (w_bus w) \<subseteq> set (w_bus w') \<and> same_events (w_db w) (w_db w')"
proof (induction es arbitrary: n w)
  case Nil
  then show ?case by (simp add: same_events_def)
next
  case (Cons e es)
  obtain rp w1 where p: "PutEvents E P (Envelope e) w = (rp, w1)" by (meson surj_pair)
  note f = PutEvents_frame [OF p] and b = PutEvents_bus [OF p laws]
  have safe1: "published_on_bus w1" using Cons.prems(2) f b by (auto simp: published_on_bus_def)
  have skip: ?case if "relay_events E P es n w1 = (r, w')"
    using Cons.IH [OF that safe1] Cons.prems(3,4) f b by auto
  show ?case
  proof (cases "rp = Inr 0")
    case False
    then show ?thesis using Cons.prems(1) p skip by (cases rp) auto
  next
    case True
    obtain rm w2 where m: "exec E (q_MarkDomainEventPublished (de_id e)) w1 = (rm, w2)" by (meson surj_pair)
    note md = MarkDomainEventPublished_db [OF m]
    have same: "same_events (w_db w) (w_db w2)" using md f same_events_update by (auto simp: same_events_def)
    obtain y where y: "y \<in> set (t_outbox (w_db w))" "Envelope y = Envelope e" using Cons.prems(4) by (auto simp: image_iff)
    then have yid: "de_id y = de_id e" by (simp add: Envelope_def)
    have safe2: "published_on_bus w2"
      unfolding published_on_bus_def
    proof (intro ballI impI)
      fix x assume x: "x \<in> set (t_outbox (w_db w2))" "de_published x \<noteq> None"
      show "Envelope x \<in> set (w_bus w2)"
      proof (cases "w_db w2 = w_db w1")
        case True
        with x safe1 md show ?thesis by (auto simp: published_on_bus_def)
      next
        case False
        then have "x \<in> set (update_where (\<lambda>z. de_id z = de_id y) (\<lambda>z. z\<lparr>de_published := Some (now E w1)\<rparr>) (t_outbox (w_db w1)))"
          using md x yid by auto
        from marked_on_bus [OF safe1 _ _ _ _ this x(2), of "w_bus w2"] show ?thesis
          using Cons.prems(3) y f b md True by simp
      qed
    qed
    show ?thesis
    proof (cases rm)
      case (Inl err)
      then have "w' = w2" using Cons.prems(1) p True m by simp
      with safe2 same b md show ?thesis by auto
    next
      case (Inr u)
      then have rest: "relay_events E P es (n + 1) w2 = (r, w')" using Cons.prems(1) p True m by simp
      have "outbox_ids (w_db w2)" using Cons.prems(3) same_events_ids [OF same] by (simp add: outbox_ids_def)
      moreover have "Envelope ` set es \<subseteq> Envelope ` set (t_outbox (w_db w2))"
        using Cons.prems(4) same by (auto simp: same_events_def simp flip: set_map)
      ultimately show ?thesis
        using Cons.IH [OF rest safe2] same b md by (auto simp: same_events_def)
    qed
  qed
qed

lemma relay_RunOnce_safe:
  assumes "relay_RunOnce E P w = (r, w')" and "bus_laws P" and "published_on_bus w" and "outbox_ids (w_db w)"
  shows "published_on_bus w' \<and> set (w_bus w) \<subseteq> set (w_bus w') \<and> same_events (w_db w) (w_db w')"
proof -
  obtain rl w1 where x: "exec E (q_ListUnpublishedDomainEvents batchSize) w = (rl, w1)" by (meson surj_pair)
  have d1: "w_db w1 = w_db w" and b1: "w_bus w1 = w_bus w"
    using x by (auto elim!: exec_cases simp: q_ListUnpublishedDomainEvents_def)
  show ?thesis
  proof (cases rl)
    case (Inl e)
    then show ?thesis using assms x d1 b1 by (auto simp: relay_RunOnce_def published_on_bus_def same_events_def)
  next
    case (Inr es)
    have "set es \<subseteq> set (t_outbox (w_db w))"
    proof -
      have "es = take batchSize (sort_key de_seq (filter (\<lambda>e. de_published e = None) (t_outbox (w_db w))))"
        using x Inr by (auto elim!: exec_cases simp: q_ListUnpublishedDomainEvents_def)
      then have "set es \<subseteq> set (sort_key de_seq (filter (\<lambda>e. de_published e = None) (t_outbox (w_db w))))"
        using set_take_subset by metis
      then show ?thesis by auto
    qed
    then have sub: "Envelope ` set es \<subseteq> Envelope ` set (t_outbox (w_db w1))" using d1 by auto
    have "relay_events E P es 0 w1 = (r, w')" using assms(1) x Inr by (simp add: relay_RunOnce_def)
    from relay_events_safe [OF assms(2) this _ _ sub] assms(3,4) d1 b1 show ?thesis
      by (simp add: published_on_bus_def)
  qed
qed

text \<open>
  C6: no event is lost between the database and the bus. Whatever calls fail in a tick of the
  relay, and wherever it stops, every event marked as published is on the bus, the bus keeps
  what it had, and no event of the outbox is dropped or changed. Delivery is at least once: an
  accepted event whose mark failed stays unpublished and is sent again.
\<close>

theorem relay_never_loses_an_event:
  assumes "relay_RunOnce E P w = (r, w')" and "bus_laws P" and "distinct (map de_id (t_outbox (w_db w)))"
    and "\<forall>e \<in> set (t_outbox (w_db w)). de_published e \<noteq> None \<longrightarrow> Envelope e \<in> set (w_bus w)"
  shows "(\<forall>e \<in> set (t_outbox (w_db w')). de_published e \<noteq> None \<longrightarrow> Envelope e \<in> set (w_bus w'))
    \<and> set (w_bus w) \<subseteq> set (w_bus w') \<and> map Envelope (t_outbox (w_db w')) = map Envelope (t_outbox (w_db w))"
  using relay_RunOnce_safe [OF assms(1,2)] assms(3,4)
  by (simp add: published_on_bus_def outbox_ids_def same_events_def)

definition flaky_bus :: publisher where
  "flaky_bus f en b = (case f of Done \<Rightarrow> (Inr 0, b @ [en]) | Lost \<Rightarrow> (Inr 1, b) | Ambiguous \<Rightarrow> (Inl Unavailable, b @ [en]))"

definition relay_env :: env where
  "relay_env = sample_env\<lparr>fate_of := \<lambda>k. if k = 15 then Lost else Done\<rparr>"

text \<open>The second event is accepted but its mark is lost.\<close>

definition relayed_world :: "(unit, unit) world" where
  "relayed_world = snd (relay_RunOnce relay_env flaky_bus (held_world\<lparr>w_calls := 11\<rparr>))"

theorem relay_never_loses_an_event_witness:
  "length (w_bus relayed_world) = 2 \<and> map de_published (t_outbox (w_db relayed_world)) = [Some 13000000, None]
   \<and> Envelope (hd (t_outbox (w_db relayed_world))) \<in> set (w_bus relayed_world)"
proof -
  have "length (w_bus relayed_world) = 2 \<and> map de_published (t_outbox (w_db relayed_world)) = [Some 13000000, None]"
    by code_simp
  moreover have "bus_laws flaky_bus" by (auto simp: bus_laws_def flaky_bus_def split: fate.splits)
  moreover have run: "relay_RunOnce relay_env flaky_bus (held_world\<lparr>w_calls := 11\<rparr>)
      = (fst (relay_RunOnce relay_env flaky_bus (held_world\<lparr>w_calls := 11\<rparr>)), relayed_world)"
    by (simp add: relayed_world_def)
  ultimately show ?thesis
    using relay_never_loses_an_event [OF run] by (cases "t_outbox (w_db relayed_world)") (auto simp: held_world_value)
qed

lemma relay_events_done:
  assumes alldone: "all_done E" and bus: "\<forall>en b. P Done en b = (Inr 0, b @ [en])"
  shows "\<exists>w'. relay_events E P es n w = (Inr (n + length es), w') \<and> w_bus w' = w_bus w @ map Envelope es"
proof (induction es arbitrary: n w)
  case (Cons e es)
  let ?w1 = "(tick w)\<lparr>w_bus := w_bus w @ [Envelope e]\<rparr>"
  have p: "PutEvents E P (Envelope e) w = (Inr 0, ?w1)" using alldone bus by (simp add: PutEvents_def)
  obtain w2 where m: "exec E (q_MarkDomainEventPublished (de_id e)) ?w1 = (Inr (), w2)"
    using alldone by (simp add: exec_Done q_MarkDomainEventPublished_def)
  obtain w' where "relay_events E P es (n + 1) w2 = (Inr (n + 1 + length es), w')" "w_bus w' = w_bus w2 @ map Envelope es"
    using Cons.IH by blast
  then show ?case using p m MarkDomainEventPublished_db [OF m] by simp
qed simp

text \<open>
  A tick in which no call fails empties its batch. The oldest unpublished events, at most
  25 of them and in the order they were written, are appended to the bus one by one, and the
  tick reports their number.
\<close>

lemma relay_empties_its_batch:
  assumes "\<forall>k. fate_of E k = Done" and "\<forall>en b. P Done en b = (Inr 0, b @ [en])"
  shows "\<exists>w'. relay_RunOnce E P w
      = (Inr (min 25 (count_where (\<lambda>e. de_published e = None) (t_outbox (w_db w)))), w')
    \<and> w_bus w' = w_bus w @ map Envelope
        (take 25 (sort_key de_seq (filter (\<lambda>e. de_published e = None) (t_outbox (w_db w)))))"
proof -
  let ?es = "take 25 (sort_key de_seq (filter (\<lambda>e. de_published e = None) (t_outbox (w_db w))))"
  have x: "exec E (q_ListUnpublishedDomainEvents batchSize) w = (Inr ?es, tick w)"
    using assms(1) by (simp add: exec_Done q_ListUnpublishedDomainEvents_def batchSize_def tick_def)
  have "length ?es = min 25 (count_where (\<lambda>e. de_published e = None) (t_outbox (w_db w)))"
    by (simp add: count_where_def)
  with relay_events_done [of E P ?es 0 "tick w"] assms x show ?thesis by (auto simp: relay_RunOnce_def)
qed

lemma relay_empties_its_batch_example:
  "\<exists>w'. relay_RunOnce sample_env flaky_bus held_world = (Inr 2, w')
    \<and> map en_aggregate (w_bus w') = [''1:11'', ''1:12'']"
proof -
  have n: "count_where (\<lambda>e. de_published e = None) (t_outbox (w_db held_world)) = 2"
    and a: "map de_aggregate (take 25 (sort_key de_seq (filter (\<lambda>e. de_published e = None) (t_outbox (w_db held_world)))))
            = [''1:11'', ''1:12'']"
    and b: "w_bus held_world = []"
    by code_simp+
  have "\<exists>w'. relay_RunOnce sample_env flaky_bus held_world
      = (Inr (min 25 (count_where (\<lambda>e. de_published e = None) (t_outbox (w_db held_world)))), w')
    \<and> w_bus w' = w_bus held_world @ map Envelope
        (take 25 (sort_key de_seq (filter (\<lambda>e. de_published e = None) (t_outbox (w_db held_world)))))"
    by (rule relay_empties_its_batch) (simp_all add: sample_env_def flaky_bus_def)
  then show ?thesis using n a b by (auto simp: comp_def)
qed

subsection \<open>The reconciler\<close>

text \<open>
  the invariant check is exact. With the database up, \<open>CheckInvariant\<close> reports (0, 0) if and
  only if every confirmed or ticketed order has a captured payment and every captured payment
  belongs to such an order or has a completed refund.
\<close>

lemma check_invariant_exact:
  assumes "fate_of E (w_calls w) = Done" and "fate_of E (Suc (w_calls w)) = Done"
  shows "fst (CheckInvariant E w) = Inr (0, 0) \<longleftrightarrow>
       (\<forall>r \<in> set (t_orders (w_db w)). sold r \<longrightarrow> paid (w_db w) (ord_id r))
     \<and> (\<forall>p \<in> set (t_payments (w_db w)). pay_status_of p = PayCaptured \<longrightarrow> settled (w_db w) p)"
  using assms
  by (auto simp: CheckInvariant_def exec_Done q_FindOrdersMissingPayment_def
      q_FindCapturedPaymentsMissingOrderOrRefund_def paid_def settled_def filter_empty_conv)

lemma check_invariant_exact_example:
  "fst (CheckInvariant sample_env held_world) = Inr (0, 0)"
  using check_invariant_exact [of sample_env held_world] by (simp add: sample_env_def held_world_value)

lemma capture_touches:
  assumes "payments_wf d" and "p \<in> set (t_payments d)"
    and "d' = d\<lparr>t_payments := update_where (\<lambda>q. pay_id q = pay_id p) f (t_payments d)\<rparr>"
    and f: "\<And>q. pay_id (f q) = pay_id q \<and> pay_key (f q) = pay_key q \<and> pay_order (f q) = pay_order q"
  shows "touches (pay_order p) d d' \<and> payments_wf d' \<and> (stable_key E r d \<longrightarrow> stable_key E r d')"
proof -
  have own: "q = p" if "q \<in> set (t_payments d)" "pay_id q = pay_id p" for q
    using unique_key_row [of pay_id] assms(1,2) that unfolding payments_wf_def by metis
  have "filter (\<lambda>q. pay_order q \<noteq> pay_order p) (update_where (\<lambda>q. pay_id q = pay_id p) f ps)
      = filter (\<lambda>q. pay_order q \<noteq> pay_order p) ps" if "set ps \<subseteq> set (t_payments d)" for ps
    using that
  proof (induction ps)
    case (Cons q ps)
    then have "pay_id q = pay_id p \<Longrightarrow> pay_order q = pay_order p" using own by auto
    with Cons f show ?case by auto
  qed simp
  then have "touches (pay_order p) d d'" using assms(3) by (simp add: touches_def)
  moreover have "payments_wf d'" using assms(1,3) f by (simp add: payments_wf_def map_update_where)
  moreover have "stable_key E r d \<longrightarrow> stable_key E r d'" using assms(3) f by (auto simp: stable_key_def set_update_where)
  ultimately show ?thesis by blast
qed


text \<open>The sample order with a charge that timed out after it was captured, seven minutes later.\<close>

definition late_clock_env :: env where
  "late_clock_env = sample_env\<lparr>clock_at := \<lambda>k. int k * 1000000 + 400000000\<rparr>"

definition unknown_payment :: payment_row where
  "unknown_payment = pending_payment\<lparr>pay_status_of := PayUnknown, pay_attempts := 1\<rparr>"

definition ambiguous_world :: "(unit, fake_provider) world" where
  "ambiguous_world = extended_world\<lparr>
     w_db := (w_db extended_world)\<lparr>t_payments := [unknown_payment]\<rparr>,
     w_pay := NewFakeProvider\<lparr>captured := \<lambda>k. k = ''ann:113:100''\<rparr>\<rparr>"

definition recorded_world :: "(unit, fake_provider) world" where
  "recorded_world = snd (exec late_clock_env (q_UpdatePaymentStatus 127 PayCaptured None None) (tick ambiguous_world))"

definition authorizing_order :: order_row where
  "authorizing_order = sample_order\<lparr>ord_status := Authorizing, ord_updated := 24000000\<rparr>"

definition recorded_payment :: payment_row where
  "recorded_payment = unknown_payment\<lparr>pay_status_of := PayCaptured, pay_attempts := 2,
     pay_updated := clock_at late_clock_env (w_calls ambiguous_world + 1)\<rparr>"

definition retried_world :: "(unit, fake_provider) world" where
  "retried_world = setStatus late_clock_env 113 Confirming (markStep late_clock_env 113 ChargeStep StepDone []
     (snd (saga_payment late_clock_env authorizing_order (tick recorded_world))))"

definition rebooked_world :: "(unit, fake_provider) world" where
  "rebooked_world = snd (ConfirmSeats late_clock_env 1 [11, 12] [1, 1] 100 113
     (snd (currentFences late_clock_env [11, 12] 100 retried_world)))"

definition resolved_world :: "(unit, fake_provider) world" where
  "resolved_world = finish_tickets late_clock_env sample_saga authorizing_order
     (setStatus late_clock_env 113 Confirmed (markStep late_clock_env 113 ConfirmStep StepDone [] rebooked_world))"

lemma resolved_stages:
  "exec late_clock_env (q_GetOrder 113) recorded_world = (Inr authorizing_order, tick recorded_world)"
  "fst (saga_payment late_clock_env authorizing_order (tick recorded_world)) = Inr recorded_payment"
  "fst (currentFences late_clock_env [11, 12] 100 retried_world) = Inr [1, 1]"
  "fst (ConfirmSeats late_clock_env 1 [11, 12] [1, 1] 100 113 (snd (currentFences late_clock_env [11, 12] 100 retried_world)))
     = Inr ()"
proof -
  have "fst (exec late_clock_env (q_GetOrder 113) recorded_world) = Inr authorizing_order" by code_simp
  then show "exec late_clock_env (q_GetOrder 113) recorded_world = (Inr authorizing_order, tick recorded_world)"
    by (simp add: exec_def q_GetOrder_def late_clock_env_def sample_env_def)
qed code_simp+

lemma resolved_saga: "RunSaga late_clock_env sample_saga 113 recorded_world = (Inr (), resolved_world)"
proof -
  have order: "ord_status authorizing_order = Authorizing" "ord_id authorizing_order = 113"
    "ord_seats authorizing_order = [11, 12]" "ord_hold authorizing_order = 100" "ord_event authorizing_order = 1"
    and captured: "pay_status_of recorded_payment = PayCaptured"
    by (simp_all add: authorizing_order_def sample_order_def recorded_payment_def)
  let ?w3 = "snd (saga_payment late_clock_env authorizing_order (tick recorded_world))"
  have "RunSaga late_clock_env sample_saga 113 recorded_world
      = after_charge late_clock_env sample_saga authorizing_order recorded_payment ?w3"
    by (rule RunSaga_charged [of _ _ _ _ "tick recorded_world" _ "tick recorded_world" recorded_payment ?w3])
      (simp_all add: prod_eq_iff resolved_stages order captured saga_extend_def saga_charge_def)
  also have "\<dots> = (Inr (), resolved_world)"
    unfolding resolved_world_def
    by (subst after_charge_sold [of _ _ _ _ "[1, 1]" "snd (currentFences late_clock_env [11, 12] 100 retried_world)"
          "()" rebooked_world])
      (simp_all add: prod_eq_iff resolved_stages order captured retried_world_def [symmetric] rebooked_world_def [symmetric])
  finally show ?thesis .
qed


subsection \<open>Reminders\<close>

definition reminded :: "db \<Rightarrow> string \<Rightarrow> uuid \<Rightarrow> bool" where
  "reminded d kind i \<longleftrightarrow> (\<exists>r \<in> set (t_reminders d). rm_ticket r = i \<and> rm_kind r = kind)"

lemma MarkReminderSent_db:
  assumes "exec E (q_MarkReminderSent i kind) w = (r, w')"
  shows "t_tickets (w_db w') = t_tickets (w_db w) \<and> (\<forall>j k. reminded (w_db w) k j \<longrightarrow> reminded (w_db w') k j)
    \<and> (r = Inr () \<longrightarrow> reminded (w_db w') kind i)"
  using assms
  by (auto elim!: exec_cases simp: q_MarkReminderSent_def reminded_def split: if_splits)

lemma MarkReminderSent_done:
  assumes "all_done E" and "i \<in> tk_id ` set (t_tickets (w_db w))"
  shows "\<exists>w'. exec E (q_MarkReminderSent i kind) w = (Inr (), w') \<and> t_tickets (w_db w') = t_tickets (w_db w)
    \<and> (\<forall>j. reminded (w_db w') kind j \<longleftrightarrow> reminded (w_db w) kind j \<or> j = i)"
proof (cases "reminded (w_db w) kind i")
  case True
  then have "exec E (q_MarkReminderSent i kind) w = (Inr (), tick w)"
    using assms by (simp add: exec_Done q_MarkReminderSent_def reminded_def tick_def)
  with True show ?thesis by auto
next
  case False
  let ?w' = "(tick w)\<lparr>w_db := (w_db w)\<lparr>t_reminders := t_reminders (w_db w) @ [\<lparr>rm_ticket = i, rm_kind = kind\<rparr>]\<rparr>\<rparr>"
  have "exec E (q_MarkReminderSent i kind) w = (Inr (), ?w')"
    using assms False by (auto simp: exec_Done q_MarkReminderSent_def reminded_def)
  then show ?thesis by (intro exI [of _ ?w']) (auto simp: reminded_def)
qed

lemma send_reminders_done:
  assumes alldone: "all_done E"
  shows "fst ` set rows \<subseteq> tk_id ` set (t_tickets (w_db w)) \<Longrightarrow>
    \<exists>w'. send_reminders E kind rows m w = (m + length rows, w') \<and> t_tickets (w_db w') = t_tickets (w_db w)
      \<and> (\<forall>i. reminded (w_db w') kind i \<longleftrightarrow> reminded (w_db w) kind i \<or> i \<in> fst ` set rows)"
proof (induction rows arbitrary: m w)
  case Nil
  then show ?case by auto
next
  case (Cons x rows)
  obtain i y where x: "x = (i, y)" by (cases x)
  obtain w1 where m1: "exec E (q_MarkReminderSent i kind) w = (Inr (), w1)" "t_tickets (w_db w1) = t_tickets (w_db w)"
      "\<forall>j. reminded (w_db w1) kind j \<longleftrightarrow> reminded (w_db w) kind j \<or> j = i"
    using MarkReminderSent_done [OF alldone, of i w kind] Cons.prems by (auto simp: x)
  obtain w' where "send_reminders E kind rows (m + 1) w1 = (m + 1 + length rows, w')" "t_tickets (w_db w') = t_tickets (w_db w1)"
      "\<forall>i. reminded (w_db w') kind i \<longleftrightarrow> reminded (w_db w1) kind i \<or> i \<in> fst ` set rows"
    using Cons.IH [of w1 "m + 1"] Cons.prems m1(2) by auto
  with m1 show ?case by (auto simp: x)
qed

lemma due_not_reminded:
  "fst (q_ListTicketsDueForReminder low high kind u d) = Inr rows \<Longrightarrow> i \<in> fst ` set rows \<Longrightarrow> \<not> reminded d kind i"
  by (auto simp: q_ListTicketsDueForReminder_def reminded_def)

text \<open>
  a reminder is sent once. When no call fails, a tick sends one reminder for each live
  ticket of an event inside the window that had none of this kind, reports their number, and
  records them, so that a tick of the same kind straight after sends nothing.
\<close>

lemma reminders_sent_once:
  assumes "\<forall>k. fate_of E k = Done" and "reminder_RunOnce E kind lead w = (Inr n, w')"
    and "q_ListTicketsDueForReminder (now E w) (now E w + lead) kind u (w_db w) = (Inr rows, w_db w)"
  shows "n = length rows
    \<and> (\<forall>i. reminded (w_db w') kind i \<longleftrightarrow> reminded (w_db w) kind i \<or> i \<in> fst ` set rows)
    \<and> (\<forall>low high u' rows'. fst (q_ListTicketsDueForReminder low high kind u' (w_db w')) = Inr rows' \<longrightarrow>
          fst ` set rows' \<inter> fst ` set rows = {})"
proof -
  have rows: "fst ` set rows \<subseteq> tk_id ` set (t_tickets (w_db w))"
    using assms(3) by (auto simp: q_ListTicketsDueForReminder_def)
  have x: "exec E (q_ListTicketsDueForReminder (now E w) (now E w + lead) kind) (tick w) = (Inr rows, tick (tick w))"
    using assms(1,3) by (simp add: exec_Done q_ListTicketsDueForReminder_def tick_def)
  obtain v where v: "send_reminders E kind rows 0 (tick (tick w)) = (length rows, v)"
      "\<forall>i. reminded (w_db v) kind i \<longleftrightarrow> reminded (w_db w) kind i \<or> i \<in> fst ` set rows"
    using send_reminders_done [OF assms(1), of rows "tick (tick w)" kind 0] rows by auto
  then have "n = length rows \<and> w' = v" using assms(2) x by (simp add: reminder_RunOnce_def Let_def)
  then show ?thesis
    using v(2) due_not_reminded by blast
qed

text \<open>Two live tickets of an event that starts in an hour, one already reminded.\<close>

definition reminder_world :: "(unit, unit) world" where
  "reminder_world = sample_world\<lparr>w_db := empty_db\<lparr>
     t_tickets := map (\<lambda>i. \<lparr>tk_id = i, tk_order = 9, tk_event = 1, tk_seat = 11, tk_key = [], tk_redeemed = None,
       tk_revoked = None\<rparr>) [3, 4],
     t_events := [\<lparr>ev_id = 1, ev_venue = 1, ev_artist = [], ev_title = [], ev_starts = 3600000000, ev_onsale = 0,
       ev_region = [], ev_status = [], ev_layout = 1, ev_created = 0\<rparr>],
     t_reminders := [\<lparr>rm_ticket = 3, rm_kind = ''T-2h''\<rparr>]\<rparr>\<rparr>"

lemma reminders_sent_once_example:
  "\<exists>w'. reminder_RunOnce sample_env ''T-2h'' T2h reminder_world = (Inr 1, w') \<and> reminded (w_db w') ''T-2h'' 4"
proof -
  let ?w' = "snd (reminder_RunOnce sample_env ''T-2h'' T2h reminder_world)"
  have "fst (reminder_RunOnce sample_env ''T-2h'' T2h reminder_world) = Inr 1" by code_simp
  then have run: "reminder_RunOnce sample_env ''T-2h'' T2h reminder_world = (Inr 1, ?w')" by (simp add: prod_eq_iff)
  have q: "q_ListTicketsDueForReminder (now sample_env reminder_world) (now sample_env reminder_world + T2h) ''T-2h'' 0
      (w_db reminder_world) = (Inr [(4, 1, 3600000000)], w_db reminder_world)"
    by (simp add: q_ListTicketsDueForReminder_def reminder_world_def sample_world_def now_def sample_env_def T2h_def empty_db_def)
  have "reminded (w_db ?w') ''T-2h'' 4"
    using reminders_sent_once [OF _ run q] by (simp add: sample_env_def)
  with run show ?thesis by blast
qed

subsection \<open>Every worker is a seat writer\<close>

lemma reap_holds_evolves: "reap_holds E S hs m w = (n, w') \<Longrightarrow> seats_evolve (t_seats (w_db w)) (t_seats (w_db w'))"
proof (induction hs arbitrary: m w)
  case (Cons x hs)
  obtain ev h where x: "x = (ev, h)" by (cases x)
  obtain rl w1 where l: "exec E (q_ListSeatIDsForHold ev h) w = (rl, w1)" by (meson surj_pair)
  have e1: "t_seats (w_db w1) = t_seats (w_db w)"
    by (rule exec_keeps [OF _ l]) (simp add: keeps_seats_def q_ListSeatIDsForHold_def)
  show ?case
  proof (cases "\<exists>s ss. rl = Inr (s # ss)")
    case False
    then have "reap_holds E S hs m w1 = (n, w')" using Cons.prems l x
      by (auto split: sum.splits list.splits)
    from Cons.IH [OF this] e1 show ?thesis by simp
  next
    case True
    then obtain s ss where ss: "rl = Inr (s # ss)" by blast
    obtain rr w2 where r: "ReleaseHold E S ev (s # ss) h ''system:hold-reaper'' w1 = (rr, w2)" by (meson surj_pair)
    have "\<exists>k. reap_holds E S hs k w2 = (n, w')" using Cons.prems l ss r x by (auto split: sum.splits)
    with Cons.IH ReleaseHold_evolves [OF r] e1 show ?thesis by (auto intro: seats_evolve_trans)
  qed
qed simp

lemma reaper_evolves: "reaper_RunOnce E S w = (r, w') \<Longrightarrow> seats_evolve (t_seats (w_db w)) (t_seats (w_db w'))"
proof -
  assume run: "reaper_RunOnce E S w = (r, w')"
  obtain rl w1 where l: "exec E q_ListExpiredHolds w = (rl, w1)" by (meson surj_pair)
  have e1: "t_seats (w_db w1) = t_seats (w_db w)"
    by (rule exec_keeps [OF _ l]) (simp add: keeps_seats_def q_ListExpiredHolds_def)
  show ?thesis
  proof (cases rl)
    case (Inl e)
    then show ?thesis using run l e1 by (simp add: reaper_RunOnce_def)
  next
    case (Inr hs)
    obtain n w2 where "reap_holds E S hs 0 w1 = (n, w2)" by (meson surj_pair)
    with run l Inr e1 reap_holds_evolves show ?thesis by (fastforce simp: reaper_RunOnce_def)
  qed
qed

lemma reconcile_payments_evolves:
  "reconcile_payments E ck G ps m w = (r, w') \<Longrightarrow> seats_evolve (t_seats (w_db w)) (t_seats (w_db w'))"
proof (induction ps arbitrary: m w)
  case (Cons p ps)
  have upd: "t_seats (w_db (snd (exec E (q_UpdatePaymentStatus i st ref er) v))) = t_seats (w_db v)"
    "t_seats (w_db (snd (exec E (q_FailOrder o' c dt) v))) = t_seats (w_db v)" for i st ref er o' c dt and v :: "('a, 'b) world"
    by (rule snd_exec_seats, simp)+
  show ?case
  proof (cases "ck (pay_key p) (w_pay w)")
    case StatusCaptured
    let ?w1 = "snd (exec E (q_UpdatePaymentStatus (pay_id p) PayCaptured (pay_ref p) None) w)"
    obtain rs w2 where s: "RunSaga E G (pay_order p) ?w1 = (rs, w2)" by (meson surj_pair)
    note ev = RunSaga_evolves [OF s, unfolded upd]
    show ?thesis
    proof (cases rs)
      case (Inl e)
      then show ?thesis using Cons.prems StatusCaptured s ev by simp
    next
      case (Inr u)
      then have "reconcile_payments E ck G ps (m + 1) w2 = (r, w')" using Cons.prems StatusCaptured s by simp
      from seats_evolve_trans [OF ev Cons.IH [OF this]] show ?thesis .
    qed
  next
    case StatusFailed
    then show ?thesis using Cons.prems Cons.IH upd by (simp add: Let_def) metis
  next
    case StatusUnknown
    then show ?thesis using Cons.prems Cons.IH by simp
  qed
qed simp

lemma reconcile_evolves: "reconcile_RunOnce E ck G w = (r, w') \<Longrightarrow> seats_evolve (t_seats (w_db w)) (t_seats (w_db w'))"
proof -
  assume run: "reconcile_RunOnce E ck G w = (r, w')"
  obtain rl w1 where l: "exec E (q_ListStuckPayments stuckAfter 100) w = (rl, w1)" by (meson surj_pair)
  have "t_seats (w_db w1) = t_seats (w_db w)" by (rule exec_keeps [OF _ l]) simp
  with run l show ?thesis
    by (cases rl) (auto simp: reconcile_RunOnce_def dest: reconcile_payments_evolves)
qed

lemma sweep_evolves: "seats_evolve (t_seats (w_db w)) (t_seats (w_db (sweep E G w)))"
proof -
  have fold: "seats_evolve (t_seats (w_db v)) (t_seats (w_db (fold (resumeOrder E G') js v)))" for G' js v
  proof (induction js arbitrary: v)
    case (Cons i js)
    have "seats_evolve (t_seats (w_db v)) (t_seats (w_db (resumeOrder E G' i v)))"
      unfolding resumeOrder_def by (rule RunSaga_evolves [OF prod.collapse [symmetric]])
    from seats_evolve_trans [OF this Cons] show ?case by simp
  qed simp
  obtain rl w1 where l: "exec E (q_ListStuckOrders 30 50) w = (rl, w1)" by (meson surj_pair)
  have e1: "t_seats (w_db w1) = t_seats (w_db w)" by (rule exec_keeps [OF _ l]) simp
  show ?thesis using fold [of w1] e1 l by (cases rl) (simp_all add: sweep_def)
qed

interpretation reaper: seat_writer "reaper_RunOnce E S" for E S
  by unfold_locales (rule reaper_evolves)

interpretation reconciler: seat_writer "reconcile_RunOnce E ck G" for E ck G
  by unfold_locales (rule reconcile_evolves)

interpretation saga_worker: seat_writer "\<lambda>w. ((), sweep E G w)" for E G
  by unfold_locales (use sweep_evolves in auto)

end
