(* ===== verification/Spec2Isabelle.thy ===== *)
theory Spec2Isabelle
  imports FsPullClaims FsSyncClaims FsTwowayClaims FsWebhookClaims WshubClaims Router Waitingroom Redeem Catalog InventoryRaces HoldClaims Holdlock SagaResume Seatmap Wsproto WorkerProofs Projector
begin

text \<open>
  A model of the ticket-booking backend (\<open>src/ticket-booking\<close>): seats of an event are held for a
  few minutes, paid for by a saga, booked, and issued as tickets; workers reap expired holds,
  publish the outbox, reconcile payments, resume sagas, send reminders and project domain events
  into a Redis read model that clients follow over a binary protocol.

  How the parts interact. Every component works on one \<open>world\<close> (theory \<open>Schema\<close>): the tables of the
  database (\<open>w_db\<close>), the state of Redis (\<open>w_lock\<close>), of the payment provider (\<open>w_pay\<close>), the
  object store, the event bus, and a counter of the calls made. A call to a remote system asks the
  environment (\<open>env\<close>) for its fate by that counter: \<open>Done\<close>, \<open>Lost\<close> (it failed before it had an
  effect) or \<open>Ambiguous\<close> (it took effect and the answer was lost), for its clock and for fresh
  identifiers. A property that holds for every environment holds for every schedule of failures.
  Errors are values of the type \<open>error\<close>; a transaction (\<open>begin_tx\<close>, \<open>exec_tx\<close>, \<open>commit_tx\<close>)
  works on a copy of the database that only a commit writes back.

  Theories and sources (paths below \<open>src/ticket-booking\<close>):
    \<^item> \<open>Prelude\<close>: environment, error values, list and string lemmas, decimal rendering.
    \<^item> \<open>Schema\<close>: the tables of \<open>internal/db/models.go\<close>, the world, calls and transactions.
    \<^item> \<open>Queries\<close>, \<open>CatalogQueries\<close>: the statements of \<open>internal/db/queries.sql.go\<close>, one
      definition \<open>q_X\<close> per method \<open>X\<close>, as functions of \<open>now()\<close> and the tables.
    \<^item> \<open>SeatLifecycle\<close>: what a seat row may turn into (well-formedness, fences only rise, sold
      seats stay sold) and the locale \<open>seat_writer\<close> every writer of seats is an instance of.
    \<^item> \<open>Inventory\<close>: \<open>internal/inventory\<close> (\<open>AcquireHold\<close>, \<open>ReleaseHold\<close>, \<open>ExtendHold\<close>,
      \<open>ConfirmSeats\<close>, \<open>BestAvailable\<close>) and \<open>internal/events\<close>; \<open>InventoryProofs\<close> has its lemmas,
      \<open>InventoryClaims\<close> and \<open>HoldClaims\<close> its functional and error properties, \<open>InventoryRaces\<close>
      those of arbitrary interleavings; \<open>Samples\<close> the concrete worlds of the witnesses.
    \<^item> \<open>Holdlock\<close>: \<open>internal/holdlock\<close>, with the locale \<open>seat_lock\<close>.
    \<^item> \<open>Payment\<close>: the provider interface and the fake provider of \<open>internal/payment\<close>.
    \<^item> \<open>Base64\<close>, \<open>Ticketing\<close>: \<open>internal/ticketing\<close> and the \<open>PutObject\<close> of \<open>internal/storage\<close>.
    \<^item> \<open>Order\<close>: the saga of \<open>internal/order\<close>; \<open>OrderProofs\<close>, \<open>SagaMoney\<close>, \<open>SagaClaims\<close>,
      \<open>SagaResume\<close> prove what it does to money and seats.
    \<^item> \<open>Workers\<close>, \<open>WorkerProofs\<close>: \<open>internal/reaper\<close>, \<open>internal/outbox\<close>,
      \<open>internal/reconcile\<close>, \<open>internal/reminder\<close> and the sweep of \<open>cmd/saga-worker\<close>.
    \<^item> \<open>Seatmap\<close>: the bitset of \<open>internal/seatmap\<close>, with the locale \<open>cell_array\<close>; \<open>Wsproto\<close>: the
      frames of \<open>internal/wsproto\<close>.
    \<^item> \<open>Projector\<close>: \<open>internal/projector\<close>, the read model and the gap fill.
    \<^item> \<open>Catalog\<close>: \<open>internal/catalog\<close>, the static layout files.
    \<^item> \<open>Json\<close>: \<open>encoding/json\<close> as the code uses it (writing values, reading them back, decoding into
      structs); \<open>Redeem\<close>: QR tokens and redemption of \<open>internal/ticketing\<close>.
    \<^item> \<open>Waitingroom\<close>: \<open>internal/waitingroom\<close> (queue, admission tokens, metrics, AIMD controller) and the
      loop of \<open>internal/wiring\<close>.
    \<^item> \<open>Http\<close>, \<open>HttpCatalog\<close>, \<open>Router\<close>: \<open>internal/auth\<close>, the admission middleware, every handler of
      \<open>internal/httpapi\<close>, its routing table, and one request served from start to end.
    \<^item> \<open>Wshub\<close>, \<open>WshubClaims\<close>: \<open>internal/wshub\<close>, the hub that pushes snapshots and deltas to the
      websocket clients: its sessions, queues and eviction, and what a client ends up showing.

  The second application (\<open>src/offline-sync-app\<close>) takes in batches of edits that devices made offline,
  keeps work items in step with an external issue tracker in both directions, and stores the
  tracker's webhooks in an inbox that a worker empties. Its theories:
    \<^item> \<open>FsSchema\<close>, \<open>FsQueries\<close>: tables, calls, transactions and the statements of \<open>internal/db\<close>
      (one \<open>fq_X\<close> per method \<open>X\<close>).
    \<^item> \<open>FsSync\<close>, \<open>FsSyncClaims\<close>: \<open>internal/sync\<close> and \<open>internal/events\<close>, with the locale \<open>lww_table\<close>.
    \<^item> \<open>FsTwoway\<close>, \<open>FsTwowayProofs\<close>, \<open>FsTwowayClaims\<close>: \<open>internal/twoway\<close>, applying what the tracker says.
    \<^item> \<open>FsWebhook\<close>, \<open>FsWebhookClaims\<close>: \<open>internal/webhook\<close>, the endpoint, the inbox and its worker.
    \<^item> \<open>FsClient\<close>: \<open>internal/twoway/client.go\<close>, requests with retries and backoff; \<open>FsPull\<close>: the loader and the
      extractor; \<open>FsPullClaims\<close>: the locale \<open>issue_source\<close> the extractor relies on.
    \<^item> \<open>FsMockjira\<close>, \<open>FsMockjiraProofs\<close>: \<open>internal/mockjira\<close>, the stand-in for the tracker.

  What the properties show. Inventory: no seat is confirmed twice and a stale holder never
  confirms, in every interleaving of operations by any number of servers; each operation's effect on
  the seats and the outbox, and that a failed one changes nothing. Saga: a run without a failed call
  leaves the order's money settled, an expired hold is never charged, and one interrupted run that
  breaks the invariant (recorded as a finding). Workers: exactly what one tick does, under failures.
  Read model: the projector keeps bitset, counter and ring consistent with the history of deltas, and
  a client that fills a gap ends in the same state as one that saw every delta. Codecs: frames,
  bitset cells, QR tokens and \<open>seats.bin\<close> read back what was written. Waiting room: tokens are bound
  to their user and event, the queue keeps its order and everybody in it is admitted. HTTP: identity
  routes need a verified token, a 201 is a hold, strangers learn nothing, browsing ends with every
  event and availability is answered from the database when Redis is not there. Hub: a client that
  is still connected never shows a seat state its snapshot and deltas did not say, except for a delta
  that falls between the two reads of a snapshot (recorded as a finding). Offline sync: batches are
  atomic, never take a record back in time, can be delivered again without effect, and replicas that
  accepted the same edits agree. Two-way sync: the tracker never overwrites the fields we own, issues
  take effect once, and the newest version wins. Webhooks: only signed deliveries are stored, each is
  applied together with its mark, and none is lost. Tracker: the client's retries are bounded, a push is
  applied at most once, what the tracker signs the endpoint accepts, pages cover every issue, and the
  incremental pull ends within its budget and misses no issue however often it is interrupted.

  Conventions. 64-bit identifiers and amounts are \<open>int\<close> (the code never computes with identifiers,
  and amounts are bounded by the prices); bit fields, wire formats and counters that wrap are words of
  their width. Times are microseconds since the epoch. A timestamp or identifier that the
  database generates is an argument. \<open>float64\<close> values of the audit table are rationals. A Go
  panic on an index is an error value. Every loop of the modelled code is a recursion over the rows,
  bytes or attempts it goes through, except the extractor's loop over pages, which takes a bound on their number;
  \<open>extractor_returns\<close> shows which bound is enough.

  Parameters. Redis, the payment provider, the object store and the event bus are not in the
  repository: their commands are arguments of the definitions, and properties that need their
  behaviour assume it by name (\<open>redis_laws\<close>, \<open>store_laws\<close>, \<open>room_laws\<close>, \<open>bus_laws\<close>), each with a
  concrete instance that satisfies it. SHA-256, HMAC, the JWT library, UUID parsing and time formatting are
  parameters too.

  Not modelled: logging; the socket handshake; CORS; process set-up; tests,
  mocks, load tests; generated GraphQL code; the tutorial programs of \<open>src/examples\<close>.
\<close>

end
